(* ===== verification/Prelude.thy ===== *)
theory Prelude
  imports Complex_Main "HOL-Library.Monad_Syntax" "HOL-Library.Word" "HOL-Library.Char_ord"
    "HOL-Library.List_Lexorder"
begin

section \<open>Shared vocabulary of the model\<close>

text \<open>
  What every component of the model uses: the identifiers of the program, the Go run-time
  behaviours the code depends on (slices that panic out of range, maps with an arbitrary
  iteration order, 64-bit signed durations, saturating time subtraction), the fact
  collections of the development and the interface of a set of identifiers kept in an
  array of buckets.

  A Go operation that can panic is a function into \<^typ>\<open>'a option\<close>: \<open>None\<close> is the panic.
  A Go operation that returns an error has the result type \<open>'e + 'a\<close>: \<open>Inl\<close> is the error.
\<close>

type_synonym host_id = string   \<comment> \<open>\<^verbatim>\<open>type HostID string\<close>\<close>
type_synonym vm_id = string     \<comment> \<open>\<^verbatim>\<open>type VMID string\<close>\<close>
type_synonym u64 = "64 word"    \<comment> \<open>\<^verbatim>\<open>uint64\<close>, the width of the atomic counters\<close>
type_synonym i64 = "64 word"    \<comment> \<open>\<^verbatim>\<open>int64\<close>, read by \<^const>\<open>sint\<close>\<close>

named_theorems go_simps \<open>rewrite rules for slices, maps and durations\<close>
named_theorems ok_intros \<open>an operation keeps the invariant of its component\<close>

subsection \<open>Slices\<close>

text \<open>\<^verbatim>\<open>xs[i]\<close>, \<^verbatim>\<open>xs[i] = x\<close> and \<^verbatim>\<open>xs[:n]\<close>; each panics out of range.\<close>

definition go_index :: "'a list \<Rightarrow> int \<Rightarrow> 'a option" where
  "go_index xs i = (if 0 \<le> i \<and> i < int (length xs) then Some (xs ! nat i) else None)"

definition go_update :: "'a list \<Rightarrow> int \<Rightarrow> 'a \<Rightarrow> 'a list option" where
  "go_update xs i x = (if 0 \<le> i \<and> i < int (length xs) then Some (xs[nat i := x]) else None)"

definition go_prefix :: "'a list \<Rightarrow> int \<Rightarrow> 'a list option" where
  "go_prefix xs n = (if 0 \<le> n \<and> n \<le> int (length xs) then Some (take (nat n) xs) else None)"

lemma go_index_Some_iff [go_simps]:
  "go_index xs i = Some x \<longleftrightarrow> 0 \<le> i \<and> i < int (length xs) \<and> xs ! nat i = x"
  by (auto simp: go_index_def)

lemma go_index_None_iff [go_simps]:
  "go_index xs i = None \<longleftrightarrow> i < 0 \<or> int (length xs) \<le> i"
  by (auto simp: go_index_def)

lemma go_update_Some_iff [go_simps]:
  "go_update xs i x = Some ys \<longleftrightarrow> 0 \<le> i \<and> i < int (length xs) \<and> ys = xs[nat i := x]"
  by (auto simp: go_update_def)

lemma go_prefix_Some_iff [go_simps]:
  "go_prefix xs n = Some ys \<longleftrightarrow> 0 \<le> n \<and> n \<le> int (length xs) \<and> ys = take (nat n) xs"
  by (auto simp: go_prefix_def)

lemma go_index_update:
  assumes "go_update xs i x = Some ys"
  shows "go_index ys j = (if j = i then Some x else go_index xs j)"
  using assms by (auto simp: go_update_def go_index_def nth_list_update split: if_splits)

lemma go_update_length [dest]: "go_update xs i x = Some ys \<Longrightarrow> length ys = length xs"
  by (auto simp: go_update_def split: if_splits)

lemma go_index_Nil [simp]: "go_index [] i = None"
  by (simp add: go_index_def)

lemma go_index_snoc:
  "go_index (xs @ [x]) i = (if i = int (length xs) then Some x else go_index xs i)"
  by (auto simp: go_index_def nth_append)

lemma go_index_butlast:
  "go_index (take (length xs - 1) xs) i =
     (if i = int (length xs) - 1 then None else go_index xs i)"
  by (auto simp: go_index_def)

lemma go_index_append:
  "go_index (xs @ ys) i =
     (if i < int (length xs) then go_index xs i else go_index ys (i - int (length xs)))"
  by (auto simp: go_index_def nth_append nat_diff_distrib')

subsection \<open>Maps\<close>

text \<open>
  A Go map is a partial function. A \<^verbatim>\<open>range\<close> loop over it visits its keys in an order the
  language leaves open, a new one each time: every operation that ranges over a map takes
  the order as an argument, and \<open>iterates\<close> says which lists are such orders.
\<close>

definition iterates :: "'k list \<Rightarrow> ('k \<rightharpoonup> 'v) \<Rightarrow> bool" where
  "iterates ks m \<longleftrightarrow> distinct ks \<and> set ks = dom m"

declare iterates_def [code del]

lemma iterates_length: "iterates ks m \<Longrightarrow> length ks = card (dom m)"
  by (auto simp: iterates_def distinct_card [symmetric])

lemma iterates_finite: "iterates ks m \<Longrightarrow> finite (dom m)"
  unfolding iterates_def using List.finite_set by metis

lemma iterates_exists: "finite (dom m) \<Longrightarrow> \<exists>ks. iterates ks m"
  using finite_distinct_list [of "dom m"] by (auto simp: iterates_def)

lemma iterates_sum_list:
  fixes f :: "'k \<Rightarrow> 'b::comm_monoid_add"
  shows "iterates ks m \<Longrightarrow> iterates ks' m \<Longrightarrow> sum_list (map f ks) = sum_list (map f ks')"
  by (simp add: iterates_def sum_list_distinct_conv_sum_set)

lemma iterates_sum:
  fixes f :: "'k \<Rightarrow> 'b::comm_monoid_add"
  shows "iterates ks m \<Longrightarrow> sum_list (map f ks) = sum f (dom m)"
  by (simp add: iterates_def sum_list_distinct_conv_sum_set)

lemma delete_as_restrict: "m(i := None) = m |` (- {i})"
  by (auto simp: restrict_map_def fun_eq_iff)

subsection \<open>Durations and instants\<close>

text \<open>
  \<^verbatim>\<open>time.Duration\<close> is an \<^verbatim>\<open>int64\<close> count of nanoseconds. An instant is its distance in
  nanoseconds from the epoch, as an integer; \<^verbatim>\<open>t.Sub(u)\<close> saturates at the two ends of the
  duration range instead of wrapping.
\<close>

type_synonym duration = int
type_synonym instant = int

definition min_duration :: duration where "min_duration = - (2 ^ 63)"
definition max_duration :: duration where "max_duration = 2 ^ 63 - 1"

definition millisecond :: duration where "millisecond = 1000000"
definition second :: duration where "second = 1000000000"

definition time_sub :: "instant \<Rightarrow> instant \<Rightarrow> duration" where
  "time_sub t u = max min_duration (min max_duration (t - u))"

text \<open>Wrap an integer into the \<^verbatim>\<open>int64\<close> range, as Go's \<^verbatim>\<open>+\<close> and \<^verbatim>\<open>*\<close> on durations do.\<close>

definition wrap64 :: "int \<Rightarrow> int" where
  "wrap64 i = (i + 2 ^ 63) mod 2 ^ 64 - 2 ^ 63"

definition fits64 :: "int \<Rightarrow> bool" where
  "fits64 i \<longleftrightarrow> - (2 ^ 63) \<le> i \<and> i < 2 ^ 63"

lemma wrap64_fits [simp]: "fits64 i \<Longrightarrow> wrap64 i = i"
  by (simp add: wrap64_def fits64_def)

lemma fits64_wrap64 [simp]: "fits64 (wrap64 i)"
proof -
  have "0 \<le> (i + 2 ^ 63) mod (2 ^ 64 :: int)" and "(i + 2 ^ 63) mod (2 ^ 64 :: int) < 2 ^ 64"
    by simp_all
  then show ?thesis by (simp add: wrap64_def fits64_def)
qed

lemma time_sub_gt_iff:
  "min_duration \<le> d \<Longrightarrow> d < max_duration \<Longrightarrow> time_sub t u > d \<longleftrightarrow> t - u > d"
  by (auto simp: time_sub_def)

lemma time_sub_less_iff:
  "min_duration < d \<Longrightarrow> d \<le> max_duration \<Longrightarrow> time_sub t u < d \<longleftrightarrow> t - u < d"
  by (auto simp: time_sub_def)

text \<open>\<^verbatim>\<open>d.Seconds()\<close>, in real arithmetic.\<close>

definition seconds :: "duration \<Rightarrow> real" where
  "seconds d = real_of_int d / 1000000000"

lemma seconds_mono: "d \<le> e \<Longrightarrow> seconds d \<le> seconds e"
  by (simp add: seconds_def divide_right_mono)

lemma seconds_nonneg [simp]: "0 \<le> d \<Longrightarrow> 0 \<le> seconds d"
  by (simp add: seconds_def)

lemma seconds_mult: "seconds (d * n) = seconds d * real_of_int n"
  by (simp add: seconds_def)

text \<open>
  \<^verbatim>\<open>time.Duration(x)\<close> of a floating-point number drops the fraction. What it yields outside
  the range of the type Go leaves to the implementation: \<open>oob\<close>.
\<close>

definition trunc_real :: "real \<Rightarrow> int" where
  "trunc_real x = (if x < 0 then \<lceil>x\<rceil> else \<lfloor>x\<rfloor>)"

definition float_to_int64 :: "(real \<Rightarrow> int) \<Rightarrow> real \<Rightarrow> int" where
  "float_to_int64 oob x = (if fits64 (trunc_real x) then trunc_real x else oob x)"

lemma trunc_real_nonneg: "0 \<le> x \<Longrightarrow> 0 \<le> trunc_real x"
  by (simp add: trunc_real_def)

lemma float_to_int64_in_range:
  assumes "0 \<le> x" "x < 2 ^ 63"
  shows "float_to_int64 oob x = \<lfloor>x\<rfloor>"
proof -
  have "\<lfloor>x\<rfloor> < 2 ^ 63" using assms(2) by (simp add: floor_less_iff)
  then show ?thesis using assms(1) by (simp add: float_to_int64_def trunc_real_def fits64_def)
qed

subsection \<open>Decimal numbers\<close>

text \<open>\<^verbatim>\<open>strconv.Itoa\<close>, which \<^verbatim>\<open>%d\<close> of \<^verbatim>\<open>fmt.Sprintf\<close> prints as well.\<close>

fun decimal :: "nat \<Rightarrow> string" where
  "decimal n =
     (if n < 10 then [char_of (48 + n)] else decimal (n div 10) @ [char_of (48 + n mod 10)])"

declare decimal.simps [simp del]

definition itoa :: "int \<Rightarrow> string" where
  "itoa n = (if n < 0 then CHR ''-'' # decimal (nat (- n)) else decimal (nat n))"

definition decimal_value :: "string \<Rightarrow> nat" where
  "decimal_value cs = foldl (\<lambda>v c. 10 * v + (of_char c - 48)) 0 cs"

lemma decimal_value_decimal: "decimal_value (decimal n) = n"
proof (induction n rule: decimal.induct)
  case (1 n)
  show ?case
  proof (cases "n < 10")
    case True
    then show ?thesis by (simp add: decimal.simps [of n] decimal_value_def)
  next
    case False
    have "48 + n mod 10 < (256::nat)" using mod_less_divisor [of 10 n] by linarith
    with False "1.IH" show ?thesis
      by (simp add: decimal.simps [of n] decimal_value_def)
  qed
qed

lemma itoa_inject: "0 \<le> m \<Longrightarrow> 0 \<le> n \<Longrightarrow> itoa m = itoa n \<longleftrightarrow> m = n"
  by (auto simp: itoa_def dest!: arg_cong [where f = decimal_value]
      simp: decimal_value_decimal eq_nat_nat_iff)

end
