(* ===== verification/Bag.thy ===== *)
theory Bag
  imports Prelude
begin

section \<open>The interface of a set with pick, and arrays of them\<close>

text \<open>
  The scheduler files every ready host under its number of free slots: an array of sets,
  one per number. The locale \<open>bag\<close> is what it relies on of one such set; \<open>agrees\<close> says
  that the array files each identifier exactly where a classification \<open>cls\<close> puts it, and
  the lemmas of the locale say what the array operations do to that relation. Nothing
  here knows how a set is represented.
\<close>

definition agrees ::
  "('b \<Rightarrow> bool) \<Rightarrow> ('b \<Rightarrow> 'x set) \<Rightarrow> 'b list \<Rightarrow> ('x \<Rightarrow> int option) \<Rightarrow> bool" where
  "agrees ok elems bs cls \<longleftrightarrow>
     (\<forall>k b. go_index bs k = Some b \<longrightarrow> ok b \<and> elems b = {x. cls x = Some k})"

text \<open>Take \<open>x\<close> out of, or put it into, the set at \<open>k\<close>; both panic when \<open>k\<close> is out of range.\<close>

definition array_remove ::
  "('b \<Rightarrow> 'x \<Rightarrow> 'b option) \<Rightarrow> 'b list \<Rightarrow> int \<Rightarrow> 'x \<Rightarrow> 'b list option" where
  "array_remove remove bs k x =
     do { b \<leftarrow> go_index bs k; b' \<leftarrow> remove b x; go_update bs k b' }"

definition array_add ::
  "('b \<Rightarrow> 'x \<Rightarrow> 'b) \<Rightarrow> 'b list \<Rightarrow> int \<Rightarrow> 'x \<Rightarrow> 'b list option" where
  "array_add add bs k x = do { b \<leftarrow> go_index bs k; go_update bs k (add b x) }"

text \<open>The first member found when the sets are searched in the order \<open>ks\<close>.\<close>

fun array_scan :: "('b \<Rightarrow> 'x option) \<Rightarrow> 'b list \<Rightarrow> int list \<Rightarrow> 'x option option" where
  "array_scan pick bs [] = Some None"
| "array_scan pick bs (k # ks) =
     do {
       b \<leftarrow> go_index bs k;
       (case pick b of
          Some x \<Rightarrow> Some (Some x)
        | None \<Rightarrow> array_scan pick bs ks)
     }"

locale bag =
  fixes empty :: 'b
    and add :: "'b \<Rightarrow> 'x \<Rightarrow> 'b"
    and remove :: "'b \<Rightarrow> 'x \<Rightarrow> 'b option"
    and pick :: "'b \<Rightarrow> 'x option"
    and elems :: "'b \<Rightarrow> 'x set"
    and ok :: "'b \<Rightarrow> bool"
  assumes inv_empty: "ok empty"
    and elems_empty: "elems empty = {}"
    and inv_add: "ok b \<Longrightarrow> ok (add b x)"
    and elems_add: "ok b \<Longrightarrow> elems (add b x) = insert x (elems b)"
    and remove_total: "ok b \<Longrightarrow> \<exists>b'. remove b x = Some b' \<and> ok b' \<and> elems b' = elems b - {x}"
    and pick_None: "pick b = None \<longleftrightarrow> elems b = {}"
    and pick_Some: "pick b = Some x \<Longrightarrow> x \<in> elems b"
begin

lemma agrees_at:
  "agrees ok elems bs cls \<Longrightarrow> go_index bs k = Some b \<Longrightarrow> ok b \<and> elems b = {x. cls x = Some k}"
  by (simp add: agrees_def)

text \<open>Taking an identifier out of the set that holds it: it is filed nowhere afterwards.\<close>

lemma agrees_remove:
  assumes ag: "agrees ok elems bs cls" and x: "cls x = Some k"
    and k: "0 \<le> k" "k < int (length bs)"
  shows "\<exists>bs'. array_remove remove bs k x = Some bs' \<and> length bs' = length bs \<and>
           agrees ok elems bs' (cls(x := None))"
proof -
  obtain b where b: "go_index bs k = Some b" using k by (simp add: go_index_def)
  with ag have "ok b" "elems b = {x. cls x = Some k}" by (simp_all add: agrees_at)
  then obtain b' where b': "remove b x = Some b'" "ok b'" "elems b' = {y. cls y = Some k} - {x}"
    using remove_total by metis
  obtain bs' where bs': "go_update bs k b' = Some bs'" using k by (simp add: go_update_def)
  have "agrees ok elems bs' (cls(x := None))"
    using ag b' x by (auto simp: agrees_def go_index_update [OF bs'])
  with b b' bs' show ?thesis by (auto simp: array_remove_def)
qed

text \<open>Filing an identifier that is filed nowhere.\<close>

lemma agrees_add:
  assumes ag: "agrees ok elems bs cls" and x: "cls x = None"
    and k: "0 \<le> k" "k < int (length bs)"
  shows "\<exists>bs'. array_add add bs k x = Some bs' \<and> length bs' = length bs \<and>
           agrees ok elems bs' (cls(x := Some k))"
proof -
  obtain b where b: "go_index bs k = Some b" using k by (simp add: go_index_def)
  with ag have "ok b" "elems b = {x. cls x = Some k}" by (simp_all add: agrees_at)
  then have b': "ok (add b x)" "elems (add b x) = insert x {y. cls y = Some k}"
    by (simp_all add: inv_add elems_add)
  obtain bs' where bs': "go_update bs k (add b x) = Some bs'" using k by (simp add: go_update_def)
  have "agrees ok elems bs' (cls(x := Some k))"
    using ag b' x by (auto simp: agrees_def go_index_update [OF bs'])
  with b bs' show ?thesis by (auto simp: array_add_def)
qed

text \<open>Widening the array by an empty set, when nothing is filed there.\<close>

lemma agrees_snoc:
  assumes "agrees ok elems bs cls" and "\<And>x. cls x \<noteq> Some (int (length bs))"
  shows "agrees ok elems (bs @ [empty]) cls"
  using assms by (simp add: agrees_def go_index_snoc inv_empty elems_empty)

text \<open>The search finds a member of the first non-empty set, and nothing if all are empty.\<close>

lemma scan_None:
  assumes "agrees ok elems bs cls" and "set ks \<subseteq> {0..<int (length bs)}"
  shows "array_scan pick bs ks = Some None \<longleftrightarrow> (\<forall>k\<in>set ks. \<forall>x. cls x \<noteq> Some k)"
  using assms(2)
proof (induction ks)
  case (Cons k ks)
  then obtain b where b: "go_index bs k = Some b" by (auto simp: go_index_def)
  then have "elems b = {x. cls x = Some k}" using assms(1) by (simp add: agrees_at)
  then have "pick b = None \<longleftrightarrow> (\<forall>x. cls x \<noteq> Some k)" by (auto simp: pick_None)
  with b Cons show ?case by (auto split: option.splits)
qed simp

lemma scan_Some:
  assumes "agrees ok elems bs cls" and "set ks \<subseteq> {0..<int (length bs)}"
    and "array_scan pick bs ks = Some (Some x)"
  shows "\<exists>k ks1 ks2. ks = ks1 @ k # ks2 \<and> cls x = Some k \<and> (\<forall>j\<in>set ks1. \<forall>y. cls y \<noteq> Some j)"
  using assms(2,3)
proof (induction ks)
  case (Cons k ks)
  then obtain b where b: "go_index bs k = Some b" by (auto simp: go_index_def)
  then have el: "elems b = {x. cls x = Some k}" using assms(1) by (simp add: agrees_at)
  show ?case
  proof (cases "pick b")
    case None
    then have empty: "\<forall>y. cls y \<noteq> Some k" using el by (auto simp: pick_None)
    from None b Cons.prems have "array_scan pick bs ks = Some (Some x)"
      and "set ks \<subseteq> {0..<int (length bs)}" by simp_all
    from Cons.IH [OF this(2,1)] obtain j ks1 ks2 where
      IH: "ks = ks1 @ j # ks2" "cls x = Some j" "\<forall>i\<in>set ks1. \<forall>y. cls y \<noteq> Some i" by blast
    show ?thesis
      by (rule exI [of _ j], rule exI [of _ "k # ks1"], rule exI [of _ ks2])
        (simp add: IH empty)
  next
    case (Some y)
    with b Cons.prems have "y = x" by simp
    with Some el pick_Some have "cls x = Some k" by auto
    then show ?thesis
      by (intro exI [of _ k] exI [of _ "[]"] exI [of _ ks]) simp
  qed
qed simp

lemma scan_total:
  assumes "set ks \<subseteq> {0..<int (length bs)}"
  shows "\<exists>r. array_scan pick bs ks = Some r"
  using assms
proof (induction ks)
  case (Cons k ks)
  then obtain b where "go_index bs k = Some b" by (auto simp: go_index_def)
  with Cons show ?case by (auto split: option.splits)
qed simp

end

end
