(* ===== verification/HostSet.thy ===== *)
theory HostSet
  imports Bag
begin

section \<open>The host set (internal/scheduler/hostset.go)\<close>

text \<open>
  An unordered set of host identifiers with constant-time add, remove and pick: a slice of
  the members and a map from each member to its position. \<open>hostSet_inv\<close> ties the two
  together; under it the four operations are those of a finite set, and none of them
  panics. The contract they provide is the locale \<open>bag\<close>, interpreted here on them; the
  client's lemmas on an array of such sets (\<open>agrees\<close>) hold for it through \<open>hs.\<close>.
\<close>

subsection \<open>The data and the operations\<close>

text \<open>
  A nil map reads as the empty one, so the nil \<^verbatim>\<open>index\<close> of a zero \<^verbatim>\<open>hostSet\<close> is the empty
  map of the model and the nil check of \<^verbatim>\<open>add\<close> changes nothing.
\<close>

record hostSet =
  ids :: "host_id list"
  index :: "host_id \<rightharpoonup> int"

definition newHostSet :: hostSet where
  "newHostSet = \<lparr>ids = [], index = Map.empty\<rparr>"

definition hostSet_add :: "hostSet \<Rightarrow> host_id \<Rightarrow> hostSet" where
  "hostSet_add h x =
     (case index h x of
        Some _ \<Rightarrow> h
      | None \<Rightarrow> h\<lparr>index := (index h)(x \<mapsto> int (length (ids h))), ids := ids h @ [x]\<rparr>)"

definition hostSet_remove :: "hostSet \<Rightarrow> host_id \<Rightarrow> hostSet option" where
  "hostSet_remove h x =
     (case index h x of
        None \<Rightarrow> Some h
      | Some i \<Rightarrow>
          let last = int (length (ids h)) - 1 in
          do {
            h1 \<leftarrow> (if i \<noteq> last then
                      do {
                        moved \<leftarrow> go_index (ids h) last;
                        ids1 \<leftarrow> go_update (ids h) i moved;
                        Some (h\<lparr>ids := ids1, index := (index h)(moved \<mapsto> i)\<rparr>)
                      }
                    else Some h);
            ids2 \<leftarrow> go_prefix (ids h1) last;
            Some (h1\<lparr>ids := ids2, index := (index h1)(x := None)\<rparr>)
          })"

definition hostSet_any :: "hostSet \<Rightarrow> host_id option" where
  "hostSet_any h = (if length (ids h) = 0 then None else Some (ids h ! (length (ids h) - 1)))"

definition hostSet_len :: "hostSet \<Rightarrow> int" where
  "hostSet_len h = int (length (ids h))"

definition hostSet_contains :: "hostSet \<Rightarrow> host_id \<Rightarrow> bool" where
  "hostSet_contains h x = (case index h x of Some _ \<Rightarrow> True | None \<Rightarrow> False)"

subsection \<open>The invariant and the set it stands for\<close>

definition hostSet_inv :: "hostSet \<Rightarrow> bool" where
  "hostSet_inv h \<longleftrightarrow> (\<forall>x i. index h x = Some i \<longleftrightarrow> go_index (ids h) i = Some x)"

definition hostSet_elems :: "hostSet \<Rightarrow> host_id set" where
  "hostSet_elems h = set (ids h)"

lemma hostSet_invD: "hostSet_inv h \<Longrightarrow> index h x = Some i \<longleftrightarrow> go_index (ids h) i = Some x"
  by (simp add: hostSet_inv_def)

lemma hostSet_inv_inj:
  "hostSet_inv h \<Longrightarrow> go_index (ids h) i = Some x \<Longrightarrow> go_index (ids h) j = Some x \<Longrightarrow> i = j"
  by (metis hostSet_invD option.inject)

lemma in_set_go_index: "x \<in> set xs \<longleftrightarrow> (\<exists>i. go_index xs i = Some x)"
  unfolding go_index_Some_iff in_set_conv_nth
  by (metis nat_int of_nat_0_le_iff of_nat_less_iff zero_le_imp_eq_int)

lemma hostSet_inv_distinct: "hostSet_inv h \<Longrightarrow> distinct (ids h)"
proof (unfold distinct_conv_nth, intro allI impI)
  fix i j
  assume inv: "hostSet_inv h" and bounds: "i < length (ids h)" "j < length (ids h)" "i \<noteq> j"
  have "index h (ids h ! i) = Some (int i)" "index h (ids h ! j) = Some (int j)"
    using bounds by (simp_all add: hostSet_invD [OF inv] go_simps)
  with bounds show "ids h ! i \<noteq> ids h ! j" by auto
qed

lemma hostSet_inv_member:
  "hostSet_inv h \<Longrightarrow> x \<in> hostSet_elems h \<longleftrightarrow> (\<exists>i. index h x = Some i)"
  by (simp add: hostSet_elems_def in_set_go_index hostSet_invD)

lemma newHostSet_ok: "hostSet_inv newHostSet" "hostSet_elems newHostSet = {}"
  by (simp_all add: hostSet_inv_def hostSet_elems_def newHostSet_def go_index_def)

lemma hostSet_add_ok:
  assumes inv: "hostSet_inv h"
  shows "hostSet_inv (hostSet_add h x)" "hostSet_elems (hostSet_add h x) = insert x (hostSet_elems h)"
proof -
  have past: "go_index (ids h) (int (length (ids h))) = None"
    by (simp add: go_simps)
  show "hostSet_inv (hostSet_add h x)"
  proof (cases "index h x")
    case None
    then have "go_index (ids h) i \<noteq> Some x" for i
      using hostSet_invD [OF inv, of x i] by simp
    with None past inv show ?thesis
      by (auto simp: hostSet_add_def hostSet_inv_def go_index_snoc)
  qed (use inv in \<open>simp add: hostSet_add_def\<close>)
  show "hostSet_elems (hostSet_add h x) = insert x (hostSet_elems h)"
    using hostSet_inv_member [OF inv, of x]
    by (auto simp: hostSet_add_def hostSet_elems_def split: option.splits)
qed

text \<open>Removal never panics: the last member takes the place of the one that goes.\<close>

lemma hostSet_remove_ok:
  assumes inv: "hostSet_inv h"
  shows "\<exists>h'. hostSet_remove h x = Some h' \<and> hostSet_inv h' \<and>
           hostSet_elems h' = hostSet_elems h - {x}"
proof (cases "index h x")
  case None
  then have "x \<notin> hostSet_elems h" using hostSet_inv_member [OF inv] by simp
  with None inv show ?thesis by (auto simp: hostSet_remove_def)
next
  case (Some i)
  then have at: "go_index (ids h) i = Some x" using hostSet_invD [OF inv] by simp
  let ?n = "length (ids h)"
  let ?last = "int ?n - 1"
  from at have "0 < ?n" by (auto simp: go_index_def split: if_splits)
  then obtain m where m: "go_index (ids h) ?last = Some m" by (auto simp: go_index_def)
  define ys where "ys = (if i = ?last then ids h else (ids h)[nat i := m])"
  have len: "length ys = ?n" by (simp add: ys_def)
  have ys: "go_index ys j = (if j = i then Some m else go_index (ids h) j)" for j
    using at m by (auto simp: ys_def go_index_def nth_list_update split: if_splits)
  define h' where "h' = h\<lparr>ids := take (?n - 1) ys,
    index := ((if i = ?last then index h else (index h)(m \<mapsto> i)))(x := None)\<rparr>"
  have "hostSet_remove h x = Some h'"
    using Some at m \<open>0 < ?n\<close>
    by (auto simp: hostSet_remove_def Let_def h'_def ys_def go_update_def go_prefix_def
        go_index_def nat_diff_distrib split: if_splits)
  moreover have look: "go_index (ids h') j = (if j = ?last then None else go_index ys j)" for j
    using go_index_butlast [of ys j] by (simp add: h'_def len)
  have inv': "hostSet_inv h'"
    unfolding hostSet_inv_def look ys
    using at m inv by (auto simp: h'_def hostSet_invD [OF inv] dest: hostSet_inv_inj [OF inv])
  moreover have "index h m = Some ?last" using m hostSet_invD [OF inv] by simp
  then have "(\<exists>j. index h' y = Some j) \<longleftrightarrow> y \<noteq> x \<and> (\<exists>j. index h y = Some j)" for y
    by (simp add: h'_def)
  then have "hostSet_elems h' = hostSet_elems h - {x}"
    by (intro set_eqI) (simp only: Diff_iff singleton_iff
        hostSet_inv_member [OF inv] hostSet_inv_member [OF inv'], blast)
  ultimately show ?thesis by blast
qed

lemma hostSet_any_ok:
  "hostSet_any h = None \<longleftrightarrow> hostSet_elems h = {}"
  "hostSet_any h = Some x \<Longrightarrow> x \<in> hostSet_elems h"
  by (auto simp: hostSet_any_def hostSet_elems_def split: if_splits)

lemma hostSet_len_ok: "hostSet_inv h \<Longrightarrow> hostSet_len h = int (card (hostSet_elems h))"
  by (simp add: hostSet_len_def hostSet_elems_def distinct_card hostSet_inv_distinct)

lemma hostSet_contains_ok: "hostSet_inv h \<Longrightarrow> hostSet_contains h x \<longleftrightarrow> x \<in> hostSet_elems h"
  by (auto simp: hostSet_contains_def hostSet_inv_member split: option.splits)

subsection \<open>The contract\<close>

interpretation hs: bag newHostSet hostSet_add hostSet_remove hostSet_any hostSet_elems hostSet_inv
proof unfold_locales
  show "hostSet_inv newHostSet" "hostSet_elems newHostSet = {}"
    by (fact newHostSet_ok)+
  fix h x
  assume inv: "hostSet_inv h"
  from inv show "hostSet_inv (hostSet_add h x)"
    and "hostSet_elems (hostSet_add h x) = insert x (hostSet_elems h)"
    by (fact hostSet_add_ok)+
  from inv show "\<exists>h'. hostSet_remove h x = Some h' \<and> hostSet_inv h' \<and>
      hostSet_elems h' = hostSet_elems h - {x}"
    by (rule hostSet_remove_ok)
next
  fix h x
  show "hostSet_any h = None \<longleftrightarrow> hostSet_elems h = {}"
    by (rule hostSet_any_ok)
  show "x \<in> hostSet_elems h" if "hostSet_any h = Some x"
    using that by (rule hostSet_any_ok)
qed

subsection \<open>Runs\<close>

datatype hostSet_op = Add host_id | Remove host_id

fun hostSet_run :: "hostSet \<Rightarrow> hostSet_op list \<Rightarrow> hostSet option" where
  "hostSet_run h [] = Some h"
| "hostSet_run h (Add x # ops) = hostSet_run (hostSet_add h x) ops"
| "hostSet_run h (Remove x # ops) = Option.bind (hostSet_remove h x) (\<lambda>h'. hostSet_run h' ops)"

fun set_run :: "host_id set \<Rightarrow> hostSet_op list \<Rightarrow> host_id set" where
  "set_run X [] = X"
| "set_run X (Add x # ops) = set_run (insert x X) ops"
| "set_run X (Remove x # ops) = set_run (X - {x}) ops"

lemma hostSet_run_refines:
  "hostSet_inv h \<Longrightarrow>
   \<exists>h'. hostSet_run h ops = Some h' \<and> hostSet_inv h' \<and> hostSet_elems h' = set_run (hostSet_elems h) ops"
proof (induction h ops rule: hostSet_run.induct)
  case (3 h x ops)
  from hs.remove_total [OF "3.prems"] obtain h' where
    h': "hostSet_remove h x = Some h'" "hostSet_inv h'" "hostSet_elems h' = hostSet_elems h - {x}"
    by blast
  from "3.IH" [OF h'(1,2)] h'(1,3) show ?case by simp
qed (simp_all add: hs.inv_add hs.elems_add)

text \<open>Started empty, the slice-and-index set goes through any sequence of additions and
  removals without a panic and then answers as the mathematical set the same sequence
  builds: membership, size, and a pick that returns a member, or nothing when it is empty.\<close>

theorem hostSet_is_a_set:
  "\<exists>h. hostSet_run newHostSet ops = Some h \<and>
     {x. hostSet_contains h x} = set_run {} ops \<and>
     hostSet_len h = int (card (set_run {} ops)) \<and>
     (hostSet_any h = None \<longleftrightarrow> set_run {} ops = {}) \<and> set_option (hostSet_any h) \<subseteq> set_run {} ops"
proof -
  from hostSet_run_refines [OF hs.inv_empty, of ops] obtain h where
    h: "hostSet_run newHostSet ops = Some h" "hostSet_inv h" "hostSet_elems h = set_run {} ops"
    by (auto simp: hs.elems_empty)
  then have "set_option (hostSet_any h) \<subseteq> set_run {} ops"
    by (auto dest: hs.pick_Some)
  with h show ?thesis
    using hostSet_contains_ok [OF h(2)] hostSet_len_ok [OF h(2)] hs.pick_None [of h] by auto
qed

end
