(* ===== verification/Scheduler.thy ===== *)
theory Scheduler
  imports HostSet
begin

section \<open>The scheduler (internal/scheduler/scheduler.go)\<close>

text \<open>
  The bookkeeping of the fleet: which hosts exist, how many slots each has and uses, which
  microVM sits on which host, and, for every ready host, the bucket of its number of free
  slots. Every exported operation of the code takes the scheduler's mutex for its whole
  body, so each is one function of the state here. An operation that indexes the bucket
  slice or follows a host pointer can panic, and then has an option type.
\<close>

subsection \<open>Constants, errors and data\<close>

definition MinSlotsPerHost :: int where
  "MinSlotsPerHost = 2"

datatype sched_error =
    ErrNoCapacity
  | ErrUnknownHost host_id
  | ErrUnknownVM vm_id
  | ErrDuplicateHost host_id
  | ErrDuplicateVM vm_id
  | ErrInvalidCapacity host_id int

datatype HostState = HostPending | HostReady | HostDraining

fun HostState_String :: "HostState \<Rightarrow> string" where
  "HostState_String HostPending = ''Pending''"
| "HostState_String HostReady = ''Ready''"
| "HostState_String HostDraining = ''Draining''"

datatype Policy = BestFit | WorstFit

fun Policy_String :: "Policy \<Rightarrow> string" where
  "Policy_String BestFit = ''BestFit''"
| "Policy_String WorstFit = ''WorstFit''"

record host =
  h_id :: host_id
  capacity :: int
  used :: int
  state :: HostState

definition free :: "host \<Rightarrow> int" where
  "free h = capacity h - used h"

record scheduler =
  policy :: Policy
  hosts :: "host_id \<rightharpoonup> host"
  assigned :: "vm_id \<rightharpoonup> host_id"
  buckets :: "hostSet list"
  maxCap :: int

definition New :: "Policy \<Rightarrow> scheduler" where
  "New p = \<lparr>policy = p, hosts = Map.empty, assigned = Map.empty, buckets = [], maxCap = 0\<rparr>"

subsection \<open>Buckets\<close>

text \<open>The two guarded bucket updates the operations share.\<close>

definition bucket_drop :: "hostSet list \<Rightarrow> host \<Rightarrow> host_id \<Rightarrow> hostSet list option" where
  "bucket_drop bs h i =
     (if state h = HostReady then array_remove hostSet_remove bs (free h) i else Some bs)"

definition bucket_file :: "hostSet list \<Rightarrow> host \<Rightarrow> host_id \<Rightarrow> hostSet list option" where
  "bucket_file bs h i =
     (if state h = HostReady then array_add hostSet_add bs (free h) i else Some bs)"

function grow_loop :: "hostSet list \<Rightarrow> int \<Rightarrow> hostSet list" where
  "grow_loop bs cap =
     (if int (length bs) \<le> cap then grow_loop (bs @ [newHostSet]) cap else bs)"
  by pat_completeness auto
termination
  by (relation "measure (\<lambda>(bs, cap). nat (cap + 1 - int (length bs)))") auto

declare grow_loop.simps [simp del]

definition growBuckets :: "scheduler \<Rightarrow> int \<Rightarrow> scheduler" where
  "growBuckets s cap =
     (let s1 = s\<lparr>buckets := grow_loop (buckets s) cap\<rparr>
      in if cap > maxCap s1 then s1\<lparr>maxCap := cap\<rparr> else s1)"

subsection \<open>Host membership\<close>

definition AddHost :: "scheduler \<Rightarrow> host_id \<Rightarrow> int \<Rightarrow> (sched_error + unit) \<times> scheduler" where
  "AddHost s i cap =
     (if cap < MinSlotsPerHost then (Inl (ErrInvalidCapacity i cap), s)
      else case hosts s i of
        Some _ \<Rightarrow> (Inl (ErrDuplicateHost i), s)
      | None \<Rightarrow>
          let s1 = growBuckets s cap in
          (Inr (), s1\<lparr>hosts := (hosts s1)
             (i \<mapsto> \<lparr>h_id = i, capacity = cap, used = 0, state = HostPending\<rparr>)\<rparr>))"

definition SetHostState ::
  "scheduler \<Rightarrow> host_id \<Rightarrow> HostState \<Rightarrow> ((sched_error + unit) \<times> scheduler) option" where
  "SetHostState s i st =
     (case hosts s i of
        None \<Rightarrow> Some (Inl (ErrUnknownHost i), s)
      | Some h \<Rightarrow>
          if state h = st then Some (Inr (), s)
          else do {
            bs1 \<leftarrow> bucket_drop (buckets s) h i;
            let h' = h\<lparr>state := st\<rparr>;
            bs2 \<leftarrow> bucket_file bs1 h' i;
            Some (Inr (), s\<lparr>hosts := (hosts s)(i \<mapsto> h'), buckets := bs2\<rparr>)
          })"

text \<open>
  The loop of \<^verbatim>\<open>RemoveHost\<close> over \<^verbatim>\<open>s.assigned\<close>, in the iteration order \<open>vms\<close>. It deletes
  only the entry it is visiting, which Go allows.
\<close>

fun orphan_loop ::
  "host_id \<Rightarrow> vm_id list \<Rightarrow> (vm_id \<rightharpoonup> host_id) \<Rightarrow> vm_id list \<Rightarrow> vm_id list \<times> (vm_id \<rightharpoonup> host_id)"
where
  "orphan_loop i [] asg orphaned = (orphaned, asg)"
| "orphan_loop i (vm # vms) asg orphaned =
     (if asg vm = Some i then orphan_loop i vms (asg(vm := None)) (orphaned @ [vm])
      else orphan_loop i vms asg orphaned)"

definition RemoveHost ::
  "scheduler \<Rightarrow> host_id \<Rightarrow> vm_id list \<Rightarrow> ((sched_error + vm_id list) \<times> scheduler) option" where
  "RemoveHost s i vms =
     (case hosts s i of
        None \<Rightarrow> Some (Inl (ErrUnknownHost i), s)
      | Some h \<Rightarrow>
          do {
            bs \<leftarrow> bucket_drop (buckets s) h i;
            let (orphaned, asg) = orphan_loop i vms (assigned s) [];
            Some (Inr orphaned,
              s\<lparr>hosts := (hosts s)(i := None), assigned := asg, buckets := bs\<rparr>)
          })"

subsection \<open>Placement\<close>

definition selectHost :: "scheduler \<Rightarrow> host_id option option" where
  "selectHost s =
     (if policy s = WorstFit then array_scan hostSet_any (buckets s) (rev [1..maxCap s])
      else array_scan hostSet_any (buckets s) [1..maxCap s])"

definition Place :: "scheduler \<Rightarrow> vm_id \<Rightarrow> ((sched_error + host_id) \<times> scheduler) option" where
  "Place s vm =
     (case assigned s vm of
        Some _ \<Rightarrow> Some (Inl (ErrDuplicateVM vm), s)
      | None \<Rightarrow>
          do {
            sel \<leftarrow> selectHost s;
            (case sel of
               None \<Rightarrow> Some (Inl ErrNoCapacity, s)
             | Some i \<Rightarrow>
                 do {
                   h \<leftarrow> hosts s i;
                   bs1 \<leftarrow> array_remove hostSet_remove (buckets s) (free h) i;
                   let h' = h\<lparr>used := used h + 1\<rparr>;
                   bs2 \<leftarrow> array_add hostSet_add bs1 (free h') i;
                   Some (Inr i, s\<lparr>hosts := (hosts s)(i \<mapsto> h'), buckets := bs2,
                     assigned := (assigned s)(vm \<mapsto> i)\<rparr>)
                 })
          })"

definition Release :: "scheduler \<Rightarrow> vm_id \<Rightarrow> ((sched_error + unit) \<times> scheduler) option" where
  "Release s vm =
     (case assigned s vm of
        None \<Rightarrow> Some (Inl (ErrUnknownVM vm), s)
      | Some i \<Rightarrow>
          let s1 = s\<lparr>assigned := (assigned s)(vm := None)\<rparr> in
          (case hosts s1 i of
             None \<Rightarrow> Some (Inr (), s1)
           | Some h \<Rightarrow>
               do {
                 bs1 \<leftarrow> bucket_drop (buckets s1) h i;
                 let h' = h\<lparr>used := used h - 1\<rparr>;
                 bs2 \<leftarrow> bucket_file bs1 h' i;
                 Some (Inr (), s1\<lparr>hosts := (hosts s1)(i \<mapsto> h'), buckets := bs2\<rparr>)
               }))"

definition HostOf :: "scheduler \<Rightarrow> vm_id \<Rightarrow> host_id option" where
  "HostOf s vm = assigned s vm"

subsection \<open>Snapshots\<close>

record Stats =
  st_Hosts :: int
  st_ReadyHosts :: int
  st_DrainingHosts :: int
  st_IdleHosts :: int
  st_UnderfilledHosts :: int
  st_Capacity :: int
  st_Used :: int
  st_InflightVMs :: int

definition Utilisation :: "Stats \<Rightarrow> real" where
  "Utilisation st =
     (if st_Capacity st = 0 then 0 else real_of_int (st_Used st) / real_of_int (st_Capacity st))"

definition stats_step :: "host \<Rightarrow> Stats \<Rightarrow> Stats" where
  "stats_step h out0 =
     (let out = out0\<lparr>st_Used := st_Used out0 + used h\<rparr> in
      case state h of
        HostReady \<Rightarrow>
          (let out1 = out\<lparr>st_ReadyHosts := st_ReadyHosts out + 1,
                         st_Capacity := st_Capacity out + capacity h\<rparr> in
           if used h = 0 then out1\<lparr>st_IdleHosts := st_IdleHosts out1 + 1\<rparr>
           else if used h = 1 then out1\<lparr>st_UnderfilledHosts := st_UnderfilledHosts out1 + 1\<rparr>
           else out1)
      | HostDraining \<Rightarrow> out\<lparr>st_DrainingHosts := st_DrainingHosts out + 1\<rparr>
      | HostPending \<Rightarrow> out)"

fun stats_loop :: "(host_id \<rightharpoonup> host) \<Rightarrow> host_id list \<Rightarrow> Stats \<Rightarrow> Stats" where
  "stats_loop hs [] out = out"
| "stats_loop hs (i # is) out =
     stats_loop hs is (case hs i of Some h \<Rightarrow> stats_step h out | None \<Rightarrow> out)"

text \<open>\<^verbatim>\<open>len\<close> of a Go map is the number of its keys; \<open>is\<close> is the iteration order.\<close>

definition sched_Stats :: "scheduler \<Rightarrow> host_id list \<Rightarrow> Stats" where
  "sched_Stats s is =
     stats_loop (hosts s) is
       \<lparr>st_Hosts = int (card (dom (hosts s))), st_ReadyHosts = 0, st_DrainingHosts = 0,
        st_IdleHosts = 0, st_UnderfilledHosts = 0, st_Capacity = 0, st_Used = 0,
        st_InflightVMs = int (card (dom (assigned s)))\<rparr>"

record HostSnapshot =
  snap_ID :: host_id
  snap_Capacity :: int
  snap_Used :: int
  snap_State :: HostState

definition snapshot :: "host \<Rightarrow> HostSnapshot" where
  "snapshot h = \<lparr>snap_ID = h_id h, snap_Capacity = capacity h, snap_Used = used h,
     snap_State = state h\<rparr>"

fun hosts_loop :: "(host_id \<rightharpoonup> host) \<Rightarrow> host_id list \<Rightarrow> HostSnapshot list \<Rightarrow> HostSnapshot list" where
  "hosts_loop hs [] out = out"
| "hosts_loop hs (i # is) out =
     hosts_loop hs is (case hs i of Some h \<Rightarrow> out @ [snapshot h] | None \<Rightarrow> out)"

definition Hosts :: "scheduler \<Rightarrow> host_id list \<Rightarrow> HostSnapshot list" where
  "Hosts s is = hosts_loop (hosts s) is []"

end
