(* ===== verification/SchedulerInv.thy ===== *)
theory SchedulerInv
  imports Scheduler
begin

section \<open>The scheduler's invariant\<close>

text \<open>
  \<open>sched_inv\<close> is what the scheduler keeps true between calls: every host is stored under
  its own identifier with at least two slots, its \<open>used\<close> count is the number of microVMs
  assigned to it and never exceeds its capacity, every assignment points at a known host,
  and the buckets file exactly the ready hosts, each under its number of free slots. Each
  operation is shown to return (no panic), to keep the invariant and to have the effect
  on hosts and assignments that the lemma \<open>..._ok\<close> states.
\<close>

subsection \<open>The invariant\<close>

text \<open>Where a host is filed: nowhere unless it is ready.\<close>

definition file_of :: "host \<Rightarrow> int option" where
  "file_of h = (if state h = HostReady then Some (free h) else None)"

definition bucket_of :: "scheduler \<Rightarrow> host_id \<Rightarrow> int option" where
  "bucket_of s i = Option.bind (hosts s i) file_of"

definition vms_on :: "scheduler \<Rightarrow> host_id \<Rightarrow> vm_id set" where
  "vms_on s i = {vm. assigned s vm = Some i}"

definition host_ok :: "scheduler \<Rightarrow> host_id \<Rightarrow> host \<Rightarrow> bool" where
  "host_ok s i h \<longleftrightarrow> h_id h = i \<and> MinSlotsPerHost \<le> capacity h \<and> capacity h \<le> maxCap s \<and>
     used h = int (card (vms_on s i)) \<and> used h \<le> capacity h"

definition sched_inv :: "scheduler \<Rightarrow> bool" where
  "sched_inv s \<longleftrightarrow>
     finite (dom (hosts s)) \<and> finite (dom (assigned s)) \<and>
     (\<forall>i h. hosts s i = Some h \<longrightarrow> host_ok s i h) \<and>
     ran (assigned s) \<subseteq> dom (hosts s) \<and>
     0 \<le> maxCap s \<and> (maxCap s = 0 \<and> buckets s = [] \<or> int (length (buckets s)) = maxCap s + 1) \<and>
     agrees hostSet_inv hostSet_elems (buckets s) (bucket_of s)"

lemma sched_invD:
  assumes "sched_inv s"
  shows "finite (dom (hosts s))" "finite (dom (assigned s))"
    and "hosts s i = Some h \<Longrightarrow> host_ok s i h"
    and "assigned s vm = Some i \<Longrightarrow> \<exists>h. hosts s i = Some h"
    and "0 \<le> maxCap s"
    and "maxCap s = 0 \<and> buckets s = [] \<or> int (length (buckets s)) = maxCap s + 1"
    and "agrees hostSet_inv hostSet_elems (buckets s) (bucket_of s)"
  using assms by (auto simp: sched_inv_def ran_def)

lemma host_okD:
  assumes "sched_inv s" "hosts s i = Some h"
  shows "h_id h = i" "2 \<le> capacity h" "capacity h \<le> maxCap s" "0 \<le> used h"
    "used h = int (card (vms_on s i))" "used h \<le> capacity h"
    "0 \<le> free h" "free h \<le> capacity h" "free h < int (length (buckets s))"
  using sched_invD(3) [OF assms] sched_invD(6) [OF assms(1)]
  by (auto simp: host_ok_def MinSlotsPerHost_def free_def)

lemma vms_on_finite [simp]: "sched_inv s \<Longrightarrow> finite (vms_on s i)"
  by (rule finite_subset [OF _ sched_invD(2)]) (auto simp: vms_on_def)

lemma New_inv [ok_intros]: "sched_inv (New p)"
  by (simp add: sched_inv_def New_def agrees_def)

lemma bucket_of_put: "hosts s' = (hosts s)(i \<mapsto> h) \<Longrightarrow> bucket_of s' = (bucket_of s)(i := file_of h)"
  by (auto simp: bucket_of_def)

lemma bucket_of_del: "hosts s' = (hosts s)(i := None) \<Longrightarrow> bucket_of s' = (bucket_of s)(i := None)"
  by (auto simp: bucket_of_def)

lemma bucket_of_bound:
  assumes "sched_inv s" "bucket_of s i = Some k"
  shows "0 \<le> k" "k \<le> maxCap s" "k < int (length (buckets s))"
proof -
  from assms(2) obtain h where h: "hosts s i = Some h" and k: "k = free h"
    by (auto simp: bucket_of_def file_of_def bind_eq_Some_conv split: if_splits)
  from host_okD [OF assms(1) h] k show "0 \<le> k" "k \<le> maxCap s" "k < int (length (buckets s))"
    by linarith+
qed

text \<open>The invariant after one host is stored anew, for every operation that stores one.\<close>

lemma sched_inv_put:
  assumes inv: "sched_inv s"
    and hs: "hosts s' = (hosts s)(i \<mapsto> h)" and mc: "maxCap s' = maxCap s"
    and len: "length (buckets s') = length (buckets s)"
    and ag: "agrees hostSet_inv hostSet_elems (buckets s') ((bucket_of s)(i := file_of h))"
    and asg: "finite (dom (assigned s'))" "ran (assigned s') \<subseteq> insert i (dom (hosts s))"
    and h: "h_id h = i" "MinSlotsPerHost \<le> capacity h" "capacity h \<le> maxCap s"
      "used h = int (card (vms_on s' i))" "used h \<le> capacity h"
    and vms: "\<And>j. j \<noteq> i \<Longrightarrow> vms_on s' j = vms_on s j"
  shows "sched_inv s'"
proof -
  have "host_ok s' j h'" if "hosts s' j = Some h'" for j h'
    using that h sched_invD(3) [OF inv, of j h'] mc vms hs
    by (cases "j = i") (auto simp: host_ok_def)
  moreover have "agrees hostSet_inv hostSet_elems (buckets s') (bucket_of s')"
    using ag by (simp add: bucket_of_put [OF hs])
  moreover have "buckets s' = [] \<longleftrightarrow> buckets s = []"
    using len by (metis length_0_conv)
  ultimately show ?thesis
    using sched_invD(1,5,6) [OF inv] hs mc len asg by (auto simp: sched_inv_def)
qed

subsection \<open>Re-filing one host\<close>

text \<open>
  Every operation that changes a host takes it out of its bucket and files it again: with
  the classification of the other hosts unchanged, the buckets agree afterwards.
\<close>

lemma bucket_drop_ok:
  assumes "agrees hostSet_inv hostSet_elems bs cls" and "cls i = file_of h"
    and "0 \<le> free h" "free h < int (length bs)"
  shows "\<exists>bs'. bucket_drop bs h i = Some bs' \<and> length bs' = length bs \<and>
           agrees hostSet_inv hostSet_elems bs' (cls(i := None))"
proof (cases "state h = HostReady")
  case True
  with assms show ?thesis by (simp add: bucket_drop_def file_of_def hs.agrees_remove)
next
  case False
  with assms(2) have "cls(i := None) = cls" by (auto simp: file_of_def)
  with False assms(1) show ?thesis by (simp add: bucket_drop_def)
qed

lemma bucket_file_ok:
  assumes "agrees hostSet_inv hostSet_elems bs cls" and "cls i = None"
    and "0 \<le> free h" "free h < int (length bs)"
  shows "\<exists>bs'. bucket_file bs h i = Some bs' \<and> length bs' = length bs \<and>
           agrees hostSet_inv hostSet_elems bs' (cls(i := file_of h))"
proof (cases "state h = HostReady")
  case True
  with assms show ?thesis by (simp add: bucket_file_def file_of_def hs.agrees_add)
next
  case False
  with assms(2) have "cls(i := file_of h) = cls" by (auto simp: file_of_def)
  with False assms(1) show ?thesis by (simp add: bucket_file_def)
qed

lemma refile_ok:
  assumes inv: "sched_inv s" and h: "hosts s i = Some h"
    and h': "0 \<le> free h'" "free h' < int (length (buckets s))"
  shows "\<exists>bs1 bs2. bucket_drop (buckets s) h i = Some bs1 \<and> bucket_file bs1 h' i = Some bs2 \<and>
           length bs2 = length (buckets s) \<and>
           agrees hostSet_inv hostSet_elems bs2 ((bucket_of s)(i := file_of h'))"
proof -
  have "bucket_of s i = file_of h" by (simp add: bucket_of_def h)
  then obtain bs1 where bs1: "bucket_drop (buckets s) h i = Some bs1"
    "length bs1 = length (buckets s)" "agrees hostSet_inv hostSet_elems bs1 ((bucket_of s)(i := None))"
    using bucket_drop_ok [OF sched_invD(7) [OF inv], of i h] host_okD [OF inv h] by auto
  then obtain bs2 where "bucket_file bs1 h' i = Some bs2" "length bs2 = length bs1"
    "agrees hostSet_inv hostSet_elems bs2 (((bucket_of s)(i := None))(i := file_of h'))"
    using bucket_file_ok [OF bs1(3), of i h'] h' by auto
  with bs1 show ?thesis by simp
qed

subsection \<open>Adding a host\<close>

lemma grow_loop_ok:
  assumes "agrees hostSet_inv hostSet_elems bs cls"
    and "\<And>x k. cls x = Some k \<Longrightarrow> k < int (length bs)"
  shows "agrees hostSet_inv hostSet_elems (grow_loop bs cap) cls \<and>
    int (length (grow_loop bs cap)) = max (int (length bs)) (cap + 1)"
  using assms
proof (induction bs cap rule: grow_loop.induct)
  case (1 bs cap)
  show ?case
  proof (cases "int (length bs) \<le> cap")
    case True
    have far: "cls x = Some k \<Longrightarrow> k < int (length (bs @ [newHostSet]))" for x k
      using "1.prems"(2) [of x k] by simp
    have "agrees hostSet_inv hostSet_elems (bs @ [newHostSet]) cls"
      using "1.prems" by (intro hs.agrees_snoc) auto
    from "1.IH" [OF True this far] True show ?thesis
      by (simp add: grow_loop.simps [of bs])
  next
    case False
    with "1.prems" show ?thesis by (simp add: grow_loop.simps [of bs])
  qed
qed

lemma growBuckets_ok:
  assumes inv: "sched_inv s" and cap: "0 < cap"
  shows "sched_inv (growBuckets s cap)" "cap \<le> maxCap (growBuckets s cap)"
    "hosts (growBuckets s cap) = hosts s" "assigned (growBuckets s cap) = assigned s"
    "policy (growBuckets s cap) = policy s"
proof -
  let ?g = "growBuckets s cap"
  show fields: "hosts ?g = hosts s" "assigned ?g = assigned s" "policy ?g = policy s"
    by (simp_all add: growBuckets_def Let_def)
  have mc: "maxCap ?g = max (maxCap s) cap" and bs: "buckets ?g = grow_loop (buckets s) cap"
    by (simp_all add: growBuckets_def Let_def)
  then show "cap \<le> maxCap ?g" by simp
  have "agrees hostSet_inv hostSet_elems (grow_loop (buckets s) cap) (bucket_of s) \<and>
    int (length (grow_loop (buckets s) cap)) = max (int (length (buckets s))) (cap + 1)"
    by (rule grow_loop_ok [OF sched_invD(7) [OF inv] bucket_of_bound(3) [OF inv]])
  moreover have "bucket_of ?g = bucket_of s" by (simp add: bucket_of_def fields fun_eq_iff)
  moreover have "host_ok ?g i h" if "hosts s i = Some h" for i h
    using sched_invD(3) [OF inv that] by (auto simp: host_ok_def vms_on_def fields mc)
  ultimately show "sched_inv ?g"
    using sched_invD [OF inv] cap by (auto simp: sched_inv_def fields mc bs ran_def)
qed

lemma AddHost_ok:
  assumes inv: "sched_inv s"
  shows "snd (AddHost s i cap) = s \<and>
      (cap < MinSlotsPerHost \<and> fst (AddHost s i cap) = Inl (ErrInvalidCapacity i cap) \<or>
       MinSlotsPerHost \<le> cap \<and> i \<in> dom (hosts s) \<and> fst (AddHost s i cap) = Inl (ErrDuplicateHost i))
    \<or> (\<exists>s'. AddHost s i cap = (Inr (), s') \<and> MinSlotsPerHost \<le> cap \<and> hosts s i = None \<and>
         sched_inv s' \<and> policy s' = policy s \<and> assigned s' = assigned s \<and>
         hosts s' = (hosts s)(i \<mapsto> \<lparr>h_id = i, capacity = cap, used = 0, state = HostPending\<rparr>))"
proof (cases "cap < MinSlotsPerHost \<or> hosts s i \<noteq> None")
  case True
  then show ?thesis by (auto simp: AddHost_def)
next
  case False
  let ?g = "growBuckets s cap"
  let ?h = "\<lparr>h_id = i, capacity = cap, used = 0, state = HostPending\<rparr>"
  let ?s = "?g\<lparr>hosts := (hosts ?g)(i \<mapsto> ?h)\<rparr>"
  from False have cap: "0 < cap" and none: "hosts s i = None" and add: "AddHost s i cap = (Inr (), ?s)"
    by (auto simp: AddHost_def MinSlotsPerHost_def Let_def)
  note g = growBuckets_ok [OF inv cap]
  have "vms_on ?s i = {}" using none g(4) sched_invD(4) [OF inv] by (fastforce simp: vms_on_def)
  moreover have "(bucket_of ?g)(i := file_of ?h) = bucket_of ?g"
    using none g(3) by (auto simp: file_of_def bucket_of_def)
  ultimately have "sched_inv ?s"
    using g False sched_invD [OF g(1)]
    by (intro sched_inv_put [OF g(1), where i = i and h = ?h])
      (auto simp: vms_on_def MinSlotsPerHost_def ran_def)
  with add g False none show ?thesis by auto
qed

subsection \<open>Changing a host's state\<close>

lemma SetHostState_ok:
  assumes inv: "sched_inv s" and h: "hosts s i = Some h"
  shows "\<exists>s'. SetHostState s i st = Some (Inr (), s') \<and> sched_inv s' \<and> policy s' = policy s \<and>
    assigned s' = assigned s \<and> hosts s' = (hosts s)(i \<mapsto> h\<lparr>state := st\<rparr>)"
proof (cases "state h = st")
  case True
  then have "h\<lparr>state := st\<rparr> = h" by simp
  with True inv h show ?thesis by (auto simp: SetHostState_def fun_upd_idem)
next
  case False
  let ?h = "h\<lparr>state := st\<rparr>"
  have "0 \<le> free ?h" "free ?h < int (length (buckets s))"
    using host_okD [OF inv h] by (simp_all add: free_def)
  then obtain bs1 bs2 where bs: "bucket_drop (buckets s) h i = Some bs1"
    "bucket_file bs1 ?h i = Some bs2" "length bs2 = length (buckets s)"
    "agrees hostSet_inv hostSet_elems bs2 ((bucket_of s)(i := file_of ?h))"
    using refile_ok [OF inv h] by blast
  let ?s = "s\<lparr>hosts := (hosts s)(i \<mapsto> ?h), buckets := bs2\<rparr>"
  have "sched_inv ?s"
    using bs host_okD [OF inv h] sched_invD [OF inv]
    by (intro sched_inv_put [OF inv, where i = i and h = ?h])
      (auto simp: vms_on_def MinSlotsPerHost_def ran_def)
  with False h bs show ?thesis by (simp add: SetHostState_def Let_def)
qed

lemma SetHostState_unknown:
  "hosts s i = None \<Longrightarrow> SetHostState s i st = Some (Inl (ErrUnknownHost i), s)"
  by (simp add: SetHostState_def)

subsection \<open>Choosing a host\<close>

lemma sorted_split_before:
  assumes "sorted (ks1 @ k # ks2)" and "m \<in> set (ks1 @ k # ks2)" and "m < (k :: int)"
  shows "m \<in> set ks1"
  using assms by (auto simp: sorted_append)

lemma sorted_split_after:
  assumes "sorted (rev (ks1 @ k # ks2))" and "m \<in> set (ks1 @ k # ks2)" and "k < (m :: int)"
  shows "m \<in> set ks1"
  using assms by (auto simp: sorted_append)

lemma selectHost_None:
  assumes inv: "sched_inv s"
  shows "selectHost s = Some None \<longleftrightarrow> (\<forall>i k. bucket_of s i = Some k \<longrightarrow> k < 1)"
proof -
  have ks: "set [1..maxCap s] \<subseteq> {0..<int (length (buckets s))}"
    using sched_invD(5,6) [OF inv] by auto
  then have "selectHost s = Some None \<longleftrightarrow> (\<forall>k\<in>set [1..maxCap s]. \<forall>i. bucket_of s i \<noteq> Some k)"
    using hs.scan_None [OF sched_invD(7) [OF inv], of "[1..maxCap s]"]
      hs.scan_None [OF sched_invD(7) [OF inv], of "rev [1..maxCap s]"]
    by (simp add: selectHost_def)
  also have "\<dots> \<longleftrightarrow> (\<forall>i k. bucket_of s i = Some k \<longrightarrow> k < 1)"
  proof (intro iffI allI impI)
    fix i k
    assume none: "\<forall>k\<in>set [1..maxCap s]. \<forall>i. bucket_of s i \<noteq> Some k" and k: "bucket_of s i = Some k"
    then have "k \<notin> set [1..maxCap s]" by blast
    with bucket_of_bound(2) [OF inv k] show "k < 1" by simp
  next
    assume "\<forall>i k. bucket_of s i = Some k \<longrightarrow> k < 1"
    then show "\<forall>k\<in>set [1..maxCap s]. \<forall>i. bucket_of s i \<noteq> Some k" by force
  qed
  finally show ?thesis .
qed

text \<open>The chosen host has a free slot, and no host with a free slot suits the policy better.\<close>

lemma selectHost_Some:
  assumes inv: "sched_inv s" and sel: "selectHost s = Some (Some i)"
  shows "\<exists>k. bucket_of s i = Some k \<and> 1 \<le> k \<and>
    (\<forall>j m. bucket_of s j = Some m \<and> 1 \<le> m \<longrightarrow>
       (case policy s of BestFit \<Rightarrow> k \<le> m | WorstFit \<Rightarrow> m \<le> k))"
proof -
  define ks where "ks = (if policy s = WorstFit then rev [1..maxCap s] else [1..maxCap s])"
  have set_ks: "set ks = {1..maxCap s}" by (simp add: ks_def)
  then have range: "set ks \<subseteq> {0..<int (length (buckets s))}"
    using sched_invD(5,6) [OF inv] by auto
  from sel have "array_scan hostSet_any (buckets s) ks = Some (Some i)"
    by (simp add: selectHost_def ks_def split: if_splits)
  from hs.scan_Some [OF sched_invD(7) [OF inv] range this] obtain k ks1 ks2 where
    split: "ks = ks1 @ k # ks2" and k: "bucket_of s i = Some k"
    and first: "\<forall>j\<in>set ks1. \<forall>y. bucket_of s y \<noteq> Some j" by blast
  have "k \<in> set ks" by (simp add: split)
  then have "1 \<le> k" by (simp add: set_ks)
  have before: "m \<notin> set ks1" if "bucket_of s j = Some m" for j m
    using first that by blast
  have mem: "m \<in> set (ks1 @ k # ks2)" if "bucket_of s j = Some m" "1 \<le> m" for j m
    using that bucket_of_bound(2) [OF inv that(1)] by (simp add: set_ks flip: split)
  have "case policy s of BestFit \<Rightarrow> k \<le> m | WorstFit \<Rightarrow> m \<le> k"
    if m: "bucket_of s j = Some m" "1 \<le> m" for j m
  proof (cases "policy s")
    case BestFit
    then have "sorted (ks1 @ k # ks2)" by (simp add: ks_def flip: split)
    from sorted_split_before [OF this mem [OF m]] before [OF m(1)] BestFit show ?thesis
      by (cases "m < k") auto
  next
    case WorstFit
    then have "sorted (rev (ks1 @ k # ks2))" unfolding split [symmetric] by (simp add: ks_def)
    from sorted_split_after [OF this mem [OF m]] before [OF m(1)] WorstFit show ?thesis
      by (cases "k < m") auto
  qed
  with k \<open>1 \<le> k\<close> show ?thesis by blast
qed

lemma selectHost_total:
  assumes inv: "sched_inv s" shows "\<exists>r. selectHost s = Some r"
proof -
  have "set [1..maxCap s] \<subseteq> {0..<int (length (buckets s))}"
    using sched_invD(5,6) [OF inv] by auto
  then show ?thesis
    using hs.scan_total [of "[1..maxCap s]" "buckets s"] hs.scan_total [of "rev [1..maxCap s]" "buckets s"]
    by (simp add: selectHost_def)
qed

subsection \<open>Placing and releasing\<close>

lemma Place_duplicate: "assigned s vm = Some i \<Longrightarrow> Place s vm = Some (Inl (ErrDuplicateVM vm), s)"
  by (simp add: Place_def)

lemma Place_full:
  "assigned s vm = None \<Longrightarrow> selectHost s = Some None \<Longrightarrow> Place s vm = Some (Inl ErrNoCapacity, s)"
  by (simp add: Place_def)

lemma Place_ok:
  assumes inv: "sched_inv s" and vm: "assigned s vm = None" and sel: "selectHost s = Some (Some i)"
  shows "\<exists>h s'. hosts s i = Some h \<and> state h = HostReady \<and> 0 < free h \<and>
    Place s vm = Some (Inr i, s') \<and> sched_inv s' \<and> policy s' = policy s \<and>
    assigned s' = (assigned s)(vm \<mapsto> i) \<and> hosts s' = (hosts s)(i \<mapsto> h\<lparr>used := used h + 1\<rparr>)"
proof -
  from selectHost_Some [OF inv sel] obtain h where
    h: "hosts s i = Some h" and ready: "state h = HostReady" and fr: "0 < free h"
    by (auto simp: bucket_of_def file_of_def bind_eq_Some_conv split: if_splits)
  let ?h = "h\<lparr>used := used h + 1\<rparr>"
  have fh: "0 \<le> free ?h" "free ?h < int (length (buckets s))"
    using host_okD [OF inv h] fr by (simp_all add: free_def)
  obtain bs1 bs2 where bs: "bucket_drop (buckets s) h i = Some bs1"
    "bucket_file bs1 ?h i = Some bs2" "length bs2 = length (buckets s)"
    "agrees hostSet_inv hostSet_elems bs2 ((bucket_of s)(i := file_of ?h))"
    using refile_ok [OF inv h fh] by blast
  let ?s = "s\<lparr>hosts := (hosts s)(i \<mapsto> ?h), buckets := bs2, assigned := (assigned s)(vm \<mapsto> i)\<rparr>"
  have "vms_on ?s i = insert vm (vms_on s i)" "vm \<notin> vms_on s i"
    using vm by (auto simp: vms_on_def)
  then have card: "card (vms_on ?s i) = Suc (card (vms_on s i))" using inv by simp
  have other: "vms_on ?s j = vms_on s j" if "j \<noteq> i" for j
    using that vm by (auto simp: vms_on_def)
  have "ran (assigned ?s) \<subseteq> insert i (dom (hosts s))"
    using sched_invD(4) [OF inv] by (auto simp: ran_def split: if_splits)
  then have "sched_inv ?s"
    using bs host_okD [OF inv h] sched_invD(2) [OF inv] fr card other
    by (intro sched_inv_put [OF inv, where i = i and h = ?h])
      (auto simp: MinSlotsPerHost_def free_def)
  moreover have "Place s vm = Some (Inr i, ?s)"
    using vm sel h bs(1,2) ready by (simp add: Place_def bucket_drop_def bucket_file_def Let_def)
  ultimately show ?thesis using h ready fr by auto
qed

lemma Release_unknown: "assigned s vm = None \<Longrightarrow> Release s vm = Some (Inl (ErrUnknownVM vm), s)"
  by (simp add: Release_def)

lemma Release_ok:
  assumes inv: "sched_inv s" and vm: "assigned s vm = Some i"
  shows "\<exists>h s'. hosts s i = Some h \<and> 0 < used h \<and>
    Release s vm = Some (Inr (), s') \<and> sched_inv s' \<and> policy s' = policy s \<and>
    assigned s' = (assigned s)(vm := None) \<and> hosts s' = (hosts s)(i \<mapsto> h\<lparr>used := used h - 1\<rparr>)"
proof -
  from sched_invD(4) [OF inv vm] obtain h where h: "hosts s i = Some h" by blast
  let ?h = "h\<lparr>used := used h - 1\<rparr>"
  have mem: "vm \<in> vms_on s i" using vm by (simp add: vms_on_def)
  with inv have "0 < card (vms_on s i)" by (metis card_gt_0_iff empty_iff vms_on_finite)
  then have pos: "0 < used h" using host_okD(5) [OF inv h] by simp
  have fh: "0 \<le> free ?h" "free ?h < int (length (buckets s))"
    using host_okD [OF inv h] sched_invD(6) [OF inv] pos by (auto simp: free_def)
  obtain bs1 bs2 where bs: "bucket_drop (buckets s) h i = Some bs1"
    "bucket_file bs1 ?h i = Some bs2" "length bs2 = length (buckets s)"
    "agrees hostSet_inv hostSet_elems bs2 ((bucket_of s)(i := file_of ?h))"
    using refile_ok [OF inv h fh] by blast
  let ?s = "s\<lparr>assigned := (assigned s)(vm := None), hosts := (hosts s)(i \<mapsto> ?h), buckets := bs2\<rparr>"
  have "vms_on ?s i = vms_on s i - {vm}" by (auto simp: vms_on_def)
  then have card: "int (card (vms_on ?s i)) = int (card (vms_on s i)) - 1"
    using inv mem \<open>0 < card (vms_on s i)\<close> by simp
  have other: "vms_on ?s j = vms_on s j" if "j \<noteq> i" for j
    using that vm by (auto simp: vms_on_def)
  have "ran (assigned ?s) \<subseteq> insert i (dom (hosts s))"
    using sched_invD(4) [OF inv] by (auto simp: ran_def split: if_splits)
  then have "sched_inv ?s"
    using bs host_okD [OF inv h] sched_invD(2) [OF inv] card other
    by (intro sched_inv_put [OF inv, where i = i and h = ?h])
      (auto simp: MinSlotsPerHost_def)
  moreover have "Release s vm = Some (Inr (), ?s)"
    using vm h bs(1,2) by (simp add: Release_def Let_def)
  ultimately show ?thesis using h pos by auto
qed

subsection \<open>Removing a host\<close>

lemma orphan_loop_eq:
  "distinct vms \<Longrightarrow> orphan_loop i vms asg acc =
     (acc @ filter (\<lambda>v. asg v = Some i) vms,
      \<lambda>v. if v \<in> set vms \<and> asg v = Some i then None else asg v)"
proof (induction vms arbitrary: asg acc)
  case (Cons vm vms)
  then have "filter (\<lambda>v. (asg(vm := None)) v = Some i) vms = filter (\<lambda>v. asg v = Some i) vms"
    by (intro filter_cong) auto
  with Cons show ?case by (auto simp: fun_eq_iff)
qed simp

lemma orphan_loop_iterates:
  assumes "iterates vms asg"
  shows "orphan_loop i vms asg [] =
    (filter (\<lambda>v. asg v = Some i) vms, \<lambda>v. if asg v = Some i then None else asg v)"
proof -
  from assms have "asg v = Some i \<Longrightarrow> v \<in> set vms" for v by (auto simp: iterates_def)
  with assms show ?thesis by (auto simp: orphan_loop_eq iterates_def fun_eq_iff)
qed

lemma RemoveHost_unknown: "hosts s i = None \<Longrightarrow> RemoveHost s i vms = Some (Inl (ErrUnknownHost i), s)"
  by (simp add: RemoveHost_def)

lemma RemoveHost_ok:
  assumes inv: "sched_inv s" and h: "hosts s i = Some h" and vms: "iterates vms (assigned s)"
  shows "\<exists>s'. RemoveHost s i vms = Some (Inr (filter (\<lambda>v. assigned s v = Some i) vms), s') \<and>
    sched_inv s' \<and> policy s' = policy s \<and> hosts s' = (hosts s)(i := None) \<and>
    assigned s' = (\<lambda>v. if assigned s v = Some i then None else assigned s v)"
proof -
  have "bucket_of s i = file_of h" by (simp add: bucket_of_def h)
  then obtain bs where bs: "bucket_drop (buckets s) h i = Some bs" "length bs = length (buckets s)"
    "agrees hostSet_inv hostSet_elems bs ((bucket_of s)(i := None))"
    using bucket_drop_ok [OF sched_invD(7) [OF inv], of i h] host_okD [OF inv h] by auto
  let ?a = "\<lambda>v. if assigned s v = Some i then None else assigned s v"
  let ?s = "s\<lparr>hosts := (hosts s)(i := None), assigned := ?a, buckets := bs\<rparr>"
  have rem: "RemoveHost s i vms = Some (Inr (filter (\<lambda>v. assigned s v = Some i) vms), ?s)"
    using h bs(1) by (simp add: RemoveHost_def orphan_loop_iterates [OF vms])
  have other: "vms_on ?s j = vms_on s j" if "j \<noteq> i" for j
    using that by (auto simp: vms_on_def)
  have "host_ok ?s j h'" if "hosts ?s j = Some h'" for j h'
  proof -
    from that have "j \<noteq> i" "hosts s j = Some h'" by (auto split: if_splits)
    with sched_invD(3) [OF inv, of j h'] show ?thesis by (auto simp: host_ok_def other)
  qed
  moreover have "finite (dom ?a)"
    by (rule finite_subset [OF _ sched_invD(2) [OF inv]]) (auto split: if_splits)
  moreover have "ran ?a \<subseteq> dom ((hosts s)(i := None))"
    using sched_invD(4) [OF inv] by (fastforce simp: ran_def split: if_splits)
  moreover have "bucket_of ?s = (bucket_of s)(i := None)" by (rule bucket_of_del) simp
  moreover have "bs = [] \<longleftrightarrow> buckets s = []" using bs(2) by (metis length_0_conv)
  ultimately have "sched_inv ?s"
    using sched_invD(1,5,6) [OF inv] bs by (auto simp: sched_inv_def)
  with rem show ?thesis by auto
qed

text \<open>Every call of \<open>Place\<close> and \<open>Release\<close> returns, and changes at most how much of one host is used.\<close>

lemma Place_cases:
  assumes "sched_inv s"
  shows "\<exists>r s'. Place s vm = Some (r, s') \<and> sched_inv s' \<and>
    (hosts s' = hosts s \<or> (\<exists>i h u. hosts s i = Some h \<and> hosts s' = (hosts s)(i \<mapsto> h\<lparr>used := u\<rparr>)))"
proof (cases "assigned s vm")
  case None
  from selectHost_total [OF assms] obtain sel where sel: "selectHost s = Some sel" by blast
  show ?thesis
    using Place_full [OF None] Place_ok [OF assms None] sel assms by (cases sel) fastforce+
qed (use Place_duplicate assms in fastforce)

lemma Release_cases:
  assumes "sched_inv s"
  shows "\<exists>r s'. Release s vm = Some (r, s') \<and> sched_inv s' \<and>
    (hosts s' = hosts s \<or> (\<exists>i h u. hosts s i = Some h \<and> hosts s' = (hosts s)(i \<mapsto> h\<lparr>used := u\<rparr>)))"
proof (cases "assigned s vm")
  case (Some i)
  from Release_ok [OF assms Some] show ?thesis by fastforce
qed (use Release_unknown assms in fastforce)

end
