(* ===== verification/SchedulerSpec.thy ===== *)
theory SchedulerSpec
  imports SchedulerInv
begin

section \<open>What the scheduler promises\<close>

text \<open>
  The contract of the scheduler, without buckets, counters or identifiers in slices: a
  fleet is a capacity and a state per host and a host per microVM. \<open>fleet_step\<close> says what
  each call may answer and how it changes the fleet; the free slots of a host are its
  capacity less the microVMs on it, and a placement goes to an open host the policy
  prefers. \<open>sched_exec_refines\<close> shows that the model of the code implements it: from any
  state that satisfies the invariant every call returns, keeps the invariant and takes a
  step the contract allows. The rest are its consequences for whole runs.
\<close>

subsection \<open>The abstract fleet\<close>

record fleet =
  f_hosts :: "host_id \<rightharpoonup> int \<times> HostState"
  f_assigned :: "vm_id \<rightharpoonup> host_id"

definition f_used :: "fleet \<Rightarrow> host_id \<Rightarrow> int" where
  "f_used F i = int (card {vm. f_assigned F vm = Some i})"

text \<open>A host is open with \<open>k\<close> free slots when it is ready and has room.\<close>

definition f_open :: "fleet \<Rightarrow> host_id \<Rightarrow> int \<Rightarrow> bool" where
  "f_open F i k \<longleftrightarrow> (\<exists>c. f_hosts F i = Some (c, HostReady) \<and> k = c - f_used F i) \<and> 0 < k"

definition f_prefers :: "Policy \<Rightarrow> int \<Rightarrow> int \<Rightarrow> bool" where
  "f_prefers p k m \<longleftrightarrow> (case p of BestFit \<Rightarrow> k \<le> m | WorstFit \<Rightarrow> m \<le> k)"

datatype call =
    CallAddHost host_id int
  | CallSetHostState host_id HostState
  | CallRemoveHost host_id
  | CallPlace vm_id
  | CallRelease vm_id

datatype reply = Done | Placed host_id | Orphans "vm_id list" | Failed sched_error

inductive fleet_step :: "Policy \<Rightarrow> fleet \<Rightarrow> call \<Rightarrow> reply \<Rightarrow> fleet \<Rightarrow> bool" for p where
  add_small: "cap < MinSlotsPerHost \<Longrightarrow>
    fleet_step p F (CallAddHost i cap) (Failed (ErrInvalidCapacity i cap)) F"
| add_known: "MinSlotsPerHost \<le> cap \<Longrightarrow> i \<in> dom (f_hosts F) \<Longrightarrow>
    fleet_step p F (CallAddHost i cap) (Failed (ErrDuplicateHost i)) F"
| add_new: "MinSlotsPerHost \<le> cap \<Longrightarrow> f_hosts F i = None \<Longrightarrow>
    fleet_step p F (CallAddHost i cap) Done (F\<lparr>f_hosts := (f_hosts F)(i \<mapsto> (cap, HostPending))\<rparr>)"
| set_unknown: "f_hosts F i = None \<Longrightarrow>
    fleet_step p F (CallSetHostState i st) (Failed (ErrUnknownHost i)) F"
| set_known: "f_hosts F i = Some (c, st0) \<Longrightarrow>
    fleet_step p F (CallSetHostState i st) Done (F\<lparr>f_hosts := (f_hosts F)(i \<mapsto> (c, st))\<rparr>)"
| remove_unknown: "f_hosts F i = None \<Longrightarrow>
    fleet_step p F (CallRemoveHost i) (Failed (ErrUnknownHost i)) F"
| remove_known: "i \<in> dom (f_hosts F) \<Longrightarrow> distinct vms \<Longrightarrow> set vms = {vm. f_assigned F vm = Some i} \<Longrightarrow>
    fleet_step p F (CallRemoveHost i) (Orphans vms)
      \<lparr>f_hosts = (f_hosts F)(i := None),
       f_assigned = (\<lambda>vm. if f_assigned F vm = Some i then None else f_assigned F vm)\<rparr>"
| place_known: "vm \<in> dom (f_assigned F) \<Longrightarrow>
    fleet_step p F (CallPlace vm) (Failed (ErrDuplicateVM vm)) F"
| place_full: "f_assigned F vm = None \<Longrightarrow> (\<And>i k. \<not> f_open F i k) \<Longrightarrow>
    fleet_step p F (CallPlace vm) (Failed ErrNoCapacity) F"
| place_open: "f_assigned F vm = None \<Longrightarrow> f_open F i k \<Longrightarrow>
    (\<And>j m. f_open F j m \<Longrightarrow> f_prefers p k m) \<Longrightarrow>
    fleet_step p F (CallPlace vm) (Placed i) (F\<lparr>f_assigned := (f_assigned F)(vm \<mapsto> i)\<rparr>)"
| release_unknown: "f_assigned F vm = None \<Longrightarrow>
    fleet_step p F (CallRelease vm) (Failed (ErrUnknownVM vm)) F"
| release_known: "vm \<in> dom (f_assigned F) \<Longrightarrow>
    fleet_step p F (CallRelease vm) Done (F\<lparr>f_assigned := (f_assigned F)(vm := None)\<rparr>)"

inductive_cases fleet_place_cases: "fleet_step p F (CallPlace vm) r F'"
inductive_cases fleet_release_cases: "fleet_step p F (CallRelease vm) r F'"
inductive_cases fleet_remove_cases: "fleet_step p F (CallRemoveHost i) r F'"

subsection \<open>One call on the concrete state\<close>

text \<open>\<open>vms\<close> is the order in which \<^verbatim>\<open>RemoveHost\<close> ranges over the assignments.\<close>

fun reply_of :: "('a \<Rightarrow> reply) \<Rightarrow> (sched_error + 'a) \<Rightarrow> reply" where
  "reply_of f (Inl e) = Failed e"
| "reply_of f (Inr x) = f x"

fun sched_exec :: "scheduler \<Rightarrow> call \<Rightarrow> vm_id list \<Rightarrow> (reply \<times> scheduler) option" where
  "sched_exec s (CallAddHost i cap) vms = Some (apfst (reply_of (\<lambda>_. Done)) (AddHost s i cap))"
| "sched_exec s (CallSetHostState i st) vms =
     map_option (apfst (reply_of (\<lambda>_. Done))) (SetHostState s i st)"
| "sched_exec s (CallRemoveHost i) vms =
     map_option (apfst (reply_of Orphans)) (RemoveHost s i vms)"
| "sched_exec s (CallPlace vm) vms = map_option (apfst (reply_of Placed)) (Place s vm)"
| "sched_exec s (CallRelease vm) vms = map_option (apfst (reply_of (\<lambda>_. Done))) (Release s vm)"

definition abs_fleet :: "scheduler \<Rightarrow> fleet" where
  "abs_fleet s = \<lparr>f_hosts = (\<lambda>i. map_option (\<lambda>h. (capacity h, state h)) (hosts s i)),
                 f_assigned = assigned s\<rparr>"

lemma abs_fleet_sel [simp]:
  "f_assigned (abs_fleet s) = assigned s"
  "f_hosts (abs_fleet s) i = map_option (\<lambda>h. (capacity h, state h)) (hosts s i)"
  "dom (f_hosts (abs_fleet s)) = dom (hosts s)"
  by (auto simp: abs_fleet_def)

lemma abs_fleet_eqI:
  "(\<And>i. f_hosts F i = map_option (\<lambda>h. (capacity h, state h)) (hosts s i)) \<Longrightarrow>
   f_assigned F = assigned s \<Longrightarrow> abs_fleet s = F"
  by (cases F) (auto simp: abs_fleet_def fun_eq_iff)

lemma f_open_abs:
  assumes "sched_inv s"
  shows "f_open (abs_fleet s) i k \<longleftrightarrow> bucket_of s i = Some k \<and> 0 < k"
  using host_okD(5) [OF assms]
  by (auto simp: f_open_def bucket_of_def file_of_def f_used_def free_def vms_on_def
      split: option.splits bind_splits)

subsection \<open>The refinement, call by call\<close>

text \<open>
  \<open>refines s c x\<close>: the result \<open>x\<close> of the call \<open>c\<close> is not a panic, keeps the invariant and
  the policy, and its effect is a step of the contract.
\<close>

definition refines :: "scheduler \<Rightarrow> call \<Rightarrow> (reply \<times> scheduler) option \<Rightarrow> bool" where
  "refines s c x \<longleftrightarrow> (\<exists>r s'. x = Some (r, s') \<and> sched_inv s' \<and> policy s' = policy s \<and>
     fleet_step (policy s) (abs_fleet s) c r (abs_fleet s'))"

lemma refinesI:
  "x = Some (r, s') \<Longrightarrow> sched_inv s' \<Longrightarrow> policy s' = policy s \<Longrightarrow>
   fleet_step (policy s) (abs_fleet s) c r F' \<Longrightarrow> abs_fleet s' = F' \<Longrightarrow> refines s c x"
  by (auto simp: refines_def)

lemma AddHost_refines:
  assumes inv: "sched_inv s"
  shows "refines s (CallAddHost i cap) (sched_exec s (CallAddHost i cap) vms)"
proof (cases "cap < MinSlotsPerHost \<or> hosts s i \<noteq> None")
  case True
  then show ?thesis
    using AddHost_ok [OF inv, of i cap] inv
    by (cases "AddHost s i cap")
      (auto simp: refines_def intro!: fleet_step.add_small fleet_step.add_known)
next
  case False
  then obtain s' where s': "AddHost s i cap = (Inr (), s')" "sched_inv s'" "policy s' = policy s"
    "assigned s' = assigned s"
    "hosts s' = (hosts s)(i \<mapsto> \<lparr>h_id = i, capacity = cap, used = 0, state = HostPending\<rparr>)"
    using AddHost_ok [OF inv, of i cap] by auto
  show ?thesis
    by (rule refinesI [OF _ s'(2,3) fleet_step.add_new])
      (use s' False in \<open>auto intro: abs_fleet_eqI\<close>)
qed

lemma SetHostState_refines:
  assumes inv: "sched_inv s"
  shows "refines s (CallSetHostState i st) (sched_exec s (CallSetHostState i st) vms)"
proof (cases "hosts s i")
  case None
  then show ?thesis
    using inv by (auto simp: SetHostState_unknown refines_def intro: fleet_step.intros)
next
  case (Some h)
  from SetHostState_ok [OF inv Some, of st] obtain s' where
    s': "SetHostState s i st = Some (Inr (), s')" "sched_inv s'" "policy s' = policy s"
      "assigned s' = assigned s" "hosts s' = (hosts s)(i \<mapsto> h\<lparr>state := st\<rparr>)" by blast
  show ?thesis
    by (rule refinesI [OF _ s'(2,3) fleet_step.set_known])
      (use s' Some in \<open>auto intro: abs_fleet_eqI\<close>)
qed

lemma RemoveHost_refines:
  assumes inv: "sched_inv s" and vms: "iterates vms (assigned s)"
  shows "refines s (CallRemoveHost i) (sched_exec s (CallRemoveHost i) vms)"
proof (cases "hosts s i")
  case None
  then show ?thesis
    using inv by (auto simp: RemoveHost_unknown refines_def intro: fleet_step.intros)
next
  case (Some h)
  let ?gone = "filter (\<lambda>v. assigned s v = Some i) vms"
  from RemoveHost_ok [OF inv Some vms] obtain s' where
    s': "RemoveHost s i vms = Some (Inr ?gone, s')" "sched_inv s'" "policy s' = policy s"
      "hosts s' = (hosts s)(i := None)"
      "assigned s' = (\<lambda>v. if assigned s v = Some i then None else assigned s v)" by blast
  have gone: "distinct ?gone" "set ?gone = {v. assigned s v = Some i}"
    using vms by (auto simp: iterates_def)
  show ?thesis
    by (rule refinesI [OF _ s'(2,3) fleet_step.remove_known [of _ _ ?gone]])
      (use s' gone Some in \<open>auto intro!: abs_fleet_eqI\<close>)
qed

lemma Place_refines:
  assumes inv: "sched_inv s"
  shows "refines s (CallPlace vm) (sched_exec s (CallPlace vm) vms)"
proof (cases "assigned s vm")
  case (Some i)
  then show ?thesis
    using inv by (auto simp: Place_duplicate refines_def intro: fleet_step.intros)
next
  case None
  from selectHost_total [OF inv] obtain sel where sel: "selectHost s = Some sel" by blast
  show ?thesis
  proof (cases sel)
    case None
    with sel have full: "selectHost s = Some None" by simp
    then have "\<not> f_open (abs_fleet s) i k" for i k
      using selectHost_None [OF inv] by (force simp: f_open_abs [OF inv])
    with full \<open>assigned s vm = None\<close> inv show ?thesis
      by (auto simp: Place_full refines_def intro!: fleet_step.place_full)
  next
    case (Some i)
    with sel have sel: "selectHost s = Some (Some i)" by simp
    from Place_ok [OF inv \<open>assigned s vm = None\<close> sel] obtain h s' where
      s': "Place s vm = Some (Inr i, s')" "sched_inv s'" "policy s' = policy s"
        "assigned s' = (assigned s)(vm \<mapsto> i)" "hosts s' = (hosts s)(i \<mapsto> h\<lparr>used := used h + 1\<rparr>)"
        "hosts s i = Some h" by blast
    from selectHost_Some [OF inv sel] obtain k where k: "f_open (abs_fleet s) i k"
      "\<And>j m. f_open (abs_fleet s) j m \<Longrightarrow> f_prefers (policy s) k m"
      by (force simp: f_open_abs [OF inv] f_prefers_def)
    show ?thesis
      by (rule refinesI [OF _ s'(2,3) fleet_step.place_open [OF _ k]])
        (use s' \<open>assigned s vm = None\<close> in \<open>auto intro!: abs_fleet_eqI\<close>)
  qed
qed

lemma Release_refines:
  assumes inv: "sched_inv s"
  shows "refines s (CallRelease vm) (sched_exec s (CallRelease vm) vms)"
proof (cases "assigned s vm")
  case None
  then show ?thesis
    using inv by (auto simp: Release_unknown refines_def intro: fleet_step.intros)
next
  case (Some i)
  from Release_ok [OF inv Some] obtain h s' where
    s': "Release s vm = Some (Inr (), s')" "sched_inv s'" "policy s' = policy s"
      "assigned s' = (assigned s)(vm := None)" "hosts s' = (hosts s)(i \<mapsto> h\<lparr>used := used h - 1\<rparr>)"
      "hosts s i = Some h" by blast
  show ?thesis
    by (rule refinesI [OF _ s'(2,3) fleet_step.release_known])
      (use s' Some in \<open>auto intro!: abs_fleet_eqI\<close>)
qed

lemma exec_refines:
  assumes "sched_inv s" and "iterates vms (assigned s)"
  shows "refines s c (sched_exec s c vms)"
  using assms
  by (cases c) (simp_all only: AddHost_refines SetHostState_refines RemoveHost_refines
      Place_refines Release_refines)

subsection \<open>Runs\<close>

text \<open>The states a scheduler can be in: any calls, any iteration orders.\<close>

inductive sched_reachable :: "Policy \<Rightarrow> scheduler \<Rightarrow> bool" for p where
  start: "sched_reachable p (New p)"
| step: "sched_reachable p s \<Longrightarrow> iterates vms (assigned s) \<Longrightarrow>
    sched_exec s c vms = Some (r, s') \<Longrightarrow> sched_reachable p s'"

inductive fleet_reachable :: "Policy \<Rightarrow> fleet \<Rightarrow> bool" for p where
  start: "fleet_reachable p \<lparr>f_hosts = Map.empty, f_assigned = Map.empty\<rparr>"
| step: "fleet_reachable p F \<Longrightarrow> fleet_step p F c r F' \<Longrightarrow> fleet_reachable p F'"

lemma reachable_inv: "sched_reachable p s \<Longrightarrow> sched_inv s \<and> policy s = p"
proof (induction rule: sched_reachable.induct)
  case start
  show ?case by (simp add: New_inv) (simp add: New_def)
next
  case (step s vms c r s')
  then show ?case using exec_refines [of s vms c] by (auto simp: refines_def)
qed

lemma reachable_abs: "sched_reachable p s \<Longrightarrow> fleet_reachable p (abs_fleet s)"
proof (induction rule: sched_reachable.induct)
  case start
  have "abs_fleet (New p) = \<lparr>f_hosts = Map.empty, f_assigned = Map.empty\<rparr>"
    by (rule abs_fleet_eqI) (simp_all add: New_def)
  then show ?case by (simp add: fleet_reachable.start)
next
  case (step s vms c r s')
  then have "refines s c (sched_exec s c vms)" "policy s = p"
    using reachable_inv [OF step.hyps(1)] exec_refines [of s vms c] by simp_all
  with step show ?case by (auto simp: refines_def intro: fleet_reachable.step)
qed

end
