(* ===== verification/SchedulerProps.thy ===== *)
theory SchedulerProps
  imports SchedulerSpec
begin

section \<open>Properties of the scheduler\<close>

text \<open>
  The guarantees the rest of the program builds on, each over the states a scheduler can
  reach (\<open>sched_reachable\<close>: any calls in any order, any map iteration orders).
\<close>

subsection \<open>Runs on concrete calls\<close>

text \<open>
  A run of calls that do not range over a map, for the examples: it stays inside the
  reachable states.
\<close>

fun ranges_over_map :: "call \<Rightarrow> bool" where
  "ranges_over_map (CallRemoveHost i) = True"
| "ranges_over_map _ = False"

fun sched_run :: "scheduler \<Rightarrow> call list \<Rightarrow> scheduler option" where
  "sched_run s [] = Some s"
| "sched_run s (c # cs) =
     (if ranges_over_map c then None
      else Option.bind (sched_exec s c []) (\<lambda>(r, s'). sched_run s' cs))"

lemma sched_exec_order:
  "\<not> ranges_over_map c \<Longrightarrow> sched_exec s c vms = sched_exec s c vms'"
  by (cases c) auto

lemma sched_run_reachable:
  "sched_reachable p s \<Longrightarrow> sched_run s cs = Some s' \<Longrightarrow> sched_reachable p s'"
proof (induction cs arbitrary: s)
  case (Cons c cs)
  from Cons.prems(2) obtain r t where
    c: "\<not> ranges_over_map c" "sched_exec s c [] = Some (r, t)" "sched_run t cs = Some s'"
    by (auto split: if_splits bind_splits)
  obtain vms where vms: "iterates vms (assigned s)"
    using iterates_exists sched_invD(2) reachable_inv [OF Cons.prems(1)] by blast
  from c(1,2) have "sched_exec s c vms = Some (r, t)"
    by (simp add: sched_exec_order [of c s vms "[]"])
  with Cons.prems(1) vms have "sched_reachable p t" by (rule sched_reachable.step)
  then show ?case using c(3) by (rule Cons.IH)
qed simp

definition demo_run :: "Policy \<Rightarrow> call list \<Rightarrow> scheduler" where
  "demo_run p cs = (case sched_run (New p) cs of Some s \<Rightarrow> s | None \<Rightarrow> New p)"

lemma demo_run_reachable: "sched_reachable p (demo_run p cs)"
  by (auto simp: demo_run_def sched_reachable.start split: option.splits
      intro: sched_run_reachable [OF sched_reachable.start])

text \<open>Which keys the maps of a run can have, so that its iteration orders can be listed.\<close>

fun added_hosts :: "call list \<Rightarrow> host_id list" where
  "added_hosts [] = []"
| "added_hosts (CallAddHost i cap # cs) = i # added_hosts cs"
| "added_hosts (_ # cs) = added_hosts cs"

fun placed_vms :: "call list \<Rightarrow> vm_id list" where
  "placed_vms [] = []"
| "placed_vms (CallPlace vm # cs) = vm # placed_vms cs"
| "placed_vms (_ # cs) = placed_vms cs"

lemma fleet_step_dom:
  "fleet_step p F c r F' \<Longrightarrow> dom (f_hosts F') \<subseteq> dom (f_hosts F) \<union> set (added_hosts [c]) \<and>
     dom (f_assigned F') \<subseteq> dom (f_assigned F) \<union> set (placed_vms [c])"
  by (induction rule: fleet_step.induct) (auto split: if_splits)

lemma added_hosts_Cons: "set (added_hosts (c # cs)) = set (added_hosts [c]) \<union> set (added_hosts cs)"
  and placed_vms_Cons: "set (placed_vms (c # cs)) = set (placed_vms [c]) \<union> set (placed_vms cs)"
  by (cases c; simp)+

lemma sched_run_dom:
  "sched_inv s \<Longrightarrow> sched_run s cs = Some s' \<Longrightarrow>
     dom (hosts s') \<subseteq> dom (hosts s) \<union> set (added_hosts cs) \<and>
     dom (assigned s') \<subseteq> dom (assigned s) \<union> set (placed_vms cs)"
proof (induction cs arbitrary: s)
  case (Cons c cs)
  from Cons.prems(2) obtain r t where
    c: "\<not> ranges_over_map c" "sched_exec s c [] = Some (r, t)" "sched_run t cs = Some s'"
    by (auto split: if_splits bind_splits)
  obtain vms where vms: "iterates vms (assigned s)"
    using iterates_exists sched_invD(2) [OF Cons.prems(1)] by blast
  from c(1,2) have "sched_exec s c vms = Some (r, t)"
    by (simp add: sched_exec_order [of c s vms "[]"])
  with exec_refines [OF Cons.prems(1) vms, of c] have
    t: "sched_inv t" "fleet_step (policy s) (abs_fleet s) c r (abs_fleet t)"
    by (auto simp: refines_def)
  from Cons.IH [OF t(1) c(3)] fleet_step_dom [OF t(2)] show ?case
    unfolding added_hosts_Cons [of c cs] placed_vms_Cons [of c cs] abs_fleet_sel by blast
qed simp

lemma demo_run_dom:
  "dom (hosts (demo_run p cs)) \<subseteq> set (added_hosts cs)"
  "dom (assigned (demo_run p cs)) \<subseteq> set (placed_vms cs)"
  using sched_run_dom [OF New_inv, of p cs]
  by (auto simp: demo_run_def New_def split: option.splits)

lemma demo_hosts:
  assumes "distinct is" "set (added_hosts cs) \<subseteq> set is"
    and "\<forall>i\<in>set is. hosts (demo_run p cs) i \<noteq> None"
  shows "iterates is (hosts (demo_run p cs))"
  using assms demo_run_dom(1) [of p cs] by (auto simp: iterates_def)

lemma demo_assigned:
  assumes "distinct vms" "set (placed_vms cs) \<subseteq> set vms"
    and "\<forall>vm\<in>set vms. assigned (demo_run p cs) vm \<noteq> None"
  shows "iterates vms (assigned (demo_run p cs))"
  using assms demo_run_dom(2) [of p cs] by (auto simp: iterates_def)

text \<open>Two hosts of different sizes, the smaller one holding a microVM.\<close>

definition two_hosts :: "call list" where
  "two_hosts = [CallAddHost ''a'' 4, CallSetHostState ''a'' HostReady,
     CallAddHost ''b'' 2, CallSetHostState ''b'' HostReady, CallPlace ''v1'']"

lemma sched_run_total:
  "sched_inv s \<Longrightarrow> \<forall>c\<in>set cs. \<not> ranges_over_map c \<Longrightarrow> \<exists>s'. sched_run s cs = Some s' \<and> sched_inv s'"
proof (induction cs arbitrary: s)
  case (Cons c cs)
  obtain vms where vms: "iterates vms (assigned s)"
    using iterates_exists sched_invD(2) [OF Cons.prems(1)] by blast
  have order: "sched_exec s c [] = sched_exec s c vms"
    using Cons.prems(2) by (intro sched_exec_order) simp
  from exec_refines [OF Cons.prems(1) vms, of c] obtain r t where
    "sched_exec s c vms = Some (r, t)" "sched_inv t"
    by (auto simp: refines_def)
  with Cons.IH [of t] Cons.prems(2) order show ?case by auto
qed simp

lemma sched_run_append:
  "sched_run s (cs @ cs') = Option.bind (sched_run s cs) (\<lambda>t. sched_run t cs')"
  by (induction cs arbitrary: s) (auto split: bind_splits)

lemma demo_run_snoc:
  assumes "\<forall>c\<in>set (cs @ [c]). \<not> ranges_over_map c"
  shows "\<exists>r. sched_exec (demo_run p cs) c vms = Some (r, demo_run p (cs @ [c]))"
proof -
  obtain s where s: "sched_run (New p) cs = Some s" "sched_inv s"
    using sched_run_total [OF New_inv, of cs p] assms by auto
  with sched_run_total [of s "[c]"] assms obtain t where t: "sched_run s [c] = Some t" by auto
  from s t have "sched_run (New p) (cs @ [c]) = Some t" by (simp add: sched_run_append)
  with s t assms show ?thesis
    using sched_exec_order [of c s vms "[]"]
    by (auto simp: demo_run_def split: bind_splits if_splits)
qed

text \<open>What one call of a run may do to the assignments.\<close>

lemma reachable_step:
  assumes "sched_reachable p s" and "iterates vms (assigned s)"
  shows "\<exists>r s'. sched_exec s c vms = Some (r, s') \<and> sched_reachable p s' \<and> sched_inv s' \<and>
           fleet_step p (abs_fleet s) c r (abs_fleet s')"
proof -
  from reachable_inv [OF assms(1)] have inv: "sched_inv s" "policy s = p" by simp_all
  from exec_refines [OF inv(1) assms(2), of c] obtain r s' where
    "sched_exec s c vms = Some (r, s')" "sched_inv s'" "fleet_step p (abs_fleet s) c r (abs_fleet s')"
    by (auto simp: refines_def inv(2))
  with assms show ?thesis by (blast intro: sched_reachable.step)
qed

lemma fleet_step_gain:
  "fleet_step p F c r F' \<Longrightarrow> f_assigned F' vm = Some i \<Longrightarrow> (\<And>n. f_hosts F i \<noteq> Some (n, HostReady)) \<Longrightarrow>
     f_assigned F vm = Some i"
  by (induction rule: fleet_step.induct) (auto simp: f_open_def split: if_splits)

lemma Place_SomeD:
  assumes "sched_inv s" and "Place s vm = Some (Inr i, s')"
  shows "assigned s vm = None \<and> selectHost s = Some (Some i) \<and> sched_inv s' \<and>
    policy s' = policy s \<and> assigned s' = (assigned s)(vm \<mapsto> i) \<and>
    (\<exists>h. hosts s i = Some h \<and> state h = HostReady \<and> 0 < free h \<and>
       hosts s' = (hosts s)(i \<mapsto> h\<lparr>used := used h + 1\<rparr>))"
proof -
  have none: "assigned s vm = None"
    using assms(2) by (cases "assigned s vm") (auto simp: Place_duplicate)
  with assms(2) have sel: "selectHost s = Some (Some i)"
    by (auto simp: Place_def Let_def split: bind_splits option.splits)
  from Place_ok [OF assms(1) none sel] assms(2) none sel show ?thesis by auto
qed

subsection \<open>Refinement and safety\<close>

text \<open>C1. In every reachable state every call returns (no index out of range, no nil host)
  and its answer and effect are a step of the bucket-free contract, from which the next
  state is reachable again.\<close>

theorem scheduler_refines_contract:
  assumes "sched_reachable p s" and "iterates vms (assigned s)"
  shows "\<exists>r s'. sched_exec s c vms = Some (r, s') \<and> sched_reachable p s' \<and>
           fleet_step p (abs_fleet s) c r (abs_fleet s')"
  using reachable_step [OF assms] by blast

theorem scheduler_refines_contract_witness:
  "\<exists>r s'. sched_exec (New BestFit) (CallRemoveHost ''a'') [] = Some (r, s') \<and>
     sched_reachable BestFit s' \<and>
     fleet_step BestFit (abs_fleet (New BestFit)) (CallRemoveHost ''a'') r (abs_fleet s')"
  by (rule scheduler_refines_contract [OF sched_reachable.start])
    (simp add: iterates_def New_def)

text \<open>C28. A successful placement picks a ready host with a free slot; under best fit no
  ready host with a free slot has fewer free slots, under worst fit none has more.\<close>

theorem place_follows_policy:
  assumes "sched_reachable p s" and "Place s vm = Some (Inr i, s')"
  shows "\<exists>h. hosts s i = Some h \<and> state h = HostReady \<and> 0 < free h \<and> HostOf s' vm = Some i \<and>
           (\<forall>j g. hosts s j = Some g \<and> state g = HostReady \<and> 0 < free g \<longrightarrow>
              (case p of BestFit \<Rightarrow> free h \<le> free g | WorstFit \<Rightarrow> free g \<le> free h))"
proof -
  from reachable_inv [OF assms(1)] have inv: "sched_inv s" and p: "policy s = p" by simp_all
  from Place_SomeD [OF inv assms(2)] obtain h where sel: "selectHost s = Some (Some i)"
    and h: "hosts s i = Some h" "state h = HostReady" "0 < free h" "assigned s' = (assigned s)(vm \<mapsto> i)"
    by blast
  have ready: "bucket_of s j = Some (free g)" if "hosts s j = Some g" "state g = HostReady" for j g
    using that by (simp add: bucket_of_def file_of_def)
  from selectHost_Some [OF inv sel] ready [OF h(1,2)] have best:
    "case p of BestFit \<Rightarrow> free h \<le> m | WorstFit \<Rightarrow> m \<le> free h"
    if "bucket_of s j = Some m" "1 \<le> m" for j m
    using that by (auto simp: p)
  have "case p of BestFit \<Rightarrow> free h \<le> free g | WorstFit \<Rightarrow> free g \<le> free h"
    if "hosts s j = Some g" "state g = HostReady" "0 < free g" for j g
    using best [OF ready [OF that(1,2)]] that(3) by simp
  with h show ?thesis by (auto simp: HostOf_def)
qed

theorem place_follows_policy_witness:
  "\<exists>h. hosts (demo_run BestFit two_hosts) ''b'' = Some h \<and> 0 < free h \<and>
     (\<forall>j g. hosts (demo_run BestFit two_hosts) j = Some g \<and> state g = HostReady \<and> 0 < free g \<longrightarrow>
        free h \<le> free g)"
proof -
  have "map_option fst (Place (demo_run BestFit two_hosts) ''v2'') = Some (Inr ''b'')"
    by code_simp
  then obtain s' where "Place (demo_run BestFit two_hosts) ''v2'' = Some (Inr ''b'', s')" by auto
  from place_follows_policy [OF demo_run_reachable this] show ?thesis by auto
qed

text \<open>A microVM that is not yet placed is turned away exactly when no ready host has a
  free slot, always with the no-capacity error, and the scheduler is left as it was.\<close>

theorem place_fails_only_when_full:
  assumes "sched_reachable p s" and "assigned s vm = None"
  shows "(\<forall>e s'. Place s vm = Some (Inl e, s') \<longrightarrow> e = ErrNoCapacity \<and> s' = s) \<and>
    ((\<exists>e s'. Place s vm = Some (Inl e, s')) \<longleftrightarrow>
     (\<forall>i h. hosts s i = Some h \<and> state h = HostReady \<longrightarrow> used h = capacity h))"
proof -
  from reachable_inv [OF assms(1)] have inv: "sched_inv s" by simp
  have room: "free h < 1 \<longleftrightarrow> used h = capacity h" if "hosts s i = Some h" for i h
    using host_okD(6) [OF inv that] by (auto simp: free_def)
  have full: "selectHost s = Some None \<longleftrightarrow>
     (\<forall>i h. hosts s i = Some h \<and> state h = HostReady \<longrightarrow> used h = capacity h)"
  proof -
    have "selectHost s = Some None \<longleftrightarrow> (\<forall>i h. hosts s i = Some h \<and> state h = HostReady \<longrightarrow> free h < 1)"
      by (auto simp: selectHost_None [OF inv] bucket_of_def file_of_def bind_eq_Some_conv)
    also have "\<dots> \<longleftrightarrow> (\<forall>i h. hosts s i = Some h \<and> state h = HostReady \<longrightarrow> used h = capacity h)"
      using room by metis
    finally show ?thesis .
  qed
  from selectHost_total [OF inv] obtain sel where sel: "selectHost s = Some sel" by blast
  show ?thesis
  proof (cases sel)
    case None
    with sel assms(2) full show ?thesis by (auto simp: Place_full)
  next
    case (Some i)
    with sel Place_ok [OF inv assms(2), of i] obtain s' where "Place s vm = Some (Inr i, s')" by auto
    with sel Some full show ?thesis by auto
  qed
qed

theorem place_fails_only_when_full_witness:
  "(\<exists>e s'. Place (demo_run BestFit [CallAddHost ''a'' 2]) ''v'' = Some (Inl e, s')) \<longleftrightarrow>
   (\<forall>i h. hosts (demo_run BestFit [CallAddHost ''a'' 2]) i = Some h \<and> state h = HostReady \<longrightarrow>
      used h = capacity h)"
proof -
  have "assigned (demo_run BestFit [CallAddHost ''a'' 2]) ''v'' = None" by code_simp
  from place_fails_only_when_full [OF demo_run_reachable this] show ?thesis by (rule conjunct2)
qed

text \<open>C5. A host's used count is the number of microVMs assigned to it, never exceeds its
  capacity, and the capacity is at least the two-slot floor; every assignment is to a
  host the scheduler knows.\<close>

theorem never_oversubscribed:
  assumes "sched_reachable p s"
  shows "(\<forall>i h. hosts s i = Some h \<longrightarrow> h_id h = i \<and> used h = int (card (vms_on s i)) \<and>
            used h \<le> capacity h \<and> MinSlotsPerHost \<le> capacity h) \<and>
         ran (assigned s) \<subseteq> dom (hosts s)"
proof -
  from reachable_inv [OF assms] have inv: "sched_inv s" by simp
  from sched_invD(3) [OF inv] have "\<forall>i h. hosts s i = Some h \<longrightarrow> host_ok s i h" by blast
  with inv show ?thesis unfolding host_ok_def sched_inv_def by blast
qed

theorem never_oversubscribed_witness:
  "ran (assigned (demo_run WorstFit two_hosts)) \<subseteq> dom (hosts (demo_run WorstFit two_hosts))"
  by (rule never_oversubscribed [OF demo_run_reachable, THEN conjunct2])

text \<open>Whatever the call, a host that is not ready gains no microVM: draining is a one-way
  street until somebody marks the host ready again.\<close>

theorem only_ready_hosts_gain_vms:
  assumes "sched_reachable p s" and "iterates vms (assigned s)"
    and "hosts s i = Some h" and "state h \<noteq> HostReady"
    and "sched_exec s c vms = Some (r, s')"
  shows "vms_on s' i \<subseteq> vms_on s i"
proof -
  from reachable_step [OF assms(1,2), of c] assms(5) have
    "fleet_step p (abs_fleet s) c r (abs_fleet s')" by auto
  then have "f_assigned (abs_fleet s') vm = Some i \<Longrightarrow> f_assigned (abs_fleet s) vm = Some i" for vm
    by (rule fleet_step_gain) (use assms(3,4) in simp_all)
  then show ?thesis by (auto simp: vms_on_def)
qed

theorem only_ready_hosts_gain_vms_witness:
  "vms_on (demo_run BestFit ((two_hosts @ [CallSetHostState ''b'' HostDraining]) @ [CallPlace ''v2''])) ''b''
     \<subseteq> vms_on (demo_run BestFit (two_hosts @ [CallSetHostState ''b'' HostDraining])) ''b''"
proof -
  let ?cs = "two_hosts @ [CallSetHostState ''b'' HostDraining]"
  have "iterates [''v1''] (assigned (demo_run BestFit ?cs))" by (rule demo_assigned) code_simp+
  moreover have "map_option state (hosts (demo_run BestFit ?cs) ''b'') = Some HostDraining" by code_simp
  then obtain h where "hosts (demo_run BestFit ?cs) ''b'' = Some h" "state h \<noteq> HostReady" by auto
  moreover have "\<exists>r. sched_exec (demo_run BestFit ?cs) (CallPlace ''v2'') [''v1''] =
      Some (r, demo_run BestFit (?cs @ [CallPlace ''v2'']))"
    by (rule demo_run_snoc) (simp add: two_hosts_def)
  then obtain r where "sched_exec (demo_run BestFit ?cs) (CallPlace ''v2'') [''v1''] =
      Some (r, demo_run BestFit (?cs @ [CallPlace ''v2'']))" by blast
  ultimately show ?thesis by (rule only_ready_hosts_gain_vms [OF demo_run_reachable])
qed

text \<open>Releasing a microVM that was just placed undoes the placement: the hosts and the
  assignments are those before it.\<close>

theorem place_release_roundtrip:
  assumes "sched_reachable p s" and "Place s vm = Some (Inr i, s')"
  shows "\<exists>s''. Release s' vm = Some (Inr (), s'') \<and> hosts s'' = hosts s \<and> assigned s'' = assigned s"
proof -
  from reachable_inv [OF assms(1)] have inv: "sched_inv s" by simp
  from Place_SomeD [OF inv assms(2)] obtain h where
    none: "assigned s vm = None" and h: "hosts s i = Some h" and inv': "sched_inv s'"
    and asg: "assigned s' = (assigned s)(vm \<mapsto> i)"
    and hs: "hosts s' = (hosts s)(i \<mapsto> h\<lparr>used := used h + 1\<rparr>)" by blast
  from Release_ok [OF inv', of vm i] asg hs obtain s'' where
    "Release s' vm = Some (Inr (), s'')" "assigned s'' = (assigned s)(vm := None)"
    "hosts s'' = (hosts s)(i \<mapsto> h)" by auto
  with none h show ?thesis by (auto simp: fun_upd_idem)
qed

theorem place_release_roundtrip_witness:
  "\<exists>s' s''. Place (demo_run BestFit two_hosts) ''v2'' = Some (Inr ''b'', s') \<and>
     Release s' ''v2'' = Some (Inr (), s'') \<and> hosts s'' = hosts (demo_run BestFit two_hosts)"
proof -
  have "map_option fst (Place (demo_run BestFit two_hosts) ''v2'') = Some (Inr ''b'')"
    by code_simp
  then obtain s' where s': "Place (demo_run BestFit two_hosts) ''v2'' = Some (Inr ''b'', s')" by auto
  from place_release_roundtrip [OF demo_run_reachable this] s' show ?thesis by blast
qed

text \<open>Removing a known host returns each microVM that was on it exactly once, forgets
  those and no other assignment, and forgets the host.\<close>

theorem remove_host_returns_its_vms:
  assumes "sched_reachable p s" and "iterates vms (assigned s)" and "i \<in> dom (hosts s)"
  shows "\<exists>orphaned s'. RemoveHost s i vms = Some (Inr orphaned, s') \<and>
    distinct orphaned \<and> set orphaned = vms_on s i \<and>
    hosts s' = (hosts s)(i := None) \<and>
    (\<forall>vm. assigned s' vm = (if vm \<in> set orphaned then None else assigned s vm))"
proof -
  from reachable_inv [OF assms(1)] have inv: "sched_inv s" by simp
  from assms(3) obtain h where h: "hosts s i = Some h" by auto
  from RemoveHost_ok [OF inv h assms(2)] obtain s' where
    "RemoveHost s i vms = Some (Inr (filter (\<lambda>v. assigned s v = Some i) vms), s')"
    "hosts s' = (hosts s)(i := None)"
    "assigned s' = (\<lambda>v. if assigned s v = Some i then None else assigned s v)" by blast
  with assms(2) show ?thesis
    by (intro exI [of _ "filter (\<lambda>v. assigned s v = Some i) vms"] exI [of _ s'])
      (auto simp: iterates_def vms_on_def)
qed

theorem remove_host_returns_its_vms_witness:
  "\<exists>orphaned s'. RemoveHost (demo_run BestFit two_hosts) ''b'' [''v1''] = Some (Inr orphaned, s') \<and>
     set orphaned = vms_on (demo_run BestFit two_hosts) ''b''"
proof -
  have "iterates [''v1''] (assigned (demo_run BestFit two_hosts))"
    by (rule demo_assigned) code_simp+
  moreover have "hosts (demo_run BestFit two_hosts) ''b'' \<noteq> None" by code_simp
  then have "''b'' \<in> dom (hosts (demo_run BestFit two_hosts))" by blast
  ultimately show ?thesis
    using remove_host_returns_its_vms [OF demo_run_reachable] by blast
qed

end
