(* ===== verification/SchedulerStats.thy ===== *)
theory SchedulerStats
  imports SchedulerProps
begin

section \<open>The scheduler's snapshots\<close>

text \<open>
  \<^verbatim>\<open>Stats\<close> and \<^verbatim>\<open>Hosts\<close> range over the host map. The counters of \<^verbatim>\<open>Stats\<close> are sums over the
  hosts, so they do not depend on the iteration order, and on reachable states the used
  slots are the microVMs in flight; the list of \<^verbatim>\<open>Hosts\<close> is in iteration order.
\<close>

definition hosts_with :: "scheduler \<Rightarrow> (host \<Rightarrow> bool) \<Rightarrow> host_id set" where
  "hosts_with s P = {i. \<exists>h. hosts s i = Some h \<and> P h}"

subsection \<open>Sums over the hosts\<close>

definition tally :: "(host \<Rightarrow> int) \<Rightarrow> (host_id \<rightharpoonup> host) \<Rightarrow> host_id \<Rightarrow> int" where
  "tally f hs i = (case hs i of Some h \<Rightarrow> f h | None \<Rightarrow> 0)"

lemma stats_loop_sums:
  "st_Hosts (stats_loop hs is out) = st_Hosts out"
  "st_InflightVMs (stats_loop hs is out) = st_InflightVMs out"
  "st_Used (stats_loop hs is out) = st_Used out + sum_list (map (tally used hs) is)"
  "st_ReadyHosts (stats_loop hs is out) =
     st_ReadyHosts out + sum_list (map (tally (\<lambda>h. of_bool (state h = HostReady)) hs) is)"
  "st_DrainingHosts (stats_loop hs is out) =
     st_DrainingHosts out + sum_list (map (tally (\<lambda>h. of_bool (state h = HostDraining)) hs) is)"
  "st_IdleHosts (stats_loop hs is out) =
     st_IdleHosts out + sum_list (map (tally (\<lambda>h. of_bool (state h = HostReady \<and> used h = 0)) hs) is)"
  "st_UnderfilledHosts (stats_loop hs is out) = st_UnderfilledHosts out +
     sum_list (map (tally (\<lambda>h. of_bool (state h = HostReady \<and> used h = 1)) hs) is)"
  "st_Capacity (stats_loop hs is out) = st_Capacity out +
     sum_list (map (tally (\<lambda>h. if state h = HostReady then capacity h else 0) hs) is)"
  by (induction "is" arbitrary: out;
      auto simp: stats_step_def tally_def Let_def split: option.splits HostState.splits)+

lemma sched_Stats_sums:
  "st_Used (sched_Stats s is) = sum_list (map (tally used (hosts s)) is)"
  "st_Capacity (sched_Stats s is) =
     sum_list (map (tally (\<lambda>h. if state h = HostReady then capacity h else 0) (hosts s)) is)"
  by (simp_all add: sched_Stats_def stats_loop_sums)

lemma tally_count:
  assumes "finite (dom (hosts s))"
  shows "sum (tally (\<lambda>h. of_bool (P h)) (hosts s)) (dom (hosts s)) = int (card (hosts_with s P))"
proof -
  have "sum (tally (\<lambda>h. of_bool (P h)) (hosts s)) (dom (hosts s)) =
      (\<Sum>i\<in>dom (hosts s). if i \<in> hosts_with s P then 1 else 0)"
    by (intro sum.cong) (auto simp: tally_def hosts_with_def)
  also have "\<dots> = int (card (dom (hosts s) \<inter> hosts_with s P))"
    using assms by (simp add: sum.If_cases Collect_mem_eq)
  also have "dom (hosts s) \<inter> hosts_with s P = hosts_with s P"
    by (auto simp: hosts_with_def)
  finally show ?thesis .
qed

lemma sum_used:
  assumes inv: "sched_inv s"
  shows "sum (tally used (hosts s)) (dom (hosts s)) = int (card (dom (assigned s)))"
proof -
  have "dom (assigned s) = (\<Union>i\<in>dom (hosts s). vms_on s i)"
    using sched_invD(4) [OF inv] by (fastforce simp: vms_on_def)
  moreover have "card (\<Union>i\<in>dom (hosts s). vms_on s i) = (\<Sum>i\<in>dom (hosts s). card (vms_on s i))"
  proof (rule card_UN_disjoint)
    show "\<forall>i\<in>dom (hosts s). finite (vms_on s i)" using inv by simp
    show "\<forall>i\<in>dom (hosts s). \<forall>j\<in>dom (hosts s). i \<noteq> j \<longrightarrow> vms_on s i \<inter> vms_on s j = {}"
      by (auto simp: vms_on_def)
  qed (rule sched_invD(1) [OF inv])
  ultimately have "card (dom (assigned s)) = (\<Sum>i\<in>dom (hosts s). card (vms_on s i))" by simp
  also have "int \<dots> = (\<Sum>i\<in>dom (hosts s). tally used (hosts s) i)"
    using host_okD(5) [OF inv] by (auto simp: tally_def intro!: sum.cong)
  finally show ?thesis by simp
qed

subsection \<open>What the snapshots report\<close>

text \<open>Every counter of the summary, for any iteration order.\<close>

lemma sched_Stats_exact:
  assumes inv: "sched_inv s" and "iterates is (hosts s)"
  shows "sched_Stats s is =
    \<lparr>st_Hosts = int (card (dom (hosts s))),
     st_ReadyHosts = int (card (hosts_with s (\<lambda>h. state h = HostReady))),
     st_DrainingHosts = int (card (hosts_with s (\<lambda>h. state h = HostDraining))),
     st_IdleHosts = int (card (hosts_with s (\<lambda>h. state h = HostReady \<and> used h = 0))),
     st_UnderfilledHosts = int (card (hosts_with s (\<lambda>h. state h = HostReady \<and> used h = 1))),
     st_Capacity = (\<Sum>i\<in>hosts_with s (\<lambda>h. state h = HostReady). capacity (the (hosts s i))),
     st_Used = int (card (dom (assigned s))),
     st_InflightVMs = int (card (dom (assigned s)))\<rparr>"
proof -
  have "sum (tally (\<lambda>h. if state h = HostReady then capacity h else 0) (hosts s)) (dom (hosts s)) =
      (\<Sum>i\<in>dom (hosts s). if i \<in> hosts_with s (\<lambda>h. state h = HostReady)
         then capacity (the (hosts s i)) else 0)"
    by (intro sum.cong) (auto simp: tally_def hosts_with_def)
  also have "\<dots> = (\<Sum>i\<in>hosts_with s (\<lambda>h. state h = HostReady). capacity (the (hosts s i)))"
    using sched_invD(1) [OF inv]
    by (intro sum.mono_neutral_cong_right) (auto simp: hosts_with_def)
  finally have cap: "sum (tally (\<lambda>h. if state h = HostReady then capacity h else 0) (hosts s))
      (dom (hosts s)) = \<dots>" .
  show ?thesis
    by (rule Stats.equality)
      (simp_all add: sched_Stats_def stats_loop_sums iterates_sum [OF assms(2)]
        tally_count [OF sched_invD(1) [OF inv]] sum_used [OF inv] cap)
qed

text \<open>The fleet summary is exact in every reachable state, whatever the iteration
  order: host counts by state, idle and single-microVM ready hosts, the slots of the ready
  hosts, and the used slots of all hosts, which are the microVMs in flight.\<close>

theorem stats_exact:
  assumes "sched_reachable p s" and "iterates is (hosts s)"
  shows "sched_Stats s is =
    \<lparr>st_Hosts = int (card (dom (hosts s))),
     st_ReadyHosts = int (card (hosts_with s (\<lambda>h. state h = HostReady))),
     st_DrainingHosts = int (card (hosts_with s (\<lambda>h. state h = HostDraining))),
     st_IdleHosts = int (card (hosts_with s (\<lambda>h. state h = HostReady \<and> used h = 0))),
     st_UnderfilledHosts = int (card (hosts_with s (\<lambda>h. state h = HostReady \<and> used h = 1))),
     st_Capacity = (\<Sum>i\<in>hosts_with s (\<lambda>h. state h = HostReady). capacity (the (hosts s i))),
     st_Used = int (card (dom (assigned s))),
     st_InflightVMs = int (card (dom (assigned s)))\<rparr>"
  using reachable_inv [OF assms(1)] assms(2) by (blast intro: sched_Stats_exact)

theorem stats_exact_witness:
  "st_Used (sched_Stats (demo_run BestFit two_hosts) [''a'', ''b'']) = 1 \<and>
   st_Used (sched_Stats (demo_run BestFit two_hosts) [''a'', ''b'']) =
     int (card (dom (assigned (demo_run BestFit two_hosts))))"
proof -
  have it: "iterates [''a'', ''b''] (hosts (demo_run BestFit two_hosts))"
    by (rule demo_hosts) code_simp+
  have "iterates [''v1''] (assigned (demo_run BestFit two_hosts))"
    by (rule demo_assigned) code_simp+
  from iterates_length [OF this] stats_exact [OF demo_run_reachable it] show ?thesis by simp
qed

text \<open>As long as no host that is not ready still holds microVMs, the reported
  utilisation is a fraction between 0 and 1.\<close>

theorem utilisation_is_a_fraction:
  assumes "sched_reachable p s" and "iterates is (hosts s)"
    and "\<forall>i h. hosts s i = Some h \<and> state h \<noteq> HostReady \<longrightarrow> used h = 0"
  shows "0 \<le> Utilisation (sched_Stats s is) \<and> Utilisation (sched_Stats s is) \<le> 1"
proof -
  from reachable_inv [OF assms(1)] have inv: "sched_inv s" by simp
  let ?cap = "tally (\<lambda>h. if state h = HostReady then capacity h else 0) (hosts s)"
  have "sum (tally used (hosts s)) (dom (hosts s)) \<le> sum ?cap (dom (hosts s))"
  proof (rule sum_mono)
    fix i assume "i \<in> dom (hosts s)"
    then obtain h where h: "hosts s i = Some h" by blast
    with assms(3) host_okD(6) [OF inv h] show "tally used (hosts s) i \<le> ?cap i"
      by (auto simp: tally_def)
  qed
  moreover have "0 \<le> sum (tally used (hosts s)) (dom (hosts s))"
    by (simp add: sum_used [OF inv])
  ultimately have "0 \<le> st_Used (sched_Stats s is)" "st_Used (sched_Stats s is) \<le> st_Capacity (sched_Stats s is)"
    by (simp_all add: sched_Stats_sums iterates_sum [OF assms(2)])
  then show ?thesis by (simp add: Utilisation_def divide_le_eq)
qed

theorem utilisation_is_a_fraction_witness:
  "Utilisation (sched_Stats (demo_run BestFit [CallAddHost ''a'' 2]) [''a'']) \<le> 1"
proof -
  let ?s = "demo_run BestFit [CallAddHost ''a'' 2]"
  have it: "iterates [''a''] (hosts ?s)" by (rule demo_hosts) code_simp+
  have a: "map_option used (hosts ?s ''a'') = Some 0" by code_simp
  have "used h = 0" if "hosts ?s i = Some h" for i h
  proof -
    from that it have "i = ''a''" by (auto simp: iterates_def)
    with a that show ?thesis by simp
  qed
  then show ?thesis using utilisation_is_a_fraction [OF demo_run_reachable it] by blast
qed

text \<open>Without that condition it is not: the used slots count the microVMs on draining
  hosts, the capacity only the ready hosts, so a fleet with one draining and one ready host
  reports a utilisation above 1, and the number of free slots the readiness endpoint
  derives from the same two counters is negative.\<close>

theorem utilisation_exceeds_one_while_draining:
  "\<exists>s is. sched_reachable BestFit s \<and> iterates is (hosts s) \<and>
     1 < Utilisation (sched_Stats s is) \<and> st_Capacity (sched_Stats s is) - st_Used (sched_Stats s is) < 0"
proof -
  let ?cs = "[CallAddHost ''a'' 3, CallSetHostState ''a'' HostReady, CallPlace ''v1'', CallPlace ''v2'',
    CallPlace ''v3'', CallSetHostState ''a'' HostDraining, CallAddHost ''b'' 2, CallSetHostState ''b'' HostReady]"
  let ?s = "demo_run BestFit ?cs"
  have "iterates [''a'', ''b''] (hosts ?s)" by (rule demo_hosts) code_simp+
  moreover have "st_Used (sched_Stats ?s [''a'', ''b'']) = 3"
    unfolding sched_Stats_sums by code_simp
  moreover have "st_Capacity (sched_Stats ?s [''a'', ''b'']) = 2"
    unfolding sched_Stats_sums by code_simp
  ultimately show ?thesis
    using demo_run_reachable [of BestFit ?cs]
    by (intro exI [of _ ?s] exI [of _ "[''a'', ''b'']"]) (simp add: Utilisation_def)
qed

lemma hosts_loop_eq:
  "hosts_loop hs is out = out @ map snapshot (List.map_filter hs is)"
  by (induction "is" arbitrary: out) (auto simp: List.map_filter_simps split: option.splits)

text \<open>The host listing has one row per host, with the host's identifier, capacity, use
  and state, in the order in which the run-time iterates over the map.\<close>

theorem hosts_listing_complete:
  assumes "sched_reachable p s" and "iterates is (hosts s)"
  shows "map snap_ID (Hosts s is) = is \<and>
    (\<forall>row\<in>set (Hosts s is). hosts s (snap_ID row) = Some \<lparr>h_id = snap_ID row,
       capacity = snap_Capacity row, used = snap_Used row, state = snap_State row\<rparr>)"
proof -
  from reachable_inv [OF assms(1)] have inv: "sched_inv s" by simp
  have "map snap_ID (map snapshot (List.map_filter (hosts s) ks)) = ks" if "set ks \<subseteq> dom (hosts s)" for ks
    using that
  proof (induction ks)
    case (Cons i ks)
    then obtain h where "hosts s i = Some h" by auto
    with Cons host_okD(1) [OF inv this] show ?case
      by (simp add: List.map_filter_simps snapshot_def)
  qed (simp add: List.map_filter_simps)
  moreover have "set is \<subseteq> dom (hosts s)" using assms(2) by (simp add: iterates_def)
  moreover have "hosts s (snap_ID (snapshot h)) = Some \<lparr>h_id = snap_ID (snapshot h),
      capacity = snap_Capacity (snapshot h), used = snap_Used (snapshot h), state = snap_State (snapshot h)\<rparr>"
    if "hosts s i = Some h" for i h
    using that host_okD(1) [OF inv that] by (simp add: snapshot_def)
  ultimately show ?thesis by (auto simp: Hosts_def hosts_loop_eq map_filter_def)
qed

theorem hosts_listing_complete_witness:
  "map snap_ID (Hosts (demo_run BestFit two_hosts) [''b'', ''a'']) = [''b'', ''a'']"
proof -
  have "iterates [''b'', ''a''] (hosts (demo_run BestFit two_hosts))"
    by (rule demo_hosts) code_simp+
  from hosts_listing_complete [OF demo_run_reachable this] show ?thesis by (rule conjunct1)
qed

text \<open>The listing is not sorted by identifier: some reachable fleet and iteration order
  give it in descending order.\<close>

theorem hosts_listing_unsorted:
  "\<exists>s is. sched_reachable BestFit s \<and> iterates is (hosts s) \<and> \<not> sorted (map snap_ID (Hosts s is))"
proof -
  let ?s = "demo_run BestFit two_hosts"
  have it: "iterates [''b'', ''a''] (hosts ?s)" by (rule demo_hosts) code_simp+
  have "map snap_ID (Hosts ?s [''b'', ''a'']) = [''b'', ''a'']" by code_simp
  moreover have "\<not> sorted [''b'', ''a'']" by code_simp
  ultimately show ?thesis using it demo_run_reachable [of BestFit two_hosts] by metis
qed

end
