(* ===== verification/Registry.thy ===== *)
theory Registry
  imports SchedulerStats
begin

section \<open>The host registry (internal/registry/registry.go)\<close>

text \<open>
  Which vmhost agents are alive. The registry drives the scheduler: registration makes a
  host ready, silence or deregistration drains it, and the sweep removes drained hosts
  once they are empty or have held their slots for too long after their agent went away.

  A \<open>world\<close> is the registry, the scheduler it shares with the placement service, and the
  number of times the notifier has been signalled. Each operation here runs to its end
  before the next starts; instants come from the caller because the code reads them from
  the injected clock \<^verbatim>\<open>cfg.Now\<close>.
\<close>

subsection \<open>Configuration\<close>

definition DefaultHeartbeatTimeout :: duration where
  "DefaultHeartbeatTimeout = 6 * second"

definition DefaultSweepInterval :: duration where
  "DefaultSweepInterval = second"

definition ForceRemoveAfter :: duration where
  "ForceRemoveAfter = 30 * second"

record reg_config =
  HeartbeatTimeout :: duration
  SweepInterval :: duration

datatype reg_error =
    RegUnknownHost host_id
  | RegEmptyID
  | RegNilScheduler
  | RegBadHeartbeatTimeout duration
  | RegBadSweepInterval duration
  | RegScheduler sched_error

definition reg_applyDefaults :: "reg_config \<Rightarrow> reg_config" where
  "reg_applyDefaults c0 =
     (let c1 = (if HeartbeatTimeout c0 = 0 then c0\<lparr>HeartbeatTimeout := DefaultHeartbeatTimeout\<rparr> else c0)
      in if SweepInterval c1 = 0 then c1\<lparr>SweepInterval := DefaultSweepInterval\<rparr> else c1)"

definition reg_Validate :: "reg_config \<Rightarrow> reg_error option" where
  "reg_Validate c =
     (if HeartbeatTimeout c \<le> 0 then Some (RegBadHeartbeatTimeout (HeartbeatTimeout c))
      else if SweepInterval c \<le> 0 then Some (RegBadSweepInterval (SweepInterval c))
      else None)"

subsection \<open>State\<close>

record registry =
  reg_cfg :: reg_config
  has_notifier :: bool
  lastSeen :: "host_id \<rightharpoonup> instant"
  address :: "host_id \<rightharpoonup> string"
  drainingSince :: "host_id \<rightharpoonup> instant"
  orphaned :: u64

record world =
  reg :: registry
  sched :: scheduler
  signals :: nat

definition reg_New :: "scheduler option \<Rightarrow> bool \<Rightarrow> reg_config \<Rightarrow> reg_error + world" where
  "reg_New so nt cfg0 =
     (case so of
        None \<Rightarrow> Inl RegNilScheduler
      | Some s \<Rightarrow>
          (let cfg = reg_applyDefaults cfg0 in
           case reg_Validate cfg of
             Some e \<Rightarrow> Inl e
           | None \<Rightarrow> Inr \<lparr>reg = \<lparr>reg_cfg = cfg, has_notifier = nt, lastSeen = Map.empty,
               address = Map.empty, drainingSince = Map.empty, orphaned = 0\<rparr>, sched = s, signals = 0\<rparr>))"

subsection \<open>Registration, heartbeats, deregistration\<close>

definition Register ::
  "world \<Rightarrow> instant \<Rightarrow> host_id \<Rightarrow> int \<Rightarrow> string \<Rightarrow> ((reg_error + unit) \<times> world) option" where
  "Register w now i cap addr =
     (if i = '''' then Some (Inl RegEmptyID, w)
      else
        let known = (lastSeen (reg w) i \<noteq> None);
            r1 = (reg w)\<lparr>lastSeen := (lastSeen (reg w))(i \<mapsto> now)\<rparr>;
            r2 = (if addr \<noteq> '''' then r1\<lparr>address := (address r1)(i \<mapsto> addr)\<rparr> else r1);
            w1 = w\<lparr>reg := r2\<rparr>
        in if known then Some (Inr (), w1)
           else
             let (added, s1) = AddHost (sched w1) i cap;
                 fatal = (case added of
                            Inr _ \<Rightarrow> None
                          | Inl (ErrDuplicateHost _) \<Rightarrow> None
                          | Inl e \<Rightarrow> Some e)
             in (case fatal of
                   Some e \<Rightarrow>
                     Some (Inl (RegScheduler e),
                       w1\<lparr>sched := s1, reg := r2\<lparr>lastSeen := (lastSeen r2)(i := None),
                                             address := (address r2)(i := None)\<rparr>\<rparr>)
                 | None \<Rightarrow>
                     do {
                       (ready, s2) \<leftarrow> SetHostState s1 i HostReady;
                       (case ready of
                          Inl e \<Rightarrow> Some (Inl (RegScheduler e), w1\<lparr>sched := s2\<rparr>)
                        | Inr _ \<Rightarrow>
                            Some (Inr (), w1\<lparr>sched := s2,
                              signals := (if has_notifier r2 then signals w1 + 1 else signals w1)\<rparr>))
                     }))"

definition Heartbeat :: "world \<Rightarrow> instant \<Rightarrow> host_id \<Rightarrow> (reg_error + unit) \<times> world" where
  "Heartbeat w now i =
     (case lastSeen (reg w) i of
        None \<Rightarrow> (Inl (RegUnknownHost i), w)
      | Some _ \<Rightarrow> (Inr (), w\<lparr>reg := (reg w)\<lparr>lastSeen := (lastSeen (reg w))(i \<mapsto> now)\<rparr>\<rparr>))"

definition Deregister :: "world \<Rightarrow> instant \<Rightarrow> host_id \<Rightarrow> ((reg_error + unit) \<times> world) option" where
  "Deregister w now i =
     (let known = (lastSeen (reg w) i \<noteq> None);
          r1 = (reg w)\<lparr>lastSeen := (lastSeen (reg w))(i := None), address := (address (reg w))(i := None)\<rparr>;
          w1 = w\<lparr>reg := r1\<rparr>
      in if \<not> known then Some (Inl (RegUnknownHost i), w1)
         else
           let r2 = r1\<lparr>drainingSince := (drainingSince r1)(i \<mapsto> now)\<rparr> in
           do {
             (res, s1) \<leftarrow> SetHostState (sched w1) i HostDraining;
             Some (case res of Inl e \<Rightarrow> Inl (RegScheduler e) | Inr _ \<Rightarrow> Inr (),
               w1\<lparr>reg := r2, sched := s1\<rparr>)
           })"

subsection \<open>The sweep\<close>

text \<open>The hosts whose last heartbeat is older than the timeout, in iteration order.\<close>

fun expired_loop ::
  "reg_config \<Rightarrow> instant \<Rightarrow> (host_id \<rightharpoonup> instant) \<Rightarrow> host_id list \<Rightarrow> host_id list \<Rightarrow> host_id list" where
  "expired_loop cfg now seen [] expired = expired"
| "expired_loop cfg now seen (i # is) expired =
     expired_loop cfg now seen is
       (case seen i of
          Some t \<Rightarrow> (if time_sub now t > HeartbeatTimeout cfg then expired @ [i] else expired)
        | None \<Rightarrow> expired)"

fun forget_loop :: "host_id list \<Rightarrow> registry \<Rightarrow> registry" where
  "forget_loop [] r = r"
| "forget_loop (i # is) r =
     forget_loop is (r\<lparr>lastSeen := (lastSeen r)(i := None), address := (address r)(i := None)\<rparr>)"

fun drain_loop :: "instant \<Rightarrow> host_id list \<Rightarrow> world \<Rightarrow> world option" where
  "drain_loop now [] w = Some w"
| "drain_loop now (i # is) w =
     do {
       (_, s1) \<leftarrow> SetHostState (sched w) i HostDraining;
       let r1 = (case drainingSince (reg w) i of
                   None \<Rightarrow> (reg w)\<lparr>drainingSince := (drainingSince (reg w))(i \<mapsto> now)\<rparr>
                 | Some _ \<Rightarrow> reg w);
       drain_loop now is (w\<lparr>sched := s1, reg := r1\<rparr>)
     }"

text \<open>
  The loop of \<^verbatim>\<open>reapEmptyDrainingHosts\<close> over the snapshot of the hosts. \<open>ord i m\<close> is the
  iteration order of the assignments when \<^verbatim>\<open>RemoveHost\<close> removes host \<open>i\<close>.
\<close>

definition reap_one ::
  "instant \<Rightarrow> (host_id \<Rightarrow> (vm_id \<rightharpoonup> host_id) \<Rightarrow> vm_id list) \<Rightarrow> HostSnapshot \<Rightarrow> world \<Rightarrow> world option" where
  "reap_one now ord h w =
     (if snap_State h \<noteq> HostDraining then Some w
      else
        let stillTracked = (lastSeen (reg w) (snap_ID h) \<noteq> None) in
        if stillTracked then Some w
        else if snap_Used h \<noteq> 0 \<and>
                (case drainingSince (reg w) (snap_ID h) of
                   Some since \<Rightarrow> time_sub now since < ForceRemoveAfter
                 | None \<Rightarrow> False)
        then Some w
        else do {
          (res, s1) \<leftarrow> RemoveHost (sched w) (snap_ID h) (ord (snap_ID h) (assigned (sched w)));
          (case res of
             Inl _ \<Rightarrow> Some (w\<lparr>sched := s1\<rparr>)
           | Inr gone \<Rightarrow>
               let r1 = (if 0 < length gone
                         then (reg w)\<lparr>orphaned := orphaned (reg w) + of_nat (length gone)\<rparr>
                         else reg w)
               in Some (w\<lparr>sched := s1,
                    reg := r1\<lparr>drainingSince := (drainingSince r1)(snap_ID h := None)\<rparr>\<rparr>))
        })"

fun reap_loop ::
  "instant \<Rightarrow> (host_id \<Rightarrow> (vm_id \<rightharpoonup> host_id) \<Rightarrow> vm_id list) \<Rightarrow> HostSnapshot list \<Rightarrow> world \<Rightarrow> world option"
where
  "reap_loop now ord [] w = Some w"
| "reap_loop now ord (h # hs) w = Option.bind (reap_one now ord h w) (reap_loop now ord hs)"

text \<open>
  The iteration orders of one sweep: over \<^verbatim>\<open>lastSeen\<close>, over the hosts when the snapshot is
  taken, and over the assignments at each removal.
\<close>

record orders =
  seen_ord :: "(host_id \<rightharpoonup> instant) \<Rightarrow> host_id list"
  host_ord :: "(host_id \<rightharpoonup> host) \<Rightarrow> host_id list"
  vm_ord :: "host_id \<Rightarrow> (vm_id \<rightharpoonup> host_id) \<Rightarrow> vm_id list"

definition reapEmptyDrainingHosts :: "instant \<Rightarrow> orders \<Rightarrow> world \<Rightarrow> world option" where
  "reapEmptyDrainingHosts now os w =
     reap_loop now (vm_ord os) (Hosts (sched w) (host_ord os (hosts (sched w)))) w"

definition Sweep :: "instant \<Rightarrow> instant \<Rightarrow> orders \<Rightarrow> world \<Rightarrow> (int \<times> world) option" where
  "Sweep now now' os w =
     (let expired = expired_loop (reg_cfg (reg w)) now (lastSeen (reg w))
                      (seen_ord os (lastSeen (reg w))) [];
          w1 = w\<lparr>reg := forget_loop expired (reg w)\<rparr>
      in do {
           w2 \<leftarrow> drain_loop now expired w1;
           w3 \<leftarrow> reapEmptyDrainingHosts now' os w2;
           Some (int (length expired), w3)
         })"

definition Address :: "world \<Rightarrow> host_id \<Rightarrow> string option" where
  "Address w i = address (reg w) i"

definition Tracked :: "world \<Rightarrow> int" where
  "Tracked w = int (card (dom (lastSeen (reg w))))"

definition Orphaned :: "world \<Rightarrow> u64" where
  "Orphaned w = orphaned (reg w)"

end
