(* ===== verification/RegistryInv.thy ===== *)
theory RegistryInv
  imports Registry
begin

section \<open>The registry's invariant and the effect of each operation\<close>

text \<open>
  \<open>world_inv\<close>: the scheduler's invariant, and a host the scheduler knows is either ready
  and heartbeating, or draining, no longer heartbeating and stamped with the instant its
  drain began. Every operation returns and keeps it. The sweep's effect is given in closed
  form (\<open>Sweep_ok\<close>): which hosts it drains, which it removes and what that does to the
  microVMs.
\<close>

subsection \<open>The invariant\<close>

definition host_phase :: "world \<Rightarrow> host_id \<Rightarrow> host \<Rightarrow> bool" where
  "host_phase w i h \<longleftrightarrow>
     (if lastSeen (reg w) i \<noteq> None then state h = HostReady
      else state h = HostDraining \<and> drainingSince (reg w) i \<noteq> None)"

definition world_inv :: "world \<Rightarrow> bool" where
  "world_inv w \<longleftrightarrow> sched_inv (sched w) \<and>
     dom (lastSeen (reg w)) \<subseteq> dom (hosts (sched w)) \<and>
     dom (address (reg w)) \<subseteq> dom (lastSeen (reg w)) \<and>
     (\<forall>i h. hosts (sched w) i = Some h \<longrightarrow> host_phase w i h)"

lemma world_invD:
  assumes "world_inv w"
  shows "sched_inv (sched w)" "dom (lastSeen (reg w)) \<subseteq> dom (hosts (sched w))"
    "finite (dom (lastSeen (reg w)))"
    "dom (address (reg w)) \<subseteq> dom (lastSeen (reg w))"
    "hosts (sched w) i = Some h \<Longrightarrow> host_phase w i h"
  using assms finite_subset [of "dom (lastSeen (reg w))" "dom (hosts (sched w))"]
  by (auto simp: world_inv_def sched_inv_def)

lemma world_inv_seen:
  assumes "world_inv w" "lastSeen (reg w) i = Some t"
  shows "\<exists>h. hosts (sched w) i = Some h \<and> state h = HostReady"
proof -
  from world_invD(2) [OF assms(1)] assms(2) obtain h where h: "hosts (sched w) i = Some h" by blast
  from world_invD(5) [OF assms(1) h] assms(2) h show ?thesis by (simp add: host_phase_def)
qed

lemma world_inv_addr:
  assumes "world_inv w" "address (reg w) i = Some a" shows "\<exists>t. lastSeen (reg w) i = Some t"
  using world_invD(4) [OF assms(1)] assms(2) by blast

text \<open>Hosts changed at one key, registry maps changed at the same key.\<close>

lemma world_inv_put:
  assumes inv: "world_inv w" and s: "sched_inv (sched w')"
    and hs: "hosts (sched w') = (hosts (sched w))(i \<mapsto> h)"
    and seen: "\<And>j. j \<noteq> i \<Longrightarrow> lastSeen (reg w') j = lastSeen (reg w) j"
    and drain: "\<And>j. j \<noteq> i \<Longrightarrow> drainingSince (reg w') j = drainingSince (reg w) j"
    and addr: "\<And>j. j \<noteq> i \<Longrightarrow> address (reg w') j = address (reg w) j"
    and phase: "host_phase w' i h" and tracked: "address (reg w') i \<noteq> None \<Longrightarrow> lastSeen (reg w') i \<noteq> None"
  shows "world_inv w'"
proof -
  have "host_phase w' j h'" if "hosts (sched w') j = Some h'" for j h'
  proof (cases "j = i")
    case True
    with that hs phase show ?thesis by simp
  next
    case False
    with that hs have "host_phase w j h'" by (simp add: world_invD(5) [OF inv])
    with False seen drain show ?thesis by (simp add: host_phase_def)
  qed
  moreover have "dom (lastSeen (reg w')) \<subseteq> dom (hosts (sched w'))"
  proof
    fix j assume "j \<in> dom (lastSeen (reg w'))"
    with world_inv_seen [OF inv, of j] seen hs show "j \<in> dom (hosts (sched w'))"
      by (cases "j = i") auto
  qed
  moreover have "dom (address (reg w')) \<subseteq> dom (lastSeen (reg w'))"
  proof
    fix j assume "j \<in> dom (address (reg w'))"
    with world_inv_addr [OF inv, of j] seen addr tracked show "j \<in> dom (lastSeen (reg w'))"
      by (cases "j = i") auto
  qed
  ultimately show ?thesis using s by (simp add: world_inv_def)
qed

subsection \<open>Registration\<close>

lemma Register_known:
  assumes "i \<noteq> ''''" and "lastSeen (reg w) i \<noteq> None"
  shows "Register w now i cap addr = Some (Inr (),
    w\<lparr>reg := (reg w)\<lparr>lastSeen := (lastSeen (reg w))(i \<mapsto> now),
       address := (if addr \<noteq> '''' then (address (reg w))(i \<mapsto> addr) else address (reg w))\<rparr>\<rparr>)"
  using assms by (simp add: Register_def Let_def)

text \<open>
  A host that is not heartbeating: rejected for its capacity with nothing changed, or made
  ready, with the capacity it declares when it is new and the one it had when it is not.
\<close>

lemma AddHost_cases:
  assumes "sched_inv s"
  obtains (small) "cap < MinSlotsPerHost" "AddHost s i cap = (Inl (ErrInvalidCapacity i cap), s)"
    | (known) h where "MinSlotsPerHost \<le> cap" "hosts s i = Some h"
        "AddHost s i cap = (Inl (ErrDuplicateHost i), s)"
    | (new) s' where "MinSlotsPerHost \<le> cap" "hosts s i = None" "AddHost s i cap = (Inr (), s')"
        "sched_inv s'" "assigned s' = assigned s" "policy s' = policy s"
        "hosts s' = (hosts s)(i \<mapsto> \<lparr>h_id = i, capacity = cap, used = 0, state = HostPending\<rparr>)"
  using AddHost_ok [OF assms, of i cap] by (cases "AddHost s i cap") auto

lemma Register_small:
  assumes "world_inv w" "i \<noteq> ''''" "lastSeen (reg w) i = None" "cap < MinSlotsPerHost"
  shows "Register w now i cap addr = Some (Inl (RegScheduler (ErrInvalidCapacity i cap)), w)"
proof -
  have "address (reg w) i = None"
    using world_inv_addr [OF assms(1), of i] assms(3) by (cases "address (reg w) i") auto
  moreover have "AddHost (sched w) i cap = (Inl (ErrInvalidCapacity i cap), sched w)"
    using assms(4) by (simp add: AddHost_def)
  ultimately show ?thesis
    using assms(2,3) by (simp add: Register_def Let_def fun_upd_idem)
qed

text \<open>The registry record after a successful registration.\<close>

definition registered :: "registry \<Rightarrow> instant \<Rightarrow> host_id \<Rightarrow> string \<Rightarrow> registry" where
  "registered r now i addr = r\<lparr>lastSeen := (lastSeen r)(i \<mapsto> now),
     address := (if addr \<noteq> '''' then (address r)(i \<mapsto> addr) else address r)\<rparr>"

lemma Register_new:
  assumes inv: "world_inv w" and i: "i \<noteq> ''''" "lastSeen (reg w) i = None" "MinSlotsPerHost \<le> cap"
  shows "\<exists>s' c u. Register w now i cap addr = Some (Inr (),
      \<lparr>reg = registered (reg w) now i addr, sched = s',
       signals = (if has_notifier (reg w) then signals w + 1 else signals w)\<rparr>) \<and>
    sched_inv s' \<and> assigned s' = assigned (sched w) \<and> policy s' = policy (sched w) \<and>
    hosts s' = (hosts (sched w))(i \<mapsto> \<lparr>h_id = i, capacity = c, used = u, state = HostReady\<rparr>) \<and>
    (case hosts (sched w) i of None \<Rightarrow> c = cap \<and> u = 0 | Some h \<Rightarrow> c = capacity h \<and> u = used h)"
  using world_invD(1) [OF inv]
proof (cases rule: AddHost_cases [of "sched w" cap i])
  case small
  with i(3) show ?thesis by simp
next
  case (known h)
  from SetHostState_ok [OF world_invD(1) [OF inv] known(2), of HostReady] obtain s' where
    s': "SetHostState (sched w) i HostReady = Some (Inr (), s')" "sched_inv s'"
      "policy s' = policy (sched w)" "assigned s' = assigned (sched w)"
      "hosts s' = (hosts (sched w))(i \<mapsto> h\<lparr>state := HostReady\<rparr>)" by blast
  have "h_id h = i" by (rule host_okD(1) [OF world_invD(1) [OF inv] known(2)])
  then have "h\<lparr>state := HostReady\<rparr> = \<lparr>h_id = i, capacity = capacity h, used = used h, state = HostReady\<rparr>"
    by simp
  with s' known i show ?thesis
    by (intro exI [of _ s'] exI [of _ "capacity h"] exI [of _ "used h"])
      (auto simp: Register_def Let_def registered_def)
next
  case (new s1)
  let ?h = "\<lparr>h_id = i, capacity = cap, used = 0, state = HostPending\<rparr>"
  have "hosts s1 i = Some ?h" using new by simp
  from SetHostState_ok [OF new(4) this, of HostReady] new obtain s' where
    s': "SetHostState s1 i HostReady = Some (Inr (), s')" "sched_inv s'"
      "policy s' = policy (sched w)" "assigned s' = assigned (sched w)"
      "hosts s' = (hosts (sched w))(i \<mapsto> ?h\<lparr>state := HostReady\<rparr>)" by auto
  with new i show ?thesis
    by (intro exI [of _ s'] exI [of _ cap] exI [of _ 0])
      (auto simp: Register_def Let_def registered_def)
qed

lemma Register_inv:
  assumes inv: "world_inv w"
  shows "\<exists>r w'. Register w now i cap addr = Some (r, w') \<and> world_inv w'"
proof (cases "i = ''''")
  case True
  with inv show ?thesis by (simp add: Register_def)
next
  case i: False
  show ?thesis
  proof (cases "lastSeen (reg w) i")
    case (Some t)
    from world_inv_seen [OF inv this] obtain h where
      h: "hosts (sched w) i = Some h" "state h = HostReady" by blast
    let ?w = "w\<lparr>reg := registered (reg w) now i addr\<rparr>"
    have "world_inv ?w"
      by (rule world_inv_put [OF inv, where i = i and h = h])
        (use h world_invD(1) [OF inv] in \<open>auto simp: registered_def host_phase_def\<close>)
    then show ?thesis using Register_known [of i w now cap addr] i Some by (simp add: registered_def)
  next
    case None
    show ?thesis
    proof (cases "cap < MinSlotsPerHost")
      case True
      with inv i None show ?thesis by (simp add: Register_small)
    next
      case False
      with Register_new [OF inv i None, of cap now addr] obtain s' c u where
        s': "Register w now i cap addr = Some (Inr (), \<lparr>reg = registered (reg w) now i addr, sched = s',
            signals = (if has_notifier (reg w) then signals w + 1 else signals w)\<rparr>)" "sched_inv s'"
          "hosts s' = (hosts (sched w))(i \<mapsto> \<lparr>h_id = i, capacity = c, used = u, state = HostReady\<rparr>)"
        by auto
      have "world_inv \<lparr>reg = registered (reg w) now i addr, sched = s',
          signals = (if has_notifier (reg w) then signals w + 1 else signals w)\<rparr>"
        by (rule world_inv_put [OF inv]) (use s' in \<open>auto simp: registered_def host_phase_def\<close>)
      with s'(1) show ?thesis by blast
    qed
  qed
qed

subsection \<open>Heartbeats and deregistration\<close>

lemma Heartbeat_inv: "world_inv w \<Longrightarrow> world_inv (snd (Heartbeat w now i))"
proof (cases "lastSeen (reg w) i")
  case (Some t)
  assume inv: "world_inv w"
  from world_inv_seen [OF inv Some] obtain h where
    h: "hosts (sched w) i = Some h" "state h = HostReady" by blast
  let ?w = "w\<lparr>reg := (reg w)\<lparr>lastSeen := (lastSeen (reg w))(i \<mapsto> now)\<rparr>\<rparr>"
  have "world_inv ?w"
    by (rule world_inv_put [OF inv, where i = i and h = h])
      (use h world_invD(1) [OF inv] in \<open>auto simp: host_phase_def\<close>)
  with Some show ?thesis by (simp add: Heartbeat_def)
qed (simp add: Heartbeat_def)

lemma Deregister_ok:
  assumes inv: "world_inv w" and seen: "lastSeen (reg w) i = Some t"
  shows "\<exists>h w'. hosts (sched w) i = Some h \<and> Deregister w now i = Some (Inr (), w') \<and> world_inv w' \<and>
    hosts (sched w') = (hosts (sched w))(i \<mapsto> h\<lparr>state := HostDraining\<rparr>) \<and>
    assigned (sched w') = assigned (sched w) \<and> policy (sched w') = policy (sched w) \<and>
    reg w' = (reg w)\<lparr>lastSeen := (lastSeen (reg w))(i := None), address := (address (reg w))(i := None),
      drainingSince := (drainingSince (reg w))(i \<mapsto> now)\<rparr>"
proof -
  from world_inv_seen [OF inv seen] obtain h where h: "hosts (sched w) i = Some h" by blast
  from SetHostState_ok [OF world_invD(1) [OF inv] h, of HostDraining] obtain s' where
    s': "SetHostState (sched w) i HostDraining = Some (Inr (), s')" "sched_inv s'"
      "policy s' = policy (sched w)" "assigned s' = assigned (sched w)"
      "hosts s' = (hosts (sched w))(i \<mapsto> h\<lparr>state := HostDraining\<rparr>)" by blast
  let ?r = "(reg w)\<lparr>lastSeen := (lastSeen (reg w))(i := None), address := (address (reg w))(i := None),
      drainingSince := (drainingSince (reg w))(i \<mapsto> now)\<rparr>"
  let ?w = "w\<lparr>reg := ?r, sched := s'\<rparr>"
  have "world_inv ?w"
    by (rule world_inv_put [OF inv, where i = i and h = "h\<lparr>state := HostDraining\<rparr>"])
      (use s' in \<open>auto simp: host_phase_def\<close>)
  with h s' seen show ?thesis by (auto simp: Deregister_def Let_def)
qed

lemma Deregister_unknown:
  assumes "world_inv w" "lastSeen (reg w) i = None"
  shows "Deregister w now i = Some (Inl (RegUnknownHost i), w)"
proof -
  have "address (reg w) i = None"
    using world_inv_addr [OF assms(1), of i] assms(2) by (cases "address (reg w) i") auto
  with assms(2) show ?thesis by (simp add: Deregister_def Let_def fun_upd_idem)
qed

lemma Deregister_inv:
  assumes "world_inv w" shows "\<exists>r w'. Deregister w now i = Some (r, w') \<and> world_inv w'"
  using Deregister_ok [OF assms] Deregister_unknown [OF assms] assms
  by (cases "lastSeen (reg w) i") fastforce+

subsection \<open>The loops of the sweep\<close>

definition is_expired :: "world \<Rightarrow> instant \<Rightarrow> host_id \<Rightarrow> bool" where
  "is_expired w now i \<longleftrightarrow>
     (case lastSeen (reg w) i of
        Some t \<Rightarrow> time_sub now t > HeartbeatTimeout (reg_cfg (reg w)) | None \<Rightarrow> False)"

lemma expired_loop_eq:
  "expired_loop (reg_cfg (reg w)) now (lastSeen (reg w)) is acc = acc @ filter (is_expired w now) is"
  by (induction "is" arbitrary: acc) (auto simp: is_expired_def split: option.splits)

lemma forget_loop_eq:
  "forget_loop is r = r\<lparr>lastSeen := (\<lambda>i. if i \<in> set is then None else lastSeen r i),
     address := (\<lambda>i. if i \<in> set is then None else address r i)\<rparr>"
  by (induction "is" arbitrary: r) (auto simp: fun_eq_iff)

definition drained :: "instant \<Rightarrow> host_id set \<Rightarrow> registry \<Rightarrow> registry" where
  "drained now X r = r\<lparr>drainingSince :=
     (\<lambda>i. if i \<in> X \<and> drainingSince r i = None then Some now else drainingSince r i)\<rparr>"

definition set_states :: "HostState \<Rightarrow> host_id set \<Rightarrow> (host_id \<rightharpoonup> host) \<Rightarrow> (host_id \<rightharpoonup> host)" where
  "set_states st X hs = (\<lambda>i. if i \<in> X then map_option (\<lambda>h. h\<lparr>state := st\<rparr>) (hs i) else hs i)"

lemma set_states_insert:
  "hs i = Some h \<Longrightarrow> set_states st X (hs(i \<mapsto> h\<lparr>state := st\<rparr>)) = set_states st (insert i X) hs"
  by (auto simp: set_states_def fun_eq_iff)

lemma drain_loop_ok:
  assumes "sched_inv (sched w)" and "set is \<subseteq> dom (hosts (sched w))"
  shows "\<exists>s'. drain_loop now is w = Some (w\<lparr>sched := s', reg := drained now (set is) (reg w)\<rparr>) \<and>
    sched_inv s' \<and> policy s' = policy (sched w) \<and> assigned s' = assigned (sched w) \<and>
    hosts s' = set_states HostDraining (set is) (hosts (sched w))"
  using assms
proof (induction "is" arbitrary: w)
  case Nil
  then show ?case by (intro exI [of _ "sched w"]) (simp add: drained_def set_states_def)
next
  case (Cons i "is")
  from Cons.prems(2) obtain h where h: "hosts (sched w) i = Some h" by auto
  from SetHostState_ok [OF Cons.prems(1) h, of HostDraining] obtain s1 where
    s1: "SetHostState (sched w) i HostDraining = Some (Inr (), s1)" "sched_inv s1"
      "policy s1 = policy (sched w)" "assigned s1 = assigned (sched w)"
      "hosts s1 = (hosts (sched w))(i \<mapsto> h\<lparr>state := HostDraining\<rparr>)" by blast
  let ?w = "w\<lparr>sched := s1, reg := drained now {i} (reg w)\<rparr>"
  have step: "drain_loop now (i # is) w = drain_loop now is ?w"
    using s1(1) by (auto simp: drained_def fun_eq_iff Let_def split: option.splits
        intro!: arg_cong [of _ _ "drain_loop now is"])
  have "sched_inv (sched ?w)" "set is \<subseteq> dom (hosts (sched ?w))"
    using Cons.prems(2) s1(2,5) by auto
  from Cons.IH [OF this] obtain s' where
    s': "drain_loop now is ?w = Some (?w\<lparr>sched := s', reg := drained now (set is) (reg ?w)\<rparr>)"
      "sched_inv s'" "policy s' = policy (sched ?w)" "assigned s' = assigned (sched ?w)"
      "hosts s' = set_states HostDraining (set is) (hosts (sched ?w))" by blast
  have "drained now (set is) (drained now {i} (reg w)) = drained now (set (i # is)) (reg w)"
    by (auto simp: drained_def fun_eq_iff)
  with s' step show ?case
    by (intro exI [of _ s']) (simp add: s1(3-5) set_states_insert [where hs = "hosts (sched w)", OF h])
qed

subsection \<open>Removing drained hosts\<close>

definition reapable :: "world \<Rightarrow> instant \<Rightarrow> host_id \<Rightarrow> bool" where
  "reapable w now i \<longleftrightarrow>
     (case hosts (sched w) i of
        None \<Rightarrow> False
      | Some h \<Rightarrow>
          state h = HostDraining \<and> lastSeen (reg w) i = None \<and>
          (used h = 0 \<or>
           (case drainingSince (reg w) i of
              Some since \<Rightarrow> ForceRemoveAfter \<le> time_sub now since | None \<Rightarrow> True)))"

definition without :: "host_id set \<Rightarrow> (vm_id \<rightharpoonup> host_id) \<Rightarrow> (vm_id \<rightharpoonup> host_id)" where
  "without X asg = (\<lambda>v. case asg v of Some i \<Rightarrow> if i \<in> X then None else Some i | None \<Rightarrow> None)"

definition vms_in :: "host_id set \<Rightarrow> (vm_id \<rightharpoonup> host_id) \<Rightarrow> vm_id set" where
  "vms_in X asg = {v. \<exists>i\<in>X. asg v = Some i}"

text \<open>The world after the hosts \<open>X\<close> are gone, up to the scheduler's buckets.\<close>

definition reaped :: "host_id set \<Rightarrow> world \<Rightarrow> world \<Rightarrow> bool" where
  "reaped X w w' \<longleftrightarrow> sched_inv (sched w') \<and> policy (sched w') = policy (sched w) \<and>
     hosts (sched w') = hosts (sched w) |` (- X) \<and>
     assigned (sched w') = without X (assigned (sched w)) \<and>
     reg w' = (reg w)\<lparr>drainingSince := drainingSince (reg w) |` (- X),
       orphaned := orphaned (reg w) + of_nat (card (vms_in X (assigned (sched w))))\<rparr>"

lemma reaped_other:
  assumes "reaped X w w'" "j \<notin> X"
  shows "hosts (sched w') j = hosts (sched w) j" "lastSeen (reg w') = lastSeen (reg w)"
    "drainingSince (reg w') j = drainingSince (reg w) j" "reapable w' now j = reapable w now j"
proof -
  show eqs: "hosts (sched w') j = hosts (sched w) j" "lastSeen (reg w') = lastSeen (reg w)"
    "drainingSince (reg w') j = drainingSince (reg w) j"
    using assms by (simp_all add: reaped_def)
  show "reapable w' now j = reapable w now j" unfolding reapable_def eqs ..
qed

lemma reaped_empty: "sched_inv (sched w) \<Longrightarrow> reaped {} w w"
  by (simp add: reaped_def without_def vms_in_def restrict_map_def option.case_eq_if fun_eq_iff)

lemma without_without: "without Y (without X asg) = without (X \<union> Y) asg"
  by (auto simp: without_def fun_eq_iff split: option.splits)

lemma vms_in_without:
  assumes "finite (dom asg)" and "X \<inter> Y = {}"
  shows "card (vms_in (X \<union> Y) asg) = card (vms_in X asg) + card (vms_in Y (without X asg))"
proof -
  have fin: "finite (vms_in Z asg)" for Z
    by (rule finite_subset [OF _ assms(1)]) (auto simp: vms_in_def)
  have "vms_in Y (without X asg) = vms_in Y asg"
    using assms(2) by (auto simp: vms_in_def without_def split: option.splits if_splits)
  moreover have "vms_in (X \<union> Y) asg = vms_in X asg \<union> vms_in Y asg"
    by (auto simp: vms_in_def)
  moreover have "vms_in X asg \<inter> vms_in Y asg = {}"
    using assms(2) by (auto simp: vms_in_def)
  ultimately show ?thesis using fin by (simp add: card_Un_disjoint)
qed

lemma reaped_trans:
  assumes "sched_inv (sched w)" "reaped X w w1" "reaped Y w1 w2" "X \<inter> Y = {}"
  shows "reaped (X \<union> Y) w w2"
proof -
  have "finite (dom (assigned (sched w)))" by (rule sched_invD(2) [OF assms(1)])
  from vms_in_without [OF this assms(4)] assms(2,3) show ?thesis
    by (simp add: reaped_def without_without Int_commute)
qed

lemma reap_one_ok:
  assumes inv: "sched_inv (sched w)" and h: "hosts (sched w) i = Some h"
    and ord: "\<And>m. finite (dom m) \<Longrightarrow> iterates (ord i m) m"
  shows "\<exists>w'. reap_one now ord (snapshot h) w = Some w' \<and>
    reaped (if reapable w now i then {i} else {}) w w' \<and> signals w' = signals w"
proof -
  have id: "h_id h = i" by (rule host_okD(1) [OF inv h])
  show ?thesis
  proof (cases "reapable w now i")
    case False
    then have "reap_one now ord (snapshot h) w = Some w"
      using h id by (auto simp: reap_one_def reapable_def snapshot_def Let_def split: option.splits)
    with False inv show ?thesis by (simp add: reaped_empty)
  next
    case True
    let ?vms = "ord i (assigned (sched w))"
    let ?gone = "filter (\<lambda>v. assigned (sched w) v = Some i) ?vms"
    have it: "iterates ?vms (assigned (sched w))" by (rule ord [OF sched_invD(2) [OF inv]])
    from RemoveHost_ok [OF inv h it] obtain s' where
      s': "RemoveHost (sched w) i ?vms = Some (Inr ?gone, s')" "sched_inv s'"
        "policy s' = policy (sched w)" "hosts s' = (hosts (sched w))(i := None)"
        "assigned s' = (\<lambda>v. if assigned (sched w) v = Some i then None else assigned (sched w) v)"
      by blast
    let ?w = "w\<lparr>sched := s', reg := (reg w)\<lparr>orphaned := orphaned (reg w) + of_nat (length ?gone),
        drainingSince := (drainingSince (reg w))(i := None)\<rparr>\<rparr>"
    have code: "reap_one now ord (snapshot h) w = Some ?w"
      using True h id s'(1)
      by (auto simp: reap_one_def reapable_def snapshot_def Let_def split: option.splits)
    have "set ?gone = vms_in {i} (assigned (sched w))" "distinct ?gone"
      using it by (auto simp: iterates_def vms_in_def)
    then have len: "length ?gone = card (vms_in {i} (assigned (sched w)))"
      by (metis distinct_card)
    have "assigned s' = without {i} (assigned (sched w))"
      unfolding s'(5) by (auto simp: without_def fun_eq_iff split: option.splits)
    then have "reaped {i} w ?w"
      using s' len by (simp add: reaped_def delete_as_restrict)
    with code True show ?thesis by simp
  qed
qed

lemma reap_loop_ok:
  assumes "sched_inv (sched w)" and "distinct js" and "set js \<subseteq> dom (hosts (sched w))"
    and ord: "\<And>i m. finite (dom m) \<Longrightarrow> iterates (ord i m) m"
  shows "\<exists>w'. reap_loop now ord (map (\<lambda>i. snapshot (the (hosts (sched w) i))) js) w = Some w' \<and>
    reaped {i \<in> set js. reapable w now i} w w' \<and> signals w' = signals w"
  using assms(1-3)
proof (induction js arbitrary: w)
  case Nil
  then show ?case by (simp add: reaped_empty)
next
  case (Cons i js)
  from Cons.prems(3) obtain h where h: "hosts (sched w) i = Some h" by auto
  let ?X = "if reapable w now i then {i} else {}"
  from reap_one_ok [where ord = ord, OF Cons.prems(1) h ord] obtain w1 where
    w1: "reap_one now ord (snapshot h) w = Some w1" "reaped ?X w w1" "signals w1 = signals w" by blast
  have i: "i \<notin> set js" using Cons.prems(2) by simp
  then have other: "j \<in> set js \<Longrightarrow> j \<notin> ?X" for j by auto
  note same = reaped_other(1,4) [OF w1(2) other]
  have rows: "map (\<lambda>j. snapshot (the (hosts (sched w) j))) js =
      map (\<lambda>j. snapshot (the (hosts (sched w1) j))) js"
    by (simp add: same)
  have "set js \<subseteq> dom (hosts (sched w1))"
    using Cons.prems(3) by (auto simp: domIff same)
  moreover have "sched_inv (sched w1)" using w1(2) by (simp add: reaped_def)
  ultimately have "sched_inv (sched w1)" "distinct js" "set js \<subseteq> dom (hosts (sched w1))"
    using Cons.prems(2) by simp_all
  from Cons.IH [OF this] obtain w2 where
    w2: "reap_loop now ord (map (\<lambda>j. snapshot (the (hosts (sched w1) j))) js) w1 = Some w2"
      "reaped {j \<in> set js. reapable w1 now j} w1 w2" "signals w2 = signals w1" by blast
  have "{j \<in> set js. reapable w1 now j} = {j \<in> set js. reapable w now j}" using same(2) by blast
  with w2(2) have "reaped (?X \<union> {j \<in> set js. reapable w now j}) w w2"
    using i by (intro reaped_trans [OF Cons.prems(1) w1(2)]) auto
  also have "?X \<union> {j \<in> set js. reapable w now j} = {j \<in> set (i # js). reapable w now j}" by auto
  finally have "reaped {j \<in> set (i # js). reapable w now j} w w2" .
  moreover have "reap_loop now ord (map (\<lambda>j. snapshot (the (hosts (sched w) j))) (i # js)) w = Some w2"
    by (simp add: h w1(1) w2(1) rows)
  ultimately show ?case using w1(3) w2(3) by auto
qed

subsection \<open>The sweep as a whole\<close>

definition orders_ok :: "orders \<Rightarrow> bool" where
  "orders_ok os \<longleftrightarrow>
     (\<forall>m. finite (dom m) \<longrightarrow> iterates (seen_ord os m) m) \<and>
     (\<forall>m. finite (dom m) \<longrightarrow> iterates (host_ord os m) m) \<and>
     (\<forall>i m. finite (dom m) \<longrightarrow> iterates (vm_ord os i m) m)"

text \<open>Orders that visit the keys in ascending order, for the examples.\<close>

definition sorted_orders :: orders where
  "sorted_orders = \<lparr>seen_ord = (\<lambda>m. sorted_list_of_set (dom m)),
     host_ord = (\<lambda>m. sorted_list_of_set (dom m)), vm_ord = (\<lambda>_ m. sorted_list_of_set (dom m))\<rparr>"

lemma sorted_orders_ok: "orders_ok sorted_orders"
  by (simp add: orders_ok_def sorted_orders_def iterates_def)

definition forgotten :: "host_id set \<Rightarrow> registry \<Rightarrow> registry" where
  "forgotten X r = r\<lparr>lastSeen := lastSeen r |` (- X), address := address r |` (- X)\<rparr>"

text \<open>The world between the two halves of the sweep: the silent hosts are draining.\<close>

definition swept :: "instant \<Rightarrow> world \<Rightarrow> world \<Rightarrow> bool" where
  "swept now w w1 \<longleftrightarrow> (let E = {i. is_expired w now i} in
     sched_inv (sched w1) \<and> policy (sched w1) = policy (sched w) \<and>
     assigned (sched w1) = assigned (sched w) \<and>
     hosts (sched w1) = set_states HostDraining E (hosts (sched w)) \<and>
     reg w1 = drained now E (forgotten E (reg w)) \<and> signals w1 = signals w)"

lemma swept_inv:
  assumes inv: "world_inv w" and sw: "swept now w w1"
  shows "world_inv w1"
proof -
  let ?E = "{i. is_expired w now i}"
  have hs: "hosts (sched w1) = set_states HostDraining ?E (hosts (sched w))"
    and rg: "reg w1 = drained now ?E (forgotten ?E (reg w))" and s: "sched_inv (sched w1)"
    using sw by (simp_all add: swept_def Let_def)
  have "host_phase w1 i h" if "hosts (sched w1) i = Some h" for i h
  proof (cases "is_expired w now i")
    case True
    with that show ?thesis
      by (auto simp: hs rg host_phase_def set_states_def drained_def forgotten_def)
  next
    case False
    with that have "host_phase w i h"
      by (simp add: hs set_states_def world_invD(5) [OF inv])
    with False show ?thesis
      by (simp add: rg host_phase_def drained_def forgotten_def)
  qed
  moreover have "dom (lastSeen (reg w1)) \<subseteq> dom (hosts (sched w1))"
  proof -
    have "dom (lastSeen (reg w1)) \<subseteq> dom (lastSeen (reg w))"
      by (auto simp: rg drained_def forgotten_def)
    also have "\<dots> \<subseteq> dom (hosts (sched w))" by (rule world_invD(2) [OF inv])
    also have "\<dots> = dom (hosts (sched w1))" by (auto simp: hs set_states_def split: if_splits)
    finally show ?thesis .
  qed
  moreover have "dom (address (reg w1)) \<subseteq> dom (lastSeen (reg w1))"
    using world_invD(4) [OF inv] by (simp add: rg drained_def forgotten_def) blast
  ultimately show ?thesis using s by (simp add: world_inv_def)
qed

lemma reaped_inv:
  assumes inv: "world_inv w" and rp: "reaped X w w'" and X: "\<And>i. i \<in> X \<Longrightarrow> lastSeen (reg w) i = None"
  shows "world_inv w'"
proof -
  have phase: "host_phase w' i h" if "hosts (sched w') i = Some h" for i h
  proof -
    from that rp have "i \<notin> X" by (auto simp: reaped_def restrict_map_def split: if_splits)
    from reaped_other [OF rp this] that world_invD(5) [OF inv, of i h] show ?thesis
      by (simp add: host_phase_def)
  qed
  have "\<exists>h. hosts (sched w') i = Some h" if "lastSeen (reg w') i = Some t" for i t
  proof -
    from that rp have seen: "lastSeen (reg w) i = Some t" by (simp add: reaped_def)
    with X have "i \<notin> X" by auto
    from reaped_other(1) [OF rp this] world_inv_seen [OF inv seen] show ?thesis by auto
  qed
  then have "dom (lastSeen (reg w')) \<subseteq> dom (hosts (sched w'))" by blast
  moreover have "dom (address (reg w')) \<subseteq> dom (lastSeen (reg w'))"
    using world_invD(4) [OF inv] rp by (simp add: reaped_def)
  moreover have "sched_inv (sched w')" using rp by (simp add: reaped_def)
  ultimately show ?thesis using phase by (simp add: world_inv_def)
qed

lemma Hosts_map:
  assumes "set is \<subseteq> dom (hosts s)"
  shows "Hosts s is = map (\<lambda>i. snapshot (the (hosts s i))) is"
proof -
  have "List.map_filter (hosts s) is = map (\<lambda>i. the (hosts s i)) is"
    using assms by (induction "is") (auto simp: List.map_filter_simps)
  then show ?thesis by (simp add: Hosts_def hosts_loop_eq)
qed

lemma Sweep_ok:
  assumes inv: "world_inv w" and os: "orders_ok os"
  shows "\<exists>w1 w'. Sweep now now' os w = Some (int (card {i. is_expired w now i}), w') \<and>
    swept now w w1 \<and> world_inv w1 \<and> reaped {i. reapable w1 now' i} w1 w' \<and> world_inv w' \<and>
    signals w' = signals w"
proof -
  let ?E = "{i. is_expired w now i}"
  let ?ks = "seen_ord os (lastSeen (reg w))"
  let ?exp = "filter (is_expired w now) ?ks"
  have ks: "iterates ?ks (lastSeen (reg w))"
    using os world_invD(3) [OF inv] by (simp add: orders_ok_def)
  have "is_expired w now i \<Longrightarrow> i \<in> set ?ks" for i
    using ks by (auto simp: is_expired_def iterates_def split: option.splits)
  then have E: "set ?exp = ?E" by auto
  have card: "int (length ?exp) = int (card ?E)"
    using ks distinct_card [of ?exp] by (simp only: iterates_def distinct_filter E)
  let ?w0 = "w\<lparr>reg := forget_loop ?exp (reg w)\<rparr>"
  have forget: "forget_loop ?exp (reg w) = forgotten ?E (reg w)"
    unfolding forget_loop_eq E by (auto simp: forgotten_def restrict_map_def fun_eq_iff)
  have "?E \<subseteq> dom (hosts (sched w))"
    using world_invD(2) [OF inv] by (auto simp: is_expired_def split: option.splits)
  then have "sched_inv (sched ?w0)" "set ?exp \<subseteq> dom (hosts (sched ?w0))"
    using world_invD(1) [OF inv] by (simp_all only: E) simp_all
  from drain_loop_ok [OF this, of now] obtain s1 where
    drain: "drain_loop now ?exp ?w0 = Some (?w0\<lparr>sched := s1, reg := drained now ?E (forgotten ?E (reg w))\<rparr>)"
    and s1: "sched_inv s1" "policy s1 = policy (sched w)" "assigned s1 = assigned (sched w)"
      "hosts s1 = set_states HostDraining ?E (hosts (sched w))"
    unfolding E forget by auto
  define w1 where "w1 = ?w0\<lparr>sched := s1, reg := drained now ?E (forgotten ?E (reg w))\<rparr>"
  have sw: "swept now w w1" using s1 by (simp add: swept_def w1_def Let_def)
  have inv1: "world_inv w1" by (rule swept_inv [OF inv sw])
  let ?js = "host_ord os (hosts (sched w1))"
  have hs: "iterates ?js (hosts (sched w1))"
    using os sched_invD(1) [OF world_invD(1) [OF inv1]] by (simp add: orders_ok_def)
  have vo: "finite (dom m) \<Longrightarrow> iterates (vm_ord os i m) m" for i m
    using os by (simp add: orders_ok_def)
  have rows: "Hosts (sched w1) ?js = map (\<lambda>i. snapshot (the (hosts (sched w1) i))) ?js"
    by (rule Hosts_map) (use hs in \<open>simp add: iterates_def\<close>)
  from reap_loop_ok [where ord = "vm_ord os" and w = w1 and js = "?js" and now = now',
      OF world_invD(1) [OF inv1] _ _ vo] hs obtain w' where
    reap: "reapEmptyDrainingHosts now' os w1 = Some w'"
    and w': "reaped {i \<in> set ?js. reapable w1 now' i} w1 w'" "signals w' = signals w1"
    by (auto simp: reapEmptyDrainingHosts_def rows iterates_def)
  have "{i \<in> set ?js. reapable w1 now' i} = {i. reapable w1 now' i}"
    using hs by (auto simp: iterates_def reapable_def split: option.splits)
  with w'(1) have rp: "reaped {i. reapable w1 now' i} w1 w'" by simp
  have "world_inv w'"
    by (rule reaped_inv [OF inv1 rp]) (auto simp: reapable_def split: option.splits)
  moreover have "Sweep now now' os w = Some (int (card ?E), w')"
    using drain reap card by (simp add: Sweep_def expired_loop_eq w1_def)
  moreover have "signals w' = signals w" using w'(2) by (simp add: w1_def)
  ultimately show ?thesis using sw inv1 rp by blast
qed

end
