(* ===== verification/RegistryProps.thy ===== *)
theory RegistryProps
  imports RegistryInv
begin

section \<open>Properties of the registry\<close>

text \<open>
  The registry and the scheduler it shares with the placement service, over every sequence
  of registrations, heartbeats, deregistrations, sweeps, placements and releases.
\<close>

subsection \<open>Runs\<close>

datatype wcall =
    WRegister instant host_id int string
  | WHeartbeat instant host_id
  | WDeregister instant host_id
  | WSweep instant instant orders
  | WPlace vm_id
  | WRelease vm_id

fun world_exec :: "world \<Rightarrow> wcall \<Rightarrow> world option" where
  "world_exec w (WRegister now i cap addr) = map_option snd (Register w now i cap addr)"
| "world_exec w (WHeartbeat now i) = Some (snd (Heartbeat w now i))"
| "world_exec w (WDeregister now i) = map_option snd (Deregister w now i)"
| "world_exec w (WSweep now now' os) = map_option snd (Sweep now now' os w)"
| "world_exec w (WPlace vm) = map_option (\<lambda>(r, s). w\<lparr>sched := s\<rparr>) (Place (sched w) vm)"
| "world_exec w (WRelease vm) = map_option (\<lambda>(r, s). w\<lparr>sched := s\<rparr>) (Release (sched w) vm)"

fun wcall_ok :: "wcall \<Rightarrow> bool" where
  "wcall_ok (WSweep now now' os) = orders_ok os"
| "wcall_ok _ = True"

inductive world_reachable :: "world \<Rightarrow> bool" where
  start: "reg_New (Some (New p)) nt cfg = Inr w \<Longrightarrow> world_reachable w"
| step: "world_reachable w \<Longrightarrow> wcall_ok c \<Longrightarrow> world_exec w c = Some w' \<Longrightarrow> world_reachable w'"

lemma reg_New_inv: "reg_New (Some (New p)) nt cfg = Inr w \<Longrightarrow> world_inv w"
  by (auto simp: reg_New_def Let_def world_inv_def New_inv split: option.splits)
    (simp add: New_def)

text \<open>Placements and releases change no host's phase.\<close>

lemma world_inv_used:
  assumes inv: "world_inv w" and s: "sched_inv s'"
    and h: "hosts (sched w) i = Some h" and hs: "hosts s' = (hosts (sched w))(i \<mapsto> h\<lparr>used := u\<rparr>)"
  shows "world_inv (w\<lparr>sched := s'\<rparr>)"
proof (rule world_inv_put [OF inv])
  show "hosts (sched (w\<lparr>sched := s'\<rparr>)) = (hosts (sched w))(i \<mapsto> h\<lparr>used := u\<rparr>)" by (simp add: hs)
  show "host_phase (w\<lparr>sched := s'\<rparr>) i (h\<lparr>used := u\<rparr>)"
    using world_invD(5) [OF inv h] by (simp add: host_phase_def)
qed (use s world_inv_addr [OF inv] in auto)

lemma world_inv_served:
  assumes inv: "world_inv w" and s: "sched_inv s'"
    and hs: "hosts s' = hosts (sched w) \<or> (\<exists>i h u. hosts (sched w) i = Some h \<and>
      hosts s' = (hosts (sched w))(i \<mapsto> h\<lparr>used := u\<rparr>))"
  shows "world_inv (w\<lparr>sched := s'\<rparr>)"
  using hs
proof (elim disjE exE conjE)
  assume "hosts s' = hosts (sched w)"
  then show ?thesis using inv s by (simp add: world_inv_def host_phase_def)
qed (rule world_inv_used [OF inv s])

lemma world_Place:
  assumes inv: "world_inv w"
  shows "\<exists>r s'. Place (sched w) vm = Some (r, s') \<and> world_inv (w\<lparr>sched := s'\<rparr>)"
proof -
  from Place_cases [OF world_invD(1) [OF inv], of vm] obtain r s' where
    "Place (sched w) vm = Some (r, s')" "sched_inv s'"
    "hosts s' = hosts (sched w) \<or> (\<exists>i h u. hosts (sched w) i = Some h \<and>
      hosts s' = (hosts (sched w))(i \<mapsto> h\<lparr>used := u\<rparr>))" by blast
  with world_inv_served [OF inv] show ?thesis by blast
qed

lemma world_Release:
  assumes inv: "world_inv w"
  shows "\<exists>r s'. Release (sched w) vm = Some (r, s') \<and> world_inv (w\<lparr>sched := s'\<rparr>)"
proof -
  from Release_cases [OF world_invD(1) [OF inv], of vm] obtain r s' where
    "Release (sched w) vm = Some (r, s')" "sched_inv s'"
    "hosts s' = hosts (sched w) \<or> (\<exists>i h u. hosts (sched w) i = Some h \<and>
      hosts s' = (hosts (sched w))(i \<mapsto> h\<lparr>used := u\<rparr>))" by blast
  with world_inv_served [OF inv] show ?thesis by blast
qed

lemma world_exec_inv:
  assumes inv: "world_inv w" and "wcall_ok c"
  shows "\<exists>w'. world_exec w c = Some w' \<and> world_inv w'"
proof (cases c)
  case (WRegister now i cap addr)
  with Register_inv [OF inv, of now i cap addr] show ?thesis by auto
next
  case (WHeartbeat now i)
  with Heartbeat_inv [OF inv] show ?thesis by simp
next
  case (WDeregister now i)
  with Deregister_inv [OF inv, of now i] show ?thesis by auto
next
  case (WSweep now now' os)
  with Sweep_ok [OF inv, of os now now'] assms(2) show ?thesis by auto
next
  case (WPlace vm)
  with world_Place [OF inv, of vm] show ?thesis by auto
next
  case (WRelease vm)
  with world_Release [OF inv, of vm] show ?thesis by auto
qed

lemma world_reachable_inv: "world_reachable w \<Longrightarrow> world_inv w"
proof (induction rule: world_reachable.induct)
  case (start p nt cfg w)
  then show ?case by (rule reg_New_inv)
next
  case (step w c w')
  then show ?case using world_exec_inv [of w c] by simp
qed

fun world_run :: "world \<Rightarrow> wcall list \<Rightarrow> world option" where
  "world_run w [] = Some w"
| "world_run w (c # cs) = Option.bind (world_exec w c) (\<lambda>w'. world_run w' cs)"

lemma world_run_reachable:
  "world_reachable w \<Longrightarrow> world_run w cs = Some w' \<Longrightarrow> list_all wcall_ok cs \<Longrightarrow> world_reachable w'"
  by (induction cs arbitrary: w) (auto split: bind_splits intro: world_reachable.step)

definition demo_start :: world where
  "demo_start = \<lparr>reg = \<lparr>reg_cfg = \<lparr>HeartbeatTimeout = 6 * second, SweepInterval = second\<rparr>,
     has_notifier = True, lastSeen = Map.empty, address = Map.empty,
     drainingSince = Map.empty, orphaned = 0\<rparr>, sched = New BestFit, signals = 0\<rparr>"

definition demo_world :: "wcall list \<Rightarrow> world" where
  "demo_world cs = (case world_run demo_start cs of Some w \<Rightarrow> w | None \<Rightarrow> demo_start)"

lemma demo_start_reachable: "world_reachable demo_start"
proof (rule world_reachable.start)
  show "reg_New (Some (New BestFit)) True \<lparr>HeartbeatTimeout = 0, SweepInterval = 0\<rparr> = Inr demo_start"
    by (simp add: reg_New_def reg_applyDefaults_def reg_Validate_def demo_start_def Let_def
        DefaultHeartbeatTimeout_def DefaultSweepInterval_def second_def)
qed

lemma demo_world_reachable: "list_all wcall_ok cs \<Longrightarrow> world_reachable (demo_world cs)"
  using world_run_reachable [OF demo_start_reachable] demo_start_reachable
  by (auto simp: demo_world_def split: option.splits)

subsection \<open>Safety\<close>



subsection \<open>Registration\<close>

text \<open>Registering a host that is not heartbeating, with a name and at least two slots,
  succeeds: the host is ready, heartbeating from now on, keeps the microVMs it had, has the
  declared capacity if the scheduler did not know it and its old one otherwise; no other
  host and no assignment changes, and the notifier is signalled once if there is one.\<close>

theorem register_makes_ready:
  assumes "world_reachable w" and "i \<noteq> ''''" and "lastSeen (reg w) i = None"
    and "MinSlotsPerHost \<le> cap"
  shows "\<exists>w' h. Register w now i cap addr = Some (Inr (), w') \<and>
    hosts (sched w') = (hosts (sched w))(i \<mapsto> h) \<and> state h = HostReady \<and>
    capacity h = (case hosts (sched w) i of None \<Rightarrow> cap | Some g \<Rightarrow> capacity g) \<and>
    assigned (sched w') = assigned (sched w) \<and> lastSeen (reg w') i = Some now \<and>
    signals w' = signals w + (if has_notifier (reg w) then 1 else 0)"
proof -
  from Register_new [OF world_reachable_inv [OF assms(1)] assms(2-4), of now addr] obtain s' c u where
    "Register w now i cap addr = Some (Inr (), \<lparr>reg = registered (reg w) now i addr, sched = s',
       signals = (if has_notifier (reg w) then signals w + 1 else signals w)\<rparr>)"
    "assigned s' = assigned (sched w)"
    "hosts s' = (hosts (sched w))(i \<mapsto> \<lparr>h_id = i, capacity = c, used = u, state = HostReady\<rparr>)"
    "case hosts (sched w) i of None \<Rightarrow> c = cap \<and> u = 0 | Some h \<Rightarrow> c = capacity h \<and> u = used h"
    by blast
  then show ?thesis by (auto simp: registered_def split: option.splits)
qed

theorem register_makes_ready_witness:
  "\<exists>w' h. Register (demo_world []) 5 ''a'' 2 ''x'' = Some (Inr (), w') \<and>
     hosts (sched w') = (hosts (sched (demo_world [])))(''a'' \<mapsto> h) \<and> state h = HostReady"
proof -
  have "lastSeen (reg (demo_world [])) ''a'' = None" by code_simp
  from register_makes_ready [OF demo_world_reachable _ this, of 2 5 "''x''"]
  show ?thesis by (auto simp: MinSlotsPerHost_def)
qed

text \<open>Registering a host that is already heartbeating is a heartbeat: it cannot fail, the
  scheduler is untouched, whatever capacity is declared, and nobody is signalled; a
  non-empty address replaces the old one.\<close>

theorem register_is_idempotent:
  assumes "i \<noteq> ''''" and "lastSeen (reg w) i \<noteq> None"
  shows "\<exists>w'. Register w now i cap addr = Some (Inr (), w') \<and> sched w' = sched w \<and>
    signals w' = signals w \<and> lastSeen (reg w') = (lastSeen (reg w))(i \<mapsto> now) \<and>
    Address w' i = (if addr = '''' then Address w i else Some addr)"
  by (simp add: Register_known [OF assms] Address_def)

theorem register_is_idempotent_witness:
  "\<exists>w'. Register (demo_world [WRegister 0 ''a'' 2 ''x'']) 5 ''a'' 1 '''' = Some (Inr (), w') \<and>
     sched w' = sched (demo_world [WRegister 0 ''a'' 2 ''x''])"
proof -
  have "lastSeen (reg (demo_world [WRegister 0 ''a'' 2 ''x''])) ''a'' \<noteq> None" by code_simp
  from register_is_idempotent [OF _ this, of 5 1 "''''"] show ?thesis by auto
qed

text \<open>A registration the scheduler rejects for its capacity is rolled back: the whole
  state, registry and scheduler, is the one before the call.\<close>

theorem rejected_registration_rolls_back:
  assumes "world_reachable w" and "i \<noteq> ''''" and "lastSeen (reg w) i = None"
    and "cap < MinSlotsPerHost"
  shows "Register w now i cap addr = Some (Inl (RegScheduler (ErrInvalidCapacity i cap)), w)"
  using world_reachable_inv [OF assms(1)] assms(2-4) by (rule Register_small)

theorem rejected_registration_rolls_back_witness:
  "Register (demo_world []) 5 ''a'' 1 ''x'' =
     Some (Inl (RegScheduler (ErrInvalidCapacity ''a'' 1)), demo_world [])"
proof (rule rejected_registration_rolls_back)
  show "world_reachable (demo_world [])" by (rule demo_world_reachable) simp
  show "lastSeen (reg (demo_world [])) ''a'' = None" by code_simp
qed (simp_all add: MinSlotsPerHost_def)

subsection \<open>The sweep\<close>

text \<open>
  The instant a host's drain began, from the point of view of a sweep that started at
  \<open>now\<close>, and whether that sweep removes the host when it reaps at \<open>now'\<close>.
\<close>

definition drain_start :: "world \<Rightarrow> instant \<Rightarrow> host_id \<Rightarrow> instant" where
  "drain_start w now i = (case drainingSince (reg w) i of Some t \<Rightarrow> t | None \<Rightarrow> now)"

definition sweep_removes :: "world \<Rightarrow> instant \<Rightarrow> instant \<Rightarrow> host_id \<Rightarrow> bool" where
  "sweep_removes w now now' i \<longleftrightarrow>
     (is_expired w now i \<or> lastSeen (reg w) i = None) \<and>
     (case hosts (sched w) i of
        None \<Rightarrow> False
      | Some h \<Rightarrow> used h = 0 \<or> ForceRemoveAfter \<le> time_sub now' (drain_start w now i))"

lemma swept_reapable:
  assumes inv: "world_inv w" and sw: "swept now w w1"
  shows "reapable w1 now' i \<longleftrightarrow> sweep_removes w now now' i"
proof -
  let ?E = "{i. is_expired w now i}"
  have hs: "hosts (sched w1) = set_states HostDraining ?E (hosts (sched w))"
    and rg: "reg w1 = drained now ?E (forgotten ?E (reg w))"
    using sw by (simp_all add: swept_def Let_def)
  show ?thesis
  proof (cases "hosts (sched w) i")
    case None
    then show ?thesis by (simp add: reapable_def sweep_removes_def hs set_states_def)
  next
    case (Some h)
    from world_invD(5) [OF inv this] have phase: "host_phase w i h" .
    show ?thesis
    proof (cases "is_expired w now i")
      case True
      with Some show ?thesis
        by (auto simp: reapable_def sweep_removes_def drain_start_def hs rg set_states_def
            drained_def forgotten_def split: option.splits)
    next
      case False
      with Some phase show ?thesis
        by (cases "lastSeen (reg w) i")
          (auto simp: reapable_def sweep_removes_def drain_start_def hs rg set_states_def
            drained_def forgotten_def host_phase_def split: option.splits)
    qed
  qed
qed

lemma Sweep_effect:
  assumes inv: "world_inv w" and os: "orders_ok os" and run: "Sweep now now' os w = Some (n, w')"
  shows "n = int (card {i. is_expired w now i})"
    "lastSeen (reg w') i = (if is_expired w now i then None else lastSeen (reg w) i)"
    "hosts (sched w') i =
       (if sweep_removes w now now' i then None
        else if is_expired w now i then map_option (\<lambda>h. h\<lparr>state := HostDraining\<rparr>) (hosts (sched w) i)
        else hosts (sched w) i)"
    "assigned (sched w') = without {i. sweep_removes w now now' i} (assigned (sched w))"
    "drainingSince (reg w') i =
       (if sweep_removes w now now' i then None
        else if is_expired w now i then Some (drain_start w now i) else drainingSince (reg w) i)"
    "orphaned (reg w') = orphaned (reg w) +
       of_nat (card (vms_in {i. sweep_removes w now now' i} (assigned (sched w))))"
proof -
  from Sweep_ok [OF inv os, of now now'] run obtain w1 where
    n: "n = int (card {i. is_expired w now i})" and sw: "swept now w w1"
    and rp: "reaped {i. reapable w1 now' i} w1 w'" by auto
  from rp have rp: "reaped {i. sweep_removes w now now' i} w1 w'"
    by (simp only: swept_reapable [OF inv sw])
  show "n = int (card {i. is_expired w now i})" by (fact n)
  show "lastSeen (reg w') i = (if is_expired w now i then None else lastSeen (reg w) i)"
    "hosts (sched w') i =
       (if sweep_removes w now now' i then None
        else if is_expired w now i then map_option (\<lambda>h. h\<lparr>state := HostDraining\<rparr>) (hosts (sched w) i)
        else hosts (sched w) i)"
    "assigned (sched w') = without {i. sweep_removes w now now' i} (assigned (sched w))"
    "drainingSince (reg w') i =
       (if sweep_removes w now now' i then None
        else if is_expired w now i then Some (drain_start w now i) else drainingSince (reg w) i)"
    "orphaned (reg w') = orphaned (reg w) +
       of_nat (card (vms_in {i. sweep_removes w now now' i} (assigned (sched w))))"
    using rp sw by (auto simp: reaped_def swept_def Let_def drained_def forgotten_def
        set_states_def drain_start_def restrict_map_def split: option.splits)
qed



text \<open>A host that falls silent while it serves microVMs, and was not draining before, is
  drained, not deleted: after the sweep it is there, draining, with every microVM it had,
  provided the sweep itself takes less than the 30 seconds of grace.\<close>

theorem silent_host_keeps_its_vms:
  assumes "world_reachable w" and "orders_ok os" and "Sweep now now' os w = Some (n, w')"
    and "is_expired w now i" and "vms_on (sched w) i \<noteq> {}" and "drainingSince (reg w) i = None"
    and "now' - now < ForceRemoveAfter"
  shows "(\<exists>h. hosts (sched w') i = Some h \<and> state h = HostDraining) \<and>
    vms_on (sched w') i = vms_on (sched w) i"
proof -
  note inv = world_reachable_inv [OF assms(1)]
  from assms(4) obtain t where "lastSeen (reg w) i = Some t"
    by (auto simp: is_expired_def split: option.splits)
  from world_inv_seen [OF inv this] obtain h where h: "hosts (sched w) i = Some h" by blast
  have "used h \<noteq> 0"
    using host_okD(5) [OF world_invD(1) [OF inv] h] vms_on_finite [OF world_invD(1) [OF inv], of i]
      assms(5) by simp
  moreover have "time_sub now' now < ForceRemoveAfter"
    using assms(7) by (simp add: time_sub_less_iff ForceRemoveAfter_def second_def
        min_duration_def max_duration_def)
  ultimately have keep: "\<not> sweep_removes w now now' i"
    using h assms(6) by (simp add: sweep_removes_def drain_start_def)
  note eff = Sweep_effect [OF inv assms(2,3)]
  have "hosts (sched w') i = Some (h\<lparr>state := HostDraining\<rparr>)"
    using eff(3) [of i] keep assms(4) h by simp
  moreover have "vms_on (sched w') i = vms_on (sched w) i"
    using keep by (auto simp: vms_on_def eff(4) without_def split: option.splits if_splits)
  ultimately show ?thesis by auto
qed

text \<open>Slots of vanished agents do not leak: every host that a sweep leaves behind without
  a heartbeat still serves a microVM and began to drain less than 30 seconds before.\<close>

theorem sweep_bounds_leaked_slots:
  assumes "world_reachable w" and "orders_ok os" and "Sweep now now' os w = Some (n, w')"
    and "hosts (sched w') i = Some h" and "lastSeen (reg w') i = None"
  shows "state h = HostDraining \<and> vms_on (sched w') i \<noteq> {} \<and>
    (\<exists>since. drainingSince (reg w') i = Some since \<and> now' - since < ForceRemoveAfter)"
proof -
  note inv = world_reachable_inv [OF assms(1)]
  note eff = Sweep_effect [OF inv assms(2,3)]
  have inv': "world_inv w'"
    using Sweep_ok [OF inv assms(2), of now now'] assms(3) by auto
  have keep: "\<not> sweep_removes w now now' i" using eff(3) [of i] assms(4) by auto
  have silent: "is_expired w now i \<or> lastSeen (reg w) i = None"
    using eff(2) [of i] assms(5) by (auto split: if_splits)
  from keep silent eff(3) [of i] assms(4) have used: "used h \<noteq> 0"
    and recent: "time_sub now' (drain_start w now i) < ForceRemoveAfter"
    by (auto simp: sweep_removes_def split: option.splits if_splits)
  have phase: "state h = HostDraining" "drainingSince (reg w') i \<noteq> None"
    using world_invD(5) [OF inv' assms(4)] assms(5) by (simp_all add: host_phase_def)
  then have "drainingSince (reg w') i = Some (drain_start w now i)"
    using eff(5) [of i] keep by (auto simp: drain_start_def split: if_splits option.splits)
  moreover have "now' - drain_start w now i < ForceRemoveAfter"
    using recent by (simp add: time_sub_less_iff ForceRemoveAfter_def second_def
        min_duration_def max_duration_def)
  moreover have "vms_on (sched w') i \<noteq> {}"
    using host_okD(5) [OF world_invD(1) [OF inv'] assms(4)] used by auto
  ultimately show ?thesis using phase by blast
qed

text \<open>The orphan counter grows by exactly the number of microVMs whose slots the sweep
  reclaims, and no other assignment changes.\<close>

theorem sweep_counts_orphans:
  assumes "world_reachable w" and "orders_ok os" and "Sweep now now' os w = Some (n, w')"
  shows "assigned (sched w') \<subseteq>\<^sub>m assigned (sched w) \<and>
    Orphaned w' = Orphaned w + of_nat (card (dom (assigned (sched w)) - dom (assigned (sched w'))))"
proof -
  note eff = Sweep_effect [OF world_reachable_inv [OF assms(1)] assms(2,3)]
  let ?X = "{i. sweep_removes w now now' i}"
  have "vms_in ?X (assigned (sched w)) = dom (assigned (sched w)) - dom (assigned (sched w'))"
    by (auto simp: eff(4) vms_in_def without_def split: option.splits if_splits)
  moreover have "assigned (sched w') \<subseteq>\<^sub>m assigned (sched w)"
    by (auto simp: eff(4) map_le_def without_def split: option.splits if_splits)
  ultimately show ?thesis using eff(6) by (simp add: Orphaned_def)
qed

subsection \<open>One run, for the examples\<close>

text \<open>
  Host \<open>a\<close> registers, drains, registers again and takes a microVM; its last heartbeat is at
  second 32. The sweep of second 39 is the first to find it silent.
\<close>

definition rejoin_run :: "wcall list" where
  "rejoin_run = [WRegister 0 ''a'' 2 ''x'', WDeregister (1 * second) ''a'',
     WRegister (2 * second) ''a'' 2 ''x'', WPlace ''v1'', WHeartbeat (32 * second) ''a'']"

definition plain_run :: "wcall list" where
  "plain_run = [WRegister 0 ''a'' 2 ''x'', WPlace ''v1'', WHeartbeat (32 * second) ''a'']"

lemma demo_sweep:
  assumes "list_all wcall_ok cs"
  shows "\<exists>n w'. Sweep now now' sorted_orders (demo_world cs) = Some (n, w')"
  using Sweep_ok [OF world_reachable_inv [OF demo_world_reachable [OF assms]] sorted_orders_ok]
  by blast

lemma plain_run_facts:
  "list_all wcall_ok plain_run"
  "is_expired (demo_world plain_run) (39 * second) ''a''"
  "drainingSince (reg (demo_world plain_run)) ''a'' = None"
  "assigned (sched (demo_world plain_run)) ''v1'' = Some ''a''"
  by (simp add: plain_run_def) code_simp+

theorem silent_host_keeps_its_vms_witness:
  "\<exists>n w'. Sweep (39 * second) (39 * second) sorted_orders (demo_world plain_run) = Some (n, w') \<and>
     vms_on (sched w') ''a'' = vms_on (sched (demo_world plain_run)) ''a''"
proof -
  note f = plain_run_facts
  from demo_sweep [OF f(1)] obtain n w' where
    s: "Sweep (39 * second) (39 * second) sorted_orders (demo_world plain_run) = Some (n, w')" by blast
  have "vms_on (sched (demo_world plain_run)) ''a'' \<noteq> {}" using f(4) by (auto simp: vms_on_def)
  from silent_host_keeps_its_vms [OF demo_world_reachable [OF f(1)] sorted_orders_ok s f(2) this f(3)] s
  show ?thesis by (auto simp: ForceRemoveAfter_def second_def)
qed

theorem sweep_bounds_leaked_slots_witness:
  "\<exists>n w' since. Sweep (39 * second) (39 * second) sorted_orders (demo_world plain_run) = Some (n, w') \<and>
     drainingSince (reg w') ''a'' = Some since \<and> 39 * second - since < ForceRemoveAfter"
proof -
  note f = plain_run_facts
  note inv = world_reachable_inv [OF demo_world_reachable [OF f(1)]]
  from demo_sweep [OF f(1)] obtain n w' where
    s: "Sweep (39 * second) (39 * second) sorted_orders (demo_world plain_run) = Some (n, w')" by blast
  have "\<not> sweep_removes (demo_world plain_run) (39 * second) (39 * second) ''a''" by code_simp
  moreover have "hosts (sched (demo_world plain_run)) ''a'' \<noteq> None" by code_simp
  ultimately obtain h where h: "hosts (sched w') ''a'' = Some h"
    using Sweep_effect(3) [OF inv sorted_orders_ok s, of "''a''"] f(2) by auto
  have "lastSeen (reg w') ''a'' = None"
    using Sweep_effect(2) [OF inv sorted_orders_ok s, of "''a''"] f(2) by simp
  from sweep_bounds_leaked_slots [OF demo_world_reachable [OF f(1)] sorted_orders_ok s h this] s
  show ?thesis by blast
qed

theorem sweep_counts_orphans_witness:
  "\<exists>n w'. Sweep (39 * second) (39 * second) sorted_orders (demo_world plain_run) = Some (n, w') \<and>
     Orphaned w' = Orphaned (demo_world plain_run) +
       of_nat (card (dom (assigned (sched (demo_world plain_run))) - dom (assigned (sched w'))))"
proof -
  note f = plain_run_facts
  from demo_sweep [OF f(1)] obtain n w' where
    s: "Sweep (39 * second) (39 * second) sorted_orders (demo_world plain_run) = Some (n, w')" by blast
  from sweep_counts_orphans [OF demo_world_reachable [OF f(1)] sorted_orders_ok s] s
  show ?thesis by blast
qed

text \<open>The grace period is lost on a host that comes back: registering again makes it ready
  but leaves the stamp of its earlier drain in place, so when it later falls silent with a
  microVM running, the very sweep that first notices removes it and orphans the microVM,
  here seven seconds after its last heartbeat.\<close>

theorem rejoined_host_loses_its_grace:
  "\<exists>w n w'. world_reachable w \<and> hosts (sched w) ''a'' \<noteq> None \<and>
     lastSeen (reg w) ''a'' = Some (32 * second) \<and> assigned (sched w) ''v1'' = Some ''a'' \<and>
     Sweep (39 * second) (39 * second) sorted_orders w = Some (n, w') \<and>
     hosts (sched w') ''a'' = None \<and> assigned (sched w') ''v1'' = None"
proof -
  let ?w = "demo_world rejoin_run"
  have ok: "list_all wcall_ok rejoin_run" by (simp add: rejoin_run_def)
  note w = demo_world_reachable [OF ok]
  from demo_sweep [OF ok] obtain n w' where
    s: "Sweep (39 * second) (39 * second) sorted_orders ?w = Some (n, w')" by blast
  have gone: "sweep_removes ?w (39 * second) (39 * second) ''a''" by code_simp
  have v1: "assigned (sched ?w) ''v1'' = Some ''a''" by code_simp
  note eff = Sweep_effect [OF world_reachable_inv [OF w] sorted_orders_ok s]
  have "hosts (sched w') ''a'' = None" using eff(3) [of "''a''"] gone by simp
  moreover have "assigned (sched w') ''v1'' = None" using eff(4) gone v1 by (simp add: without_def)
  moreover have "hosts (sched ?w) ''a'' \<noteq> None" "lastSeen (reg ?w) ''a'' = Some (32 * second)"
    by code_simp+
  ultimately show ?thesis using w v1 s by blast
qed

end
