(* ===== verification/Machine.thy ===== *)
theory Machine
  imports Prelude
begin

section \<open>Machines driven by events\<close>

text \<open>
  A component whose goroutines interleave is modelled as a partial step function from
  events to state changes. This theory has the runs of such a machine and, as locales, the
  two arguments the components make about all runs: an invariant every step keeps, and a
  budget every step spends from. It also has the tally of a map, which the counters of the
  components are compared with.
\<close>

subsection \<open>Runs\<close>

fun run :: "('e \<Rightarrow> 's \<Rightarrow> 's option) \<Rightarrow> 'e list \<Rightarrow> 's \<Rightarrow> 's option" where
  "run step [] s = Some s"
| "run step (e # es) s = Option.bind (step e s) (run step es)"

lemma bind_run_Nil [simp]: "Option.bind x (run step []) = x"
  by (cases x) simp_all

lemma run_append: "run step (es @ fs) s = Option.bind (run step es s) (run step fs)"
  by (induction es arbitrary: s) (auto split: bind_splits)

lemma run_ConsE:
  assumes "run step (e # es) s = Some s'"
  obtains s1 where "step e s = Some s1" "run step es s1 = Some s'"
  using assms by (auto split: bind_splits)

locale machine =
  fixes step :: "'e \<Rightarrow> 's \<Rightarrow> 's option"
    and good :: "'s \<Rightarrow> bool"
  assumes step_good: "good s \<Longrightarrow> step e s = Some s' \<Longrightarrow> good s'"
begin

lemma run_good: "good s \<Longrightarrow> run step es s = Some s' \<Longrightarrow> good s'"
  by (induction es arbitrary: s) (auto split: bind_splits dest: step_good)

text \<open>What every step from a good state keeps, every run keeps.\<close>

lemma run_keeps:
  assumes "good s" and "run step es s = Some s'" and "P s"
    and "\<And>e s s'. good s \<Longrightarrow> P s \<Longrightarrow> step e s = Some s' \<Longrightarrow> P s'"
  shows "P s'"
  using assms(1-3)
proof (induction es arbitrary: s)
  case (Cons e es)
  from Cons.prems(2) obtain s1 where s1: "step e s = Some s1" "run step es s1 = Some s'"
    by (rule run_ConsE)
  show ?case
    using Cons.IH [OF step_good [OF Cons.prems(1) s1(1)] s1(2)] assms(4) [OF Cons.prems(1,3) s1(1)]
    by blast
qed simp

end

locale budget_machine = machine step good
  for step :: "'e \<Rightarrow> 's \<Rightarrow> 's option" and good :: "'s \<Rightarrow> bool" +
  fixes budget :: "'s \<Rightarrow> nat"
    and cost :: "'e \<Rightarrow> nat"
  assumes step_budget: "good s \<Longrightarrow> step e s = Some s' \<Longrightarrow> budget s' + cost e \<le> budget s"
begin

lemma run_budget:
  "good s \<Longrightarrow> run step es s = Some s' \<Longrightarrow> budget s' + sum_list (map cost es) \<le> budget s"
proof (induction es arbitrary: s)
  case (Cons e es)
  from Cons.prems(2) obtain s1 where s1: "step e s = Some s1" "run step es s1 = Some s'"
    by (rule run_ConsE)
  show ?case
    using Cons.IH [OF step_good [OF Cons.prems(1) s1(1)] s1(2)] step_budget [OF Cons.prems(1) s1(1)]
    by simp
qed simp

lemma cost_bounded: "good s \<Longrightarrow> run step es s = Some s' \<Longrightarrow> sum_list (map cost es) \<le> budget s"
  using run_budget by fastforce

end

text \<open>A machine each of whose steps is a run of another one, seen through \<open>abs\<close>: so is each of its
  runs, and what the runs of the other one promise holds of it.\<close>

locale simulation = machine step good
  for step :: "'e \<Rightarrow> 's \<Rightarrow> 's option" and good :: "'s \<Rightarrow> bool" +
  fixes step' :: "'f \<Rightarrow> 't \<Rightarrow> 't option"
    and abs :: "'s \<Rightarrow> 't"
  assumes step_simulated: "good s \<Longrightarrow> step e s = Some s' \<Longrightarrow> \<exists>fs. run step' fs (abs s) = Some (abs s')"
begin

lemma run_simulated: "good s \<Longrightarrow> run step es s = Some s' \<Longrightarrow> \<exists>fs. run step' fs (abs s) = Some (abs s')"
proof (induction es arbitrary: s)
  case Nil
  then have "run step' [] (abs s) = Some (abs s')" by simp
  then show ?case by blast
next
  case (Cons e es)
  from Cons.prems(2) obtain s1 where s1: "step e s = Some s1" "run step es s1 = Some s'"
    by (rule run_ConsE)
  from step_simulated [OF Cons.prems(1) s1(1)] Cons.IH [OF step_good [OF Cons.prems(1) s1(1)] s1(2)]
  obtain fs gs where "run step' fs (abs s) = Some (abs s1)" "run step' gs (abs s1) = Some (abs s')" by blast
  then have "run step' (fs @ gs) (abs s) = Some (abs s')" by (simp add: run_append)
  then show ?case by blast
qed

end

subsection \<open>Tallies\<close>

text \<open>How many entries of a map satisfy a predicate, as a 64-bit counter holds it.\<close>

definition tally :: "('v \<Rightarrow> bool) \<Rightarrow> ('k \<rightharpoonup> 'v) \<Rightarrow> u64" where
  "tally P m = of_nat (card {k. \<exists>v. m k = Some v \<and> P v})"

definition bit_of :: "bool \<Rightarrow> u64" where
  "bit_of b = (if b then 1 else 0)"

lemma bit_of_simps [simp]: "bit_of True = 1" "bit_of False = 0"
  by (simp_all add: bit_of_def)

lemma tally_empty [simp]: "tally P Map.empty = 0"
  by (simp add: tally_def)

lemma tally_put:
  assumes fin: "finite (dom m)"
  shows "tally P (m(k \<mapsto> v)) =
    tally P m + bit_of (P v) - bit_of (case m k of None \<Rightarrow> False | Some u \<Rightarrow> P u)"
proof -
  let ?A = "{j. j \<noteq> k \<and> (\<exists>v. m j = Some v \<and> P v)}"
  have A: "finite ?A" by (rule finite_subset [OF _ fin]) auto
  have "{j. \<exists>u. (m(k \<mapsto> v)) j = Some u \<and> P u} = (if P v then insert k ?A else ?A)" by auto
  then have 1: "tally P (m(k \<mapsto> v)) = of_nat (card ?A) + bit_of (P v)"
    using A by (simp add: tally_def)
  have "{j. \<exists>u. m j = Some u \<and> P u} =
      (if (case m k of None \<Rightarrow> False | Some u \<Rightarrow> P u) then insert k ?A else ?A)"
    by (auto split: option.splits)
  then have "tally P m = of_nat (card ?A) + bit_of (case m k of None \<Rightarrow> False | Some u \<Rightarrow> P u)"
    using A by (simp add: tally_def)
  with 1 show ?thesis by simp
qed

lemma tally_add:
  assumes "finite (dom m)" and "\<And>v. \<not> (P v \<and> Q v)"
  shows "tally (\<lambda>v. P v \<or> Q v) m = tally P m + tally Q m"
proof -
  have "{k. \<exists>v. m k = Some v \<and> (P v \<or> Q v)} =
      {k. \<exists>v. m k = Some v \<and> P v} \<union> {k. \<exists>v. m k = Some v \<and> Q v}" by auto
  moreover have "finite {k. \<exists>v. m k = Some v \<and> R v}" for R
    by (rule finite_subset [OF _ assms(1)]) auto
  moreover have "{k. \<exists>v. m k = Some v \<and> P v} \<inter> {k. \<exists>v. m k = Some v \<and> Q v} = {}"
    using assms(2) by auto
  ultimately show ?thesis by (simp add: tally_def card_Un_disjoint)
qed

text \<open>The same without wrapping, as an integer.\<close>

definition census :: "('v \<Rightarrow> bool) \<Rightarrow> ('k \<rightharpoonup> 'v) \<Rightarrow> int" where
  "census P m = int (card {k. \<exists>v. m k = Some v \<and> P v})"

lemma census_empty [simp]: "census P Map.empty = 0"
  by (simp add: census_def)

lemma census_put:
  assumes fin: "finite (dom m)"
  shows "census P (m(k \<mapsto> v)) = census P m + of_bool (P v) -
    of_bool (case m k of None \<Rightarrow> False | Some u \<Rightarrow> P u)"
proof -
  let ?A = "{j. j \<noteq> k \<and> (\<exists>v. m j = Some v \<and> P v)}"
  have A: "finite ?A" by (rule finite_subset [OF _ fin]) auto
  have "{j. \<exists>u. (m(k \<mapsto> v)) j = Some u \<and> P u} = (if P v then insert k ?A else ?A)" by auto
  then have 1: "census P (m(k \<mapsto> v)) = int (card ?A) + of_bool (P v)"
    using A by (simp add: census_def)
  have "{j. \<exists>u. m j = Some u \<and> P u} =
      (if (case m k of None \<Rightarrow> False | Some u \<Rightarrow> P u) then insert k ?A else ?A)"
    by (auto split: option.splits)
  then have "census P m = int (card ?A) + of_bool (case m k of None \<Rightarrow> False | Some u \<Rightarrow> P u)"
    using A by (simp add: census_def)
  with 1 show ?thesis by simp
qed

lemma census_zero: "finite (dom m) \<Longrightarrow> census P m = 0 \<Longrightarrow> m k = Some v \<Longrightarrow> \<not> P v"
proof
  assume fin: "finite (dom m)" and "census P m = 0" and v: "m k = Some v" "P v"
  have "finite {k. \<exists>v. m k = Some v \<and> P v}" by (rule finite_subset [OF _ fin]) auto
  with \<open>census P m = 0\<close> have "{k. \<exists>v. m k = Some v \<and> P v} = {}" by (simp add: census_def)
  with v show False by blast
qed

lemma census_nonneg [simp]: "0 \<le> census P m"
  by (simp add: census_def)

end
