(* ===== verification/RegistrySteps.thy ===== *)
theory RegistrySteps
  imports RegistryProps Machine
begin

section \<open>The registry between its critical sections (internal/registry/registry.go)\<close>

text \<open>
  The registry guards its maps with a mutex of its own and calls the scheduler, which has
  another, after it has released it. Here every operation is a goroutine that takes one step
  per critical section, per call of the scheduler and per read of the clock, so that the
  operations interleave. Run on its own each goroutine does what the operation of theory
  \<open>Registry\<close> does; interleaved they keep the scheduler's contract and never panic, but they can
  leave a host that heartbeats without ever getting work.
\<close>

subsection \<open>The goroutines\<close>

text \<open>\<open>RgRegister\<close>, \<open>RgHeartbeat\<close>, \<open>RgDeregister\<close> and \<open>RgSweep\<close> are calls about to begin; the
  constructors after each are its later steps.\<close>

datatype reg_task =
    RgRegister host_id int string
  | RgAdd host_id int
  | RgRollback host_id sched_error
  | RgReady host_id
  | RgNotify
  | RgHeartbeat host_id
  | RgDeregister host_id
  | RgStamp host_id
  | RgDrain host_id
  | RgSweep
  | RgSweepDrain instant int "host_id list"
  | RgSweepStamp instant int host_id "host_id list"
  | RgSweepList int
  | RgSweepReap instant int "HostSnapshot list"
  | RgSweepRemove instant int HostSnapshot "HostSnapshot list"
  | RgSweepForget instant int HostSnapshot "HostSnapshot list"
  | RgReturned "reg_error + unit"
  | RgSwept int

text \<open>The first critical section of \<^verbatim>\<open>Register\<close>, its call of \<^verbatim>\<open>AddHost\<close>, the rollback, and its call
  of \<^verbatim>\<open>SetHostState\<close>.\<close>

definition register_begin :: "instant \<Rightarrow> host_id \<Rightarrow> int \<Rightarrow> string \<Rightarrow> world \<Rightarrow> reg_task \<times> world" where
  "register_begin now i cap addr w =
     (if i = '''' then (RgReturned (Inl RegEmptyID), w)
      else
        let known = (lastSeen (reg w) i \<noteq> None);
            r1 = (reg w)\<lparr>lastSeen := (lastSeen (reg w))(i \<mapsto> now)\<rparr>;
            r2 = (if addr \<noteq> '''' then r1\<lparr>address := (address r1)(i \<mapsto> addr)\<rparr> else r1)
        in (if known then RgReturned (Inr ()) else RgAdd i cap, w\<lparr>reg := r2\<rparr>))"

definition register_add :: "host_id \<Rightarrow> int \<Rightarrow> world \<Rightarrow> reg_task \<times> world" where
  "register_add i cap w =
     (let (added, s1) = AddHost (sched w) i cap
      in (case added of
            Inr _ \<Rightarrow> RgReady i
          | Inl (ErrDuplicateHost _) \<Rightarrow> RgReady i
          | Inl e \<Rightarrow> RgRollback i e, w\<lparr>sched := s1\<rparr>))"

definition forget_host :: "host_id \<Rightarrow> world \<Rightarrow> world" where
  "forget_host i w =
     w\<lparr>reg := (reg w)\<lparr>lastSeen := (lastSeen (reg w))(i := None), address := (address (reg w))(i := None)\<rparr>\<rparr>"

definition register_ready :: "host_id \<Rightarrow> world \<Rightarrow> (reg_task \<times> world) option" where
  "register_ready i w =
     do {
       (ready, s1) \<leftarrow> SetHostState (sched w) i HostReady;
       Some (case ready of Inl e \<Rightarrow> RgReturned (Inl (RegScheduler e)) | Inr _ \<Rightarrow> RgNotify, w\<lparr>sched := s1\<rparr>)
     }"

definition register_notify :: "world \<Rightarrow> world" where
  "register_notify w = (if has_notifier (reg w) then w\<lparr>signals := signals w + 1\<rparr> else w)"

definition deregister_begin :: "host_id \<Rightarrow> world \<Rightarrow> reg_task \<times> world" where
  "deregister_begin i w =
     (if lastSeen (reg w) i = None then RgReturned (Inl (RegUnknownHost i)) else RgStamp i, forget_host i w)"

definition deregister_stamp :: "instant \<Rightarrow> host_id \<Rightarrow> world \<Rightarrow> world" where
  "deregister_stamp now i w = w\<lparr>reg := (reg w)\<lparr>drainingSince := (drainingSince (reg w))(i \<mapsto> now)\<rparr>\<rparr>"

definition deregister_drain :: "host_id \<Rightarrow> world \<Rightarrow> (reg_task \<times> world) option" where
  "deregister_drain i w =
     do {
       (res, s1) \<leftarrow> SetHostState (sched w) i HostDraining;
       Some (RgReturned (case res of Inl e \<Rightarrow> Inl (RegScheduler e) | Inr _ \<Rightarrow> Inr ()), w\<lparr>sched := s1\<rparr>)
     }"

text \<open>The sweep: the section that forgets the silent hosts; for each of them the call that drains it
  and the section that stamps it; the listing; for each draining host the section that decides,
  the removal, and the section that forgets its stamp.\<close>

definition sweep_begin :: "instant \<Rightarrow> orders \<Rightarrow> world \<Rightarrow> reg_task \<times> world" where
  "sweep_begin now os w =
     (let expired = expired_loop (reg_cfg (reg w)) now (lastSeen (reg w)) (seen_ord os (lastSeen (reg w))) []
      in (RgSweepDrain now (int (length expired)) expired, w\<lparr>reg := forget_loop expired (reg w)\<rparr>))"

definition sweep_drain :: "host_id \<Rightarrow> world \<Rightarrow> world option" where
  "sweep_drain i w =
     do { (_, s1) \<leftarrow> SetHostState (sched w) i HostDraining; Some (w\<lparr>sched := s1\<rparr>) }"

definition sweep_stamp :: "instant \<Rightarrow> host_id \<Rightarrow> world \<Rightarrow> world" where
  "sweep_stamp now i w =
     (case drainingSince (reg w) i of
        None \<Rightarrow> w\<lparr>reg := (reg w)\<lparr>drainingSince := (drainingSince (reg w))(i \<mapsto> now)\<rparr>\<rparr>
      | Some _ \<Rightarrow> w)"

definition sweep_spares :: "instant \<Rightarrow> HostSnapshot \<Rightarrow> world \<Rightarrow> bool" where
  "sweep_spares now h w \<longleftrightarrow>
     snap_State h \<noteq> HostDraining \<or> lastSeen (reg w) (snap_ID h) \<noteq> None \<or>
     snap_Used h \<noteq> 0 \<and>
       (case drainingSince (reg w) (snap_ID h) of
          Some since \<Rightarrow> time_sub now since < ForceRemoveAfter
        | None \<Rightarrow> False)"

definition sweep_remove :: "orders \<Rightarrow> host_id \<Rightarrow> world \<Rightarrow> (bool \<times> world) option" where
  "sweep_remove os i w =
     do {
       (res, s1) \<leftarrow> RemoveHost (sched w) i (vm_ord os i (assigned (sched w)));
       Some (case res of
          Inl _ \<Rightarrow> (False, w\<lparr>sched := s1\<rparr>)
        | Inr gone \<Rightarrow>
            (True, w\<lparr>sched := s1,
               reg := (if 0 < length gone then (reg w)\<lparr>orphaned := orphaned (reg w) + of_nat (length gone)\<rparr>
                       else reg w)\<rparr>))
     }"

definition sweep_forget :: "host_id \<Rightarrow> world \<Rightarrow> world" where
  "sweep_forget i w = w\<lparr>reg := (reg w)\<lparr>drainingSince := (drainingSince (reg w))(i := None)\<rparr>\<rparr>"

text \<open>One step of a goroutine at the instant \<open>now\<close>. \<open>None\<close> is a panic or a goroutine that has
  returned.\<close>

fun reg_task_step :: "instant \<Rightarrow> orders \<Rightarrow> reg_task \<Rightarrow> world \<Rightarrow> (reg_task \<times> world) option" where
  "reg_task_step now os (RgRegister i cap addr) w = Some (register_begin now i cap addr w)"
| "reg_task_step now os (RgAdd i cap) w = Some (register_add i cap w)"
| "reg_task_step now os (RgRollback i e) w = Some (RgReturned (Inl (RegScheduler e)), forget_host i w)"
| "reg_task_step now os (RgReady i) w = register_ready i w"
| "reg_task_step now os RgNotify w = Some (RgReturned (Inr ()), register_notify w)"
| "reg_task_step now os (RgHeartbeat i) w = (let (res, w1) = Heartbeat w now i in Some (RgReturned res, w1))"
| "reg_task_step now os (RgDeregister i) w = Some (deregister_begin i w)"
| "reg_task_step now os (RgStamp i) w = Some (RgDrain i, deregister_stamp now i w)"
| "reg_task_step now os (RgDrain i) w = deregister_drain i w"
| "reg_task_step now os RgSweep w = Some (sweep_begin now os w)"
| "reg_task_step now os (RgSweepDrain t n []) w = Some (RgSweepList n, w)"
| "reg_task_step now os (RgSweepDrain t n (i # is)) w =
     map_option (\<lambda>w1. (RgSweepStamp t n i is, w1)) (sweep_drain i w)"
| "reg_task_step now os (RgSweepStamp t n i is) w = Some (RgSweepDrain t n is, sweep_stamp t i w)"
| "reg_task_step now os (RgSweepList n) w =
     Some (RgSweepReap now n (Hosts (sched w) (host_ord os (hosts (sched w)))), w)"
| "reg_task_step now os (RgSweepReap t n []) w = Some (RgSwept n, w)"
| "reg_task_step now os (RgSweepReap t n (h # hs)) w =
     Some (if sweep_spares t h w then RgSweepReap t n hs else RgSweepRemove t n h hs, w)"
| "reg_task_step now os (RgSweepRemove t n h hs) w =
     map_option (\<lambda>(gone, w1). (if gone then RgSweepForget t n h hs else RgSweepReap t n hs, w1))
       (sweep_remove os (snap_ID h) w)"
| "reg_task_step now os (RgSweepForget t n h hs) w = Some (RgSweepReap t n hs, sweep_forget (snap_ID h) w)"
| "reg_task_step now os (RgReturned r) w = None"
| "reg_task_step now os (RgSwept n) w = None"

subsection \<open>The system\<close>

record reg_system =
  rs_world :: world
  rs_tasks :: "nat \<rightharpoonup> reg_task"

fun begins :: "reg_task \<Rightarrow> bool" where
  "begins (RgRegister i c a) = True"
| "begins (RgHeartbeat i) = True"
| "begins (RgDeregister i) = True"
| "begins RgSweep = True"
| "begins _ = False"

fun returned :: "reg_task \<Rightarrow> bool" where
  "returned (RgReturned r) = True"
| "returned (RgSwept n) = True"
| "returned _ = False"

text \<open>A call begins, a goroutine takes a step, the placement service places or releases.\<close>

datatype reg_event =
    RsCall nat reg_task
  | RsStep nat instant orders
  | RsPlace vm_id
  | RsRelease vm_id

fun reg_step :: "reg_event \<Rightarrow> reg_system \<Rightarrow> reg_system option" where
  "reg_step (RsCall k t) s =
     (if rs_tasks s k = None \<and> begins t then Some (s\<lparr>rs_tasks := (rs_tasks s)(k \<mapsto> t)\<rparr>) else None)"
| "reg_step (RsStep k now os) s =
     do {
       t \<leftarrow> rs_tasks s k;
       (t', w') \<leftarrow> reg_task_step now os t (rs_world s);
       Some (s\<lparr>rs_world := w', rs_tasks := (rs_tasks s)(k \<mapsto> t')\<rparr>)
     }"
| "reg_step (RsPlace vm) s =
     map_option (\<lambda>(r, s1). s\<lparr>rs_world := (rs_world s)\<lparr>sched := s1\<rparr>\<rparr>) (Place (sched (rs_world s)) vm)"
| "reg_step (RsRelease vm) s =
     map_option (\<lambda>(r, s1). s\<lparr>rs_world := (rs_world s)\<lparr>sched := s1\<rparr>\<rparr>) (Release (sched (rs_world s)) vm)"

text \<open>The ticker loop of \<^verbatim>\<open>Run\<close>: a sweep per tick until \<^verbatim>\<open>done\<close> is closed.\<close>

fun reg_Run :: "(instant \<times> instant \<times> orders) list \<Rightarrow> world \<Rightarrow> world option" where
  "reg_Run [] w = Some w"
| "reg_Run ((now, now', os) # ticks) w = Option.bind (Sweep now now' os w) (\<lambda>(n, w1). reg_Run ticks w1)"

end
