(* ===== verification/RegistryStepsProps.thy ===== *)
theory RegistryStepsProps
  imports RegistrySteps
begin

section \<open>Correctness of the interleaved registry\<close>

text \<open>
  Alone, a goroutine of the registry does what its operation does; interleaved with others and
  with the placement service it never panics, keeps the scheduler's contract and returns; a
  deregistration that is overtaken leaves a live host without work.
\<close>

subsection \<open>On its own a goroutine is its operation\<close>

text \<open>Steps of one goroutine while the clock stands still and nobody else runs.\<close>

definition solo :: "instant \<Rightarrow> orders \<Rightarrow> ((reg_task \<times> world) \<times> (reg_task \<times> world)) set" where
  "solo now os = {((t, w), (t', w')). reg_task_step now os t w = Some (t', w')}"

lemma solo_step: "reg_task_step now os t w = Some (t', w') \<Longrightarrow> ((t', w'), x) \<in> (solo now os)\<^sup>* \<Longrightarrow> ((t, w), x) \<in> (solo now os)\<^sup>*"
  by (rule converse_rtrancl_into_rtrancl) (simp_all add: solo_def)

lemmas solo_refl = rtrancl_refl [of _ "solo now os" for now os]

text \<open>The end of a registration that has added its host, or found it there.\<close>

lemma solo_ready:
  assumes ready: "SetHostState (sched w) i HostReady = Some (ready, s2)"
  shows "((RgReady i, w), (case ready of Inl e \<Rightarrow> (RgReturned (Inl (RegScheduler e)), w\<lparr>sched := s2\<rparr>)
     | Inr _ \<Rightarrow> (RgReturned (Inr ()), register_notify (w\<lparr>sched := s2\<rparr>)))) \<in> (solo now os)\<^sup>*"
proof -
  from ready have r: "register_ready i w = Some
    (case ready of Inl e \<Rightarrow> RgReturned (Inl (RegScheduler e)) | Inr _ \<Rightarrow> RgNotify, w\<lparr>sched := s2\<rparr>)"
    by (simp add: register_ready_def)
  show ?thesis
  proof (cases ready)
    case (Inl e)
    then show ?thesis
      by (simp only: sum.case) (intro solo_step [of now os "RgReady i" _ "RgReturned (Inl (RegScheduler e))" "w\<lparr>sched := s2\<rparr>"],
        simp_all only: reg_task_step.simps r sum.case rtrancl.rtrancl_refl)
  next
    case (Inr u)
    then show ?thesis
      by (simp only: sum.case) (intro solo_step [of now os "RgReady i" _ RgNotify "w\<lparr>sched := s2\<rparr>"]
        solo_step [of now os RgNotify "w\<lparr>sched := s2\<rparr>" "RgReturned (Inr ())" "register_notify (w\<lparr>sched := s2\<rparr>)"],
        simp_all only: reg_task_step.simps r sum.case rtrancl.rtrancl_refl)
  qed
qed

lemma solo_Register:
  assumes "Register w now i cap addr = Some (res, w')"
  shows "((RgRegister i cap addr, w), (RgReturned res, w')) \<in> (solo now os)\<^sup>*"
proof (cases "i = '''' \<or> lastSeen (reg w) i \<noteq> None")
  case True
  then show ?thesis using assms
    by (intro solo_step [OF _ solo_refl]) (auto simp: Register_def register_begin_def Let_def)
next
  case False
  then have i: "i \<noteq> ''''" "lastSeen (reg w) i = None" by simp_all
  let ?r1 = "(reg w)\<lparr>lastSeen := (lastSeen (reg w))(i \<mapsto> now)\<rparr>"
  let ?w1 = "w\<lparr>reg := if addr \<noteq> '''' then ?r1\<lparr>address := (address ?r1)(i \<mapsto> addr)\<rparr> else ?r1\<rparr>"
  obtain added s1 where add: "AddHost (sched w) i cap = (added, s1)" by fastforce
  have "register_begin now i cap addr w = (RgAdd i cap, ?w1)" using i by (simp add: register_begin_def Let_def)
  then have first: "reg_task_step now os (RgRegister i cap addr) w = Some (RgAdd i cap, ?w1)" by simp
  show ?thesis
  proof (cases "fst (register_add i cap ?w1) = RgReady i")
    case True
    then have a: "reg_task_step now os (RgAdd i cap) ?w1 = Some (RgReady i, ?w1\<lparr>sched := s1\<rparr>)"
      by (simp add: register_add_def add)
    from True have ok: "(case added of Inr _ \<Rightarrow> None | Inl (ErrDuplicateHost _) \<Rightarrow> None | Inl e \<Rightarrow> Some e) = None"
      by (auto simp: register_add_def add split: sum.splits sched_error.splits)
    with assms i obtain ready s2 where ready: "SetHostState s1 i HostReady = Some (ready, s2)"
      by (auto simp: Register_def Let_def add split: bind_splits)
    have eq: "(RgReturned res, w') = (case ready of Inl e \<Rightarrow> (RgReturned (Inl (RegScheduler e)), ?w1\<lparr>sched := s2\<rparr>)
       | Inr _ \<Rightarrow> (RgReturned (Inr ()), register_notify (?w1\<lparr>sched := s2\<rparr>)))"
      using assms i ok ready by (auto simp: Register_def Let_def add register_notify_def split: sum.splits)
    have s: "SetHostState (sched (?w1\<lparr>sched := s1\<rparr>)) i HostReady = Some (ready, s2)" using ready by simp
    have "?w1\<lparr>sched := s1, sched := s2\<rparr> = ?w1\<lparr>sched := s2\<rparr>" by simp
    from solo_step [OF first solo_step [OF a solo_ready [OF s, where now = now and os = os, unfolded this, folded eq]]]
    show ?thesis .
  next
    case False
    then obtain e where e: "added = Inl e" "\<nexists>j. e = ErrDuplicateHost j"
      "register_add i cap ?w1 = (RgRollback i e, ?w1\<lparr>sched := s1\<rparr>)"
      by (auto simp: register_add_def add split: sum.splits sched_error.splits)
    have w': "res = Inl (RegScheduler e)" "w' = forget_host i (?w1\<lparr>sched := s1\<rparr>)"
      using assms i e(1,2) unfolding Register_def Let_def by (auto simp: add forget_host_def split: sched_error.splits)
    have a: "reg_task_step now os (RgAdd i cap) ?w1 = Some (RgRollback i e, ?w1\<lparr>sched := s1\<rparr>)" using e(3) by simp
    have "reg_task_step now os (RgRollback i e) (?w1\<lparr>sched := s1\<rparr>) = Some (RgReturned res, w')" by (simp add: w')
    from solo_step [OF first solo_step [OF a solo_step [OF this solo_refl]]] show ?thesis .
  qed
qed

lemma solo_Deregister:
  assumes "Deregister w now i = Some (res, w')"
  shows "((RgDeregister i, w), (RgReturned res, w')) \<in> (solo now os)\<^sup>*"
proof (cases "lastSeen (reg w) i")
  case None
  then show ?thesis using assms
    by (intro solo_step [OF _ solo_refl]) (simp add: Deregister_def deregister_begin_def forget_host_def Let_def)
next
  case (Some t)
  then show ?thesis using assms
    by (intro solo_step [OF _ solo_step [OF _ solo_step [OF _ solo_refl]]])
      (auto simp: Deregister_def deregister_begin_def deregister_stamp_def deregister_drain_def forget_host_def
        Let_def split: bind_splits sum.splits)
qed

lemma solo_Heartbeat:
  "((RgHeartbeat i, w), (RgReturned (fst (Heartbeat w now i)), snd (Heartbeat w now i))) \<in> (solo now os)\<^sup>*"
  by (intro solo_step [OF _ solo_refl]) (simp add: split_beta)

lemma solo_drain:
  "drain_loop t is w = Some w' \<Longrightarrow> ((RgSweepDrain t n is, w), (RgSweepList n, w')) \<in> (solo now os)\<^sup>*"
proof (induction "is" arbitrary: w)
  case Nil
  then show ?case by (intro solo_step [OF _ solo_refl]) simp
next
  case (Cons i "is")
  from Cons.prems obtain r s1 where s1: "SetHostState (sched w) i HostDraining = Some (r, s1)"
    and rest: "drain_loop t is (sweep_stamp t i (w\<lparr>sched := s1\<rparr>)) = Some w'"
    by (auto simp: Let_def sweep_stamp_def split: bind_splits option.splits)
  show ?case
    by (rule solo_step [of now os "RgSweepDrain t n (i # is)" w "RgSweepStamp t n i is" "w\<lparr>sched := s1\<rparr>"],
        simp add: sweep_drain_def s1, rule solo_step [OF _ Cons.IH [OF rest]], simp)
qed

lemma reap_one_sections:
  "reap_one t (vm_ord os) h w =
     (if sweep_spares t h w then Some w
      else map_option (\<lambda>(gone, w1). if gone then sweep_forget (snap_ID h) w1 else w1) (sweep_remove os (snap_ID h) w))"
proof -
  define C where "C \<longleftrightarrow> snap_Used h \<noteq> 0 \<and> (case drainingSince (reg w) (snap_ID h) of
    Some since \<Rightarrow> time_sub t since < ForceRemoveAfter | None \<Rightarrow> False)"
  define R where "R = RemoveHost (sched w) (snap_ID h) (vm_ord os (snap_ID h) (assigned (sched w)))"
  show ?thesis
    unfolding reap_one_def sweep_spares_def Let_def sweep_remove_def sweep_forget_def C_def [symmetric] R_def [symmetric]
    by (cases "snap_State h = HostDraining"; cases "lastSeen (reg w) (snap_ID h)"; cases C; cases R)
      (simp_all split: sum.splits prod.splits)
qed

lemma solo_reap:
  "reap_loop t (vm_ord os) hs w = Some w' \<Longrightarrow> ((RgSweepReap t n hs, w), (RgSwept n, w')) \<in> (solo now os)\<^sup>*"
proof (induction hs arbitrary: w)
  case Nil
  then show ?case by (intro solo_step [OF _ solo_refl]) simp
next
  case (Cons h hs)
  from Cons.prems obtain w1 where w1: "reap_one t (vm_ord os) h w = Some w1" "reap_loop t (vm_ord os) hs w1 = Some w'"
    by (auto split: bind_splits)
  note IH = Cons.IH [OF w1(2)]
  show ?case
  proof (cases "sweep_spares t h w")
    case True
    with w1(1) have "w1 = w" by (simp add: reap_one_sections)
    with True IH show ?thesis by (intro solo_step [of now os "RgSweepReap t n (h # hs)" w "RgSweepReap t n hs" w]) simp_all
  next
    case False
    with w1(1) obtain gone w2 where rem: "sweep_remove os (snap_ID h) w = Some (gone, w2)"
      and w1_eq: "w1 = (if gone then sweep_forget (snap_ID h) w2 else w2)"
      by (auto simp: reap_one_sections)
    have "((RgSweepRemove t n h hs, w), (RgSwept n, w')) \<in> (solo now os)\<^sup>*"
    proof (cases gone)
      case True
      then show ?thesis using IH rem w1_eq
        by (intro solo_step [of now os "RgSweepRemove t n h hs" w "RgSweepForget t n h hs" w2]
            solo_step [of now os "RgSweepForget t n h hs" w2 "RgSweepReap t n hs" w1]) simp_all
    next
      case False
      then show ?thesis using IH rem w1_eq
        by (intro solo_step [of now os "RgSweepRemove t n h hs" w "RgSweepReap t n hs" w1]) simp_all
    qed
    with False show ?thesis
      by (intro solo_step [of now os "RgSweepReap t n (h # hs)" w "RgSweepRemove t n h hs" w]) simp_all
  qed
qed

lemma solo_Sweep:
  assumes "Sweep now now os w = Some (n, w')"
  shows "((RgSweep, w), (RgSwept n, w')) \<in> (solo now os)\<^sup>*"
proof -
  let ?e = "expired_loop (reg_cfg (reg w)) now (lastSeen (reg w)) (seen_ord os (lastSeen (reg w))) []"
  let ?w1 = "w\<lparr>reg := forget_loop ?e (reg w)\<rparr>"
  from assms obtain w2 where w2: "drain_loop now ?e ?w1 = Some w2" "n = int (length ?e)"
    "reap_loop now (vm_ord os) (Hosts (sched w2) (host_ord os (hosts (sched w2)))) w2 = Some w'"
    by (auto simp: Sweep_def reapEmptyDrainingHosts_def Let_def split: bind_splits)
  have "((RgSweepList n, w2), (RgSwept n, w')) \<in> (solo now os)\<^sup>*"
    by (intro solo_step [OF _ solo_reap [OF w2(3)]]) simp
  with solo_drain [OF w2(1), of n now os] have "((RgSweepDrain now n ?e, ?w1), (RgSwept n, w')) \<in> (solo now os)\<^sup>*"
    by (rule rtrancl_trans)
  then show ?thesis using w2(2) by (intro solo_step [of now os RgSweep w "RgSweepDrain now n ?e" ?w1])
      (simp_all add: sweep_begin_def Let_def)
qed

text \<open>A goroutine's step is a function, so its run alone has one end.\<close>

lemma solo_deterministic:
  assumes "(x, (t, w)) \<in> (solo now os)\<^sup>*" and "(x, (t', w')) \<in> (solo now os)\<^sup>*"
    and "returned t" and "returned t'"
  shows "(t', w') = (t, w)"
proof -
  have end_state: "z = (r, v)" if "((r, v), z) \<in> (solo now os)\<^sup>*" "returned r" for r v z
    using that by (cases r; cases rule: converse_rtranclE) (auto simp: solo_def)
  have "single_valued (solo now os)" by (auto simp: single_valued_def solo_def)
  from single_valued_confluent [OF this assms(1,2)] show ?thesis
    using end_state [OF _ assms(3)] end_state [OF _ assms(4)] by metis
qed

lemma solo_only:
  assumes "(x, (t, w)) \<in> (solo now os)\<^sup>*" and "returned t" and "returned t'"
  shows "(x, (t', w')) \<in> (solo now os)\<^sup>* \<longleftrightarrow> (t', w') = (t, w)"
  using solo_deterministic [OF assms(1) _ assms(2,3)] assms(1) by blast



subsection \<open>Interleaved goroutines keep the scheduler's contract\<close>

lemma sched_AddHost: "sched_inv s \<Longrightarrow> sched_inv (snd (AddHost s i cap))"
  using AddHost_ok [of s i cap] by auto

lemma sched_SetHostState: "sched_inv s \<Longrightarrow> \<exists>r s'. SetHostState s i st = Some (r, s') \<and> sched_inv s'"
  using SetHostState_ok [of s i _ st] by (cases "hosts s i") (auto simp: SetHostState_unknown)

lemma sched_RemoveHost:
  assumes "sched_inv s" "orders_ok os"
  shows "\<exists>r s'. RemoveHost s i (vm_ord os i (assigned s)) = Some (r, s') \<and> sched_inv s'"
proof (cases "hosts s i")
  case (Some h)
  have "iterates (vm_ord os i (assigned s)) (assigned s)"
    using assms sched_invD(2) by (auto simp: orders_ok_def)
  from RemoveHost_ok [OF assms(1) Some this] show ?thesis by blast
qed (use assms in \<open>simp add: RemoveHost_unknown\<close>)

lemma sched_Release: "sched_inv s \<Longrightarrow> Release s vm = Some (r, s') \<Longrightarrow> sched_inv s'"
  using Release_cases [of s vm] by auto

lemma sched_Place: "sched_inv s \<Longrightarrow> Place s vm = Some (r, s') \<Longrightarrow> sched_inv s'"
  using Place_cases [of s vm] by auto

text \<open>What every step keeps: the scheduler's invariant, finite maps, and no address of a host that
  is not heartbeating.\<close>

definition rs_good :: "world \<Rightarrow> bool" where
  "rs_good w \<longleftrightarrow> sched_inv (sched w) \<and> finite (dom (lastSeen (reg w))) \<and>
     dom (address (reg w)) \<subseteq> dom (lastSeen (reg w))"

lemma rs_good_sched: "rs_good w \<Longrightarrow> sched_inv s' \<Longrightarrow> rs_good (w\<lparr>sched := s'\<rparr>)"
  by (simp add: rs_good_def)

lemma rs_good_forget: "rs_good w \<Longrightarrow> rs_good (forget_host i w)"
  by (auto simp: rs_good_def forget_host_def)

lemma rs_good_forget_loop: "rs_good (w\<lparr>reg := r\<rparr>) \<Longrightarrow> rs_good (w\<lparr>reg := forget_loop is r\<rparr>)"
proof (induction "is" arbitrary: r)
  case (Cons i "is")
  have "rs_good (w\<lparr>reg := r\<lparr>lastSeen := (lastSeen r)(i := None), address := (address r)(i := None)\<rparr>\<rparr>)"
    using Cons.prems by (auto simp: rs_good_def)
  from Cons.IH [OF this] show ?case by simp
qed simp

lemma rs_good_stamp: "rs_good w \<Longrightarrow> rs_good (w\<lparr>reg := (reg w)\<lparr>drainingSince := d\<rparr>\<rparr>)"
  by (simp add: rs_good_def)

lemmas rs_good_steps = rs_good_sched rs_good_forget rs_good_stamp

text \<open>A goroutine that has not returned takes its next step, and the step keeps the world good.\<close>

lemma register_begin_good: "rs_good w \<Longrightarrow> rs_good (snd (register_begin now i cap addr w))"
  by (auto simp: rs_good_def register_begin_def Let_def)

lemma sweep_drain_good: "rs_good w \<Longrightarrow> \<exists>w'. sweep_drain i w = Some w' \<and> rs_good w'"
  using sched_SetHostState [of "sched w" i HostDraining]
  by (auto simp: sweep_drain_def rs_good_def)

lemma sweep_remove_good:
  "rs_good w \<Longrightarrow> orders_ok os \<Longrightarrow> \<exists>g w'. sweep_remove os i w = Some (g, w') \<and> rs_good w'"
  using sched_RemoveHost [of "sched w" os i]
  by (auto simp: sweep_remove_def rs_good_def split: sum.splits)

lemma reg_task_step_good:
  assumes good: "rs_good w" and os: "orders_ok os" and live: "\<not> returned t"
  shows "\<exists>t' w'. reg_task_step now os t w = Some (t', w') \<and> rs_good w'"
proof -
  have set: "\<exists>r s'. SetHostState (sched w) i st = Some (r, s') \<and> sched_inv s'" for i st
    using good by (intro sched_SetHostState) (simp add: rs_good_def)
  note steps = rs_good_steps [OF good]
  show ?thesis
  proof (cases "(now, os, t, w)" rule: reg_task_step.cases)
    case (1 now os i cap addr w)
    then show ?thesis using register_begin_good [OF good, of now i cap addr] by (cases "register_begin now i cap addr w") simp
  next
    case (2 now os i cap w)
    then show ?thesis using good sched_AddHost [of "sched w" i cap]
      by (auto simp: register_add_def rs_good_def split_beta)
  next
    case (4 now os i w)
    then show ?thesis using set [of i HostReady] steps(1) by (auto simp: register_ready_def)
  next
    case (6 now os i w)
    then show ?thesis using good by (auto simp: Heartbeat_def rs_good_def split: option.splits)
  next
    case (9 now os i w)
    then show ?thesis using set [of i HostDraining] steps(1) by (auto simp: deregister_drain_def)
  next
    case (10 now os w)
    then show ?thesis using rs_good_forget_loop [of "reg w" w] good by (simp add: sweep_begin_def Let_def)
  next
    case (12 now os t n i "is" w)
    then show ?thesis using sweep_drain_good [OF good, of i] by auto
  next
    case (17 now os t n h hs w)
    with sweep_remove_good [OF good os, of "snap_ID h"] obtain g v where
      "sweep_remove os (snap_ID h) w = Some (g, v)" "rs_good v" by auto
    with 17 show ?thesis by (cases g) auto
  qed (use good live steps in \<open>auto simp: register_notify_def deregister_begin_def deregister_stamp_def
      sweep_stamp_def sweep_forget_def rs_good_def split: option.splits\<close>)
qed

text \<open>The events a real run has: the iteration orders of a step visit every key once.\<close>

fun event_ok :: "reg_event \<Rightarrow> bool" where
  "event_ok (RsStep k now os) = orders_ok os"
| "event_ok _ = True"

definition reg_step_ok :: "reg_event \<Rightarrow> reg_system \<Rightarrow> reg_system option" where
  "reg_step_ok e s = (if event_ok e then reg_step e s else None)"

lemma run_reg_step_ok: "list_all event_ok es \<Longrightarrow> run reg_step_ok es s = run reg_step es s"
  by (induction es arbitrary: s) (auto simp: reg_step_ok_def split: bind_splits)

lemma reg_step_good:
  assumes good: "rs_good (rs_world s)" and "reg_step_ok e s = Some s'"
  shows "rs_good (rs_world s')"
proof (cases e)
  case (RsCall k t)
  with assms show ?thesis by (auto simp: reg_step_ok_def split: if_splits)
next
  case (RsStep k now os)
  with assms(2) obtain t t' w' where t: "orders_ok os" "reg_task_step now os t (rs_world s) = Some (t', w')"
    "rs_world s' = w'" by (auto simp: reg_step_ok_def split: bind_splits if_splits)
  then have "\<not> returned t" by (cases t) auto
  from reg_task_step_good [OF good t(1) this, of now] t show ?thesis by simp
next
  case (RsPlace vm)
  with assms(2) obtain r s1 where "Place (sched (rs_world s)) vm = Some (r, s1)"
    "rs_world s' = (rs_world s)\<lparr>sched := s1\<rparr>" by (auto simp: reg_step_ok_def)
  with good sched_Place rs_good_sched [OF good] show ?thesis by (metis rs_good_def)
next
  case (RsRelease vm)
  with assms(2) obtain r s1 where "Release (sched (rs_world s)) vm = Some (r, s1)"
    "rs_world s' = (rs_world s)\<lparr>sched := s1\<rparr>" by (auto simp: reg_step_ok_def)
  with good sched_Release rs_good_sched [OF good] show ?thesis by (metis rs_good_def)
qed

interpretation rg: machine reg_step_ok "\<lambda>s. rs_good (rs_world s)"
  by unfold_locales (rule reg_step_good)

lemma world_inv_good: "world_inv w \<Longrightarrow> rs_good w"
  using world_invD [of w] by (simp add: rs_good_def)

text \<open>C4. However the goroutines of the registry interleave with one another and with the
  placement service, nothing panics: every goroutine that has not returned can take its next
  step. The scheduler's contract holds throughout: each host's used count is the number of
  microVMs assigned to it and never exceeds its capacity, and only heartbeating hosts have an
  address.\<close>

theorem interleaved_registry_is_safe:
  assumes "world_inv w" and "list_all event_ok es"
    and "run reg_step es \<lparr>rs_world = w, rs_tasks = Map.empty\<rparr> = Some s"
  shows "(\<forall>k t now os. rs_tasks s k = Some t \<and> \<not> returned t \<and> orders_ok os \<longrightarrow>
            reg_step (RsStep k now os) s \<noteq> None) \<and>
         (\<forall>i h. hosts (sched (rs_world s)) i = Some h \<longrightarrow>
            used h = int (card (vms_on (sched (rs_world s)) i)) \<and> used h \<le> capacity h) \<and>
         dom (address (reg (rs_world s))) \<subseteq> dom (lastSeen (reg (rs_world s)))"
proof -
  have good: "rs_good (rs_world s)"
    using rg.run_good [of "\<lparr>rs_world = w, rs_tasks = Map.empty\<rparr>" es s] assms(1,3) world_inv_good
    by (simp add: run_reg_step_ok [OF assms(2)])
  have "reg_step (RsStep k now os) s \<noteq> None" if "rs_tasks s k = Some t" "\<not> returned t" "orders_ok os" for k t now os
    using reg_task_step_good [OF good that(3,2), of now] that(1) by auto
  moreover have "used h = int (card (vms_on (sched (rs_world s)) i)) \<and> used h \<le> capacity h"
    if "hosts (sched (rs_world s)) i = Some h" for i h
    using host_okD [OF _ that] good by (simp add: rs_good_def)
  ultimately show ?thesis using good unfolding rs_good_def by blast
qed

text \<open>Host \<open>a\<close> is registered; a microVM is placed on it while the registration of a host \<open>b\<close> and the
  deregistration of \<open>a\<close> are both under way.\<close>

definition overlap_run :: "orders \<Rightarrow> reg_event list" where
  "overlap_run os = [RsCall 0 (RgRegister ''b'' 2 ''y''), RsStep 0 second os, RsCall 1 (RgDeregister ''a''),
     RsStep 1 second os, RsPlace ''v'', RsStep 0 second os, RsStep 1 second os]"

theorem interleaved_registry_is_safe_witness:
  "\<exists>s t. run reg_step (overlap_run sorted_orders) \<lparr>rs_world = demo_world [WRegister 0 ''a'' 2 ''x''], rs_tasks = Map.empty\<rparr> = Some s \<and>
     rs_tasks s 1 = Some t \<and> t = RgDrain ''a'' \<and> reg_step (RsStep 1 second sorted_orders) s \<noteq> None"
proof -
  let ?w = "demo_world [WRegister 0 ''a'' 2 ''x'']"
  let ?s = "run reg_step (overlap_run sorted_orders) \<lparr>rs_world = ?w, rs_tasks = Map.empty\<rparr>"
  have "(case run reg_step (overlap_run os) \<lparr>rs_world = ?w, rs_tasks = Map.empty\<rparr> of
      Some s \<Rightarrow> rs_tasks s 1 = Some (RgDrain ''a'') | None \<Rightarrow> False)" for os by code_simp
  then have "(case ?s of Some s \<Rightarrow> rs_tasks s 1 = Some (RgDrain ''a'') | None \<Rightarrow> False)" .
  then obtain s where s: "?s = Some s" "rs_tasks s 1 = Some (RgDrain ''a'')" by (cases ?s) auto
  have inv: "world_inv ?w" by (rule world_reachable_inv [OF demo_world_reachable]) simp
  have ok: "list_all event_ok (overlap_run sorted_orders)" by (simp add: overlap_run_def sorted_orders_ok)
  have "\<not> returned (RgDrain ''a'')" by simp
  with interleaved_registry_is_safe [OF inv ok s(1), THEN conjunct1] s(2) sorted_orders_ok
  have "reg_step (RsStep 1 second sorted_orders) s \<noteq> None" by blast
  with s show ?thesis by blast
qed

subsection \<open>Every call returns\<close>

text \<open>How far a goroutine is from its end: its phase, and what is left of the list it walks.\<close>

fun reg_rank :: "reg_task \<Rightarrow> nat \<times> nat" where
  "reg_rank (RgRegister i cap addr) = (4, 0)"
| "reg_rank (RgAdd i cap) = (3, 0)"
| "reg_rank (RgRollback i e) = (2, 0)"
| "reg_rank (RgReady i) = (2, 0)"
| "reg_rank RgNotify = (1, 0)"
| "reg_rank (RgHeartbeat i) = (1, 0)"
| "reg_rank (RgDeregister i) = (3, 0)"
| "reg_rank (RgStamp i) = (2, 0)"
| "reg_rank (RgDrain i) = (1, 0)"
| "reg_rank RgSweep = (4, 0)"
| "reg_rank (RgSweepDrain t n is) = (3, 2 * length is)"
| "reg_rank (RgSweepStamp t n i is) = (3, 2 * length is + 1)"
| "reg_rank (RgSweepList n) = (2, 0)"
| "reg_rank (RgSweepReap t n hs) = (1, 3 * length hs)"
| "reg_rank (RgSweepRemove t n h hs) = (1, 3 * length hs + 2)"
| "reg_rank (RgSweepForget t n h hs) = (1, 3 * length hs + 1)"
| "reg_rank (RgReturned r) = (0, 0)"
| "reg_rank (RgSwept n) = (0, 0)"

lemma reg_task_step_rank:
  "reg_task_step now os t w = Some (t', w') \<Longrightarrow> (reg_rank t', reg_rank t) \<in> less_than <*lex*> less_than"
  by (cases "(now, os, t, w)" rule: reg_task_step.cases)
    (auto simp: register_begin_def register_add_def register_ready_def deregister_begin_def deregister_drain_def
      sweep_begin_def Let_def split_beta
      split: if_splits sum.splits sched_error.splits bind_splits)

text \<open>C22. A call of the registry takes finitely many steps, whatever the other goroutines and the
  placement service do to the world between them and however often hosts come and go: no
  goroutine of the registry steps for ever.\<close>

theorem registry_call_returns:
  "\<not> (\<exists>t w w' now os. \<forall>n::nat. reg_task_step (now n) (os n) (t n) (w n) = Some (t (Suc n), w' n))"
proof
  assume "\<exists>t w w' now os. \<forall>n::nat. reg_task_step (now n) (os n) (t n) (w n) = Some (t (Suc n), w' n)"
  then obtain t where "\<forall>n::nat. (reg_rank (t (Suc n)), reg_rank (t n)) \<in> less_than <*lex*> less_than"
    using reg_task_step_rank by metis
  then have "\<exists>f. \<forall>n. (f (Suc n), f n) \<in> (less_than <*lex*> less_than)" by (intro exI [of _ "\<lambda>n. reg_rank (t n)"])
  with wf_iff_no_infinite_down_chain show False
    by (metis wf_less_than wf_lex_prod)
qed

subsection \<open>A drain that overtakes a registration\<close>

text \<open>Host \<open>a\<close> deregisters; the goroutine has left its critical section when the agent, restarted,
  registers again, and reaches the scheduler after it.\<close>

definition overtaken_run :: "orders \<Rightarrow> reg_event list" where
  "overtaken_run os = [RsCall 0 (RgDeregister ''a''), RsStep 0 second os,
     RsCall 1 (RgRegister ''a'' 2 ''x''), RsStep 1 second os, RsStep 1 second os, RsStep 1 second os,
     RsStep 1 second os, RsStep 0 second os, RsStep 0 second os]"

text \<open>Between its critical section and its call of the scheduler a deregistration can be overtaken
  by a new registration of the same host. Both calls succeed, the host heartbeats and is drained
  for good: registering again does nothing because it is tracked, and the reaper spares it for
  the same reason, so a live host never gets work.\<close>

theorem overtaken_drain_idles_a_live_host:
  "\<exists>s h t. run reg_step (overtaken_run os)
       \<lparr>rs_world = demo_world [WRegister 0 ''a'' 2 ''x''], rs_tasks = Map.empty\<rparr> = Some s \<and>
     rs_tasks s 0 = Some (RgReturned (Inr ())) \<and> rs_tasks s 1 = Some (RgReturned (Inr ())) \<and>
     lastSeen (reg (rs_world s)) ''a'' = Some t \<and>
     hosts (sched (rs_world s)) ''a'' = Some h \<and> state h = HostDraining \<and>
     (\<forall>now cap addr. \<exists>w'. Register (rs_world s) now ''a'' cap addr = Some (Inr (), w') \<and>
        sched w' = sched (rs_world s)) \<and>
     (\<forall>now row. snap_ID row = ''a'' \<longrightarrow> sweep_spares now row (rs_world s))"
proof -
  let ?s = "run reg_step (overtaken_run os)
    \<lparr>rs_world = demo_world [WRegister 0 ''a'' 2 ''x''], rs_tasks = Map.empty\<rparr>"
  have "(case ?s of None \<Rightarrow> False | Some s \<Rightarrow>
      rs_tasks s 0 = Some (RgReturned (Inr ())) \<and> rs_tasks s 1 = Some (RgReturned (Inr ())) \<and>
      lastSeen (reg (rs_world s)) ''a'' = Some second \<and>
      map_option state (hosts (sched (rs_world s)) ''a'') = Some HostDraining)"
    by code_simp
  then obtain s where s: "?s = Some s" "rs_tasks s 0 = Some (RgReturned (Inr ()))"
      "rs_tasks s 1 = Some (RgReturned (Inr ()))" "lastSeen (reg (rs_world s)) ''a'' = Some second"
      "map_option state (hosts (sched (rs_world s)) ''a'') = Some HostDraining"
    by (cases ?s) auto
  then have "Register (rs_world s) now ''a'' cap addr = Some (Inr (), snd (the (Register (rs_world s) now ''a'' cap addr)))
      \<and> sched (snd (the (Register (rs_world s) now ''a'' cap addr))) = sched (rs_world s)" for now cap addr
    by (simp add: Register_known)
  then have again: "\<forall>now cap addr. \<exists>w'. Register (rs_world s) now ''a'' cap addr = Some (Inr (), w') \<and>
      sched w' = sched (rs_world s)" by blast
  from s(5) obtain h where "hosts (sched (rs_world s)) ''a'' = Some h" "state h = HostDraining" by auto
  moreover have "\<forall>now row. snap_ID row = ''a'' \<longrightarrow> sweep_spares now row (rs_world s)"
    using s(4) by (simp add: sweep_spares_def)
  ultimately show ?thesis using s(1-4) again by blast
qed

end
