(* ===== verification/Autoscale.thy ===== *)
theory Autoscale
  imports Prelude
begin

section \<open>The autoscaler (internal/autoscale/autoscale.go)\<close>

text \<open>
  How many vmhost pods the fleet should have. A sample of the arrival rate and of the
  microVMs in flight is turned into a replica count: a least-squares slope over a window
  of samples predicts the rate one provisioning latency ahead, the demand is converted to
  pods, clamped, and held at its peak for the stabilisation window.

  Floating-point numbers are modelled as real numbers, without rounding, infinities and
  NaN. The one place where the code leaves their range to the implementation, the
  conversion of the ceiling to \<^verbatim>\<open>int\<close>, is the parameter \<open>oob\<close> of \<open>Decide\<close>: what the
  conversion yields on a value that no 64-bit integer represents. The theorems hold for
  every \<open>oob\<close>.
\<close>

subsection \<open>Configuration\<close>

record as_config =
  SlotsPerHost :: int
  TargetUtilisation :: real
  MeanTTL :: duration
  ProvisionLatency :: duration
  ScaleDownStabilization :: duration
  MinReplicas :: int
  MaxReplicas :: int
  SlopeWindow :: duration

definition DefaultSlopeWindow :: duration where
  "DefaultSlopeWindow = 3 * second"

definition as_applyDefaults :: "as_config \<Rightarrow> as_config" where
  "as_applyDefaults c = (if SlopeWindow c = 0 then c\<lparr>SlopeWindow := DefaultSlopeWindow\<rparr> else c)"

datatype as_error =
    BadSlotsPerHost int
  | BadTargetUtilisation real
  | BadMeanTTL duration
  | BadProvisionLatency duration
  | BadScaleDownStabilization duration
  | BadMinReplicas int
  | BadMaxReplicas int int
  | BadSlopeWindow duration

definition as_Validate :: "as_config \<Rightarrow> as_error option" where
  "as_Validate c =
     (if SlotsPerHost c < 2 then Some (BadSlotsPerHost (SlotsPerHost c))
      else if TargetUtilisation c \<le> 0 \<or> TargetUtilisation c > 1
        then Some (BadTargetUtilisation (TargetUtilisation c))
      else if MeanTTL c \<le> 0 then Some (BadMeanTTL (MeanTTL c))
      else if ProvisionLatency c < 0 then Some (BadProvisionLatency (ProvisionLatency c))
      else if ScaleDownStabilization c < 0
        then Some (BadScaleDownStabilization (ScaleDownStabilization c))
      else if MinReplicas c < 0 then Some (BadMinReplicas (MinReplicas c))
      else if MaxReplicas c < MinReplicas c then Some (BadMaxReplicas (MaxReplicas c) (MinReplicas c))
      else if SlopeWindow c < 0 then Some (BadSlopeWindow (SlopeWindow c))
      else None)"

subsection \<open>State\<close>

record Sample =
  At :: instant
  ArrivalRate :: real
  InflightVMs :: int

record Decision =
  Replicas :: int
  PredictedRate :: real
  PredictedVMs :: real
  LeadTerm :: real
  HeldByStabilization :: bool

record autoscaler =
  as_cfg :: as_config
  history :: "Sample list"
  rateSlope :: real
  peak :: int
  peakAt :: instant

text \<open>\<^verbatim>\<open>time.Time{}\<close>, the first of January of year 1, in nanoseconds from the epoch.\<close>

definition zero_time :: instant where
  "zero_time = - (62135596800 * second)"

definition as_New :: "as_config \<Rightarrow> as_error + autoscaler" where
  "as_New cfg0 =
     (let cfg = as_applyDefaults cfg0 in
      case as_Validate cfg of
        Some e \<Rightarrow> Inl e
      | None \<Rightarrow> Inr \<lparr>as_cfg = cfg, history = [], rateSlope = 0, peak = 0, peakAt = zero_time\<rparr>)"

definition as_Reset :: "autoscaler \<Rightarrow> autoscaler" where
  "as_Reset a = a\<lparr>history := [], rateSlope := 0, peak := 0, peakAt := zero_time\<rparr>"

subsection \<open>The slope of the arrival rate\<close>

text \<open>Drop the samples before the cutoff, but keep the last two.\<close>

fun drop_old :: "instant \<Rightarrow> Sample list \<Rightarrow> Sample list" where
  "drop_old cutoff [] = []"
| "drop_old cutoff (x # xs) =
     (if 2 < length (x # xs) \<and> At x < cutoff then drop_old cutoff xs else x # xs)"

record ols_sums =
  sumT :: real
  sumR :: real
  sumTT :: real
  sumTR :: real

fun ols_loop :: "instant \<Rightarrow> Sample list \<Rightarrow> ols_sums \<Rightarrow> ols_sums" where
  "ols_loop base [] z = z"
| "ols_loop base (h # hs) z =
     (let t = seconds (time_sub (At h) base) in
      ols_loop base hs
        \<lparr>sumT = sumT z + t, sumR = sumR z + ArrivalRate h,
         sumTT = sumTT z + t * t, sumTR = sumTR z + t * ArrivalRate h\<rparr>)"

definition ols_slope :: "Sample list \<Rightarrow> real" where
  "ols_slope hs =
     (case hs of
        [] \<Rightarrow> 0
      | [_] \<Rightarrow> 0
      | h0 # _ \<Rightarrow>
          (let base = At h0;
               z = ols_loop base hs \<lparr>sumT = 0, sumR = 0, sumTT = 0, sumTR = 0\<rparr>;
               n = real (length hs);
               denom = n * sumTT z - sumT z * sumT z
           in if denom = 0 then 0 else (n * sumTR z - sumT z * sumR z) / denom))"

definition updateSlope :: "autoscaler \<Rightarrow> Sample \<Rightarrow> autoscaler" where
  "updateSlope a s =
     (if history a \<noteq> [] \<and> \<not> At s > At (last (history a)) then a
      else
        let h1 = history a @ [s];
            cutoff = At s - SlopeWindow (as_cfg a);
            h2 = drop_old cutoff h1
        in a\<lparr>history := h2, rateSlope := ols_slope h2\<rparr>)"

subsection \<open>The decision\<close>

definition clamp :: "autoscaler \<Rightarrow> int \<Rightarrow> int" where
  "clamp a replicas0 =
     (let replicas1 = (if replicas0 < MinReplicas (as_cfg a) then MinReplicas (as_cfg a) else replicas0)
      in if replicas1 > MaxReplicas (as_cfg a) then MaxReplicas (as_cfg a) else replicas1)"

definition applyStabilization :: "autoscaler \<Rightarrow> instant \<Rightarrow> int \<Rightarrow> int \<times> autoscaler" where
  "applyStabilization a now replicas =
     (if replicas \<ge> peak a then (replicas, a\<lparr>peak := replicas, peakAt := now\<rparr>)
      else if ScaleDownStabilization (as_cfg a) = 0 then
        (replicas, a\<lparr>peak := replicas, peakAt := now\<rparr>)
      else if time_sub now (peakAt a) < ScaleDownStabilization (as_cfg a) then (peak a, a)
      else (replicas, a\<lparr>peak := replicas, peakAt := now\<rparr>))"

text \<open>\<^verbatim>\<open>int(math.Ceil(x))\<close>\<close>

definition ceil_to_int :: "(real \<Rightarrow> int) \<Rightarrow> real \<Rightarrow> int" where
  "ceil_to_int oob x = (if fits64 \<lceil>x\<rceil> then \<lceil>x\<rceil> else oob x)"

definition Decide :: "(real \<Rightarrow> int) \<Rightarrow> autoscaler \<Rightarrow> Sample \<Rightarrow> Decision \<times> autoscaler" where
  "Decide oob a0 s =
     (let a = updateSlope a0 s;
          lead = max 0 (rateSlope a) * seconds (ProvisionLatency (as_cfg a));
          predictedRate = ArrivalRate s + lead;
          predictedVMs = predictedRate * seconds (MeanTTL (as_cfg a));
          required = max predictedVMs (real_of_int (InflightVMs s));
          slots = required / TargetUtilisation (as_cfg a);
          raw = clamp a (ceil_to_int oob (slots / real_of_int (SlotsPerHost (as_cfg a))));
          (replicas, a') = applyStabilization a (At s) raw
      in (\<lparr>Replicas = replicas, PredictedRate = predictedRate, PredictedVMs = predictedVMs,
           LeadTerm = lead, HeldByStabilization = (replicas > raw)\<rparr>, a'))"

end
