(* ===== verification/AutoscaleProps.thy ===== *)
theory AutoscaleProps
  imports Autoscale
begin

section \<open>Properties of the autoscaler\<close>

text \<open>
  Over every autoscaler a valid configuration can reach by decisions and resets: bounds,
  sufficiency and minimality of the replica count, the hold of the stabilisation window,
  the exactness of the slope on a linear ramp and the contents of the sample window.
\<close>

subsection \<open>Reachable autoscalers\<close>

inductive as_reachable :: "(real \<Rightarrow> int) \<Rightarrow> autoscaler \<Rightarrow> bool" for oob where
  start: "as_New cfg = Inr a \<Longrightarrow> as_reachable oob a"
| decide: "as_reachable oob a \<Longrightarrow> Decide oob a s = (d, a') \<Longrightarrow> as_reachable oob a'"
| reset: "as_reachable oob a \<Longrightarrow> as_reachable oob (as_Reset a)"

definition as_inv :: "autoscaler \<Rightarrow> bool" where
  "as_inv a \<longleftrightarrow> as_Validate (as_cfg a) = None \<and> 0 < SlopeWindow (as_cfg a) \<and>
     (peak a = 0 \<or> MinReplicas (as_cfg a) \<le> peak a \<and> peak a \<le> MaxReplicas (as_cfg a)) \<and>
     sorted_wrt (<) (map At (history a))"

lemma Validate_None:
  assumes "as_Validate c = None"
  shows "2 \<le> SlotsPerHost c" "0 < TargetUtilisation c" "TargetUtilisation c \<le> 1" "0 < MeanTTL c"
    "0 \<le> ProvisionLatency c" "0 \<le> ScaleDownStabilization c" "0 \<le> MinReplicas c"
    "MinReplicas c \<le> MaxReplicas c" "0 \<le> SlopeWindow c"
  using assms by (auto simp: as_Validate_def not_less not_le split: if_splits)

lemma clamp_bounds:
  assumes "MinReplicas (as_cfg a) \<le> MaxReplicas (as_cfg a)"
  shows "MinReplicas (as_cfg a) \<le> clamp a n" "clamp a n \<le> MaxReplicas (as_cfg a)"
    "n \<le> MaxReplicas (as_cfg a) \<Longrightarrow> n \<le> clamp a n"
    "MinReplicas (as_cfg a) < clamp a n \<Longrightarrow> clamp a n \<le> n"
  using assms by (auto simp: clamp_def Let_def)

lemma updateSlope_cfg [simp]:
  "as_cfg (updateSlope a s) = as_cfg a" "peak (updateSlope a s) = peak a"
  "peakAt (updateSlope a s) = peakAt a"
  by (simp_all add: updateSlope_def Let_def)

lemma clamp_updateSlope [simp]: "clamp (updateSlope a s) n = clamp a n"
  by (simp add: clamp_def Let_def)

subsection \<open>The sample window\<close>

lemma drop_old_suffix: "\<exists>ys. xs = ys @ drop_old cutoff xs \<and> (\<forall>y\<in>set ys. At y < cutoff)"
proof (induction xs)
  case (Cons x xs)
  then obtain ys where ys: "xs = ys @ drop_old cutoff xs" "\<forall>y\<in>set ys. At y < cutoff" by blast
  show ?case
  proof (cases "2 < length (x # xs) \<and> At x < cutoff")
    case True
    with ys show ?thesis by (intro exI [of _ "x # ys"]) auto
  next
    case False
    then show ?thesis by (intro exI [of _ "[]"]) auto
  qed
qed simp

lemma drop_old_length: "min 2 (length xs) \<le> length (drop_old cutoff xs)"
  by (induction xs) auto

lemma drop_old_last: "drop_old cutoff (xs @ [x]) \<noteq> [] \<and> last (drop_old cutoff (xs @ [x])) = x"
  by (induction xs) (auto split: if_splits)

lemma drop_old_fresh:
  "sorted_wrt (<) (map At xs) \<Longrightarrow> i + 2 < length (drop_old cutoff xs) \<Longrightarrow>
     cutoff \<le> At (drop_old cutoff xs ! i)"
proof (induction xs)
  case (Cons x xs)
  show ?case
  proof (cases "2 < length (x # xs) \<and> At x < cutoff")
    case True
    with Cons show ?thesis by simp
  next
    case False
    with Cons.prems(2) have "cutoff \<le> At x" "i < length (x # xs)" by auto
    moreover have "At x \<le> At ((x # xs) ! i)"
      using Cons.prems(1) \<open>i < length (x # xs)\<close> by (cases i) (auto simp: less_imp_le)
    ultimately show ?thesis using False by auto
  qed
qed simp

lemma updateSlope_sorted:
  assumes "sorted_wrt (<) (map At (history a))"
  shows "sorted_wrt (<) (map At (history (updateSlope a s)))"
proof (cases "history a \<noteq> [] \<and> \<not> At s > At (last (history a))")
  case True
  with assms show ?thesis by (simp add: updateSlope_def)
next
  case False
  have "At x < At s" if "x \<in> set (history a)" for x
  proof -
    from that obtain i where i: "i < length (history a)" "x = history a ! i"
      by (auto simp: in_set_conv_nth)
    have "At x \<le> At (last (history a))"
    proof (cases "i = length (history a) - 1")
      case True
      moreover have "history a \<noteq> []" using that by auto
      ultimately show ?thesis using i by (simp add: last_conv_nth)
    next
      case neq: False
      then have "At (history a ! i) < At (history a ! (length (history a) - 1))"
        using sorted_wrt_nth_less [OF assms, of i "length (history a) - 1"] i by simp
      moreover have "history a \<noteq> []" using that by auto
      ultimately show ?thesis using i by (simp add: last_conv_nth)
    qed
    with False that show ?thesis by auto
  qed
  with assms have "sorted_wrt (<) (map At (history a @ [s]))" by (auto simp: sorted_wrt_append)
  moreover obtain ys where
    "history a @ [s] = ys @ drop_old (At s - SlopeWindow (as_cfg a)) (history a @ [s])"
    using drop_old_suffix by blast
  ultimately have "sorted_wrt (<) (map At (drop_old (At s - SlopeWindow (as_cfg a)) (history a @ [s])))"
    by (metis map_append sorted_wrt_append)
  with False show ?thesis unfolding updateSlope_def if_not_P [OF False] Let_def by simp
qed

lemma applyStabilization_cfg:
  "as_cfg (snd (applyStabilization a now n)) = as_cfg a"
  "history (snd (applyStabilization a now n)) = history a"
  "rateSlope (snd (applyStabilization a now n)) = rateSlope a"
  by (simp_all add: applyStabilization_def)

lemma applyStabilization_peak:
  "fst (applyStabilization a now n) = peak (snd (applyStabilization a now n))"
  "n \<le> fst (applyStabilization a now n)"
  "fst (applyStabilization a now n) = n \<or> fst (applyStabilization a now n) = peak a \<and> n < peak a"
  by (auto simp: applyStabilization_def)

text \<open>The raw replica count of a decision, before stabilisation.\<close>

definition demand :: "autoscaler \<Rightarrow> Decision \<Rightarrow> Sample \<Rightarrow> real" where
  "demand a d s = max (PredictedVMs d) (real_of_int (InflightVMs s)) /
     TargetUtilisation (as_cfg a) / real_of_int (SlotsPerHost (as_cfg a))"

lemma Decide_split:
  assumes "Decide oob a s = (d, a')"
  shows "(Replicas d, a') =
      applyStabilization (updateSlope a s) (At s) (clamp a (ceil_to_int oob (demand a d s)))"
    "LeadTerm d = max 0 (rateSlope (updateSlope a s)) * seconds (ProvisionLatency (as_cfg a))"
    "PredictedRate d = ArrivalRate s + LeadTerm d"
    "PredictedVMs d = PredictedRate d * seconds (MeanTTL (as_cfg a))"
    "HeldByStabilization d \<longleftrightarrow> Replicas d > clamp a (ceil_to_int oob (demand a d s))"
  using assms by (auto simp: Decide_def Let_def demand_def split: prod.splits)

lemma Decide_state:
  assumes "Decide oob a s = (d, a')"
  shows "as_cfg a' = as_cfg a" "peak a' = Replicas d" "history a' = history (updateSlope a s)"
    "clamp a (ceil_to_int oob (demand a d s)) \<le> Replicas d"
    "Replicas d = clamp a (ceil_to_int oob (demand a d s)) \<or>
       Replicas d = peak a \<and> clamp a (ceil_to_int oob (demand a d s)) < peak a"
proof -
  let ?n = "clamp a (ceil_to_int oob (demand a d s))"
  let ?st = "applyStabilization (updateSlope a s) (At s) ?n"
  have r: "Replicas d = fst ?st" and a': "a' = snd ?st"
    using Decide_split(1) [OF assms] by (metis fst_conv, metis snd_conv)
  show "as_cfg a' = as_cfg a" "history a' = history (updateSlope a s)"
    by (simp_all add: a' applyStabilization_cfg)
  show "peak a' = Replicas d" unfolding r a' by (rule applyStabilization_peak(1) [symmetric])
  show "?n \<le> Replicas d" unfolding r by (rule applyStabilization_peak(2))
  show "Replicas d = ?n \<or> Replicas d = peak a \<and> ?n < peak a"
    using applyStabilization_peak(3) [of "updateSlope a s" "At s" ?n] by (simp add: r)
qed

lemma Decide_inv:
  assumes inv: "as_inv a" and d: "Decide oob a s = (d, a')"
  shows "as_inv a'" "MinReplicas (as_cfg a) \<le> Replicas d" "Replicas d \<le> MaxReplicas (as_cfg a)"
proof -
  let ?n = "clamp a (ceil_to_int oob (demand a d s))"
  have v: "as_Validate (as_cfg a) = None" using inv by (simp add: as_inv_def)
  note c = clamp_bounds(1,2) [OF Validate_None(8) [OF v], of "ceil_to_int oob (demand a d s)"]
  note st = Decide_state [OF d]
  show lo: "MinReplicas (as_cfg a) \<le> Replicas d" using c(1) st(4) by simp
  show hi: "Replicas d \<le> MaxReplicas (as_cfg a)"
    using st(5) c inv Validate_None(7) [OF v] by (auto simp: as_inv_def)
  show "as_inv a'"
    using inv st lo hi updateSlope_sorted [of a s] by (simp add: as_inv_def)
qed

lemma as_reachable_inv: "as_reachable oob a \<Longrightarrow> as_inv a"
proof (induction rule: as_reachable.induct)
  case (start cfg a)
  then show ?case
    using Validate_None(9) [of "as_applyDefaults cfg"]
    by (fastforce simp: as_New_def Let_def as_inv_def as_applyDefaults_def DefaultSlopeWindow_def
        second_def split: option.splits if_splits)
next
  case (decide a s d a')
  then show ?case using Decide_inv(1) by blast
next
  case (reset a)
  then show ?case by (simp add: as_inv_def as_Reset_def)
qed

subsection \<open>Runs of decisions\<close>

fun decide_all :: "(real \<Rightarrow> int) \<Rightarrow> autoscaler \<Rightarrow> Sample list \<Rightarrow> Decision list \<times> autoscaler" where
  "decide_all oob a [] = ([], a)"
| "decide_all oob a (s # ss) =
     (let (d, a1) = Decide oob a s; (ds, a2) = decide_all oob a1 ss in (d # ds, a2))"

lemma decide_all_snoc:
  "decide_all oob a (ss @ [s]) =
     (let (ds, a1) = decide_all oob a ss; (d, a2) = Decide oob a1 s in (ds @ [d], a2))"
  by (induction ss arbitrary: a) (simp_all add: Let_def split: prod.splits)

lemma decide_all_reachable:
  "as_reachable oob a \<Longrightarrow> decide_all oob a ss = (ds, a') \<Longrightarrow> as_reachable oob a'"
  by (induction ss arbitrary: a ds) (auto simp: Let_def split: prod.splits intro: as_reachable.decide)

lemma decide_all_cfg: "decide_all oob a ss = (ds, a') \<Longrightarrow> as_cfg a' = as_cfg a"
proof (induction ss arbitrary: a ds)
  case (Cons s ss)
  then show ?case by (auto simp: Let_def split: prod.splits) (metis Decide_state(1))
qed simp

text \<open>A small fleet of two-slot pods with a ten-second stabilisation window and no lead term.\<close>

definition demo_cfg :: as_config where
  "demo_cfg = \<lparr>SlotsPerHost = 2, TargetUtilisation = 1, MeanTTL = second, ProvisionLatency = 0,
     ScaleDownStabilization = 10 * second, MinReplicas = 1, MaxReplicas = 20, SlopeWindow = 3 * second\<rparr>"

definition demo_as :: autoscaler where
  "demo_as = \<lparr>as_cfg = demo_cfg, history = [], rateSlope = 0, peak = 0, peakAt = zero_time\<rparr>"

lemma demo_as_reachable: "as_reachable oob demo_as"
  by (rule as_reachable.start [of demo_cfg])
     (simp add: as_New_def as_applyDefaults_def as_Validate_def demo_cfg_def demo_as_def second_def)

abbreviation sample_at :: "int \<Rightarrow> real \<Rightarrow> Sample" where
  "sample_at t r \<equiv> \<lparr>At = t, ArrivalRate = r, InflightVMs = 0\<rparr>"

lemmas as_eval = Decide_def updateSlope_def applyStabilization_def clamp_def ceil_to_int_def
  Let_def fits64_def seconds_def demo_as_def demo_cfg_def time_sub_def min_duration_def
  max_duration_def second_def zero_time_def

lemma demo_decide:
  assumes "as_cfg a = demo_cfg" and "Decide (\<lambda>x. 0) a (sample_at t r) = (d, a')"
    and "\<lceil>max r 0 / 2\<rceil> = n" and "n \<le> 20"
  shows "PredictedVMs d = r" "demand a d (sample_at t r) = max r 0 / 2" "as_cfg a' = demo_cfg"
    "Replicas d = (if max 1 n \<ge> peak a \<or> \<not> time_sub t (peakAt a) < 10 * second then max 1 n else peak a)"
    "peakAt a' = (if max 1 n \<ge> peak a \<or> \<not> time_sub t (peakAt a) < 10 * second then t else peakAt a)"
    "peak a' = Replicas d" "HeldByStabilization d \<longleftrightarrow> Replicas d > max 1 n"
proof -
  note sp = Decide_split [OF assms(2)]
  show vms: "PredictedVMs d = r"
    using sp(2-4) by (simp add: assms(1) demo_cfg_def seconds_def second_def)
  show dem: "demand a d (sample_at t r) = max r 0 / 2"
    by (simp add: demand_def vms assms(1) demo_cfg_def)
  show "as_cfg a' = demo_cfg" using Decide_state(1) [OF assms(2)] assms(1) by simp
  show "peak a' = Replicas d" by (rule Decide_state(2) [OF assms(2)])
  have "0 \<le> max r 0 / 2" by simp
  then have "0 \<le> n" using assms(3) ceiling_mono [of 0 "max r 0 / 2"] by simp
  then have "ceil_to_int (\<lambda>x. 0) (demand a d (sample_at t r)) = n"
    using assms(3,4) by (simp add: ceil_to_int_def dem fits64_def)
  moreover have "clamp a n = max 1 n"
    using assms(4) by (simp add: clamp_def assms(1) demo_cfg_def)
  ultimately have n: "clamp a (ceil_to_int (\<lambda>x. 0) (demand a d (sample_at t r))) = max 1 n" by simp
  show "HeldByStabilization d \<longleftrightarrow> Replicas d > max 1 n" using sp(5) n by simp
  have st: "(Replicas d, a') = applyStabilization (updateSlope a (sample_at t r)) t (max 1 n)"
    using sp(1) n by simp
  show "Replicas d = (if max 1 n \<ge> peak a \<or> \<not> time_sub t (peakAt a) < 10 * second then max 1 n else peak a)"
    "peakAt a' = (if max 1 n \<ge> peak a \<or> \<not> time_sub t (peakAt a) < 10 * second then t else peakAt a)"
    using st by (auto simp: applyStabilization_def assms(1) demo_cfg_def second_def split: if_splits)
qed

subsection \<open>Bounds, sufficiency, minimality\<close>

text \<open>Every decision of a reachable autoscaler is between the configured minimum and
  maximum, whatever the sample is and whatever a conversion that leaves the range of a 64-bit
  integer yields.\<close>

theorem replicas_within_bounds:
  assumes "as_reachable oob a" and "Decide oob a s = (d, a')"
  shows "MinReplicas (as_cfg a) \<le> Replicas d \<and> Replicas d \<le> MaxReplicas (as_cfg a) \<and> 0 \<le> Replicas d"
proof -
  have i: "as_inv a" using assms(1) by (rule as_reachable_inv)
  moreover have "0 \<le> MinReplicas (as_cfg a)"
    using Validate_None(7) i by (auto simp: as_inv_def)
  ultimately show ?thesis using Decide_inv(2,3) [OF i assms(2)] by simp
qed

theorem replicas_within_bounds_witness:
  "\<exists>d a'. Decide (\<lambda>x. - 5) demo_as (sample_at 0 7) = (d, a') \<and>
     1 \<le> Replicas d \<and> Replicas d \<le> 20"
proof -
  obtain d a' where d: "Decide (\<lambda>x. - 5) demo_as (sample_at 0 7) = (d, a')" by fastforce
  show ?thesis
    using replicas_within_bounds [OF demo_as_reachable d] d by (simp add: demo_as_def demo_cfg_def)
qed

lemma demand_slots:
  assumes "as_inv a"
  shows "max (PredictedVMs d) (real_of_int (InflightVMs s)) =
    demand a d s * real_of_int (SlotsPerHost (as_cfg a)) * TargetUtilisation (as_cfg a)"
  using Validate_None(1,2) [of "as_cfg a"] assms by (simp add: demand_def as_inv_def)

lemma demand_scale:
  assumes "as_inv a"
  shows "x \<le> y \<Longrightarrow> x * real_of_int (SlotsPerHost (as_cfg a)) * TargetUtilisation (as_cfg a) \<le>
      y * real_of_int (SlotsPerHost (as_cfg a)) * TargetUtilisation (as_cfg a)"
    and "x < y \<Longrightarrow> x * real_of_int (SlotsPerHost (as_cfg a)) * TargetUtilisation (as_cfg a) <
      y * real_of_int (SlotsPerHost (as_cfg a)) * TargetUtilisation (as_cfg a)"
  using Validate_None(1,2) [of "as_cfg a"] assms
  by (auto simp: as_inv_def intro!: mult_right_mono mult_strict_right_mono)



subsection \<open>Stabilisation\<close>

text \<open>A decision the window does not hold is the new peak, dated by its sample.\<close>

lemma Decide_unheld:
  assumes "Decide oob a s = (d, a')" and "\<not> HeldByStabilization d"
  shows "peak a' = Replicas d" "peakAt a' = At s"
proof -
  let ?n = "clamp a (ceil_to_int oob (demand a d s))"
  let ?st = "applyStabilization (updateSlope a s) (At s) ?n"
  have "fst ?st = ?n"
    using Decide_split(1,5) [OF assms(1)] Decide_state(4) [OF assms(1)] assms(2)
    by (metis fst_conv not_less_iff_gr_or_eq order.not_eq_order_implies_strict)
  moreover have "a' = snd ?st" using Decide_split(1) [OF assms(1)] by (metis snd_conv)
  ultimately show "peakAt a' = At s" by (auto simp: applyStabilization_def split: if_splits)
  show "peak a' = Replicas d" by (rule Decide_state(2) [OF assms(1)])
qed

text \<open>Inside the window of its peak an autoscaler decides at least the peak.\<close>

lemma Decide_in_window:
  assumes "Decide oob a s = (d, a')"
    and "time_sub (At s) (peakAt a) < ScaleDownStabilization (as_cfg a)"
    and "0 \<le> time_sub (At s) (peakAt a)"
  shows "peak a \<le> Replicas d" "peakAt a' = peakAt a \<or> peakAt a' = At s"
proof -
  let ?n = "clamp a (ceil_to_int oob (demand a d s))"
  let ?st = "applyStabilization (updateSlope a s) (At s) ?n"
  have r: "Replicas d = fst ?st" and a': "a' = snd ?st"
    using Decide_split(1) [OF assms(1)] by (metis fst_conv, metis snd_conv)
  show "peak a \<le> Replicas d"
    using assms(2,3) by (simp add: r applyStabilization_def)
  show "peakAt a' = peakAt a \<or> peakAt a' = At s"
    by (simp add: a' applyStabilization_def)
qed

lemma time_sub_mono: "u \<le> v \<Longrightarrow> time_sub t v \<le> time_sub t u"
  by (simp add: time_sub_def min_def max_def)

lemma time_sub_nonneg: "u \<le> t \<Longrightarrow> 0 \<le> time_sub t u"
  by (simp add: time_sub_def min_duration_def max_duration_def)

lemma decide_all_hold:
  assumes "decide_all oob a ss = (ds, a')" and "r \<le> peak a" and "t \<le> peakAt a"
    and "sorted_wrt (\<le>) (peakAt a # map At ss)"
    and "\<forall>x\<in>set ss. time_sub (At x) t < ScaleDownStabilization (as_cfg a)"
  shows "\<forall>d\<in>set ds. r \<le> Replicas d"
  using assms
proof (induction ss arbitrary: a ds)
  case (Cons s ss)
  obtain d a1 where d: "Decide oob a s = (d, a1)" by fastforce
  obtain ds2 where r: "decide_all oob a1 ss = (ds2, a')" and ds: "ds = d # ds2"
    using Cons.prems(1) d by (auto simp: Let_def split: prod.splits)
  have le: "peakAt a \<le> At s" using Cons.prems(4) by simp
  have w: "time_sub (At s) (peakAt a) < ScaleDownStabilization (as_cfg a)"
    using Cons.prems(3,5) time_sub_mono [of t "peakAt a" "At s"] by (auto intro: le_less_trans)
  note in_w = Decide_in_window [OF d w time_sub_nonneg [OF le]]
  have "r \<le> Replicas d" using in_w(1) Cons.prems(2) by simp
  moreover have "\<forall>d\<in>set ds2. r \<le> Replicas d"
  proof (rule Cons.IH [OF r])
    show "r \<le> peak a1" using Decide_state(2) [OF d] \<open>r \<le> Replicas d\<close> by simp
    show "t \<le> peakAt a1" using in_w(2) Cons.prems(3) le by auto
    show "sorted_wrt (\<le>) (peakAt a1 # map At ss)" using in_w(2) Cons.prems(4) by auto
    show "\<forall>x\<in>set ss. time_sub (At x) t < ScaleDownStabilization (as_cfg a1)"
      using Cons.prems(5) Decide_state(1) [OF d] by simp
  qed
  ultimately show ?case using ds by simp
qed simp

text \<open>C23. The fleet grows at once and shrinks late. A decision is never below the demand of
  its own sample, clamped; and a decision the window did not hold is a floor for every later
  decision whose sample comes less than the stabilisation window after it.\<close>

theorem scale_down_waits_for_the_window:
  assumes "as_reachable oob a" and "Decide oob a s = (d, a1)"
    and "decide_all oob a1 ss = (ds, a2)"
    and "sorted_wrt (\<le>) (At s # map At ss)"
    and "\<forall>x\<in>set ss. time_sub (At x) (At s) < ScaleDownStabilization (as_cfg a)"
  shows "clamp a (ceil_to_int oob (demand a d s)) \<le> Replicas d \<and>
    (\<not> HeldByStabilization d \<longrightarrow> (\<forall>e\<in>set ds. Replicas d \<le> Replicas e))"
proof (intro conjI impI)
  show "clamp a (ceil_to_int oob (demand a d s)) \<le> Replicas d" by (rule Decide_state(4) [OF assms(2)])
next
  assume "\<not> HeldByStabilization d"
  note u = Decide_unheld [OF assms(2) this]
  show "\<forall>e\<in>set ds. Replicas d \<le> Replicas e"
    by (rule decide_all_hold [OF assms(3), of _ "At s"])
       (use u assms(4,5) Decide_state(1) [OF assms(2)] in simp_all)
qed

theorem scale_down_waits_for_the_window_witness:
  "\<exists>d a1 ds a2. Decide (\<lambda>x. 0) demo_as (sample_at 0 7) = (d, a1) \<and> Replicas d = 4 \<and>
     decide_all (\<lambda>x. 0) a1 [sample_at (5 * second) 1, sample_at (9 * second) 0] = (ds, a2) \<and>
     (\<forall>e\<in>set ds. 4 \<le> Replicas e)"
proof -
  obtain d a1 where d: "Decide (\<lambda>x. 0) demo_as (sample_at 0 7) = (d, a1)" by fastforce
  obtain ds a2 where ds:
    "decide_all (\<lambda>x. 0) a1 [sample_at (5 * second) 1, sample_at (9 * second) 0] = (ds, a2)"
    by fastforce
  have v: "Replicas d = 4" "\<not> HeldByStabilization d"
    using d by (auto simp: as_eval drop_old.simps)
  show ?thesis
    using scale_down_waits_for_the_window [OF demo_as_reachable d ds] d v ds
    by (simp add: demo_as_def demo_cfg_def second_def time_sub_def min_duration_def max_duration_def)
qed

text \<open>The window is measured from the last peak and forgets the demand below it. A demand
  of 9 pods, seen 100 milliseconds ago and so inside the ten-second window, does not
  stop the decision from falling to one pod once ten seconds have passed since the
  peak of 10.\<close>

theorem window_forgets_demand_below_the_peak:
  "\<exists>d1 d2 d3 a. decide_all (\<lambda>x. 0) demo_as
      [sample_at 0 20, sample_at (9900 * millisecond) 18, sample_at (10 * second) 0] = ([d1, d2, d3], a) \<and>
     Replicas d2 = 10 \<and> demand demo_as d2 (sample_at (9900 * millisecond) 18) = 9 \<and>
     Replicas d3 = 1 \<and> \<not> HeldByStabilization d3"
proof -
  let ?o = "\<lambda>x :: real. 0 :: int"
  obtain d1 a1 where d1: "Decide ?o demo_as (sample_at 0 20) = (d1, a1)" by fastforce
  obtain d2 a2 where d2: "Decide ?o a1 (sample_at (9900 * millisecond) 18) = (d2, a2)" by fastforce
  obtain d3 a3 where d3: "Decide ?o a2 (sample_at (10 * second) 0) = (d3, a3)" by fastforce
  have 0: "as_cfg demo_as = demo_cfg" "peak demo_as = 0" by (simp_all add: demo_as_def)
  have 1: "as_cfg a1 = demo_cfg" "peak a1 = 10" "peakAt a1 = 0"
    using demo_decide [OF 0(1) d1, of 10] 0 by simp_all
  have "time_sub (9900 * millisecond) 0 < 10 * second"
    by (simp add: time_sub_def min_duration_def max_duration_def millisecond_def second_def)
  then have 2: "as_cfg a2 = demo_cfg" "peak a2 = 10" "peakAt a2 = 0" "Replicas d2 = 10"
    "demand a1 d2 (sample_at (9900 * millisecond) 18) = 9"
    using demo_decide [OF 1(1) d2, of 9] 1 by simp_all
  have "\<not> time_sub (10 * second) 0 < 10 * second"
    by (simp add: time_sub_def min_duration_def max_duration_def second_def)
  then have 3: "Replicas d3 = 1" "\<not> HeldByStabilization d3"
    using demo_decide [OF 2(1) d3, of 0] 2 by simp_all
  have "decide_all ?o demo_as
      [sample_at 0 20, sample_at (9900 * millisecond) 18, sample_at (10 * second) 0] = ([d1, d2, d3], a3)"
    by (simp add: d1 d2 d3)
  moreover have "demand demo_as d2 (sample_at (9900 * millisecond) 18) = 9"
    using 2(5) 1(1) by (simp add: demand_def demo_as_def)
  ultimately show ?thesis using 2 3 by blast
qed

subsection \<open>The contents of the sample window\<close>

text \<open>The window depends on the samples only, not on the decisions.\<close>

lemma updateSlope_history_cong:
  "history a = history b \<Longrightarrow> as_cfg a = as_cfg b \<Longrightarrow>
     history (updateSlope a s) = history (updateSlope b s)"
  by (simp add: updateSlope_def Let_def)

lemma foldl_updateSlope_cong:
  "history a = history b \<Longrightarrow> as_cfg a = as_cfg b \<Longrightarrow>
     history (foldl updateSlope a ss) = history (foldl updateSlope b ss)"
proof (induction ss arbitrary: a b)
  case (Cons s ss)
  have "history (updateSlope a s) = history (updateSlope b s)"
    by (rule updateSlope_history_cong [OF Cons.prems])
  moreover have "as_cfg (updateSlope a s) = as_cfg (updateSlope b s)"
    using Cons.prems(2) by (simp only: updateSlope_cfg)
  ultimately show ?case by (simp only: foldl_Cons) (rule Cons.IH)
qed simp

lemma decide_all_history:
  "decide_all oob a ss = (ds, a') \<Longrightarrow> history a' = history (foldl updateSlope a ss)"
proof (induction ss arbitrary: a ds)
  case (Cons s ss)
  obtain d a1 where d: "Decide oob a s = (d, a1)" by fastforce
  obtain ds2 where r: "decide_all oob a1 ss = (ds2, a')"
    using Cons.prems d by (auto simp: Let_def split: prod.splits)
  show ?case
    using Cons.IH [OF r] Decide_state(1,3) [OF d] foldl_updateSlope_cong [of a1 "updateSlope a s" ss]
    by simp
qed simp

lemma drop_old_append:
  "(\<forall>y\<in>set ys. At y < c) \<Longrightarrow> 2 \<le> length zs \<Longrightarrow> drop_old c (ys @ zs) = drop_old c zs"
  by (induction ys) auto

text \<open>Dropping after every sample leaves what dropping once at the end would leave.\<close>

lemma drop_old_twice:
  assumes "c \<le> c'"
  shows "drop_old c' (drop_old c xs @ [s]) = drop_old c' (xs @ [s])"
proof (cases "xs = []")
  case False
  obtain ys where ys: "xs = ys @ drop_old c xs" "\<forall>y\<in>set ys. At y < c" using drop_old_suffix by blast
  have "2 \<le> length (drop_old c xs @ [s])"
    using False drop_old_length [of xs c] by (cases xs) auto
  then have "drop_old c' (ys @ (drop_old c xs @ [s])) = drop_old c' (drop_old c xs @ [s])"
    using ys(2) assms by (intro drop_old_append) auto
  then show ?thesis using ys(1) by (metis append_assoc)
qed simp

lemma foldl_updateSlope_window:
  assumes "history a = []" and "sorted_wrt (<) (map At ss)" and "ss \<noteq> []"
  shows "history (foldl updateSlope a ss) = drop_old (At (last ss) - SlopeWindow (as_cfg a)) ss \<and>
    as_cfg (foldl updateSlope a ss) = as_cfg a"
  using assms
proof (induction ss rule: rev_induct)
  case (snoc s ss)
  let ?b = "foldl updateSlope a ss"
  show ?case
  proof (cases "ss = []")
    case True
    with snoc.prems(1) show ?thesis by (simp add: updateSlope_def Let_def)
  next
    case False
    with snoc have b: "history ?b = drop_old (At (last ss) - SlopeWindow (as_cfg a)) ss"
      "as_cfg ?b = as_cfg a" by (auto simp: sorted_wrt_append)
    have lt: "At (last ss) < At s" using snoc.prems(2) False by (auto simp: sorted_wrt_append)
    have "last (history ?b) = last ss"
      using drop_old_last [of _ "butlast ss" "last ss"] False b(1) by simp
    with lt b have "history (updateSlope ?b s) =
        drop_old (At s - SlopeWindow (as_cfg a))
          (drop_old (At (last ss) - SlopeWindow (as_cfg a)) ss @ [s])"
      by (simp add: updateSlope_def Let_def)
    with lt show ?thesis by (simp add: drop_old_twice b(2))
  qed
qed simp

text \<open>The window holds exactly the recent samples. After samples at increasing instants, fed
  to a fresh or reset autoscaler, it is a suffix of them: every sample dropped is older than the
  slope window, every sample kept is inside it but for the last two, which are always kept so
  that a slope exists.\<close>

theorem window_holds_recent_samples:
  assumes "history a = []" and "decide_all oob a ss = (ds, a')"
    and "sorted_wrt (<) (map At ss)" and "ss \<noteq> []"
  shows "\<exists>old. ss = old @ history a' \<and>
    (\<forall>x\<in>set old. At x < At (last ss) - SlopeWindow (as_cfg a)) \<and>
    min 2 (length ss) \<le> length (history a') \<and>
    (\<forall>i. i + 2 < length (history a') \<longrightarrow> At (last ss) - SlopeWindow (as_cfg a) \<le> At (history a' ! i))"
proof -
  let ?c = "At (last ss) - SlopeWindow (as_cfg a)"
  have "history a' = drop_old ?c ss"
    using foldl_updateSlope_window [OF assms(1,3,4)] decide_all_history [OF assms(2)] by simp
  moreover obtain old where "ss = old @ drop_old ?c ss" "\<forall>x\<in>set old. At x < ?c"
    using drop_old_suffix by blast
  ultimately show ?thesis
    using drop_old_length [of ss ?c] drop_old_fresh [OF assms(3), of _ ?c] by auto
qed

theorem window_holds_recent_samples_witness:
  "\<exists>ds a' old. decide_all (\<lambda>x. 0) demo_as
      [sample_at 0 1, sample_at (4 * second) 2, sample_at (5 * second) 3, sample_at (6 * second) 5]
      = (ds, a') \<and>
    [sample_at 0 1, sample_at (4 * second) 2, sample_at (5 * second) 3, sample_at (6 * second) 5]
      = old @ history a' \<and> (\<forall>x\<in>set old. At x < 3 * second) \<and> 2 \<le> length (history a')"
proof -
  let ?ss = "[sample_at 0 1, sample_at (4 * second) 2, sample_at (5 * second) 3, sample_at (6 * second) 5]"
  obtain ds a' where r: "decide_all (\<lambda>x. 0) demo_as ?ss = (ds, a')" by fastforce
  have "history demo_as = []" "sorted_wrt (<) (map At ?ss)" "?ss \<noteq> []"
    by (simp_all add: demo_as_def second_def)
  from window_holds_recent_samples [OF this(1) r this(2,3)] obtain old where
    "?ss = old @ history a'"
    "\<forall>x\<in>set old. At x < At (last ?ss) - SlopeWindow (as_cfg demo_as)"
    "min 2 (length ?ss) \<le> length (history a')" by blast
  moreover have "At (last ?ss) - SlopeWindow (as_cfg demo_as) = 3 * second" "min 2 (length ?ss) = 2"
    by (simp_all add: demo_as_def demo_cfg_def)
  ultimately show ?thesis using r by metis
qed

subsection \<open>The slope is the least-squares slope\<close>

text \<open>The abscissa of a sample in the regression: seconds after the first sample.\<close>

definition elapsed :: "Sample list \<Rightarrow> Sample \<Rightarrow> real" where
  "elapsed hs h = seconds (time_sub (At h) (At (hd hs)))"

definition sum_over :: "(Sample \<Rightarrow> real) \<Rightarrow> Sample list \<Rightarrow> real" where
  "sum_over f hs = sum_list (map f hs)"

lemma sum_over_simps [simp]: "sum_over f [] = 0" "sum_over f (h # hs) = f h + sum_over f hs"
  by (simp_all add: sum_over_def)

lemma sum_over_linear:
  "sum_over (\<lambda>h. f h + g h) hs = sum_over f hs + sum_over g hs"
  "sum_over (\<lambda>h. f h - g h) hs = sum_over f hs - sum_over g hs"
  "sum_over (\<lambda>h. c * f h) hs = c * sum_over f hs"
  "sum_over (\<lambda>h. c) hs = real (length hs) * c"
  by (induction hs) (simp_all add: algebra_simps)

lemma sum_over_nonneg: "(\<And>h. 0 \<le> f h) \<Longrightarrow> 0 \<le> sum_over f hs"
  by (induction hs) simp_all

lemma sum_over_zero:
  "(\<And>h. 0 \<le> f h) \<Longrightarrow> sum_over f hs = 0 \<Longrightarrow> h \<in> set hs \<Longrightarrow> f h = 0"
  by (induction hs) (auto simp: add_nonneg_eq_0_iff sum_over_nonneg)

lemma sum_over_cong: "(\<And>h. h \<in> set hs \<Longrightarrow> f h = g h) \<Longrightarrow> sum_over f hs = sum_over g hs"
  by (induction hs) simp_all

text \<open>The squared error of the line with intercept \<open>c\<close> and slope \<open>m\<close>.\<close>

definition squared_error :: "Sample list \<Rightarrow> real \<Rightarrow> real \<Rightarrow> real" where
  "squared_error hs c m = sum_over (\<lambda>h. (ArrivalRate h - c - m * elapsed hs h)\<^sup>2) hs"

lemma ols_loop_sums:
  "ols_loop base hs z =
     \<lparr>sumT = sumT z + sum_over (\<lambda>h. seconds (time_sub (At h) base)) hs,
      sumR = sumR z + sum_over ArrivalRate hs,
      sumTT = sumTT z + sum_over (\<lambda>h. (seconds (time_sub (At h) base))\<^sup>2) hs,
      sumTR = sumTR z + sum_over (\<lambda>h. seconds (time_sub (At h) base) * ArrivalRate h) hs\<rparr>"
  by (induction base hs z rule: ols_loop.induct) (simp_all add: Let_def algebra_simps power2_eq_square)

lemma ols_slope_sums:
  assumes "2 \<le> length hs"
  defines "t \<equiv> elapsed hs"
  shows "ols_slope hs =
    (let n = real (length hs); denom = n * sum_over (\<lambda>h. (t h)\<^sup>2) hs - (sum_over t hs)\<^sup>2
     in if denom = 0 then 0
        else (n * sum_over (\<lambda>h. t h * ArrivalRate h) hs - sum_over t hs * sum_over ArrivalRate hs) / denom)"
proof -
  obtain h0 h1 r where hs: "hs = h0 # h1 # r"
    using assms(1) by (cases hs rule: remdups_adj.cases) auto
  have t: "t = (\<lambda>h. seconds (time_sub (At h) (At h0)))" by (auto simp: t_def elapsed_def hs)
  have "ols_slope hs = (let z = ols_loop (At h0) hs \<lparr>sumT = 0, sumR = 0, sumTT = 0, sumTR = 0\<rparr>;
      n = real (length hs); denom = n * sumTT z - sumT z * sumT z
      in if denom = 0 then 0 else (n * sumTR z - sumT z * sumR z) / denom)"
    by (simp add: ols_slope_def hs Let_def)
  then show ?thesis by (simp add: ols_loop_sums t Let_def power2_eq_square)
qed

text \<open>The denominator is the spread of the abscissas.\<close>

lemma denom_spread:
  assumes "hs \<noteq> []"
  defines "n \<equiv> real (length hs)"
  shows "n * sum_over (\<lambda>h. (f h)\<^sup>2) hs - (sum_over f hs)\<^sup>2 =
    n * sum_over (\<lambda>h. (f h - sum_over f hs / n)\<^sup>2) hs"
proof -
  let ?S = "sum_over f hs"
  have n: "n \<noteq> 0" using assms by simp
  have "(\<lambda>h. (f h - ?S / n)\<^sup>2) = (\<lambda>h. ((f h)\<^sup>2 - (2 * ?S / n) * f h) + (?S / n)\<^sup>2)"
    by (auto simp: power2_eq_square algebra_simps)
  then have "sum_over (\<lambda>h. (f h - ?S / n)\<^sup>2) hs =
      sum_over (\<lambda>h. (f h)\<^sup>2) hs - (2 * ?S / n) * ?S + n * (?S / n)\<^sup>2"
    by (simp only: sum_over_linear n_def)
  with n show ?thesis by (simp add: power2_eq_square field_simps)
qed

lemma denom_zero:
  assumes "hs \<noteq> []"
    and "real (length hs) * sum_over (\<lambda>h. (f h)\<^sup>2) hs - (sum_over f hs)\<^sup>2 = 0"
    and "x \<in> set hs" and "y \<in> set hs"
  shows "f x = f y"
proof -
  let ?m = "sum_over f hs / real (length hs)"
  have "sum_over (\<lambda>h. (f h - ?m)\<^sup>2) hs = 0" using assms(1,2) denom_spread [OF assms(1), of f] by simp
  from sum_over_zero [OF _ this assms(3)] sum_over_zero [OF _ this assms(4)] show ?thesis by simp
qed

definition ols_intercept :: "Sample list \<Rightarrow> real" where
  "ols_intercept hs =
     (sum_over ArrivalRate hs - ols_slope hs * sum_over (elapsed hs) hs) / real (length hs)"

definition residual :: "Sample list \<Rightarrow> Sample \<Rightarrow> real" where
  "residual hs h = ArrivalRate h - ols_intercept hs - ols_slope hs * elapsed hs h"

lemma elapsed_hd: "hs \<noteq> [] \<Longrightarrow> elapsed hs (hd hs) = 0"
  by (simp add: elapsed_def seconds_def time_sub_def min_duration_def max_duration_def)

lemma residual_sum:
  assumes "hs \<noteq> []"
  shows "sum_over (residual hs) hs = 0"
proof -
  have "sum_over (residual hs) hs = sum_over ArrivalRate hs - real (length hs) * ols_intercept hs -
      ols_slope hs * sum_over (elapsed hs) hs"
    unfolding residual_def by (simp only: sum_over_linear)
  then show ?thesis using assms by (simp add: ols_intercept_def)
qed

lemma residual_moment:
  assumes "hs \<noteq> []"
  shows "sum_over (\<lambda>h. elapsed hs h * residual hs h) hs = 0"
proof -
  let ?t = "elapsed hs" and ?n = "real (length hs)" and ?b = "ols_slope hs"
  let ?den = "?n * sum_over (\<lambda>h. (?t h)\<^sup>2) hs - (sum_over ?t hs)\<^sup>2"
  have n: "?n \<noteq> 0" using assms by simp
  show ?thesis
  proof (cases "?den = 0 \<or> length hs < 2")
    case True
    have "?t h = 0" if "h \<in> set hs" for h
    proof (cases "length hs < 2")
      case True
      with that have "h = hd hs" by (cases hs) auto
      then show ?thesis using elapsed_hd assms by simp
    next
      case False
      then show ?thesis
        using True denom_zero [OF assms _ that list.set_sel(1) [OF assms], of ?t] elapsed_hd [OF assms]
        by simp
    qed
    then have "sum_over (\<lambda>h. ?t h * residual hs h) hs = sum_over (\<lambda>h. 0) hs"
      by (intro sum_over_cong) simp
    then show ?thesis by (simp add: sum_over_linear)
  next
    case False
    then have b: "?b * ?den = ?n * sum_over (\<lambda>h. ?t h * ArrivalRate h) hs -
        sum_over ?t hs * sum_over ArrivalRate hs"
      using ols_slope_sums [of hs] by (simp add: Let_def)
    have "(\<lambda>h. ?t h * residual hs h) =
        (\<lambda>h. ?t h * ArrivalRate h - ols_intercept hs * ?t h - ?b * (?t h)\<^sup>2)"
      by (auto simp: residual_def algebra_simps power2_eq_square)
    then have "sum_over (\<lambda>h. ?t h * residual hs h) hs =
        sum_over (\<lambda>h. ?t h * ArrivalRate h) hs - ols_intercept hs * sum_over ?t hs -
        ?b * sum_over (\<lambda>h. (?t h)\<^sup>2) hs"
      by (simp only: sum_over_linear)
    then have "?n * sum_over (\<lambda>h. ?t h * residual hs h) hs =
        ?n * sum_over (\<lambda>h. ?t h * ArrivalRate h) hs - sum_over ?t hs * sum_over ArrivalRate hs -
        ?b * ?den"
      using n by (simp add: ols_intercept_def field_simps power2_eq_square)
    with b n show ?thesis by simp
  qed
qed

lemma squared_error_split:
  assumes "hs \<noteq> []"
  shows "squared_error hs c m = squared_error hs (ols_intercept hs) (ols_slope hs) +
    sum_over (\<lambda>h. ((ols_intercept hs - c) + (ols_slope hs - m) * elapsed hs h)\<^sup>2) hs"
proof -
  let ?e = "residual hs" and ?t = "elapsed hs"
  let ?a = "ols_intercept hs - c" and ?b = "ols_slope hs - m"
  have "(\<lambda>h. (ArrivalRate h - c - m * ?t h)\<^sup>2) =
      (\<lambda>h. (?e h)\<^sup>2 + (?a + ?b * ?t h)\<^sup>2 + (2 * ?a) * ?e h + (2 * ?b) * (?t h * ?e h))"
    by (auto simp: residual_def power2_eq_square algebra_simps)
  then have "squared_error hs c m = sum_over (\<lambda>h. (?e h)\<^sup>2) hs +
      sum_over (\<lambda>h. (?a + ?b * ?t h)\<^sup>2) hs + (2 * ?a) * sum_over ?e hs +
      (2 * ?b) * sum_over (\<lambda>h. ?t h * ?e h) hs"
    unfolding squared_error_def by (simp only: sum_over_linear)
  then show ?thesis
    unfolding squared_error_def residual_sum [OF assms] residual_moment [OF assms]
    by (simp add: residual_def)
qed

text \<open>C32. The slope the autoscaler keeps is the ordinary least-squares estimate: whatever
  samples the window holds, no line has a smaller squared error over them than the one with
  that slope, the degenerate windows (no sample, one, all at one instant) included.\<close>

theorem slope_is_least_squares:
  "\<exists>c. \<forall>c' m'. squared_error hs c (ols_slope hs) \<le> squared_error hs c' m'"
proof (cases "hs = []")
  case True
  then show ?thesis by (simp add: squared_error_def)
next
  case False
  have "0 \<le> sum_over (\<lambda>h. ((ols_intercept hs - c) + (ols_slope hs - m) * elapsed hs h)\<^sup>2) hs" for c m
    by (rule sum_over_nonneg) simp
  then show ?thesis
    using squared_error_split [OF False] by (metis le_add_same_cancel1)
qed

text \<open>Two samples at different instants determine the line that fits without error.\<close>

lemma ols_slope_exact:
  assumes fit: "\<forall>h\<in>set hs. ArrivalRate h = c + m * elapsed hs h"
    and xy: "x \<in> set hs" "y \<in> set hs" "elapsed hs x \<noteq> elapsed hs y"
  shows "ols_slope hs = m"
proof -
  have ne: "hs \<noteq> []" using xy by auto
  let ?g = "\<lambda>h. ((ols_intercept hs - c) + (ols_slope hs - m) * elapsed hs h)\<^sup>2"
  have "squared_error hs c m = sum_over (\<lambda>h. 0) hs"
    unfolding squared_error_def using fit by (intro sum_over_cong) simp
  then have "squared_error hs c m = 0" by (simp add: sum_over_linear)
  moreover have "0 \<le> squared_error hs (ols_intercept hs) (ols_slope hs)"
    unfolding squared_error_def by (rule sum_over_nonneg) simp
  moreover have "0 \<le> sum_over ?g hs" by (rule sum_over_nonneg) simp
  ultimately have "sum_over ?g hs = 0" using squared_error_split [OF ne, of c m] by linarith
  then have "?g h = 0" if "h \<in> set hs" for h using sum_over_zero [of ?g hs h] that by simp
  from this [OF xy(1)] this [OF xy(2)]
  have "(ols_intercept hs - c) + (ols_slope hs - m) * elapsed hs x = 0"
    "(ols_intercept hs - c) + (ols_slope hs - m) * elapsed hs y = 0"
    by simp_all
  then have "(ols_slope hs - m) * (elapsed hs x - elapsed hs y) = 0"
    unfolding right_diff_distrib by linarith
  with xy(3) show ?thesis by simp
qed

definition slope_inv :: "autoscaler \<Rightarrow> bool" where
  "slope_inv a \<longleftrightarrow> rateSlope a = ols_slope (history a)"

lemma as_reachable_slope: "as_reachable oob a \<Longrightarrow> slope_inv a"
proof (induction rule: as_reachable.induct)
  case (start cfg a)
  then show ?case by (auto simp: as_New_def Let_def slope_inv_def ols_slope_def split: option.splits)
next
  case (decide a s d a')
  have "a' = snd (applyStabilization (updateSlope a s) (At s) (clamp a (ceil_to_int oob (demand a d s))))"
    using Decide_split(1) [OF decide.hyps(2)] by (metis snd_conv)
  with decide.IH show ?case
    by (simp add: slope_inv_def applyStabilization_cfg updateSlope_def Let_def)
next
  case (reset a)
  then show ?case by (simp add: slope_inv_def as_Reset_def ols_slope_def)
qed

lemma updateSlope_slope: "slope_inv a \<Longrightarrow> rateSlope (updateSlope a s) = ols_slope (history (updateSlope a s))"
  by (simp add: slope_inv_def updateSlope_def Let_def)

text \<open>C33. On a linear ramp the prediction is exact. When the arrival rates of the window lie
  on a line of slope \<open>m\<close> per second, the lead term is the rise of that line over one
  provisioning latency, or zero when the line falls; it is never negative, on any samples.\<close>

theorem prediction_exact_on_a_ramp:
  assumes "as_reachable oob a" and "Decide oob a s = (d, a')"
  shows "0 \<le> LeadTerm d \<and>
    (2 \<le> length (history a') \<and> At (last (history a')) - At (hd (history a')) \<le> max_duration \<and>
     (\<forall>h\<in>set (history a'). ArrivalRate h = c + m * elapsed (history a') h) \<longrightarrow>
       PredictedRate d = ArrivalRate s + max 0 m * seconds (ProvisionLatency (as_cfg a)))"
proof (intro conjI impI)
  have "0 \<le> ProvisionLatency (as_cfg a)"
    using as_reachable_inv [OF assms(1)] Validate_None(5) by (simp add: as_inv_def)
  then show "0 \<le> LeadTerm d"
    unfolding Decide_split(2) [OF assms(2)] by (simp add: seconds_def)
next
  let ?h = "history a'"
  assume *: "2 \<le> length ?h \<and> At (last ?h) - At (hd ?h) \<le> max_duration \<and>
    (\<forall>h\<in>set ?h. ArrivalRate h = c + m * elapsed ?h h)"
  then have ne: "?h \<noteq> []" by auto
  have "as_inv a'" using Decide_inv(1) [OF as_reachable_inv [OF assms(1)] assms(2)] .
  then have "sorted_wrt (<) (map At ?h)" by (simp add: as_inv_def)
  moreover have "0 < length ?h - 1" "length ?h - 1 < length ?h" using * by auto
  ultimately have "At (?h ! 0) < At (?h ! (length ?h - 1))"
    using sorted_wrt_nth_less [of "(<)" "map At ?h" 0 "length ?h - 1"]
    by (metis length_map less_trans nth_map)
  then have "0 < At (last ?h) - At (hd ?h)" using ne by (simp add: hd_conv_nth last_conv_nth)
  with * have "elapsed ?h (last ?h) \<noteq> elapsed ?h (hd ?h)"
    by (auto simp: elapsed_def seconds_def time_sub_def min_duration_def max_duration_def)
  from ols_slope_exact [OF _ last_in_set [OF ne] list.set_sel(1) [OF ne] this, of c m] *
  have "ols_slope ?h = m" by blast
  moreover have "rateSlope (updateSlope a s) = ols_slope ?h"
    using updateSlope_slope [OF as_reachable_slope [OF assms(1)]] Decide_state(3) [OF assms(2)] by simp
  ultimately show "PredictedRate d = ArrivalRate s + max 0 m * seconds (ProvisionLatency (as_cfg a))"
    using Decide_split(2,3) [OF assms(2)] by simp
qed

text \<open>A pod that takes two seconds to provision, and a rate that grows by 3 per second.\<close>

definition ramp_as :: autoscaler where
  "ramp_as = demo_as\<lparr>as_cfg := demo_cfg\<lparr>ProvisionLatency := 2 * second\<rparr>\<rparr>"

lemma ramp_as_reachable: "as_reachable oob ramp_as"
  by (rule as_reachable.start [of "demo_cfg\<lparr>ProvisionLatency := 2 * second\<rparr>"])
     (simp add: as_New_def as_applyDefaults_def as_Validate_def demo_cfg_def demo_as_def ramp_as_def
       second_def)

theorem prediction_exact_on_a_ramp_witness:
  "\<exists>ds a d a'. decide_all (\<lambda>x. 0) ramp_as [sample_at 0 10, sample_at second 13] = (ds, a) \<and>
     Decide (\<lambda>x. 0) a (sample_at (2 * second) 16) = (d, a') \<and> PredictedRate d = 16 + 3 * 2"
proof -
  obtain ds a where a: "decide_all (\<lambda>x. 0) ramp_as [sample_at 0 10, sample_at second 13] = (ds, a)"
    by fastforce
  obtain d a' where d: "Decide (\<lambda>x. 0) a (sample_at (2 * second) 16) = (d, a')" by fastforce
  have h0: "history a = [sample_at 0 10, sample_at second 13]"
    unfolding decide_all_history [OF a]
    by (simp add: updateSlope_def ramp_as_def demo_as_def demo_cfg_def Let_def second_def)
  have cfg: "as_cfg a = demo_cfg\<lparr>ProvisionLatency := 2 * second\<rparr>"
    using decide_all_cfg [OF a] by (simp add: ramp_as_def)
  have "history a' = [sample_at 0 10, sample_at second 13, sample_at (2 * second) 16]"
    unfolding Decide_state(3) [OF d]
    by (simp add: updateSlope_def h0 cfg Let_def demo_cfg_def second_def drop_old.simps)
  then have "PredictedRate d = 16 + max 0 3 * seconds (2 * second)"
    using prediction_exact_on_a_ramp [OF decide_all_reachable [OF ramp_as_reachable a] d, of 10 3] cfg
    by (simp add: elapsed_def seconds_def time_sub_def min_duration_def max_duration_def second_def)
  with a d show ?thesis by (auto simp: seconds_def second_def)
qed

end
