(* ===== verification/Allocator.thy ===== *)
theory Allocator
  imports SchedulerSpec
begin

section \<open>What the placement service relies on\<close>

text \<open>
  The placement service sees the scheduler through two calls. The locale states their laws:
  which assignment a call makes or drops, that a failed call changes none, and that no call
  panics. Its lemmas are what the proofs about the service use; the interpretation at the
  end shows that the scheduler keeps the laws.
\<close>

locale allocator =
  fixes ok :: "'s \<Rightarrow> bool"
    and asg :: "'s \<Rightarrow> vm_id \<rightharpoonup> 'h"
    and place :: "'s \<Rightarrow> vm_id \<Rightarrow> (('e + 'h) \<times> 's) option"
    and release :: "'s \<Rightarrow> vm_id \<Rightarrow> (('e + unit) \<times> 's) option"
  assumes place_total: "ok s \<Longrightarrow> \<exists>x s'. place s v = Some (x, s') \<and> ok s'"
    and place_Inr: "ok s \<Longrightarrow> place s v = Some (Inr h, s') \<Longrightarrow>
      asg s v = None \<and> asg s' = (asg s)(v \<mapsto> h)"
    and place_Inl: "ok s \<Longrightarrow> place s v = Some (Inl e, s') \<Longrightarrow> asg s' = asg s"
    and release_total: "ok s \<Longrightarrow> \<exists>x s'. release s v = Some (x, s') \<and> ok s'"
    and release_asg: "ok s \<Longrightarrow> release s v = Some (x, s') \<Longrightarrow>
      asg s' = (asg s)(v := None) \<and> (asg s v = None \<longleftrightarrow> x \<noteq> Inr ())"
begin

lemma place_ok: "ok s \<Longrightarrow> place s v = Some (x, s') \<Longrightarrow> ok s'"
  using place_total [of s v] by auto

lemma release_ok: "ok s \<Longrightarrow> release s v = Some (x, s') \<Longrightarrow> ok s'"
  using release_total [of s v] by auto

text \<open>
  \<open>held H s\<close>: every assignment is accounted for by \<open>H\<close>. A placement needs at most its own
  microVM to be added to the account; a release or a failed placement needs nothing.
\<close>

lemma place_held:
  assumes "ok s" and "place s v = Some (x, s')" and "dom (asg s) \<subseteq> H"
  shows "dom (asg s') \<subseteq> insert v H" "x = Inl e \<Longrightarrow> dom (asg s') \<subseteq> H"
  using assms place_Inr [OF assms(1)] place_Inl [OF assms(1)] by (cases x; auto)+

lemma release_held:
  assumes "ok s" and "release s v = Some (x, s')" and "dom (asg s) \<subseteq> insert v H"
  shows "dom (asg s') \<subseteq> H - {v}"
  using release_asg [OF assms(1,2)] assms(3) by auto

end

text \<open>The laws hold of the model of the scheduler.\<close>

lemma Place_effect:
  assumes inv: "sched_inv s"
  shows "\<exists>x s'. Place s v = Some (x, s') \<and> sched_inv s' \<and>
    (case x of Inr h \<Rightarrow> assigned s v = None \<and> assigned s' = (assigned s)(v \<mapsto> h)
     | Inl e \<Rightarrow> assigned s' = assigned s)"
proof (cases "assigned s v")
  case None
  obtain sel where sel: "selectHost s = Some sel" using selectHost_total [OF inv] by blast
  show ?thesis
  proof (cases sel)
    case (Some i)
    with Place_ok [OF inv None] sel None show ?thesis by fastforce
  qed (use None sel inv in \<open>simp add: Place_full\<close>)
qed (use inv in \<open>simp add: Place_duplicate\<close>)

lemma Release_effect:
  assumes inv: "sched_inv s"
  shows "\<exists>x s'. Release s v = Some (x, s') \<and> sched_inv s' \<and> assigned s' = (assigned s)(v := None) \<and>
    (assigned s v = None \<longleftrightarrow> x \<noteq> Inr ())"
proof (cases "assigned s v")
  case None
  then show ?thesis using inv by (auto simp: Release_unknown fun_upd_idem)
next
  case (Some i)
  with Release_ok [OF inv Some] show ?thesis by fastforce
qed

interpretation sl: allocator sched_inv assigned Place Release
proof unfold_locales
  fix s v assume inv: "sched_inv s"
  show "\<exists>x s'. Place s v = Some (x, s') \<and> sched_inv s'" using Place_effect [OF inv] by blast
  show "\<exists>x s'. Release s v = Some (x, s') \<and> sched_inv s'" using Release_effect [OF inv] by blast
next
  fix s v h s' assume "sched_inv s" "Place s v = Some (Inr h, s')"
  then show "assigned s v = None \<and> assigned s' = (assigned s)(v \<mapsto> h)"
    using Place_effect [of s v] by auto
next
  fix s v e s' assume "sched_inv s" "Place s v = Some (Inl e, s')"
  then show "assigned s' = assigned s" using Place_effect [of s v] by auto
next
  fix s v x s' assume "sched_inv s" "Release s v = Some (x, s')"
  then show "assigned s' = (assigned s)(v := None) \<and> (assigned s v = None \<longleftrightarrow> x \<noteq> Inr ())"
    using Release_effect [of s v] by auto
qed

text \<open>A change of the fleet returns, and adds no assignment.\<close>

lemma fleet_call_effect:
  assumes "sched_inv s" and "iterates vms (assigned s)"
    and "\<And>vm. c \<noteq> CallPlace vm"
    and "sched_exec s c vms = Some (r, s')"
  shows "sched_inv s'" "dom (assigned s') \<subseteq> dom (assigned s)"
proof -
  have "refines s c (sched_exec s c vms)" by (rule exec_refines [OF assms(1,2)])
  with assms(4) have inv: "sched_inv s'" and st: "fleet_step (policy s) (abs_fleet s) c r (abs_fleet s')"
    by (auto simp: refines_def)
  show "sched_inv s'" by (rule inv)
  from st assms(3) show "dom (assigned s') \<subseteq> dom (assigned s)"
    by (cases rule: fleet_step.cases) (auto simp: abs_fleet_def split: if_splits)
qed

end
