(* ===== verification/Placement.thy ===== *)
theory Placement
  imports Allocator Machine
begin

section \<open>The placement service (internal/placement/service.go)\<close>

text \<open>
  The admission path. Callers of \<^verbatim>\<open>Admit\<close> put a request into a bounded queue and wait on
  a one-element result channel; one dispatcher goroutine takes the requests in order and
  places them on the scheduler; a caller whose request was placed boots the microVM and
  may place it again elsewhere when the boot fails.

  The goroutines are modelled as a machine: a state holding the queue, the two signalling
  channels, the atomic counters, the position of the dispatcher and the position of every
  caller, and one definition for every piece of code between two points where another
  goroutine can interleave (a channel operation, an atomic, a call of the scheduler or of
  the booter). A definition yields \<open>None\<close> when its piece of code cannot run now: a channel
  operation that blocks, or a goroutine that is elsewhere. \<open>svc_step\<close> runs the piece an
  event names, so a run of the machine is a list of events, one for every choice the Go
  scheduler, the clock, the booter and the callers make.
\<close>

subsection \<open>Configuration\<close>

datatype p_error =
    ErrNilScheduler
  | BadQueueDepth int
  | BadAdmissionDeadline duration
  | BadRetryInterval duration
  | ErrEmptyVMID
  | ErrAdmissionTimeout
  | ErrQueueFull
  | ErrShuttingDown
  | ErrBootFailed string
  | ErrSched sched_error

record p_config =
  QueueDepth :: int
  AdmissionDeadline :: duration
  RetryInterval :: duration

definition DefaultQueueDepth :: int where
  "DefaultQueueDepth = 1024"

definition DefaultAdmissionDeadline :: duration where
  "DefaultAdmissionDeadline = 3 * second"

definition DefaultRetryInterval :: duration where
  "DefaultRetryInterval = 5 * millisecond"

definition p_applyDefaults :: "p_config \<Rightarrow> p_config" where
  "p_applyDefaults c =
     (let c1 = (if QueueDepth c = 0 then c\<lparr>QueueDepth := DefaultQueueDepth\<rparr> else c);
          c2 = (if AdmissionDeadline c1 = 0 then c1\<lparr>AdmissionDeadline := DefaultAdmissionDeadline\<rparr>
                else c1)
      in if RetryInterval c2 = 0 then c2\<lparr>RetryInterval := DefaultRetryInterval\<rparr> else c2)"

definition p_Validate :: "p_config \<Rightarrow> p_error option" where
  "p_Validate c =
     (if QueueDepth c < 1 then Some (BadQueueDepth (QueueDepth c))
      else if AdmissionDeadline c \<le> 0 then Some (BadAdmissionDeadline (AdmissionDeadline c))
      else if RetryInterval c \<le> 0 then Some (BadRetryInterval (RetryInterval c))
      else None)"

subsection \<open>State\<close>

record Request =
  VMID :: vm_id
  TTL :: duration

record Result =
  res_Host :: host_id
  res_Wait :: duration
  res_Attempts :: int

text \<open>The value on the result channel: \<^verbatim>\<open>err\<close> and \<^verbatim>\<open>host\<close> are never both set.\<close>

datatype admission = Placed_on host_id int | Refused p_error

text \<open>
  Where a caller is inside \<^verbatim>\<open>Admit\<close>: at the send into the queue; before and after reading
  the queue's length; at the receive from its result channel; in the booter's call on a
  host, with the number of attempts and the loop counter of \<^verbatim>\<open>bootWithRetry\<close>; between the
  release and the next placement of that loop; or back at its caller.
\<close>

datatype phase =
    Sending
  | Sent
  | Recording u64
  | Awaiting
  | Booting host_id int int
  | Replacing string int int
  | Finished "p_error + Result"

text \<open>\<open>lapsed\<close>: \<^verbatim>\<open>p.ctx.Err() != nil\<close>, by the admission deadline or the caller's own context.\<close>

record pending =
  req :: Request
  lapsed :: bool
  enqueued :: instant
  result :: "admission option"
  phase :: phase

type_synonym pid = nat

text \<open>Where the dispatcher is: not started, in the \<^verbatim>\<open>select\<close> of \<^verbatim>\<open>Start\<close>, at the three points
  of \<^verbatim>\<open>dispatch\<close> with the request and the number of attempts, in \<^verbatim>\<open>drain\<close>, or returned.\<close>

datatype dispatcher =
    NotStarted
  | Idle
  | Checking pid int
  | Placing pid int
  | Waiting pid int
  | Draining
  | Exited

record service =
  svc_cfg :: p_config
  svc_sched :: scheduler
  has_booter :: bool
  queue :: "pid list"
  freed :: bool
  stopped :: bool
  ctx_done :: bool
  disp :: dispatcher
  accepted :: u64
  placed :: u64
  timedOut :: u64
  queueRejected :: u64
  released :: u64
  bootFailed :: u64
  maxQueueLen :: u64
  admissions :: "pid \<rightharpoonup> pending"

definition svc_New :: "scheduler option \<Rightarrow> p_config \<Rightarrow> p_error + service" where
  "svc_New so cfg0 =
     (case so of
        None \<Rightarrow> Inl ErrNilScheduler
      | Some s \<Rightarrow>
          let cfg = p_applyDefaults cfg0 in
          (case p_Validate cfg of
             Some e \<Rightarrow> Inl e
           | None \<Rightarrow> Inr
               \<lparr>svc_cfg = cfg, svc_sched = s, has_booter = False, queue = [], freed = False,
                stopped = False, ctx_done = False, disp = NotStarted, accepted = 0, placed = 0,
                timedOut = 0, queueRejected = 0, released = 0, bootFailed = 0, maxQueueLen = 0,
                admissions = Map.empty\<rparr>))"

definition WithBooter :: "service \<Rightarrow> service" where
  "WithBooter s = s\<lparr>has_booter := True\<rparr>"

definition maxBootAttempts :: int where
  "maxBootAttempts = 3"

definition put_pending :: "service \<Rightarrow> pid \<Rightarrow> pending \<Rightarrow> service" where
  "put_pending s p r = s\<lparr>admissions := (admissions s)(p \<mapsto> r)\<rparr>"

text \<open>\<^verbatim>\<open>p.result <- a\<close> on the channel of capacity one.\<close>

definition send_result :: "service \<Rightarrow> pid \<Rightarrow> admission \<Rightarrow> service option" where
  "send_result s p a =
     (case admissions s p of
        Some r \<Rightarrow> if result r = None then Some (put_pending s p (r\<lparr>result := Some a\<rparr>)) else None
      | None \<Rightarrow> None)"

subsection \<open>Capacity signals and releases\<close>

definition signalCapacity :: "service \<Rightarrow> service" where
  "signalCapacity s = (if freed s then s else s\<lparr>freed := True\<rparr>)"

definition svc_Release :: "service \<Rightarrow> vm_id \<Rightarrow> ((sched_error + unit) \<times> service) option" where
  "svc_Release s vm =
     do {
       (r, sc) \<leftarrow> Release (svc_sched s) vm;
       (case r of
          Inl e \<Rightarrow> Some (Inl e, s\<lparr>svc_sched := sc\<rparr>)
        | Inr _ \<Rightarrow>
            Some (Inr (), signalCapacity (s\<lparr>svc_sched := sc, released := released s + 1\<rparr>)))
     }"

subsection \<open>Admission, on the caller's side\<close>

text \<open>The entry of \<^verbatim>\<open>Admit\<close>, up to the send.\<close>

definition admit_enter :: "service \<Rightarrow> pid \<Rightarrow> Request \<Rightarrow> instant \<Rightarrow> service option" where
  "admit_enter s p r now =
     (case admissions s p of
        Some _ \<Rightarrow> None
      | None \<Rightarrow>
          if VMID r = [] then
            Some (put_pending s p \<lparr>req = r, lapsed = False, enqueued = now, result = None,
              phase = Finished (Inl ErrEmptyVMID)\<rparr>)
          else
            Some (put_pending (s\<lparr>accepted := accepted s + 1\<rparr>) p
              \<lparr>req = r, lapsed = False, enqueued = now, result = None, phase = Sending\<rparr>))"

text \<open>The context of a request ends: its deadline passes or its caller cancels it.\<close>

definition ctx_expire :: "service \<Rightarrow> pid \<Rightarrow> service option" where
  "ctx_expire s p =
     map_option (\<lambda>r. put_pending s p (r\<lparr>lapsed := True\<rparr>)) (admissions s p)"

text \<open>\<^verbatim>\<open>case s.queue <- p\<close> and \<^verbatim>\<open>case <-ctx.Done()\<close>\<close>

definition admit_send :: "service \<Rightarrow> pid \<Rightarrow> service option" where
  "admit_send s p =
     do {
       r \<leftarrow> admissions s p;
       (if phase r = Sending \<and> int (length (queue s)) < QueueDepth (svc_cfg s)
        then Some (put_pending (s\<lparr>queue := queue s @ [p]\<rparr>) p (r\<lparr>phase := Sent\<rparr>))
        else None)
     }"

definition admit_reject :: "service \<Rightarrow> pid \<Rightarrow> service option" where
  "admit_reject s p =
     do {
       r \<leftarrow> admissions s p;
       (if phase r = Sending \<and> lapsed r
        then Some (put_pending (s\<lparr>queueRejected := queueRejected s + 1\<rparr>) p
          (r\<lparr>phase := Finished (Inl ErrQueueFull)\<rparr>))
        else None)
     }"

text \<open>
  \<^verbatim>\<open>recordQueueDepth\<close>: the length is read, then the compare-and-swap loop runs until the
  high-water mark is at least that length. An iteration whose swap fails changes nothing,
  so the loop is the step of its last iteration.
\<close>

definition read_depth :: "service \<Rightarrow> pid \<Rightarrow> service option" where
  "read_depth s p =
     do {
       r \<leftarrow> admissions s p;
       (if phase r = Sent
        then Some (put_pending s p (r\<lparr>phase := Recording (of_nat (length (queue s)))\<rparr>)) else None)
     }"

definition record_depth :: "service \<Rightarrow> pid \<Rightarrow> service option" where
  "record_depth s p =
     do {
       r \<leftarrow> admissions s p;
       (case phase r of
          Recording depth \<Rightarrow>
            Some (put_pending (if depth \<le> maxQueueLen s then s else s\<lparr>maxQueueLen := depth\<rparr>) p
              (r\<lparr>phase := Awaiting\<rparr>))
        | _ \<Rightarrow> None)
     }"

definition admit_done :: "service \<Rightarrow> pid \<Rightarrow> pending \<Rightarrow> host_id \<Rightarrow> int \<Rightarrow> instant \<Rightarrow> service" where
  "admit_done s p r h attempts now =
     put_pending (s\<lparr>placed := placed s + 1\<rparr>) p
       (r\<lparr>phase := Finished (Inr \<lparr>res_Host = h, res_Wait = time_sub now (enqueued r),
                                  res_Attempts = attempts\<rparr>)\<rparr>)"

text \<open>\<^verbatim>\<open>res := <-p.result\<close> and what follows it up to the booter.\<close>

definition admit_receive :: "service \<Rightarrow> pid \<Rightarrow> instant \<Rightarrow> service option" where
  "admit_receive s p now =
     do {
       r \<leftarrow> admissions s p;
       (if phase r = Awaiting then
          do {
            a \<leftarrow> result r;
            let r' = r\<lparr>result := None\<rparr>;
            (case a of
               Refused e \<Rightarrow> Some (put_pending s p (r'\<lparr>phase := Finished (Inl e)\<rparr>))
             | Placed_on h attempts \<Rightarrow>
                 if has_booter s then Some (put_pending s p (r'\<lparr>phase := Booting h attempts 0\<rparr>))
                 else Some (admit_done s p r' h attempts now))
          }
        else None)
     }"

text \<open>The two ways the booter's call returns.\<close>

definition boot_ok :: "service \<Rightarrow> pid \<Rightarrow> instant \<Rightarrow> service option" where
  "boot_ok s p now =
     do {
       r \<leftarrow> admissions s p;
       (case phase r of
          Booting h attempts i \<Rightarrow> Some (admit_done s p r h attempts now)
        | _ \<Rightarrow> None)
     }"

definition boot_fail :: "service \<Rightarrow> pid \<Rightarrow> pending \<Rightarrow> string \<Rightarrow> service" where
  "boot_fail s p r err =
     put_pending (s\<lparr>bootFailed := bootFailed s + 1\<rparr>) p
       (r\<lparr>phase := Finished (Inl (ErrBootFailed err))\<rparr>)"

definition boot_err :: "service \<Rightarrow> pid \<Rightarrow> string \<Rightarrow> service option" where
  "boot_err s p err =
     do {
       r \<leftarrow> admissions s p;
       (case phase r of
          Booting h attempts i \<Rightarrow>
            do {
              (_, sc) \<leftarrow> Release (svc_sched s) (VMID (req r));
              let s1 = signalCapacity (s\<lparr>svc_sched := sc\<rparr>);
              (if i + 1 \<ge> maxBootAttempts \<or> lapsed r then Some (boot_fail s1 p r err)
               else Some (put_pending s1 p (r\<lparr>phase := Replacing err attempts i\<rparr>)))
            }
        | _ \<Rightarrow> None)
     }"

definition boot_replace :: "service \<Rightarrow> pid \<Rightarrow> service option" where
  "boot_replace s p =
     do {
       r \<leftarrow> admissions s p;
       (case phase r of
          Replacing err attempts i \<Rightarrow>
            do {
              (x, sc) \<leftarrow> Place (svc_sched s) (VMID (req r));
              let s1 = s\<lparr>svc_sched := sc\<rparr>;
              (case x of
                 Inl _ \<Rightarrow> Some (boot_fail s1 p r err)
               | Inr h \<Rightarrow> Some (put_pending s1 p (r\<lparr>phase := Booting h (attempts + 1) (i + 1)\<rparr>)))
            }
        | _ \<Rightarrow> None)
     }"

subsection \<open>The dispatcher\<close>

definition svc_Start :: "service \<Rightarrow> service option" where
  "svc_Start s = (if disp s = NotStarted then Some (s\<lparr>disp := Idle\<rparr>) else None)"

text \<open>\<^verbatim>\<open>Stop\<close>, up to its wait for the dispatcher to finish.\<close>

definition svc_Stop :: "service \<Rightarrow> service" where
  "svc_Stop s = (if stopped s then s else s\<lparr>stopped := True\<rparr>)"

definition disp_take :: "service \<Rightarrow> service option" where
  "disp_take s =
     (case (disp s, queue s) of
        (Idle, p # ps) \<Rightarrow> Some (s\<lparr>queue := ps, disp := Checking p 0\<rparr>)
      | _ \<Rightarrow> None)"

definition disp_shutdown :: "service \<Rightarrow> service option" where
  "disp_shutdown s =
     (if disp s = Idle \<and> (ctx_done s \<or> stopped s) then Some (s\<lparr>disp := Draining\<rparr>) else None)"

definition drain_step :: "service \<Rightarrow> service option" where
  "drain_step s =
     (if disp s = Draining then
        (case queue s of
           p # ps \<Rightarrow> send_result (s\<lparr>queue := ps\<rparr>) p (Refused ErrShuttingDown)
         | [] \<Rightarrow> Some (s\<lparr>disp := Exited\<rparr>))
      else None)"

text \<open>\<^verbatim>\<open>dispatch\<close>: the check of the request's context, the placement, and the five ways out of
  the wait for capacity.\<close>

definition dispatch_check :: "service \<Rightarrow> service option" where
  "dispatch_check s =
     (case disp s of
        Checking p attempts \<Rightarrow>
          do {
            r \<leftarrow> admissions s p;
            (if lapsed r
             then send_result (s\<lparr>timedOut := timedOut s + 1, disp := Idle\<rparr>) p (Refused ErrAdmissionTimeout)
             else Some (s\<lparr>disp := Placing p (attempts + 1)\<rparr>))
          }
      | _ \<Rightarrow> None)"

definition dispatch_place :: "service \<Rightarrow> service option" where
  "dispatch_place s =
     (case disp s of
        Placing p attempts \<Rightarrow>
          do {
            r \<leftarrow> admissions s p;
            (x, sc) \<leftarrow> Place (svc_sched s) (VMID (req r));
            let s1 = s\<lparr>svc_sched := sc\<rparr>;
            (case x of
               Inr h \<Rightarrow> send_result (s1\<lparr>disp := Idle\<rparr>) p (Placed_on h attempts)
             | Inl e \<Rightarrow>
                 if e \<noteq> ErrNoCapacity then send_result (s1\<lparr>disp := Idle\<rparr>) p (Refused (ErrSched e))
                 else Some (s1\<lparr>disp := Waiting p attempts\<rparr>))
          }
      | _ \<Rightarrow> None)"

definition wait_freed :: "service \<Rightarrow> service option" where
  "wait_freed s =
     (case disp s of
        Waiting p attempts \<Rightarrow>
          if freed s then Some (s\<lparr>freed := False, disp := Checking p attempts\<rparr>) else None
      | _ \<Rightarrow> None)"

definition wait_timer :: "service \<Rightarrow> service option" where
  "wait_timer s =
     (case disp s of
        Waiting p attempts \<Rightarrow> Some (s\<lparr>disp := Checking p attempts\<rparr>)
      | _ \<Rightarrow> None)"

definition wait_lapsed :: "service \<Rightarrow> service option" where
  "wait_lapsed s =
     (case disp s of
        Waiting p attempts \<Rightarrow>
          do {
            r \<leftarrow> admissions s p;
            (if lapsed r
             then send_result (s\<lparr>timedOut := timedOut s + 1, disp := Idle\<rparr>) p (Refused ErrAdmissionTimeout)
             else None)
          }
      | _ \<Rightarrow> None)"

definition wait_shutdown :: "service \<Rightarrow> service option" where
  "wait_shutdown s =
     (case disp s of
        Waiting p attempts \<Rightarrow>
          if ctx_done s \<or> stopped s then send_result (s\<lparr>disp := Idle\<rparr>) p (Refused ErrShuttingDown)
          else None
      | _ \<Rightarrow> None)"

subsection \<open>Snapshots\<close>

record p_stats =
  ps_Accepted :: u64
  ps_Placed :: u64
  ps_TimedOut :: u64
  ps_QueueRejected :: u64
  ps_Released :: u64
  ps_BootFailed :: u64
  ps_CurrentQueueLen :: int
  ps_MaxQueueLen :: u64

definition svc_Stats :: "service \<Rightarrow> p_stats" where
  "svc_Stats s =
     \<lparr>ps_Accepted = accepted s, ps_Placed = placed s, ps_TimedOut = timedOut s,
      ps_QueueRejected = queueRejected s, ps_Released = released s, ps_BootFailed = bootFailed s,
      ps_CurrentQueueLen = int (length (queue s)), ps_MaxQueueLen = maxQueueLen s\<rparr>"

definition Dropped :: "p_stats \<Rightarrow> u64" where
  "Dropped st = ps_TimedOut st + ps_QueueRejected st + ps_BootFailed st"

subsection \<open>The machine\<close>

text \<open>
  \<open>EvFleet\<close> is a change of the fleet by the registry or the autoscaler, which share the
  scheduler; it is not a placement or a release.
\<close>

datatype event =
    EvAdmit pid Request instant
  | EvExpire pid
  | EvSend pid
  | EvReject pid
  | EvReadDepth pid
  | EvRecordDepth pid
  | EvReceive pid instant
  | EvBootOk pid instant
  | EvBootErr pid string
  | EvReplace pid
  | EvStart
  | EvCancel
  | EvStop
  | EvTake
  | EvShutdown
  | EvDrain
  | EvCheck
  | EvPlace
  | EvFreed
  | EvTimer
  | EvWaitLapsed
  | EvWaitShutdown
  | EvRelease vm_id
  | EvSignal
  | EvFleet call "vm_id list"

fun fleet_call :: "call \<Rightarrow> bool" where
  "fleet_call (CallPlace vm) = False"
| "fleet_call (CallRelease vm) = False"
| "fleet_call _ = True"

fun svc_step :: "event \<Rightarrow> service \<Rightarrow> service option" where
  "svc_step (EvAdmit p r now) s = admit_enter s p r now"
| "svc_step (EvExpire p) s = ctx_expire s p"
| "svc_step (EvSend p) s = admit_send s p"
| "svc_step (EvReject p) s = admit_reject s p"
| "svc_step (EvReadDepth p) s = read_depth s p"
| "svc_step (EvRecordDepth p) s = record_depth s p"
| "svc_step (EvReceive p now) s = admit_receive s p now"
| "svc_step (EvBootOk p now) s = boot_ok s p now"
| "svc_step (EvBootErr p err) s = boot_err s p err"
| "svc_step (EvReplace p) s = boot_replace s p"
| "svc_step EvStart s = svc_Start s"
| "svc_step EvCancel s = Some (s\<lparr>ctx_done := True\<rparr>)"
| "svc_step EvStop s = Some (svc_Stop s)"
| "svc_step EvTake s = disp_take s"
| "svc_step EvShutdown s = disp_shutdown s"
| "svc_step EvDrain s = drain_step s"
| "svc_step EvCheck s = dispatch_check s"
| "svc_step EvPlace s = dispatch_place s"
| "svc_step EvFreed s = wait_freed s"
| "svc_step EvTimer s = wait_timer s"
| "svc_step EvWaitLapsed s = wait_lapsed s"
| "svc_step EvWaitShutdown s = wait_shutdown s"
| "svc_step (EvRelease vm) s = map_option snd (svc_Release s vm)"
| "svc_step EvSignal s = Some (signalCapacity s)"
| "svc_step (EvFleet c vms) s =
     (if fleet_call c \<and> iterates vms (assigned (svc_sched s)) then map_option (\<lambda>(_, sc). s\<lparr>svc_sched := sc\<rparr>) (sched_exec (svc_sched s) c vms)
      else None)"

abbreviation svc_run :: "event list \<Rightarrow> service \<Rightarrow> service option" where
  "svc_run \<equiv> run svc_step"

end
