(* ===== verification/PlacementInv.thy ===== *)
theory PlacementInv
  imports Placement
begin

section \<open>The placement service's invariant\<close>

text \<open>
  \<open>svc_inv\<close> is what every step of the admission machine keeps: the scheduler's own
  invariant, the bound of the queue, and that the requests in line (the one the dispatcher
  holds, then the queue) are exactly those whose callers wait for an answer that has not
  been sent. In particular a result channel is empty whenever something is sent on it, so
  no goroutine blocks there, and no request is lost or answered twice.
\<close>

subsection \<open>The invariant\<close>

fun current :: "dispatcher \<Rightarrow> pid list" where
  "current (Checking p n) = [p]"
| "current (Placing p n) = [p]"
| "current (Waiting p n) = [p]"
| "current _ = []"

definition in_line :: "service \<Rightarrow> pid list" where
  "in_line s = current (disp s) @ queue s"

fun waiting_phase :: "phase \<Rightarrow> bool" where
  "waiting_phase Sent = True"
| "waiting_phase (Recording d) = True"
| "waiting_phase Awaiting = True"
| "waiting_phase _ = False"

definition unanswered :: "pending \<Rightarrow> bool" where
  "unanswered r \<longleftrightarrow> waiting_phase (phase r) \<and> result r = None"

fun phase_ok :: "int \<Rightarrow> phase \<Rightarrow> bool" where
  "phase_ok depth (Recording d) = (int (unat d) \<le> depth)"
| "phase_ok depth (Booting h n i) = (0 \<le> i \<and> i < maxBootAttempts)"
| "phase_ok depth (Replacing e n i) = (0 \<le> i \<and> i + 1 < maxBootAttempts)"
| "phase_ok depth _ = True"

definition pending_ok :: "int \<Rightarrow> pending \<Rightarrow> bool" where
  "pending_ok depth r \<longleftrightarrow> (result r \<noteq> None \<longrightarrow> waiting_phase (phase r)) \<and>
     (VMID (req r) = [] \<longrightarrow> phase r = Finished (Inl ErrEmptyVMID)) \<and> phase_ok depth (phase r)"

definition svc_inv :: "service \<Rightarrow> bool" where
  "svc_inv s \<longleftrightarrow> sched_inv (svc_sched s) \<and> finite (dom (admissions s)) \<and>
     0 < QueueDepth (svc_cfg s) \<and>
     int (length (queue s)) \<le> QueueDepth (svc_cfg s) \<and>
     int (unat (maxQueueLen s)) \<le> QueueDepth (svc_cfg s) \<and>
     distinct (in_line s) \<and>
     (\<forall>p. p \<in> set (in_line s) \<longleftrightarrow> (\<exists>r. admissions s p = Some r \<and> unanswered r)) \<and>
     (\<forall>p r. admissions s p = Some r \<longrightarrow> pending_ok (QueueDepth (svc_cfg s)) r)"

lemma svc_invD:
  assumes "svc_inv s"
  shows "sched_inv (svc_sched s)" "finite (dom (admissions s))" "0 < QueueDepth (svc_cfg s)"
    "int (length (queue s)) \<le> QueueDepth (svc_cfg s)"
    "int (unat (maxQueueLen s)) \<le> QueueDepth (svc_cfg s)"
    "distinct (in_line s)"
    "p \<in> set (in_line s) \<longleftrightarrow> (\<exists>r. admissions s p = Some r \<and> unanswered r)"
    "admissions s p = Some r \<Longrightarrow> pending_ok (QueueDepth (svc_cfg s)) r"
  using assms by (auto simp: svc_inv_def)

text \<open>A step that changes no request and keeps the line.\<close>

lemma svc_inv_keep:
  assumes "svc_inv s" and "sched_inv (svc_sched s')" and "svc_cfg s' = svc_cfg s"
    and "admissions s' = admissions s" and "in_line s' = in_line s"
    and "length (queue s') \<le> length (queue s)" and "maxQueueLen s' = maxQueueLen s"
  shows "svc_inv s'"
  using assms by (auto simp: svc_inv_def)

text \<open>A step that changes the request \<open>p\<close> and at most its own place in the line.\<close>

lemma svc_inv_put:
  assumes inv: "svc_inv s" and "sched_inv (svc_sched s')" and "svc_cfg s' = svc_cfg s"
    and adm: "admissions s' = (admissions s)(p \<mapsto> r')"
    and ok: "pending_ok (QueueDepth (svc_cfg s)) r'"
    and "int (length (queue s')) \<le> QueueDepth (svc_cfg s)"
    and "int (unat (maxQueueLen s')) \<le> QueueDepth (svc_cfg s)"
    and line: "distinct (in_line s')" "set (in_line s') - {p} = set (in_line s) - {p}"
      "p \<in> set (in_line s') \<longleftrightarrow> unanswered r'"
  shows "svc_inv s'"
proof -
  have "q \<in> set (in_line s') \<longleftrightarrow> (\<exists>r. admissions s' q = Some r \<and> unanswered r)" for q
  proof (cases "q = p")
    case True
    then show ?thesis using line(3) by (simp add: adm)
  next
    case False
    then have "q \<in> set (in_line s') \<longleftrightarrow> q \<in> set (in_line s)" using line(2) by blast
    with False show ?thesis using svc_invD(7) [OF inv, of q] by (simp add: adm)
  qed
  then show ?thesis using assms svc_invD(8) [OF inv] by (simp add: svc_inv_def)
qed

lemma put_pending_simps [simp]:
  "svc_cfg (put_pending s p r) = svc_cfg s" "svc_sched (put_pending s p r) = svc_sched s"
  "queue (put_pending s p r) = queue s" "disp (put_pending s p r) = disp s"
  "maxQueueLen (put_pending s p r) = maxQueueLen s" "in_line (put_pending s p r) = in_line s"
  "admissions (put_pending s p r) = (admissions s)(p \<mapsto> r)" "freed (put_pending s p r) = freed s"
  "stopped (put_pending s p r) = stopped s" "ctx_done (put_pending s p r) = ctx_done s"
  "has_booter (put_pending s p r) = has_booter s" "accepted (put_pending s p r) = accepted s"
  "placed (put_pending s p r) = placed s" "timedOut (put_pending s p r) = timedOut s"
  "queueRejected (put_pending s p r) = queueRejected s" "released (put_pending s p r) = released s"
  "bootFailed (put_pending s p r) = bootFailed s"
  by (simp_all add: put_pending_def in_line_def)

text \<open>The answer to the request at the head of the line.\<close>

lemma send_result_ok:
  assumes inv: "svc_inv s" and line: "in_line s = p # in_line t"
    and t: "admissions t = admissions s" "svc_cfg t = svc_cfg s" "sched_inv (svc_sched t)"
      "length (queue t) \<le> length (queue s)" "maxQueueLen t = maxQueueLen s"
  shows "\<exists>r. admissions s p = Some r \<and> unanswered r \<and>
    send_result t p a = Some (put_pending t p (r\<lparr>result := Some a\<rparr>)) \<and>
    svc_inv (put_pending t p (r\<lparr>result := Some a\<rparr>))"
proof -
  from svc_invD(7) [OF inv, of p] line obtain r where r: "admissions s p = Some r" "unanswered r"
    by auto
  let ?r = "r\<lparr>result := Some a\<rparr>"
  have dist: "distinct (in_line t)" "p \<notin> set (in_line t)"
    using svc_invD(6) [OF inv] line by simp_all
  have "send_result t p a = Some (put_pending t p ?r)"
    using r t(1) by (simp add: send_result_def unanswered_def)
  moreover have "svc_inv (put_pending t p ?r)"
  proof (rule svc_inv_put [OF inv, of _ p ?r])
    show "pending_ok (QueueDepth (svc_cfg s)) ?r"
      using svc_invD(8) [OF inv r(1)] r(2) by (simp add: pending_ok_def unanswered_def)
    show "distinct (in_line (put_pending t p ?r))" using dist by simp
    show "set (in_line (put_pending t p ?r)) - {p} = set (in_line s) - {p}"
      using line by simp
    show "p \<in> set (in_line (put_pending t p ?r)) \<longleftrightarrow> unanswered ?r"
      using dist by (simp add: unanswered_def)
  qed (use t svc_invD(4,5) [OF inv] in simp_all)
  ultimately show ?thesis using r by blast
qed

subsection \<open>Every step keeps the invariant\<close>

lemma signalCapacity_simps [simp]:
  "svc_cfg (signalCapacity s) = svc_cfg s" "svc_sched (signalCapacity s) = svc_sched s"
  "queue (signalCapacity s) = queue s" "disp (signalCapacity s) = disp s"
  "maxQueueLen (signalCapacity s) = maxQueueLen s" "in_line (signalCapacity s) = in_line s"
  "admissions (signalCapacity s) = admissions s" "freed (signalCapacity s)"
  "stopped (signalCapacity s) = stopped s" "ctx_done (signalCapacity s) = ctx_done s"
  "has_booter (signalCapacity s) = has_booter s" "accepted (signalCapacity s) = accepted s"
  "placed (signalCapacity s) = placed s" "timedOut (signalCapacity s) = timedOut s"
  "queueRejected (signalCapacity s) = queueRejected s" "released (signalCapacity s) = released s"
  "bootFailed (signalCapacity s) = bootFailed s"
  by (simp_all add: signalCapacity_def in_line_def)

text \<open>The steps of a caller leave the line alone, but for the send.\<close>

lemma svc_inv_caller:
  assumes inv: "svc_inv s" and r: "admissions s p = Some r"
    and s': "sched_inv (svc_sched s')" "svc_cfg s' = svc_cfg s" "admissions s' = (admissions s)(p \<mapsto> r')"
      "queue s' = queue s" "disp s' = disp s" "maxQueueLen s' = maxQueueLen s"
    and ok: "pending_ok (QueueDepth (svc_cfg s)) r'" and un: "unanswered r' = unanswered r"
  shows "svc_inv s'"
proof (rule svc_inv_put [OF inv s'(1,2,3) ok])
  have "in_line s' = in_line s" using s' by (simp add: in_line_def)
  with svc_invD(6) [OF inv] svc_invD(7) [OF inv, of p] r un
  show "distinct (in_line s')" "set (in_line s') - {p} = set (in_line s) - {p}"
    "p \<in> set (in_line s') \<longleftrightarrow> unanswered r'" by auto
qed (use s' svc_invD(4,5) [OF inv] in simp_all)

lemma admit_enter_inv:
  assumes inv: "svc_inv s" and st: "admit_enter s p r now = Some s'"
  shows "svc_inv s'"
proof -
  from st have new: "admissions s p = None" by (simp add: admit_enter_def split: option.splits)
  have line: "p \<notin> set (in_line s)" using svc_invD(7) [OF inv, of p] new by simp
  from st new obtain r' t where s': "s' = put_pending t p r'" and r': "\<not> unanswered r'"
    "pending_ok (QueueDepth (svc_cfg s)) r'"
    and t: "svc_cfg t = svc_cfg s" "svc_sched t = svc_sched s" "queue t = queue s" "disp t = disp s"
      "admissions t = admissions s" "maxQueueLen t = maxQueueLen s"
    by (auto simp: admit_enter_def unanswered_def pending_ok_def split: if_splits)
  have "in_line s' = in_line s" using t by (simp add: s' in_line_def)
  then show ?thesis
    using svc_invD [OF inv] line r' t
    by (intro svc_inv_put [OF inv, of s' p r']) (auto simp: s')
qed

lemma admit_send_inv:
  assumes inv: "svc_inv s" and st: "admit_send s p = Some s'"
  shows "svc_inv s'"
proof -
  from st obtain r where r: "admissions s p = Some r" "phase r = Sending"
    "int (length (queue s)) < QueueDepth (svc_cfg s)"
    "s' = put_pending (s\<lparr>queue := queue s @ [p]\<rparr>) p (r\<lparr>phase := Sent\<rparr>)"
    by (auto simp: admit_send_def split: bind_splits if_splits)
  have ok: "pending_ok (QueueDepth (svc_cfg s)) r" by (rule svc_invD(8) [OF inv r(1)])
  then have ok': "pending_ok (QueueDepth (svc_cfg s)) (r\<lparr>phase := Sent\<rparr>)" "result r = None"
    using r(2) by (auto simp: pending_ok_def)
  have out: "p \<notin> set (in_line s)"
    using svc_invD(7) [OF inv, of p] r by (simp add: unanswered_def)
  have "in_line s' = in_line s @ [p]" by (simp add: r in_line_def)
  moreover have "int (length (queue s')) \<le> QueueDepth (svc_cfg s)" using r(3) by (simp add: r(4))
  ultimately show ?thesis
    using out ok' svc_invD(1,5,6) [OF inv]
    by (intro svc_inv_put [OF inv, of s' p "r\<lparr>phase := Sent\<rparr>"]) (auto simp: r(4) unanswered_def)
qed

lemma caller_steps_inv:
  assumes inv: "svc_inv s"
  shows "ctx_expire s p = Some s' \<Longrightarrow> svc_inv s'"
    and "admit_reject s p = Some s' \<Longrightarrow> svc_inv s'"
    and "read_depth s p = Some s' \<Longrightarrow> svc_inv s'"
    and "boot_ok s p now = Some s' \<Longrightarrow> svc_inv s'"
proof -
  note ok = svc_invD(8) [OF inv, of p] and sc = svc_invD(1) [OF inv]
  have un: "int (unat (of_nat (length (queue s)) :: u64)) \<le> QueueDepth (svc_cfg s)"
    using svc_invD(4) [OF inv] unat_of_nat [where 'a = 64, of "length (queue s)"]
    by (metis mod_less_eq_dividend of_nat_mono order_trans)
  show "svc_inv s'" if "ctx_expire s p = Some s'"
    using that ok sc by (auto simp: ctx_expire_def pending_ok_def unanswered_def
        intro!: svc_inv_caller [OF inv, of p])
  show "svc_inv s'" if "admit_reject s p = Some s'"
    using that ok sc by (auto simp: admit_reject_def pending_ok_def unanswered_def
        intro!: svc_inv_caller [OF inv, of p] split: bind_splits if_splits)
  show "svc_inv s'" if "read_depth s p = Some s'"
    using that ok sc un by (auto simp: read_depth_def pending_ok_def unanswered_def
        intro!: svc_inv_caller [OF inv, of p] split: bind_splits if_splits)
  show "svc_inv s'" if "boot_ok s p now = Some s'"
    using that ok sc by (auto simp: boot_ok_def admit_done_def pending_ok_def unanswered_def
        intro!: svc_inv_caller [OF inv, of p] split: bind_splits phase.splits)
qed

lemma record_depth_inv:
  assumes inv: "svc_inv s" and st: "record_depth s p = Some s'"
  shows "svc_inv s'"
proof -
  from st obtain r d where r: "admissions s p = Some r" "phase r = Recording d"
    "s' = put_pending (if d \<le> maxQueueLen s then s else s\<lparr>maxQueueLen := d\<rparr>) p (r\<lparr>phase := Awaiting\<rparr>)"
    by (auto simp: record_depth_def split: bind_splits phase.splits)
  have ok: "pending_ok (QueueDepth (svc_cfg s)) r" by (rule svc_invD(8) [OF inv r(1)])
  have line: "in_line s' = in_line s" by (simp add: r(3) in_line_def)
  have "p \<in> set (in_line s) \<longleftrightarrow> result r = None"
    using svc_invD(7) [OF inv, of p] r by (simp add: unanswered_def)
  with ok line svc_invD(1,4,5,6) [OF inv] r(2) show ?thesis
    by (intro svc_inv_put [OF inv, of s' p "r\<lparr>phase := Awaiting\<rparr>"])
       (auto simp: r(3) pending_ok_def unanswered_def)
qed

lemma admit_receive_inv:
  assumes inv: "svc_inv s" and st: "admit_receive s p now = Some s'"
  shows "svc_inv s'"
proof -
  from st obtain r a where r: "admissions s p = Some r" "phase r = Awaiting" "result r = Some a"
    by (auto simp: admit_receive_def split: bind_splits if_splits)
  note ok = svc_invD(8) [OF inv r(1)]
  from st r ok show ?thesis
    by (cases a)
       (auto simp: admit_receive_def admit_done_def pending_ok_def unanswered_def maxBootAttempts_def Let_def
          svc_invD(1) [OF inv] intro!: svc_inv_caller [OF inv, of p] split: if_splits)
qed

lemma boot_err_inv:
  assumes inv: "svc_inv s" and st: "boot_err s p err = Some s'"
  shows "svc_inv s'"
proof -
  from st obtain r h n i x sc where r: "admissions s p = Some r" "phase r = Booting h n i"
    and rel: "Release (svc_sched s) (VMID (req r)) = Some (x, sc)"
    by (auto simp: boot_err_def split: bind_splits phase.splits)
  note ok = svc_invD(8) [OF inv r(1)] and sc = sl.release_ok [OF svc_invD(1) [OF inv] rel]
  from st r rel ok sc show ?thesis
    by (auto simp: boot_err_def boot_fail_def pending_ok_def unanswered_def Let_def
        intro!: svc_inv_caller [OF inv, of p] split: if_splits)
qed

lemma boot_replace_inv:
  assumes inv: "svc_inv s" and st: "boot_replace s p = Some s'"
  shows "svc_inv s'"
proof -
  from st obtain r e n i x sc where r: "admissions s p = Some r" "phase r = Replacing e n i"
    and pl: "Place (svc_sched s) (VMID (req r)) = Some (x, sc)"
    by (auto simp: boot_replace_def split: bind_splits phase.splits)
  note ok = svc_invD(8) [OF inv r(1)] and sc = sl.place_ok [OF svc_invD(1) [OF inv] pl]
  from st r pl ok sc show ?thesis
    by (auto simp: boot_replace_def boot_fail_def pending_ok_def unanswered_def Let_def
        intro!: svc_inv_caller [OF inv, of p] split: sum.splits)
qed

text \<open>The dispatcher.\<close>

lemma dispatcher_moves_inv:
  assumes inv: "svc_inv s"
  shows "svc_Start s = Some s' \<Longrightarrow> svc_inv s'"
    and "disp_take s = Some s' \<Longrightarrow> svc_inv s'"
    and "disp_shutdown s = Some s' \<Longrightarrow> svc_inv s'"
    and "wait_freed s = Some s' \<Longrightarrow> svc_inv s'"
    and "wait_timer s = Some s' \<Longrightarrow> svc_inv s'"
  using svc_invD(1) [OF inv]
  by (auto simp: svc_Start_def disp_take_def disp_shutdown_def wait_freed_def wait_timer_def in_line_def
      intro!: svc_inv_keep [OF inv] split: if_splits dispatcher.splits list.splits)

lemma drain_step_inv:
  assumes inv: "svc_inv s" and st: "drain_step s = Some s'"
  shows "svc_inv s'"
proof (cases "queue s")
  case Nil
  with st svc_invD(1) [OF inv] show ?thesis
    by (auto simp: drain_step_def in_line_def intro!: svc_inv_keep [OF inv] split: if_splits)
next
  case (Cons p ps)
  with st have d: "disp s = Draining" and
    s': "send_result (s\<lparr>queue := ps\<rparr>) p (Refused ErrShuttingDown) = Some s'"
    by (auto simp: drain_step_def split: if_splits)
  show ?thesis
    using send_result_ok [OF inv, of p "s\<lparr>queue := ps\<rparr>" "Refused ErrShuttingDown"] s' d Cons
      svc_invD(1) [OF inv] by (auto simp: in_line_def)
qed

lemma dispatch_check_inv:
  assumes inv: "svc_inv s" and st: "dispatch_check s = Some s'"
  shows "svc_inv s'"
proof -
  from st obtain p n r where d: "disp s = Checking p n" and r: "admissions s p = Some r"
    by (auto simp: dispatch_check_def split: dispatcher.splits bind_splits)
  let ?t = "s\<lparr>timedOut := timedOut s + 1, disp := Idle\<rparr>"
  show ?thesis
  proof (cases "lapsed r")
    case True
    with st d r have "send_result ?t p (Refused ErrAdmissionTimeout) = Some s'"
      by (simp add: dispatch_check_def)
    with send_result_ok [OF inv, of p ?t "Refused ErrAdmissionTimeout"] d svc_invD(1) [OF inv]
    show ?thesis by (auto simp: in_line_def)
  next
    case False
    with st d r svc_invD(1) [OF inv] show ?thesis
      by (auto simp: dispatch_check_def in_line_def intro!: svc_inv_keep [OF inv])
  qed
qed

lemma dispatch_place_inv:
  assumes inv: "svc_inv s" and st: "dispatch_place s = Some s'"
  shows "svc_inv s'"
proof -
  from st obtain p n r x sc where d: "disp s = Placing p n" and r: "admissions s p = Some r"
    and pl: "Place (svc_sched s) (VMID (req r)) = Some (x, sc)"
    by (auto simp: dispatch_place_def split: dispatcher.splits bind_splits)
  note sc = sl.place_ok [OF svc_invD(1) [OF inv] pl]
  let ?t = "s\<lparr>svc_sched := sc, disp := Idle\<rparr>"
  have send: "svc_inv s'" if "send_result ?t p a = Some s'" for a
    using send_result_ok [OF inv, of p ?t a] that d sc by (auto simp: in_line_def)
  from st d r pl show ?thesis
    using send by (auto simp: dispatch_place_def sc in_line_def Let_def intro!: svc_inv_keep [OF inv]
        split: sum.splits if_splits)
qed

lemma wait_out_inv:
  assumes inv: "svc_inv s"
  shows "wait_lapsed s = Some s' \<Longrightarrow> svc_inv s'" and "wait_shutdown s = Some s' \<Longrightarrow> svc_inv s'"
proof -
  note sc = svc_invD(1) [OF inv]
  have send: "svc_inv s'" if "disp s = Waiting p n" "in_line t = queue s" "send_result t p a = Some s'"
    "admissions t = admissions s" "svc_cfg t = svc_cfg s" "svc_sched t = svc_sched s"
    "queue t = queue s" "maxQueueLen t = maxQueueLen s" for p n t a
    using send_result_ok [OF inv, of p t a] that sc by (auto simp: in_line_def)
  show "svc_inv s'" if "wait_lapsed s = Some s'"
    using that by (auto simp: wait_lapsed_def in_line_def split: dispatcher.splits bind_splits if_splits
        elim!: send [rotated 2])
  show "svc_inv s'" if "wait_shutdown s = Some s'"
    using that by (auto simp: wait_shutdown_def in_line_def split: dispatcher.splits if_splits
        elim!: send [rotated 2])
qed

lemma svc_Release_inv:
  assumes inv: "svc_inv s" and st: "svc_Release s vm = Some (x, s')"
  shows "svc_inv s'"
proof -
  from st obtain y sc where rel: "Release (svc_sched s) vm = Some (y, sc)"
    by (auto simp: svc_Release_def split: bind_splits)
  note sc = sl.release_ok [OF svc_invD(1) [OF inv] rel]
  from st rel show ?thesis
    by (auto simp: svc_Release_def sc in_line_def intro!: svc_inv_keep [OF inv] split: sum.splits)
qed

lemma fleet_call_inv:
  assumes inv: "svc_inv s" and st: "svc_step (EvFleet c vms) s = Some s'"
  shows "svc_inv s'"
proof -
  from st obtain r sc where c: "fleet_call c" "iterates vms (assigned (svc_sched s))"
    "sched_exec (svc_sched s) c vms = Some (r, sc)" "s' = s\<lparr>svc_sched := sc\<rparr>"
    by (auto split: if_splits)
  have "c \<noteq> CallPlace vm" for vm using c(1) by auto
  from fleet_call_effect(1) [OF svc_invD(1) [OF inv] c(2) this c(3)] show ?thesis
    by (auto simp: c(4) in_line_def intro!: svc_inv_keep [OF inv])
qed

lemma svc_step_inv:
  assumes inv: "svc_inv s" and st: "svc_step e s = Some s'"
  shows "svc_inv s'"
proof (cases e)
  case (EvRelease vm)
  with st svc_Release_inv [OF inv] show ?thesis by auto
next
  case EvCancel
  with st svc_invD(1) [OF inv] show ?thesis
    by (auto simp: in_line_def intro!: svc_inv_keep [OF inv])
next
  case EvStop
  with st svc_invD(1) [OF inv] show ?thesis
    by (auto simp: svc_Stop_def in_line_def intro!: svc_inv_keep [OF inv])
next
  case EvSignal
  with st svc_invD(1) [OF inv] show ?thesis by (auto intro!: svc_inv_keep [OF inv])
next
  case (EvFleet c vms)
  with st show ?thesis using fleet_call_inv [OF inv] by blast
qed (use st in \<open>simp_all add: admit_enter_inv [OF inv] admit_send_inv [OF inv] caller_steps_inv [OF inv]
      record_depth_inv [OF inv] admit_receive_inv [OF inv] boot_err_inv [OF inv]
      boot_replace_inv [OF inv] dispatcher_moves_inv [OF inv] drain_step_inv [OF inv]
      dispatch_check_inv [OF inv] dispatch_place_inv [OF inv] wait_out_inv [OF inv]\<close>)

interpretation adm: machine svc_step svc_inv
  by unfold_locales (rule svc_step_inv)

subsection \<open>Reachable services\<close>

text \<open>A service starts on a scheduler that has placed nothing, with or without a booter.\<close>

definition svc_init :: "service \<Rightarrow> bool" where
  "svc_init s \<longleftrightarrow> (\<exists>sc cfg t. sched_inv sc \<and> assigned sc = Map.empty \<and>
     svc_New (Some sc) cfg = Inr t \<and> (s = t \<or> s = WithBooter t))"

definition svc_reachable :: "service \<Rightarrow> bool" where
  "svc_reachable s \<longleftrightarrow> (\<exists>s0 es. svc_init s0 \<and> svc_run es s0 = Some s)"

lemma svc_initD:
  assumes "svc_init s"
  shows "admissions s = Map.empty" "queue s = []" "disp s = NotStarted" "sched_inv (svc_sched s)"
    "0 < QueueDepth (svc_cfg s)" "assigned (svc_sched s) = Map.empty"
    "accepted s = 0" "placed s = 0" "timedOut s = 0" "queueRejected s = 0" "bootFailed s = 0"
    "maxQueueLen s = 0"
  using assms by (auto simp: svc_init_def svc_New_def WithBooter_def p_Validate_def Let_def
      split: if_splits option.splits)

lemma svc_init_inv: "svc_init s \<Longrightarrow> svc_inv s"
  using svc_initD [of s] by (simp add: svc_inv_def in_line_def)

lemma svc_reachable_init: "svc_init s \<Longrightarrow> svc_reachable s"
  unfolding svc_reachable_def by (metis run.simps(1))

lemma svc_reachable_run: "svc_reachable s \<Longrightarrow> svc_run es s = Some s' \<Longrightarrow> svc_reachable s'"
  unfolding svc_reachable_def by (metis bind.bind_lunit run_append)

lemma svc_reachable_inv: "svc_reachable s \<Longrightarrow> svc_inv s"
  using adm.run_good svc_init_inv by (auto simp: svc_reachable_def)

end
