(* ===== verification/PlacementCount.thy ===== *)
theory PlacementCount
  imports PlacementInv
begin

section \<open>Counters, verdicts and slots of the placement service\<close>

text \<open>
  Three more invariants of the admission machine: every counter is the number of requests
  with the verdict it counts, every verdict is one the code can give, and every microVM the
  scheduler has assigned is accounted for by a request that was placed and has not failed.
\<close>

subsection \<open>Verdicts\<close>

text \<open>The error a request ended with, or has been sent as its answer.\<close>

definition result_err :: "pending \<Rightarrow> p_error option" where
  "result_err r = (case result r of Some (Refused e) \<Rightarrow> Some e | _ \<Rightarrow> None)"

fun phase_err :: "phase \<Rightarrow> p_error option \<Rightarrow> p_error option" where
  "phase_err (Finished (Inl e)) x = Some e"
| "phase_err (Finished (Inr y)) x = None"
| "phase_err _ x = x"

definition err_of :: "pending \<Rightarrow> p_error option" where
  "err_of r = phase_err (phase r) (result_err r)"

lemma result_err_simps [simp]:
  "result_err (r\<lparr>phase := f\<rparr>) = result_err r" "result_err (r\<lparr>lapsed := b\<rparr>) = result_err r"
  "result_err (r\<lparr>result := Some (Refused e)\<rparr>) = Some e"
  "result_err (r\<lparr>result := Some (Placed_on h n)\<rparr>) = None"
  "result_err (r\<lparr>result := None\<rparr>) = None"
  "result r = None \<Longrightarrow> result_err r = None" "result r = Some (Refused e) \<Longrightarrow> result_err r = Some e"
  "result r = Some (Placed_on h n) \<Longrightarrow> result_err r = None"
  by (simp_all add: result_err_def)

fun succeeded :: "phase \<Rightarrow> bool" where
  "succeeded (Finished (Inr x)) = True"
| "succeeded _ = False"

fun is_boot_failure :: "p_error option \<Rightarrow> bool" where
  "is_boot_failure (Some (ErrBootFailed m)) = True"
| "is_boot_failure _ = False"

definition counters_inv :: "service \<Rightarrow> bool" where
  "counters_inv s \<longleftrightarrow>
     accepted s = tally (\<lambda>r. VMID (req r) \<noteq> []) (admissions s) \<and>
     placed s = tally (\<lambda>r. succeeded (phase r)) (admissions s) \<and>
     timedOut s = tally (\<lambda>r. err_of r = Some ErrAdmissionTimeout) (admissions s) \<and>
     queueRejected s = tally (\<lambda>r. err_of r = Some ErrQueueFull) (admissions s) \<and>
     bootFailed s = tally (\<lambda>r. is_boot_failure (err_of r)) (admissions s)"

definition verdict_ok :: "pending \<Rightarrow> bool" where
  "verdict_ok r \<longleftrightarrow> (\<forall>e. err_of r = Some e \<longrightarrow>
     e = ErrEmptyVMID \<and> VMID (req r) = [] \<or>
     e \<in> {ErrAdmissionTimeout, ErrQueueFull, ErrShuttingDown,
          ErrSched (ErrDuplicateVM (VMID (req r)))} \<or> is_boot_failure (Some e))"

definition verdicts_inv :: "service \<Rightarrow> bool" where
  "verdicts_inv s \<longleftrightarrow> (\<forall>p r. admissions s p = Some r \<longrightarrow> verdict_ok r)"

text \<open>A step that changes the request \<open>p\<close> and counts the change.\<close>

definition counted :: "service \<Rightarrow> service \<Rightarrow> pid \<Rightarrow> pending \<Rightarrow> pending \<Rightarrow> bool" where
  "counted s s' p r r' \<longleftrightarrow> admissions s p = Some r \<and> admissions s' = (admissions s)(p \<mapsto> r') \<and>
     req r' = req r \<and> accepted s' = accepted s \<and>
     placed s' = placed s + bit_of (succeeded (phase r')) - bit_of (succeeded (phase r)) \<and>
     timedOut s' = timedOut s + bit_of (err_of r' = Some ErrAdmissionTimeout)
       - bit_of (err_of r = Some ErrAdmissionTimeout) \<and>
     queueRejected s' = queueRejected s + bit_of (err_of r' = Some ErrQueueFull)
       - bit_of (err_of r = Some ErrQueueFull) \<and>
     bootFailed s' = bootFailed s + bit_of (is_boot_failure (err_of r')) - bit_of (is_boot_failure (err_of r)) \<and>
     (verdict_ok r \<longrightarrow> verdict_ok r')"

lemma counted_inv:
  assumes "counted s s' p r r'" and "finite (dom (admissions s))"
  shows "counters_inv s \<Longrightarrow> counters_inv s'" and "verdicts_inv s \<Longrightarrow> verdicts_inv s'"
  using assms by (auto simp: counted_def counters_inv_def verdicts_inv_def tally_put)

lemma counted_put:
  assumes "admissions s p = Some r" and "admissions t = admissions s" and "req r' = req r"
    and "accepted t = accepted s"
    and "placed t = placed s + bit_of (succeeded (phase r')) - bit_of (succeeded (phase r))"
    and "timedOut t = timedOut s + bit_of (err_of r' = Some ErrAdmissionTimeout)
       - bit_of (err_of r = Some ErrAdmissionTimeout)"
    and "queueRejected t = queueRejected s + bit_of (err_of r' = Some ErrQueueFull)
       - bit_of (err_of r = Some ErrQueueFull)"
    and "bootFailed t = bootFailed s + bit_of (is_boot_failure (err_of r')) - bit_of (is_boot_failure (err_of r))"
    and "verdict_ok r \<Longrightarrow> verdict_ok r'"
  shows "\<exists>q r1 r2. counted s (put_pending t p r') q r1 r2"
  using assms by (intro exI [of _ p] exI [of _ r] exI [of _ r']) (simp add: counted_def)

definition uncounted :: "service \<Rightarrow> service \<Rightarrow> bool" where
  "uncounted s s' \<longleftrightarrow> admissions s' = admissions s \<and> accepted s' = accepted s \<and>
     placed s' = placed s \<and> timedOut s' = timedOut s \<and> queueRejected s' = queueRejected s \<and>
     bootFailed s' = bootFailed s"

lemma uncounted_inv:
  assumes "uncounted s s'"
  shows "counters_inv s \<Longrightarrow> counters_inv s'" and "verdicts_inv s \<Longrightarrow> verdicts_inv s'"
  using assms by (auto simp: uncounted_def counters_inv_def verdicts_inv_def)

lemma send_result_counted:
  assumes inv: "svc_inv s" and p: "p \<in> set (in_line s)" and st: "send_result t p a = Some s'"
    and t: "admissions t = admissions s" "accepted t = accepted s" "placed t = placed s"
      "timedOut t = timedOut s + bit_of (a = Refused ErrAdmissionTimeout)"
      "queueRejected t = queueRejected s" "bootFailed t = bootFailed s"
    and a: "\<And>e r. admissions s p = Some r \<Longrightarrow> a = Refused e \<Longrightarrow>
      e \<in> {ErrAdmissionTimeout, ErrShuttingDown, ErrSched (ErrDuplicateVM (VMID (req r)))}"
  shows "\<exists>r r'. counted s s' p r r'"
proof -
  from svc_invD(7) [OF inv, of p] p obtain r where r: "admissions s p = Some r" "unanswered r" by auto
  then have s': "s' = put_pending t p (r\<lparr>result := Some a\<rparr>)"
    using st t(1) by (simp add: send_result_def unanswered_def)
  have "counted s s' p r (r\<lparr>result := Some a\<rparr>)"
    using r t a [OF r(1)]
    by (cases "phase r"; cases a)
       (auto simp: counted_def s' unanswered_def err_of_def verdict_ok_def)
  then show ?thesis by blast
qed

lemma Place_error:
  assumes "sched_inv s" and "Place s vm = Some (Inl e, s')"
  shows "e = ErrNoCapacity \<or> e = ErrDuplicateVM vm"
proof (cases "assigned s vm")
  case None
  obtain sel where sel: "selectHost s = Some sel" using selectHost_total [OF assms(1)] by blast
  with None assms Place_ok [OF assms(1) None] show ?thesis
    by (cases sel) (auto simp: Place_full)
qed (use assms in \<open>simp add: Place_duplicate\<close>)

text \<open>The steps of the dispatcher that may answer a request.\<close>

lemma drain_counts:
  assumes inv: "svc_inv s" and st: "drain_step s = Some s'"
  shows "(\<exists>p r r'. counted s s' p r r') \<or> uncounted s s'"
proof (cases "queue s")
  case (Cons p ps)
  with st have "send_result (s\<lparr>queue := ps\<rparr>) p (Refused ErrShuttingDown) = Some s'"
    by (auto simp: drain_step_def split: if_splits)
  from send_result_counted [OF inv _ this] Cons show ?thesis by (auto simp: in_line_def)
qed (use st in \<open>auto simp: drain_step_def uncounted_def split: if_splits\<close>)

lemma check_counts:
  assumes inv: "svc_inv s" and st: "dispatch_check s = Some s'"
  shows "(\<exists>p r r'. counted s s' p r r') \<or> uncounted s s'"
proof -
  from st obtain p n r where d: "disp s = Checking p n" and r: "admissions s p = Some r"
    by (auto simp: dispatch_check_def split: dispatcher.splits bind_splits)
  let ?t = "s\<lparr>timedOut := timedOut s + 1, disp := Idle\<rparr>"
  show ?thesis
  proof (cases "lapsed r")
    case True
    with st d r have "send_result ?t p (Refused ErrAdmissionTimeout) = Some s'"
      by (simp add: dispatch_check_def)
    from send_result_counted [OF inv _ this] d show ?thesis by (auto simp: in_line_def)
  qed (use st d r in \<open>auto simp: dispatch_check_def uncounted_def\<close>)
qed

lemma place_counts:
  assumes inv: "svc_inv s" and st: "dispatch_place s = Some s'"
  shows "(\<exists>p r r'. counted s s' p r r') \<or> uncounted s s'"
proof -
  from st obtain p n r x sc where d: "disp s = Placing p n" and r: "admissions s p = Some r"
    and pl: "Place (svc_sched s) (VMID (req r)) = Some (x, sc)"
    by (auto simp: dispatch_place_def split: dispatcher.splits bind_splits)
  let ?t = "s\<lparr>svc_sched := sc, disp := Idle\<rparr>"
  have p: "p \<in> set (in_line s)" by (simp add: d in_line_def)
  show ?thesis
  proof (cases x)
    case (Inr h)
    with st d r pl have "send_result ?t p (Placed_on h n) = Some s'"
      by (simp add: dispatch_place_def)
    from send_result_counted [OF inv p this] show ?thesis by auto
  next
    case (Inl err)
    show ?thesis
    proof (cases "err = ErrNoCapacity")
      case False
      with Place_error [OF svc_invD(1) [OF inv]] pl Inl have "err = ErrDuplicateVM (VMID (req r))" by blast
      moreover from False st d r pl Inl have "send_result ?t p (Refused (ErrSched err)) = Some s'"
        by (simp add: dispatch_place_def)
      from send_result_counted [OF inv p this] r calculation show ?thesis by auto
    qed (use st d r pl Inl in \<open>auto simp: dispatch_place_def uncounted_def\<close>)
  qed
qed

lemma caller_counts:
  assumes inv: "svc_inv s"
  shows "admit_send s p = Some s' \<Longrightarrow> \<exists>p r r'. counted s s' p r r'"
    "ctx_expire s p = Some s' \<Longrightarrow> \<exists>p r r'. counted s s' p r r'"
    "admit_reject s p = Some s' \<Longrightarrow> \<exists>p r r'. counted s s' p r r'"
    "read_depth s p = Some s' \<Longrightarrow> \<exists>p r r'. counted s s' p r r'"
    "record_depth s p = Some s' \<Longrightarrow> \<exists>p r r'. counted s s' p r r'"
    "admit_receive s p now = Some s' \<Longrightarrow> \<exists>p r r'. counted s s' p r r'"
  using svc_invD(8) [OF inv, of p]
  by (auto simp: admit_send_def ctx_expire_def admit_reject_def read_depth_def record_depth_def admit_receive_def
      admit_done_def err_of_def verdict_ok_def pending_ok_def Let_def
      split: bind_splits if_splits phase.splits admission.splits intro!: counted_put)

lemma boot_counts:
  assumes inv: "svc_inv s"
  shows "boot_ok s p now = Some s' \<Longrightarrow> \<exists>p r r'. counted s s' p r r'"
    "boot_err s p err = Some s' \<Longrightarrow> \<exists>p r r'. counted s s' p r r'"
    "boot_replace s p = Some s' \<Longrightarrow> \<exists>p r r'. counted s s' p r r'"
  using svc_invD(8) [OF inv, of p]
  by (auto simp: boot_ok_def boot_err_def boot_replace_def boot_fail_def admit_done_def err_of_def verdict_ok_def
      pending_ok_def Let_def split: bind_splits phase.splits if_splits sum.splits intro!: counted_put)

lemma svc_step_counts:
  assumes inv: "svc_inv s" and st: "svc_step e s = Some s'"
  shows "(\<exists>p r r'. counted s s' p r r') \<or> uncounted s s' \<or> (\<exists>p r now. e = EvAdmit p r now)"
proof (cases e)
  case (EvSend p)
  with st caller_counts(1) [OF inv] show ?thesis by simp
next
  case (EvExpire p)
  with st caller_counts(2) [OF inv] show ?thesis by simp
next
  case (EvReject p)
  with st caller_counts(3) [OF inv] show ?thesis by simp
next
  case (EvReadDepth p)
  with st caller_counts(4) [OF inv] show ?thesis by simp
next
  case (EvRecordDepth p)
  with st caller_counts(5) [OF inv] show ?thesis by simp
next
  case (EvReceive p now)
  with st caller_counts(6) [OF inv] show ?thesis by simp
next
  case (EvBootOk p now)
  with st boot_counts(1) [OF inv] show ?thesis by simp
next
  case (EvBootErr p err)
  with st boot_counts(2) [OF inv] show ?thesis by simp
next
  case (EvReplace p)
  with st boot_counts(3) [OF inv] show ?thesis by simp
next
  case EvWaitLapsed
  with st obtain p n r where d: "disp s = Waiting p n" and
    "send_result (s\<lparr>timedOut := timedOut s + 1, disp := Idle\<rparr>) p (Refused ErrAdmissionTimeout) = Some s'"
    by (auto simp: wait_lapsed_def split: dispatcher.splits bind_splits if_splits)
  from send_result_counted [OF inv _ this(2)] d show ?thesis by (auto simp: in_line_def)
next
  case EvWaitShutdown
  with st obtain p n where d: "disp s = Waiting p n" and
    "send_result (s\<lparr>disp := Idle\<rparr>) p (Refused ErrShuttingDown) = Some s'"
    by (auto simp: wait_shutdown_def split: dispatcher.splits if_splits)
  from send_result_counted [OF inv _ this(2)] d show ?thesis by (auto simp: in_line_def)
qed (use st drain_counts [OF inv] check_counts [OF inv] place_counts [OF inv] in \<open>auto simp: uncounted_def svc_Start_def svc_Stop_def disp_take_def disp_shutdown_def
      wait_freed_def wait_timer_def svc_Release_def signalCapacity_def
      split: if_splits dispatcher.splits list.splits bind_splits sum.splits\<close>)

lemma verdict_ok_new:
  "verdict_ok \<lparr>req = r, lapsed = b, enqueued = now, result = None, phase = Sending\<rparr>"
  "VMID r = [] \<Longrightarrow>
     verdict_ok \<lparr>req = r, lapsed = b, enqueued = now, result = None, phase = Finished (Inl ErrEmptyVMID)\<rparr>"
  by (simp_all add: verdict_ok_def err_of_def)

lemma admit_enter_counts:
  assumes inv: "svc_inv s" and st: "admit_enter s p r now = Some s'"
  shows "counters_inv s \<Longrightarrow> counters_inv s'" and "verdicts_inv s \<Longrightarrow> verdicts_inv s'"
proof -
  from st have "verdicts_inv s \<Longrightarrow> verdicts_inv s'"
    by (auto simp: admit_enter_def verdicts_inv_def verdict_ok_new split: option.splits if_splits)
  then show "verdicts_inv s \<Longrightarrow> verdicts_inv s'" .
  from st svc_invD(2) [OF inv] show "counters_inv s \<Longrightarrow> counters_inv s'"
    by (auto simp: admit_enter_def counters_inv_def err_of_def tally_put split: option.splits if_splits)
qed

lemma svc_step_counters:
  assumes inv: "svc_inv s" and st: "svc_step e s = Some s'"
  shows "counters_inv s \<Longrightarrow> counters_inv s'" and "verdicts_inv s \<Longrightarrow> verdicts_inv s'"
proof -
  consider (c) p r r' where "counted s s' p r r'" | (u) "uncounted s s'"
    | (a) p r now where "e = EvAdmit p r now"
    using svc_step_counts [OF inv st] by blast
  then have "(counters_inv s \<longrightarrow> counters_inv s') \<and> (verdicts_inv s \<longrightarrow> verdicts_inv s')"
  proof cases
    case c
    then show ?thesis using counted_inv [OF _ svc_invD(2) [OF inv]] by blast
  next
    case u
    then show ?thesis using uncounted_inv by blast
  next
    case a
    then show ?thesis using st admit_enter_counts [OF inv] by auto
  qed
  then show "counters_inv s \<Longrightarrow> counters_inv s'" "verdicts_inv s \<Longrightarrow> verdicts_inv s'" by blast+
qed

lemma svc_reachable_keeps:
  assumes "svc_reachable s" and "\<And>s. svc_init s \<Longrightarrow> P s"
    and "\<And>e s s'. svc_inv s \<Longrightarrow> P s \<Longrightarrow> svc_step e s = Some s' \<Longrightarrow> P s'"
  shows "P s"
proof -
  from assms(1) obtain s0 es where s0: "svc_init s0" "svc_run es s0 = Some s"
    by (auto simp: svc_reachable_def)
  show ?thesis
    by (rule adm.run_keeps [of s0 es s P, OF svc_init_inv [OF s0(1)] s0(2) assms(2) [OF s0(1)]])
       (rule assms(3))
qed

lemma svc_reachable_counters: "svc_reachable s \<Longrightarrow> counters_inv s"
  by (erule svc_reachable_keeps)
     (auto simp: counters_inv_def svc_initD dest: svc_step_counters(1))

lemma svc_reachable_verdicts: "svc_reachable s \<Longrightarrow> verdicts_inv s"
  by (erule svc_reachable_keeps)
     (auto simp: verdicts_inv_def svc_initD dest: svc_step_counters(2))

subsection \<open>Slots\<close>

text \<open>A request that has been placed and has not failed: its answer is on the way, its boot is
  running, or it has succeeded.\<close>

fun past_place :: "phase \<Rightarrow> bool" where
  "past_place (Booting h n i) = True"
| "past_place (Finished (Inr x)) = True"
| "past_place _ = False"

definition holding :: "pending \<Rightarrow> bool" where
  "holding r \<longleftrightarrow> past_place (phase r) \<or> (\<exists>h n. result r = Some (Placed_on h n))"

definition holders :: "service \<Rightarrow> vm_id set" where
  "holders s = {VMID (req r) |p r. admissions s p = Some r \<and> holding r}"

definition slots_inv :: "service \<Rightarrow> bool" where
  "slots_inv s \<longleftrightarrow> dom (assigned (svc_sched s)) \<subseteq> holders s"

text \<open>What a change of one request does to the holders.\<close>

lemma holders_put:
  assumes "admissions s p = Some r" and "admissions s' = (admissions s)(p \<mapsto> r')" and "req r' = req r"
  shows "holders s - {VMID (req r)} \<subseteq> holders s'"
    and "holding r' \<Longrightarrow> insert (VMID (req r)) (holders s) \<subseteq> holders s'"
    and "\<not> holding r \<Longrightarrow> holders s \<subseteq> holders s'"
    and "holding r \<longrightarrow> holding r' \<Longrightarrow> holders s \<subseteq> holders s'"
proof -
  have keep: "v \<in> holders s'" if "admissions s q = Some u" "holding u" "v = VMID (req u)" "q \<noteq> p" for q u v
  proof -
    have "admissions s' q = Some u" using that(1,4) assms(2) by simp
    with that(2,3) show ?thesis unfolding holders_def by blast
  qed
  have own: "VMID (req r) \<in> holders s'" if "holding r'"
    unfolding holders_def using that assms(2,3) by (intro CollectI exI [of _ p] exI [of _ r']) simp
  show "holders s - {VMID (req r)} \<subseteq> holders s'"
  proof
    fix v assume v: "v \<in> holders s - {VMID (req r)}"
    then obtain q u where u: "admissions s q = Some u" "holding u" "v = VMID (req u)"
      by (auto simp: holders_def)
    with v assms(1) have "q \<noteq> p" by auto
    with keep u show "v \<in> holders s'" by blast
  qed
  then show "holding r' \<Longrightarrow> insert (VMID (req r)) (holders s) \<subseteq> holders s'" using own by blast
  show no: "holders s \<subseteq> holders s'" if "\<not> holding r"
  proof
    fix v assume "v \<in> holders s"
    then obtain q u where u: "admissions s q = Some u" "holding u" "v = VMID (req u)"
      by (auto simp: holders_def)
    with that assms(1) have "q \<noteq> p" by auto
    with keep u show "v \<in> holders s'" by blast
  qed
  show "holders s \<subseteq> holders s'" if "holding r \<longrightarrow> holding r'"
    using that no \<open>holding r' \<Longrightarrow> insert (VMID (req r)) (holders s) \<subseteq> holders s'\<close> by blast
qed

lemma holders_eq: "admissions s' = admissions s \<Longrightarrow> holders s' = holders s"
  by (simp add: holders_def)

lemma slots_same:
  assumes "slots_inv s" and "svc_sched s' = svc_sched s" and "admissions s p = Some r"
    and "admissions s' = (admissions s)(p \<mapsto> r')" and "req r' = req r" and "holding r \<longrightarrow> holding r'"
  shows "slots_inv s'"
  using assms holders_put(4) [OF assms(3-6)] by (auto simp: slots_inv_def)

lemma slots_quiet:
  "slots_inv s \<Longrightarrow> svc_sched s' = svc_sched s \<Longrightarrow> admissions s' = admissions s \<Longrightarrow> slots_inv s'"
  by (simp add: slots_inv_def holders_def)

lemma slots_put:
  assumes "slots_inv s" and "admissions s p = Some r" and "admissions t = admissions s"
    and "svc_sched t = svc_sched s" and "req r' = req r" and "holding r \<longrightarrow> holding r'"
  shows "slots_inv (put_pending t p r')"
  using assms by (intro slots_same [OF assms(1) _ assms(2) _ assms(5,6)]) simp_all

text \<open>The events that reach the scheduler.\<close>

lemma dispatch_place_slots:
  assumes inv: "svc_inv s" and sl: "slots_inv s" and st: "dispatch_place s = Some s'"
  shows "slots_inv s'"
proof -
  note ok = svc_invD(1) [OF inv]
  from st obtain p n r x sc where d: "disp s = Placing p n" and r: "admissions s p = Some r"
    and pl: "Place (svc_sched s) (VMID (req r)) = Some (x, sc)"
    by (auto simp: dispatch_place_def split: dispatcher.splits bind_splits)
  have "p \<in> set (in_line s)" by (simp add: d in_line_def)
  with svc_invD(7) [OF inv, of p] r have un: "unanswered r" by simp
  then have no: "\<not> holding r" by (cases "phase r") (simp_all add: unanswered_def holding_def)
  show ?thesis
  proof (cases x)
    case (Inr h)
    let ?r = "r\<lparr>result := Some (Placed_on h n)\<rparr>"
    have s': "s' = put_pending (s\<lparr>svc_sched := sc, disp := Idle\<rparr>) p ?r"
      using st d r pl Inr un by (simp add: dispatch_place_def send_result_def unanswered_def)
    have "insert (VMID (req r)) (holders s) \<subseteq> holders s'"
      by (rule holders_put(2) [OF r, of s' ?r]) (simp_all add: s' holding_def)
    with sl.place_held(1) [OF ok pl, of "holders s"] sl show ?thesis
      by (auto simp: slots_inv_def s')
  next
    case (Inl e)
    then have asg: "assigned sc = assigned (svc_sched s)" using sl.place_Inl [OF ok] pl by simp
    have "holders s \<subseteq> holders s'"
    proof (cases "e = ErrNoCapacity")
      case True
      with st d r pl Inl show ?thesis
        by (intro equalityD1 holders_eq [symmetric]) (auto simp: dispatch_place_def)
    next
      case False
      with st d r pl Inl un have "s' = put_pending (s\<lparr>svc_sched := sc, disp := Idle\<rparr>) p
          (r\<lparr>result := Some (Refused (ErrSched e))\<rparr>)"
        by (simp add: dispatch_place_def send_result_def unanswered_def)
      then show ?thesis
        by (intro holders_put(3) [OF r _ _ no, of s' "r\<lparr>result := Some (Refused (ErrSched e))\<rparr>"]) simp_all
    qed
    moreover have "svc_sched s' = sc"
      using st d r pl Inl un
      by (auto simp: dispatch_place_def send_result_def unanswered_def Let_def split: if_splits)
    ultimately show ?thesis using sl asg by (auto simp: slots_inv_def)
  qed
qed

lemma boot_err_slots:
  assumes inv: "svc_inv s" and sl: "slots_inv s" and st: "boot_err s p err = Some s'"
  shows "slots_inv s'"
proof -
  note ok = svc_invD(1) [OF inv]
  from st obtain r h n i x sc where r: "admissions s p = Some r" "phase r = Booting h n i"
    and rel: "Release (svc_sched s) (VMID (req r)) = Some (x, sc)"
    by (auto simp: boot_err_def split: bind_splits phase.splits)
  from st r rel obtain r' where s': "svc_sched s' = sc" "admissions s' = (admissions s)(p \<mapsto> r')" "req r' = req r"
    by (auto simp: boot_err_def boot_fail_def Let_def split: if_splits)
  have "dom (assigned sc) \<subseteq> holders s - {VMID (req r)}"
    using sl by (intro sl.release_held [OF ok rel]) (auto simp: slots_inv_def)
  with holders_put(1) [OF r(1) s'(2,3)] s'(1) show ?thesis by (auto simp: slots_inv_def)
qed

lemma boot_replace_slots:
  assumes inv: "svc_inv s" and sl: "slots_inv s" and st: "boot_replace s p = Some s'"
  shows "slots_inv s'"
proof -
  note ok = svc_invD(1) [OF inv]
  from st obtain r e n i x sc where r: "admissions s p = Some r" "phase r = Replacing e n i"
    and pl: "Place (svc_sched s) (VMID (req r)) = Some (x, sc)"
    by (auto simp: boot_replace_def split: bind_splits phase.splits)
  have no: "\<not> holding r" using svc_invD(8) [OF inv r(1)] r(2) by (auto simp: holding_def pending_ok_def)
  show ?thesis
  proof (cases x)
    case (Inr h)
    let ?r = "r\<lparr>phase := Booting h (n + 1) (i + 1)\<rparr>"
    have s': "s' = put_pending (s\<lparr>svc_sched := sc\<rparr>) p ?r"
      using st r pl Inr by (simp add: boot_replace_def)
    have "insert (VMID (req r)) (holders s) \<subseteq> holders s'"
      by (rule holders_put(2) [OF r(1), of s' ?r]) (simp_all add: s' holding_def)
    with sl.place_held(1) [OF ok pl, of "holders s"] sl show ?thesis
      by (auto simp: slots_inv_def s')
  next
    case (Inl e')
    then have asg: "assigned sc = assigned (svc_sched s)" using sl.place_Inl [OF ok] pl by simp
    have s': "s' = boot_fail (s\<lparr>svc_sched := sc\<rparr>) p r e"
      using st r pl Inl by (simp add: boot_replace_def)
    then have "holders s \<subseteq> holders s'"
      by (intro holders_put(3) [OF r(1) _ _ no, of s' "r\<lparr>phase := Finished (Inl (ErrBootFailed e))\<rparr>"])
         (simp_all add: boot_fail_def)
    with sl asg show ?thesis by (auto simp: slots_inv_def s' boot_fail_def)
  qed
qed

lemma send_result_slots:
  assumes "slots_inv s" and st: "send_result t p (Refused e) = Some s'"
    and t: "admissions t = admissions s" "svc_sched t = svc_sched s"
  shows "slots_inv s'"
proof -
  from st t obtain r where r: "admissions s p = Some r" "result r = None"
    "s' = put_pending t p (r\<lparr>result := Some (Refused e)\<rparr>)"
    by (auto simp: send_result_def split: option.splits if_splits)
  show ?thesis unfolding r(3)
    by (rule slots_put [OF assms(1) r(1) t]) (use r(2) in \<open>simp_all add: holding_def\<close>)
qed

lemma admit_enter_slots:
  assumes sl: "slots_inv s" and st: "admit_enter s p r now = Some s'"
  shows "slots_inv s'"
proof -
  from st have new: "admissions s p = None" and
    s': "svc_sched s' = svc_sched s" "\<exists>r'. admissions s' = (admissions s)(p \<mapsto> r')"
    by (auto simp: admit_enter_def split: option.splits if_splits)
  have "holders s \<subseteq> holders s'"
  proof
    fix v assume "v \<in> holders s"
    then obtain q u where u: "admissions s q = Some u" "holding u" "v = VMID (req u)"
      by (auto simp: holders_def)
    with new s'(2) have "admissions s' q = Some u" by (cases "q = p") auto
    with u show "v \<in> holders s'" by (auto simp: holders_def)
  qed
  with sl s'(1) show ?thesis by (auto simp: slots_inv_def)
qed

lemma svc_Release_slots:
  assumes inv: "svc_inv s" and sl: "slots_inv s" and st: "svc_Release s vm = Some (y, s')"
  shows "slots_inv s'"
proof -
  from st obtain x sc where rel: "Release (svc_sched s) vm = Some (x, sc)"
    by (auto simp: svc_Release_def split: bind_splits)
  have asg: "assigned sc = (assigned (svc_sched s))(vm := None)"
    using sl.release_asg [OF svc_invD(1) [OF inv] rel] by simp
  have "svc_sched s' = sc" "holders s' = holders s"
    using st rel by (auto simp: svc_Release_def intro!: holders_eq split: sum.splits)
  with sl asg show ?thesis by (auto simp: slots_inv_def split: if_splits)
qed

lemma fleet_slots:
  assumes inv: "svc_inv s" and sl: "slots_inv s" and st: "svc_step (EvFleet c vms) s = Some s'"
  shows "slots_inv s'"
proof -
  from st obtain r sc where c: "fleet_call c" "iterates vms (assigned (svc_sched s))"
    "sched_exec (svc_sched s) c vms = Some (r, sc)" "s' = s\<lparr>svc_sched := sc\<rparr>"
    by (auto split: if_splits)
  have "c \<noteq> CallPlace vm" for vm using c(1) by auto
  from fleet_call_effect(2) [OF svc_invD(1) [OF inv] c(2) this c(3)] sl show ?thesis
    by (auto simp: slots_inv_def c(4) holders_def)
qed

lemma svc_step_slots:
  assumes inv: "svc_inv s" and sl: "slots_inv s" and st: "svc_step e s = Some s'"
  shows "slots_inv s'"
proof (cases e)
  case (EvReceive p now)
  then show ?thesis
    using st by (auto simp: admit_receive_def admit_done_def holding_def Let_def
        intro!: slots_put [OF sl] split: bind_splits if_splits admission.splits)
next
  case EvDrain
  show ?thesis
  proof (cases "queue s")
    case Nil
    with EvDrain st show ?thesis
      by (auto simp: drain_step_def split: if_splits intro!: slots_quiet [OF sl])
  next
    case (Cons p ps)
    with EvDrain st show ?thesis
      by (auto simp: drain_step_def split: if_splits elim!: send_result_slots [OF sl])
  qed
next
  case EvCheck
  with st obtain p n r where d: "disp s = Checking p n" "admissions s p = Some r"
    by (auto simp: dispatch_check_def split: dispatcher.splits bind_splits)
  show ?thesis
  proof (cases "lapsed r")
    case True
    with EvCheck st d show ?thesis
      by (auto simp: dispatch_check_def elim!: send_result_slots [OF sl])
  next
    case False
    with EvCheck st d show ?thesis
      by (auto simp: dispatch_check_def intro!: slots_quiet [OF sl])
  qed
next
  case EvWaitLapsed
  with st show ?thesis
    by (auto simp: wait_lapsed_def split: if_splits dispatcher.splits bind_splits
        elim!: send_result_slots [OF sl])
next
  case EvWaitShutdown
  with st show ?thesis
    by (auto simp: wait_shutdown_def split: if_splits dispatcher.splits
        elim!: send_result_slots [OF sl])
qed (use st sl admit_enter_slots [OF sl] svc_Release_slots [OF inv sl] fleet_slots [OF inv sl] in
      \<open>auto simp: dispatch_place_slots [OF inv sl] boot_err_slots [OF inv sl]
      boot_replace_slots [OF inv sl] ctx_expire_def admit_send_def admit_reject_def read_depth_def
      record_depth_def boot_ok_def admit_done_def holding_def
      svc_Start_def svc_Stop_def disp_take_def disp_shutdown_def
      wait_freed_def wait_timer_def signalCapacity_def
      split: if_splits dispatcher.splits list.splits bind_splits phase.splits
      intro!: slots_put [OF sl] intro: slots_quiet [OF sl]\<close>)

lemma svc_reachable_slots: "svc_reachable s \<Longrightarrow> slots_inv s"
proof (erule svc_reachable_keeps)
  show "slots_inv s" if "svc_init s" for s using svc_initD(6) [OF that] by (simp add: slots_inv_def)
qed (rule svc_step_slots)

end
