(* ===== verification/PlacementProps.thy ===== *)
theory PlacementProps
  imports PlacementCount SchedulerProps
begin

section \<open>Properties of the placement service\<close>

text \<open>
  Over every interleaving of callers, dispatcher, booter, releases and changes of the fleet:
  safety of the queue, first-in first-out order, exact counters, accounted slots, bounded
  boots, answers to lapsed requests and at shutdown; and three places where the service
  does less than it says.
\<close>

subsection \<open>A service to run\<close>

definition demo_fleet :: scheduler where
  "demo_fleet = demo_run BestFit [CallAddHost ''a'' 2, CallSetHostState ''a'' HostReady]"

definition demo_svc :: "bool \<Rightarrow> service" where
  "demo_svc b =
     \<lparr>svc_cfg = \<lparr>QueueDepth = 2, AdmissionDeadline = 3 * second, RetryInterval = 5 * millisecond\<rparr>,
      svc_sched = demo_fleet, has_booter = b, queue = [], freed = False, stopped = False,
      ctx_done = False, disp = NotStarted, accepted = 0, placed = 0, timedOut = 0,
      queueRejected = 0, released = 0, bootFailed = 0, maxQueueLen = 0, admissions = Map.empty\<rparr>"

lemma demo_fleet_inv: "sched_inv demo_fleet" "assigned demo_fleet = Map.empty"
proof -
  show "sched_inv demo_fleet"
    unfolding demo_fleet_def using reachable_inv [OF demo_run_reachable] by blast
  have "iterates [] (assigned demo_fleet)"
    unfolding demo_fleet_def by (rule demo_assigned) simp_all
  then show "assigned demo_fleet = Map.empty" by (simp add: iterates_def eq_commute [of "{}"])
qed

lemma demo_svc_init: "svc_init (demo_svc b)"
proof -
  let ?cfg = "\<lparr>QueueDepth = 2, AdmissionDeadline = 0, RetryInterval = 0\<rparr>"
  have "svc_New (Some demo_fleet) ?cfg = Inr (demo_svc False)"
    by (simp add: svc_New_def p_applyDefaults_def p_Validate_def demo_svc_def Let_def
        DefaultAdmissionDeadline_def DefaultRetryInterval_def second_def millisecond_def)
  moreover have "demo_svc True = WithBooter (demo_svc False)"
    by (simp add: demo_svc_def WithBooter_def)
  ultimately show ?thesis
    unfolding svc_init_def using demo_fleet_inv by (cases b; simp) blast+
qed

definition demo_run_svc :: "bool \<Rightarrow> event list \<Rightarrow> service" where
  "demo_run_svc b es = (case svc_run es (demo_svc b) of Some s \<Rightarrow> s | None \<Rightarrow> demo_svc b)"

lemma demo_run_svc_reachable: "svc_reachable (demo_run_svc b es)"
  unfolding demo_run_svc_def
  by (auto split: option.splits intro: svc_reachable_run svc_reachable_init demo_svc_init)

lemma demo_run_svc_run:
  "svc_run es (demo_svc b) \<noteq> None \<Longrightarrow> svc_run es (demo_svc b) = Some (demo_run_svc b es)"
  by (auto simp: demo_run_svc_def)

text \<open>The requests of a run are those its events admit.\<close>

fun admitted :: "event list \<Rightarrow> pid set" where
  "admitted [] = {}"
| "admitted (EvAdmit p r now # es) = insert p (admitted es)"
| "admitted (_ # es) = admitted es"

lemma send_result_dom:
  "send_result t p a = Some s' \<Longrightarrow>
     \<forall>q u. admissions s' q = Some u \<longrightarrow> (\<exists>u. admissions t q = Some u)"
  by (auto simp: send_result_def split: option.splits if_splits)

lemma step_dom:
  assumes "svc_step e s = Some s'"
  shows "dom (admissions s') \<subseteq> admitted [e] \<union> dom (admissions s)"
  using assms
  by (cases e)
     (auto simp: admit_enter_def ctx_expire_def admit_send_def admit_reject_def read_depth_def
        record_depth_def admit_receive_def admit_done_def boot_ok_def boot_err_def boot_fail_def
        boot_replace_def svc_Start_def svc_Stop_def disp_take_def disp_shutdown_def drain_step_def
        dispatch_check_def dispatch_place_def wait_freed_def wait_timer_def wait_lapsed_def
        wait_shutdown_def svc_Release_def Let_def
        split: option.splits bind_splits if_splits phase.splits dispatcher.splits sum.splits
          list.splits admission.splits dest!: send_result_dom)

lemma admitted_dom:
  "svc_run es s = Some s' \<Longrightarrow> dom (admissions s') \<subseteq> admitted es \<union> dom (admissions s)"
proof (induction es arbitrary: s)
  case (Cons e es)
  from Cons.prems obtain s1 where s1: "svc_step e s = Some s1" "svc_run es s1 = Some s'"
    by (rule run_ConsE)
  have "admitted (e # es) = admitted [e] \<union> admitted es" by (cases e) simp_all
  with step_dom [OF s1(1)] Cons.IH [OF s1(2)] show ?case by blast
qed simp

definition vm :: "string \<Rightarrow> Request" where
  "vm v = \<lparr>VMID = v, TTL = second\<rparr>"

text \<open>The events of a request that waits for nobody: from the call to its answer.\<close>

definition one_request :: "pid \<Rightarrow> string \<Rightarrow> event list" where
  "one_request p v = [EvAdmit p (vm v) 0, EvSend p, EvReadDepth p, EvRecordDepth p,
     EvTake, EvCheck, EvPlace, EvReceive p 7]"

subsection \<open>Safety\<close>



subsection \<open>First in, first out\<close>

text \<open>Which requests the events of a run put into the queue, and which they took out of it.\<close>

fun sent :: "event list \<Rightarrow> pid list" where
  "sent [] = []"
| "sent (EvSend p # es) = p # sent es"
| "sent (_ # es) = sent es"

fun taken :: "event list \<Rightarrow> service \<Rightarrow> pid list" where
  "taken [] s = []"
| "taken (e # es) s =
     (if e = EvTake \<or> e = EvDrain then take 1 (queue s) else []) @
     (case svc_step e s of Some s' \<Rightarrow> taken es s' | None \<Rightarrow> [])"

lemma send_result_queue: "send_result t p a = Some s' \<Longrightarrow> queue s' = queue t \<and> disp s' = disp t"
  by (auto simp: send_result_def split: option.splits if_splits)

lemma step_queue:
  assumes "svc_step e s = Some s'"
  shows "queue s @ sent [e] = (if e = EvTake \<or> e = EvDrain then take 1 (queue s) else []) @ queue s'"
  using assms
  by (cases e)
     (auto simp: admit_enter_def ctx_expire_def admit_send_def admit_reject_def read_depth_def
        record_depth_def admit_receive_def admit_done_def boot_ok_def boot_err_def boot_fail_def
        boot_replace_def svc_Start_def svc_Stop_def disp_take_def disp_shutdown_def drain_step_def
        dispatch_check_def dispatch_place_def wait_freed_def wait_timer_def wait_lapsed_def
        wait_shutdown_def svc_Release_def Let_def send_result_queue
        split: option.splits bind_splits if_splits phase.splits dispatcher.splits sum.splits
          list.splits admission.splits dest!: send_result_queue)



subsection \<open>Counters\<close>

text \<open>A request of the service that has no verdict yet, and one turned away without being
  counted as a loss.\<close>

definition undecided :: "pending \<Rightarrow> bool" where
  "undecided r \<longleftrightarrow> VMID (req r) \<noteq> [] \<and> \<not> succeeded (phase r) \<and> err_of r = None"

definition turned_away :: "pending \<Rightarrow> bool" where
  "turned_away r \<longleftrightarrow> VMID (req r) \<noteq> [] \<and>
     err_of r \<in> {Some ErrShuttingDown, Some (ErrSched (ErrDuplicateVM (VMID (req r))))}"

lemma tally_cong:
  "(\<And>k v. m k = Some v \<Longrightarrow> P v = Q v) \<Longrightarrow> tally P m = tally Q m"
  unfolding tally_def by (rule arg_cong [of _ _ "\<lambda>A. of_nat (card A)"]) auto

lemma empty_id_rejected:
  assumes "svc_inv s" and "admissions s p = Some r"
    and "err_of r \<in> {Some ErrAdmissionTimeout, Some ErrQueueFull} \<or> is_boot_failure (err_of r) \<or> succeeded (phase r)"
  shows "VMID (req r) \<noteq> []"
  using svc_invD(8) [OF assms(1,2)] assms(3) by (auto simp: pending_ok_def err_of_def)

lemma accepted_split:
  assumes inv: "svc_inv s" and v: "verdicts_inv s"
  shows "tally (\<lambda>r. VMID (req r) \<noteq> []) (admissions s) =
    tally (\<lambda>r. succeeded (phase r)) (admissions s) +
    (tally (\<lambda>r. err_of r = Some ErrAdmissionTimeout) (admissions s) +
     (tally (\<lambda>r. err_of r = Some ErrQueueFull) (admissions s) +
      (tally (\<lambda>r. is_boot_failure (err_of r)) (admissions s) +
       (tally undecided (admissions s) + tally turned_away (admissions s)))))"
    (is "?all = ?ok + (?t + (?q + (?b + (?u + ?a))))")
proof -
  note fin = svc_invD(2) [OF inv]
  let ?P = "\<lambda>r. succeeded (phase r) \<or> (err_of r = Some ErrAdmissionTimeout \<or> (err_of r = Some ErrQueueFull \<or>
    (is_boot_failure (err_of r) \<or> (undecided r \<or> turned_away r))))"
  have noerr: "succeeded (phase r) \<Longrightarrow> err_of r = None" for r
    by (cases "phase r" rule: succeeded.cases) (simp_all add: err_of_def)
  have "(VMID (req r) \<noteq> []) = ?P r" if r: "admissions s p = Some r" for p r
  proof
    assume "VMID (req r) \<noteq> []"
    show "?P r"
    proof (cases "err_of r")
      case None
      with \<open>VMID (req r) \<noteq> []\<close> show ?thesis by (auto simp: undecided_def)
    next
      case (Some e)
      have "verdict_ok r" using v r by (auto simp: verdicts_inv_def)
      then show ?thesis
        using Some \<open>VMID (req r) \<noteq> []\<close> by (auto simp: verdict_ok_def turned_away_def)
    qed
  next
    assume "?P r"
    then show "VMID (req r) \<noteq> []"
      using empty_id_rejected [OF inv r] by (auto simp: undecided_def turned_away_def)
  qed
  then have "?all = tally ?P (admissions s)" by (rule tally_cong)
  also have "\<dots> = ?ok + (?t + (?q + (?b + (?u + ?a))))"
  proof -
    have 1: "\<not> (undecided r \<and> turned_away r)" for r by (auto simp: undecided_def turned_away_def)
    have 2: "\<not> (is_boot_failure (err_of r) \<and> (undecided r \<or> turned_away r))" for r
      by (auto simp: undecided_def turned_away_def)
    have 3: "\<not> (err_of r = Some ErrQueueFull \<and>
        (is_boot_failure (err_of r) \<or> (undecided r \<or> turned_away r)))" for r
      by (auto simp: undecided_def turned_away_def)
    have 4: "\<not> (err_of r = Some ErrAdmissionTimeout \<and> (err_of r = Some ErrQueueFull \<or>
        (is_boot_failure (err_of r) \<or> (undecided r \<or> turned_away r))))" for r
      by (auto simp: undecided_def turned_away_def)
    have 5: "\<not> (succeeded (phase r) \<and> (err_of r = Some ErrAdmissionTimeout \<or> (err_of r = Some ErrQueueFull \<or>
        (is_boot_failure (err_of r) \<or> (undecided r \<or> turned_away r)))))" for r
      using noerr [of r] by (auto simp: undecided_def turned_away_def)
    show ?thesis
      by (simp only: tally_add [OF fin 5] tally_add [OF fin 4] tally_add [OF fin 3]
          tally_add [OF fin 2] tally_add [OF fin 1])
  qed
  finally show ?thesis .
qed




text \<open>The loss the snapshot reports leaves out requests that never got a placement: here the
  only dropped request is a duplicate, and \<^verbatim>\<open>Dropped\<close> is zero.\<close>

lemma dropped_leaves_out_duplicates:
  "\<exists>s r. svc_reachable s \<and> admissions s 1 = Some r \<and>
     phase r = Finished (Inl (ErrSched (ErrDuplicateVM ''x''))) \<and> Dropped (svc_Stats s) = 0"
proof -
  let ?s = "demo_run_svc False (EvStart # one_request 0 ''x'' @ one_request 1 ''x'')"
  have "map_option phase (admissions ?s 1) = Some (Finished (Inl (ErrSched (ErrDuplicateVM ''x''))))"
    "Dropped (svc_Stats ?s) = 0" by code_simp+
  then show ?thesis using demo_run_svc_reachable by blast
qed

subsection \<open>Slots\<close>



text \<open>With a reused identifier it goes wrong the other way. A client deletes microVM \<open>x\<close> while
  it boots and creates it again; when the first boot then fails, its clean-up releases the
  slot of the second, which has booted and reported success.\<close>

definition reuse_run :: "event list" where
  "reuse_run = EvStart # one_request 1 ''x'' @ [EvRelease ''x''] @ one_request 2 ''x'' @ [EvBootOk 2 9]"

lemma failed_boot_releases_anothers_slot:
  "\<exists>s s' r. svc_reachable s \<and> admissions s 2 = Some r \<and> succeeded (phase r) \<and>
     assigned (svc_sched s) ''x'' = Some ''a'' \<and> svc_step (EvBootErr 1 ''slow'') s = Some s' \<and>
     assigned (svc_sched s') ''x'' = None \<and> admissions s' 2 = Some r"
proof -
  let ?s = "demo_run_svc True reuse_run" and ?s' = "demo_run_svc True (reuse_run @ [EvBootErr 1 ''slow''])"
  have run: "svc_run reuse_run (demo_svc True) = Some ?s"
    "svc_run (reuse_run @ [EvBootErr 1 ''slow'']) (demo_svc True) = Some ?s'"
    by (rule demo_run_svc_run, code_simp)+
  then have "svc_step (EvBootErr 1 ''slow'') ?s = Some ?s'" by (simp add: run_append)
  moreover have "map_option (succeeded \<circ> phase) (admissions ?s 2) = Some True"
    "admissions ?s' 2 = admissions ?s 2"
    "assigned (svc_sched ?s) ''x'' = Some ''a''" "assigned (svc_sched ?s') ''x'' = None" by code_simp+
  moreover then obtain r where "admissions ?s 2 = Some r" "succeeded (phase r)" by auto
  ultimately show ?thesis using demo_run_svc_reachable by metis
qed

subsection \<open>What a step does to a request\<close>

text \<open>Past the line: sent, and answered.\<close>

definition answered :: "pending \<Rightarrow> bool" where
  "answered r \<longleftrightarrow> phase r \<noteq> Sending \<and> \<not> unanswered r"

text \<open>\<open>grows r r'\<close>: a request only moves forward. It keeps its identity, its lapse, its answer and
  its error.\<close>

definition grows :: "pending \<Rightarrow> pending \<Rightarrow> bool" where
  "grows r r' \<longleftrightarrow> req r' = req r \<and> (lapsed r \<longrightarrow> lapsed r') \<and> (answered r \<longrightarrow> answered r') \<and>
     (\<forall>e. err_of r = Some e \<longrightarrow> err_of r' = Some e)"

lemma grows_refl [simp]: "grows r r"
  by (simp add: grows_def)

lemma grows_trans: "grows r r' \<Longrightarrow> grows r' r'' \<Longrightarrow> grows r r''"
  by (auto simp: grows_def)

lemma send_result_grows:
  "send_result t q a = Some s' \<Longrightarrow> admissions t p = Some r \<Longrightarrow> \<exists>r'. admissions s' p = Some r' \<and> grows r r'"
  by (cases "(phase r, result_err r)" rule: phase_err.cases)
     (auto simp: send_result_def grows_def answered_def unanswered_def err_of_def split: option.splits if_splits)

lemma step_grows:
  assumes inv: "svc_inv s" and st: "svc_step e s = Some s'" and r: "admissions s p = Some r"
  shows "\<exists>r'. admissions s' p = Some r' \<and> grows r r'"
proof -
  note ok = svc_invD(8) [OF inv r, unfolded pending_ok_def]
  note defs = grows_def answered_def unanswered_def err_of_def
  note sends = send_result_grows [of _ _ _ s' p r]
  show ?thesis
  proof (cases e)
    case (EvReceive q now)
    with st r ok show ?thesis
      by (auto simp: admit_receive_def admit_done_def Let_def defs
          split: bind_splits if_splits admission.splits)
  next
    case (EvBootErr q err)
    with st r ok show ?thesis
      by (auto simp: boot_err_def boot_fail_def Let_def defs split: bind_splits if_splits phase.splits)
  next
    case (EvReplace q)
    with st r ok show ?thesis
      by (auto simp: boot_replace_def boot_fail_def Let_def defs split: bind_splits phase.splits sum.splits)
  next
    case EvDrain
    with st r show ?thesis
      by (auto simp: drain_step_def split: if_splits list.splits elim!: sends)
  next
    case EvCheck
    with st r show ?thesis
      by (auto simp: dispatch_check_def split: if_splits dispatcher.splits bind_splits elim!: sends)
  next
    case EvPlace
    with st r show ?thesis
      by (auto simp: dispatch_place_def Let_def split: if_splits dispatcher.splits bind_splits sum.splits
          elim!: sends)
  next
    case EvWaitLapsed
    with st r show ?thesis
      by (auto simp: wait_lapsed_def split: if_splits dispatcher.splits bind_splits elim!: sends)
  next
    case EvWaitShutdown
    with st r show ?thesis
      by (auto simp: wait_shutdown_def split: if_splits dispatcher.splits elim!: sends)
  qed (use st r ok in \<open>auto simp: admit_enter_def ctx_expire_def admit_send_def admit_reject_def
      read_depth_def record_depth_def boot_ok_def admit_done_def svc_Start_def svc_Stop_def
      disp_take_def disp_shutdown_def wait_freed_def wait_timer_def svc_Release_def
      signalCapacity_def defs
      split: option.splits bind_splits if_splits phase.splits dispatcher.splits list.splits sum.splits\<close>)
qed

lemma run_grows:
  "svc_inv s \<Longrightarrow> svc_run es s = Some s' \<Longrightarrow> admissions s p = Some r \<Longrightarrow>
     \<exists>r'. admissions s' p = Some r' \<and> grows r r'"
proof (induction es arbitrary: s r)
  case (Cons e es)
  from Cons.prems(2) obtain s1 where s1: "svc_step e s = Some s1" "svc_run es s1 = Some s'"
    by (rule run_ConsE)
  from step_grows [OF Cons.prems(1) s1(1) Cons.prems(3)] obtain r1 where
    r1: "admissions s1 p = Some r1" "grows r r1" by blast
  from Cons.IH [OF svc_step_inv [OF Cons.prems(1) s1(1)] s1(2) r1(1)] r1(2) show ?case
    using grows_trans by blast
qed auto

subsection \<open>Boots\<close>

text \<open>How often the events of a run are a return of the booter to the request \<open>p\<close>.\<close>

fun boots :: "pid \<Rightarrow> event \<Rightarrow> nat" where
  "boots p (EvBootOk q now) = (if q = p then 1 else 0)"
| "boots p (EvBootErr q err) = (if q = p then 1 else 0)"
| "boots p _ = 0"

text \<open>How many boots a request may still see.\<close>

fun boots_left :: "phase \<Rightarrow> nat" where
  "boots_left (Booting h n i) = nat (maxBootAttempts - i)"
| "boots_left (Replacing e n i) = nat (maxBootAttempts - (i + 1))"
| "boots_left (Finished x) = 0"
| "boots_left _ = nat maxBootAttempts"

definition boot_budget :: "pid \<Rightarrow> service \<Rightarrow> nat" where
  "boot_budget p s =
     (case admissions s p of None \<Rightarrow> nat maxBootAttempts | Some r \<Rightarrow> boots_left (phase r))"

lemma boot_budget_simps [simp]:
  "boot_budget p (s\<lparr>disp := d\<rparr>) = boot_budget p s" "boot_budget p (s\<lparr>queue := q\<rparr>) = boot_budget p s"
  "boot_budget p (s\<lparr>svc_sched := sc\<rparr>) = boot_budget p s"
  "boot_budget p (s\<lparr>timedOut := n\<rparr>) = boot_budget p s"
  by (simp_all add: boot_budget_def)

lemma send_result_budget: "send_result t q a = Some s' \<Longrightarrow> boot_budget p s' = boot_budget p t"
  by (auto simp: send_result_def boot_budget_def split: option.splits if_splits)

lemma step_boot_budget:
  assumes inv: "svc_inv s" and st: "svc_step e s = Some s'"
  shows "boot_budget p s' + boots p e \<le> boot_budget p s"
proof -
  note ok = svc_invD(8) [OF inv, of p, unfolded pending_ok_def]
  note sends = send_result_budget [of _ _ _ s' p]
  show ?thesis
  proof (cases e)
    case (EvReceive q now)
    with st ok show ?thesis
      by (auto simp: admit_receive_def admit_done_def boot_budget_def Let_def
          split: bind_splits if_splits admission.splits)
  next
    case (EvBootErr q err)
    with st ok show ?thesis
      by (auto simp: boot_err_def boot_fail_def boot_budget_def Let_def
          split: bind_splits if_splits phase.splits)
  next
    case (EvReplace q)
    with st ok show ?thesis
      by (auto simp: boot_replace_def boot_fail_def boot_budget_def Let_def
          split: bind_splits phase.splits sum.splits)
  next
    case EvDrain
    with st show ?thesis
      by (cases "queue s") (auto simp: drain_step_def split: if_splits dest!: sends)
  next
    case EvCheck
    with st show ?thesis
      by (auto simp: dispatch_check_def split: if_splits dispatcher.splits bind_splits dest!: sends)
  next
    case EvPlace
    with st show ?thesis
      by (auto simp: dispatch_place_def Let_def split: if_splits dispatcher.splits bind_splits sum.splits
          dest!: sends)
  next
    case EvWaitLapsed
    with st show ?thesis
      by (auto simp: wait_lapsed_def split: if_splits dispatcher.splits bind_splits dest!: sends)
  next
    case EvWaitShutdown
    with st show ?thesis
      by (auto simp: wait_shutdown_def split: if_splits dispatcher.splits dest!: sends)
  qed (use st ok in \<open>auto simp: admit_enter_def ctx_expire_def admit_send_def admit_reject_def
      read_depth_def record_depth_def boot_ok_def admit_done_def svc_Start_def svc_Stop_def
      disp_take_def disp_shutdown_def wait_freed_def wait_timer_def svc_Release_def
      signalCapacity_def boot_budget_def
      split: option.splits bind_splits if_splits phase.splits dispatcher.splits list.splits sum.splits\<close>)
qed

interpretation boot: budget_machine svc_step svc_inv "boot_budget p" "boots p" for p
  by unfold_locales (rule step_boot_budget)

text \<open>C34. No request boots on more than \<^verbatim>\<open>maxBootAttempts\<close> hosts: along any run the booter
  returns to a request at most three times, however often it fails, and a request that is
  booting has at most two failures behind it.\<close>

theorem boots_are_bounded:
  assumes "svc_init s" and "svc_run es s = Some s'"
  shows "sum_list (map (boots p) es) \<le> 3 \<and>
    (\<forall>r h n i. admissions s' p = Some r \<and> phase r = Booting h n i \<longrightarrow>
       0 \<le> i \<and> i < 3 \<and> int (sum_list (map (boots p) es)) \<le> i)"
proof (intro conjI allI impI)
  note inv = svc_init_inv [OF assms(1)]
  have b: "boot_budget p s = 3"
    by (simp add: boot_budget_def svc_initD(1) [OF assms(1)] maxBootAttempts_def)
  show "sum_list (map (boots p) es) \<le> 3" using boot.cost_bounded [OF inv assms(2)] b by metis
  fix r h n i assume r: "admissions s' p = Some r \<and> phase r = Booting h n i"
  then have i: "0 \<le> i" "i < 3"
    using svc_invD(8) [OF adm.run_good [OF inv assms(2)], of p r]
    by (auto simp: pending_ok_def maxBootAttempts_def)
  then show "0 \<le> i" "i < 3" by simp_all
  have "boot_budget p s' = nat (3 - i)" using r by (simp add: boot_budget_def maxBootAttempts_def)
  with boot.run_budget [OF inv assms(2), of p] b i
  show "int (sum_list (map (boots p) es)) \<le> i" by simp
qed

theorem boots_are_bounded_witness:
  "\<exists>es s'. svc_run es (demo_svc True) = Some s' \<and> sum_list (map (boots 0) es) = 2 \<and>
     sum_list (map (boots 0) es) \<le> (3 :: nat)"
proof -
  let ?es = "EvStart # one_request 0 ''x'' @ [EvBootErr 0 ''no'', EvReplace 0, EvBootErr 0 ''no'']"
  have run: "svc_run ?es (demo_svc True) = Some (demo_run_svc True ?es)"
    by (rule demo_run_svc_run) code_simp
  have "sum_list (map (boots 0) ?es) = 2" by code_simp
  with boots_are_bounded [OF demo_svc_init run, of 0] run show ?thesis by blast
qed

subsection \<open>Answers\<close>

text \<open>The events of the dispatcher while it holds a request.\<close>

fun dispatches :: "event \<Rightarrow> bool" where
  "dispatches EvCheck = True"
| "dispatches EvPlace = True"
| "dispatches EvFreed = True"
| "dispatches EvTimer = True"
| "dispatches EvWaitLapsed = True"
| "dispatches EvWaitShutdown = True"
| "dispatches _ = False"

fun to_go :: "dispatcher \<Rightarrow> nat" where
  "to_go (Checking p n) = 1"
| "to_go (Waiting p n) = 2"
| "to_go (Placing p n) = 3"
| "to_go _ = 0"

lemma send_result_answers:
  "send_result t p a = Some s' \<Longrightarrow>
     \<exists>r. admissions t p = Some r \<and> admissions s' p = Some (r\<lparr>result := Some a\<rparr>)"
  by (auto simp: send_result_def split: option.splits if_splits)

text \<open>A step while the dispatcher holds a lapsed request: it answers it, or gets closer.\<close>

lemma lapsed_step:
  assumes inv: "svc_inv s" and cur: "current (disp s) = [p]" and r: "admissions s p = Some r" "lapsed r"
    and st: "svc_step e s = Some s'"
  shows "(\<exists>r'. admissions s' p = Some r' \<and> answered r') \<or>
    current (disp s') = [p] \<and> to_go (disp s') + (if dispatches e then 1 else 0) \<le> to_go (disp s)"
proof -
  have p: "p \<in> set (in_line s)" by (simp add: in_line_def cur)
  with svc_invD(7) [OF inv, of p] r have "phase r \<noteq> Sending" by (auto simp: unanswered_def)
  note ans = send_result_answers [of _ p _ s'] and sent = this answered_def unanswered_def
  show ?thesis
  proof (cases e)
    case EvCheck
    with st cur r show ?thesis
      by (auto simp: dispatch_check_def split: dispatcher.splits if_splits dest!: ans simp: sent)
  next
    case EvPlace
    with st cur r show ?thesis
      by (auto simp: dispatch_place_def Let_def split: dispatcher.splits bind_splits sum.splits if_splits
          dest!: ans simp: sent)
  next
    case EvWaitLapsed
    with st cur r show ?thesis
      by (auto simp: wait_lapsed_def split: dispatcher.splits if_splits dest!: ans simp: sent)
  next
    case EvWaitShutdown
    with st cur r show ?thesis
      by (auto simp: wait_shutdown_def split: dispatcher.splits if_splits dest!: ans simp: sent)
  qed (use st cur in \<open>auto simp: admit_enter_def ctx_expire_def admit_send_def admit_reject_def
      read_depth_def record_depth_def admit_receive_def boot_ok_def boot_err_def boot_fail_def
      boot_replace_def admit_done_def svc_Start_def svc_Stop_def
      disp_take_def disp_shutdown_def drain_step_def wait_freed_def wait_timer_def svc_Release_def
      signalCapacity_def Let_def
      split: option.splits bind_splits if_splits phase.splits dispatcher.splits list.splits sum.splits
        admission.splits\<close>)
qed

text \<open>C31. A request whose deadline has passed is answered. Once the dispatcher holds it, three
  steps of the dispatcher are enough, whichever they are and whatever else happens in
  between: the capacity, the timer and the wake-ups cannot keep it waiting.\<close>

theorem lapsed_request_is_answered:
  assumes "svc_reachable s" and "current (disp s) = [p]"
    and "admissions s p = Some r" and "lapsed r"
    and "svc_run es s = Some s'" and "3 \<le> length (filter dispatches es)"
  shows "\<exists>r'. admissions s' p = Some r' \<and> answered r'"
proof -
  have "to_go (disp s) \<le> 3" by (cases "disp s") simp_all
  with assms(6) have "to_go (disp s) \<le> length (filter dispatches es)" by simp
  from svc_reachable_inv [OF assms(1)] assms(2-5) this show ?thesis
  proof (induction es arbitrary: s r)
    case Nil
    then show ?case by (cases "disp s") simp_all
  next
    case (Cons e es)
    from Cons.prems(5) obtain s1 where s1: "svc_step e s = Some s1" "svc_run es s1 = Some s'"
      by (rule run_ConsE)
    note inv1 = svc_step_inv [OF Cons.prems(1) s1(1)]
    from step_grows [OF Cons.prems(1) s1(1) Cons.prems(3)] Cons.prems(4) obtain r1 where
      r1: "admissions s1 p = Some r1" "lapsed r1" by (auto simp: grows_def)
    from lapsed_step [OF Cons.prems(1-4) s1(1)] show ?case
    proof
      assume "\<exists>r'. admissions s1 p = Some r' \<and> answered r'"
      with run_grows [OF inv1 s1(2)] show ?case by (fastforce simp: grows_def)
    next
      assume "current (disp s1) = [p] \<and> to_go (disp s1) + (if dispatches e then 1 else 0) \<le> to_go (disp s)"
      with Cons.prems(6) show ?case
        using Cons.IH [OF inv1 _ r1 s1(2)] by (auto split: if_splits)
    qed
  qed
qed

theorem lapsed_request_is_answered_witness:
  "\<exists>s s' r. svc_reachable s \<and> disp s = Waiting 2 1 \<and>
     svc_run [EvFreed, EvSignal, EvCheck, EvTake, EvCheck, EvPlace] s = Some s' \<and>
     admissions s' 2 = Some r \<and> answered r"
proof -
  let ?es = "EvStart # one_request 0 ''x'' @ one_request 1 ''y'' @
    [EvAdmit 2 (vm ''z'') 0, EvAdmit 3 (vm ''w'') 0, EvSend 2, EvSend 3, EvTake, EvCheck, EvPlace,
     EvExpire 2, EvSignal]"
  let ?fs = "[EvFreed, EvSignal, EvCheck, EvTake, EvCheck, EvPlace]"
  let ?s = "demo_run_svc False ?es"
  have d: "disp ?s = Waiting 2 1" "map_option lapsed (admissions ?s 2) = Some True"
    "svc_run ?fs ?s \<noteq> None"
    by code_simp+
  then obtain s' where s': "svc_run ?fs ?s = Some s'" by blast
  from d(2) obtain r where r: "admissions ?s 2 = Some r" "lapsed r" by auto
  have "current (disp ?s) = [2]" "3 \<le> length (filter dispatches ?fs)" unfolding d(1) by simp_all
  from lapsed_request_is_answered [OF demo_run_svc_reachable this(1) r s' this(2)] obtain r' where
    "admissions s' 2 = Some r'" "answered r'" by blast
  then show ?thesis using d(1) s' demo_run_svc_reachable by blast
qed

subsection \<open>Shutdown\<close>

text \<open>While the dispatcher drains or has returned, only the drain takes requests out.\<close>

lemma parked_step:
  assumes st: "svc_step e s = Some s'"
    and d: "disp s = Draining \<and> e \<noteq> EvDrain \<or> disp s = Exited"
  shows "disp s' = disp s" "queue s' = queue s @ sent [e]"
proof -
  have e: "e \<noteq> EvDrain" "e \<noteq> EvTake"
    using st d by (auto simp: drain_step_def disp_take_def)
  then show "queue s' = queue s @ sent [e]" using step_queue [OF st] by simp
  have "disp s = Draining \<or> disp s = Exited" using d by blast
  with st e show "disp s' = disp s"
    by (cases e)
       (auto simp: admit_enter_def ctx_expire_def admit_send_def admit_reject_def read_depth_def
        record_depth_def admit_receive_def admit_done_def boot_ok_def boot_err_def boot_fail_def
        boot_replace_def svc_Start_def svc_Stop_def disp_shutdown_def
        dispatch_check_def dispatch_place_def wait_freed_def wait_timer_def wait_lapsed_def
        wait_shutdown_def svc_Release_def signalCapacity_def Let_def
        split: option.splits bind_splits if_splits phase.splits sum.splits admission.splits)
qed

text \<open>A step while the dispatcher drains: a queued request stays in the queue, or has been told
  that the service is shutting down.\<close>

lemma drain_keeps:
  assumes inv: "svc_inv s" and st: "svc_step e s = Some s'"
    and d: "disp s = Draining" "p \<in> set (queue s)"
  shows "disp s' = Draining \<and> p \<in> set (queue s') \<or>
    (\<exists>r. admissions s' p = Some r \<and> err_of r = Some ErrShuttingDown)"
proof (cases "e = EvDrain")
  case True
  with st d obtain q qs where q: "queue s = q # qs"
    "send_result (s\<lparr>queue := qs\<rparr>) q (Refused ErrShuttingDown) = Some s'"
    by (auto simp: drain_step_def split: list.splits)
  show ?thesis
  proof (cases "p = q")
    case True
    have "p \<in> set (in_line s)" using d(2) by (simp add: in_line_def)
    with svc_invD(7) [OF inv, of p] obtain r where r: "admissions s p = Some r" "unanswered r" by blast
    with q True have "admissions s' p = Some (r\<lparr>result := Some (Refused ErrShuttingDown)\<rparr>)"
      using send_result_answers [OF q(2)] by auto
    moreover from r(2) have "err_of (r\<lparr>result := Some (Refused ErrShuttingDown)\<rparr>) = Some ErrShuttingDown"
      by (cases "phase r") (simp_all add: unanswered_def err_of_def)
    ultimately show ?thesis by blast
  next
    case False
    with q d show ?thesis using send_result_queue [OF q(2)] by auto
  qed
next
  case False
  with d(1) parked_step [OF st] have "disp s' = Draining" "queue s' = queue s @ sent [e]" by auto
  with d(2) show ?thesis by simp
qed

text \<open>Shutting down answers the queue. Every request that is queued when the dispatcher
  starts to drain has been refused with \<^verbatim>\<open>ErrShuttingDown\<close> when the dispatcher returns, and
  that is the error its caller gets.\<close>

theorem shutdown_answers_the_queue:
  assumes "svc_reachable s" and "disp s = Draining" and "p \<in> set (queue s)"
    and "svc_run es s = Some s'" and "disp s' = Exited"
  shows "\<exists>r. admissions s' p = Some r \<and> err_of r = Some ErrShuttingDown"
proof -
  let ?told = "\<lambda>s. \<exists>r. admissions s p = Some r \<and> err_of r = Some ErrShuttingDown"
  have "disp s' = Draining \<and> p \<in> set (queue s') \<or> ?told s'"
  proof (rule adm.run_keeps [of s es s' "\<lambda>s. disp s = Draining \<and> p \<in> set (queue s) \<or> ?told s"])
    fix e s s'
    assume inv: "svc_inv s" and st: "svc_step e s = Some s'"
      and "disp s = Draining \<and> p \<in> set (queue s) \<or> ?told s"
    then show "disp s' = Draining \<and> p \<in> set (queue s') \<or> ?told s'"
      using drain_keeps [OF inv st, of p] step_grows [OF inv st, of p] by (fastforce simp: grows_def)
  qed (use assms svc_reachable_inv in auto)
  with assms(5) show ?thesis by simp
qed

theorem shutdown_answers_the_queue_witness:
  "\<exists>s s' r. svc_reachable s \<and> queue s = [1, 2] \<and> svc_run [EvDrain, EvDrain, EvDrain] s = Some s' \<and>
     admissions s' 2 = Some r \<and> err_of r = Some ErrShuttingDown"
proof -
  let ?s = "demo_run_svc False [EvStart, EvAdmit 1 (vm ''x'') 0, EvAdmit 2 (vm ''y'') 0, EvSend 1,
    EvSend 2, EvStop, EvShutdown]"
  let ?es = "[EvDrain, EvDrain, EvDrain]"
  have d: "disp ?s = Draining" "queue ?s = [1, 2]"
    "map_option disp (svc_run ?es ?s) = Some Exited" by code_simp+
  then obtain s' where s': "svc_run ?es ?s = Some s'" "disp s' = Exited" by auto
  have "2 \<in> set (queue ?s)" unfolding d(2) by simp
  from shutdown_answers_the_queue [OF demo_run_svc_reachable d(1) this s'] d(2) s'(1) show ?thesis
    using demo_run_svc_reachable by blast
qed

lemma exited_keeps:
  assumes st: "svc_step e s = Some s'" and d: "disp s = Exited" "p \<in> set (queue s)"
  shows "disp s' = Exited \<and> p \<in> set (queue s')"
  using parked_step [OF st] d by auto

text \<open>A request that enters the queue after the dispatcher has returned is never answered:
  whatever happens next, its deadline included, it stays in the queue and its caller stays
  inside \<^verbatim>\<open>Admit\<close>. Nothing keeps a request from entering the queue then.\<close>

theorem admission_after_exit_never_returns:
  assumes "svc_reachable s" and "disp s = Exited" and "p \<in> set (queue s)"
    and "svc_run es s = Some s'"
  shows "p \<in> set (queue s') \<and> (\<exists>r. admissions s' p = Some r \<and> unanswered r)"
proof -
  have *: "disp s' = Exited \<and> p \<in> set (queue s')"
    by (rule adm.run_keeps [of s es s' "\<lambda>s. disp s = Exited \<and> p \<in> set (queue s)"])
       (use assms svc_reachable_inv exited_keeps in auto)
  then have "p \<in> set (in_line s')" by (simp add: in_line_def)
  with * svc_invD(7) [OF svc_reachable_inv [OF svc_reachable_run [OF assms(1,4)]], of p]
  show ?thesis by blast
qed

theorem admission_after_exit_never_returns_witness:
  "\<exists>s s'. svc_reachable s \<and> disp s = Exited \<and> queue s = [1] \<and> svc_run [EvExpire 1] s = Some s' \<and>
     (\<exists>r. admissions s' 1 = Some r \<and> unanswered r)"
proof -
  let ?s = "demo_run_svc False [EvStart, EvStop, EvShutdown, EvDrain, EvAdmit 1 (vm ''x'') 0, EvSend 1]"
  have d: "disp ?s = Exited" "queue ?s = [1]" "svc_run [EvExpire 1] ?s \<noteq> None" by code_simp+
  then obtain s' where s': "svc_run [EvExpire 1] ?s = Some s'" by blast
  have "1 \<in> set (queue ?s)" unfolding d(2) by simp
  from admission_after_exit_never_returns [OF demo_run_svc_reachable d(1) this s'] d s' show ?thesis
    using demo_run_svc_reachable by blast
qed

end
