(* ===== verification/Http.thy ===== *)
theory Http
  imports PlacementProps Registry
begin

section \<open>The HTTP API (internal/httpapi/server.go)\<close>

text \<open>
  The handlers. Each is a function of the request and of what the component behind it
  answers: a handler that calls the placement service takes the call as an argument, from
  the request to its result, and yields the response together with the calls it made, to
  the placement service and to the metrics, in order. Decoding a JSON body, generating a
  random identifier, encoding the response and logging belong to libraries; the decoded
  request or the decoder's error, and the generated identifier, are arguments.
\<close>

subsection \<open>Requests and responses\<close>

definition FixedVCPUs :: int where "FixedVCPUs = 1"
definition FixedMemMiB :: int where "FixedMemMiB = 1024"
definition DefaultTTL :: duration where "DefaultTTL = 500 * millisecond"
definition MaxTTL :: duration where "MaxTTL = 5 * (60 * second)"

record CreateVMRequest =
  VCPUs :: int
  MemoryMiB :: int
  TTLMillis :: int
  req_ID :: string

record CreateVMResponse =
  resp_ID :: string
  resp_Host :: string
  resp_VCPUs :: int
  resp_MemoryMiB :: int
  resp_TTLMillis :: int
  QueueWaitUS :: int
  resp_Attempts :: int

record RegisterHostRequest =
  rh_ID :: string
  rh_Capacity :: int
  rh_Address :: string

record HostView =
  hv_ID :: string
  hv_State :: string
  hv_Capacity :: int
  hv_Used :: int

datatype v_error =
    BadVCPUs int
  | BadMemory int
  | NegativeTTL int
  | TTLTooLong int

text \<open>A request body: absent, refused by the decoder, or decoded.\<close>

datatype 'r body = NoBody | Undecodable | Decoded 'r

datatype reply_body =
    Empty
  | ErrorBody string
  | CreatedBody CreateVMResponse
  | RegisteredBody string int
  | HostsBody "HostView list"
  | HealthBody
  | ReadyBody int int int

record response =
  status :: int
  retry_after :: "string option"
  body :: reply_body

text \<open>The calls of the metrics library, with the drop reasons of internal/metrics/metrics.go.\<close>

definition DropReasonTimeout :: string where "DropReasonTimeout = ''admission_timeout''"
definition DropReasonQueueFull :: string where "DropReasonQueueFull = ''queue_full''"

datatype metric = RequestsOffered | RequestsPlaced | RequestsDropped string | PlacementLatency duration

definition writeJSON :: "int \<Rightarrow> reply_body \<Rightarrow> response" where
  "writeJSON st b = \<lparr>status = st, retry_after = None, body = b\<rparr>"

definition writeError :: "int \<Rightarrow> string \<Rightarrow> response" where
  "writeError st code = writeJSON st (ErrorBody code)"

subsection \<open>Creating a microVM\<close>

text \<open>\<^verbatim>\<open>time.Duration(ms) * time.Millisecond\<close> wraps at 64 bits.\<close>

definition validate :: "CreateVMRequest \<Rightarrow> v_error + duration" where
  "validate r =
     (if VCPUs r \<noteq> 0 \<and> VCPUs r \<noteq> FixedVCPUs then Inl (BadVCPUs (VCPUs r))
      else if MemoryMiB r \<noteq> 0 \<and> MemoryMiB r \<noteq> FixedMemMiB then Inl (BadMemory (MemoryMiB r))
      else if TTLMillis r < 0 then Inl (NegativeTTL (TTLMillis r))
      else
        let ttl = (if TTLMillis r > 0 then wrap64 (TTLMillis r * millisecond) else DefaultTTL) in
        if ttl > MaxTTL then Inl (TTLTooLong (TTLMillis r)) else Inr ttl)"

definition writeAdmissionError :: "p_error \<Rightarrow> response \<times> metric list" where
  "writeAdmissionError e =
     (case e of
        ErrAdmissionTimeout \<Rightarrow>
          ((writeError 503 ''admission_timeout'')\<lparr>retry_after := Some ''1''\<rparr>,
           [RequestsDropped DropReasonTimeout])
      | ErrQueueFull \<Rightarrow>
          ((writeError 503 ''queue_full'')\<lparr>retry_after := Some ''1''\<rparr>,
           [RequestsDropped DropReasonQueueFull])
      | ErrShuttingDown \<Rightarrow> ((writeError 503 ''shutting_down'')\<lparr>retry_after := Some ''5''\<rparr>, [])
      | ErrSched (ErrDuplicateVM _) \<Rightarrow> (writeError 409 ''duplicate_id'', [])
      | _ \<Rightarrow> (writeError 500 ''internal'', []))"

text \<open>
  \<^verbatim>\<open>Duration.Milliseconds()\<close> and \<^verbatim>\<open>Microseconds()\<close> divide by truncation; on the
  non-negative durations of an answer that is \<open>div\<close>, on a negative one it rounds towards
  zero.
\<close>

definition trunc_div :: "int \<Rightarrow> int \<Rightarrow> int" where
  "trunc_div d u = (if d < 0 then - ((- d) div u) else d div u)"

definition Milliseconds :: "duration \<Rightarrow> int" where
  "Milliseconds d = trunc_div d millisecond"

definition Microseconds :: "duration \<Rightarrow> int" where
  "Microseconds d = trunc_div d 1000"

text \<open>\<open>admit\<close> is the call of \<^verbatim>\<open>placer.Admit\<close>, \<open>uuid\<close> the identifier \<^verbatim>\<open>uuid.NewString\<close>
  generates, \<open>took\<close> what \<^verbatim>\<open>time.Since(start)\<close> reads.\<close>

definition handleCreateVM ::
  "(Request \<Rightarrow> p_error + Result) \<Rightarrow> string \<Rightarrow> duration \<Rightarrow> CreateVMRequest body \<Rightarrow>
     response \<times> Request list \<times> metric list"
where
  "handleCreateVM admit uuid took b =
     (let handle = (\<lambda>r.
        case validate r of
          Inl e \<Rightarrow> (writeError 400 ''invalid_request'', [], [])
        | Inr ttl \<Rightarrow>
            let i = (if req_ID r = '''' then uuid else req_ID r);
                q = \<lparr>VMID = i, TTL = ttl\<rparr>
            in (case admit q of
                  Inl e \<Rightarrow>
                    (let (resp, ms) = writeAdmissionError e in (resp, [q], RequestsOffered # ms))
                | Inr res \<Rightarrow>
                    (writeJSON 201 (CreatedBody
                       \<lparr>resp_ID = i, resp_Host = res_Host res, resp_VCPUs = FixedVCPUs,
                        resp_MemoryMiB = FixedMemMiB, resp_TTLMillis = Milliseconds ttl,
                        QueueWaitUS = Microseconds (res_Wait res), resp_Attempts = res_Attempts res\<rparr>),
                     [q], [RequestsOffered, RequestsPlaced, PlacementLatency took])))
      in case b of
           NoBody \<Rightarrow> handle \<lparr>VCPUs = 0, MemoryMiB = 0, TTLMillis = 0, req_ID = ''''\<rparr>
         | Undecodable \<Rightarrow> (writeError 400 ''invalid_body'', [], [])
         | Decoded r \<Rightarrow> handle r)"

subsection \<open>Deleting a microVM\<close>

text \<open>\<open>rel\<close> is the call of \<^verbatim>\<open>placer.Release\<close>.\<close>

definition handleDeleteVM :: "(vm_id \<Rightarrow> sched_error + unit) \<Rightarrow> string \<Rightarrow> response" where
  "handleDeleteVM rel i =
     (if i = '''' then writeError 400 ''invalid_request''
      else case rel i of
        Inl (ErrUnknownVM _) \<Rightarrow> writeError 404 ''not_found''
      | Inl _ \<Rightarrow> writeError 500 ''internal''
      | Inr _ \<Rightarrow> \<lparr>status = 204, retry_after = None, body = Empty\<rparr>)"

subsection \<open>Host membership\<close>

text \<open>\<open>register\<close>, \<open>heartbeat\<close> and \<open>deregister\<close> are the calls of the host registry.\<close>

definition handleRegisterHost ::
  "(host_id \<Rightarrow> int \<Rightarrow> string \<Rightarrow> reg_error + unit) \<Rightarrow> RegisterHostRequest body \<Rightarrow> response" where
  "handleRegisterHost register b =
     (case b of
        Decoded r \<Rightarrow>
          (case register (rh_ID r) (rh_Capacity r) (rh_Address r) of
             Inl (RegScheduler (ErrInvalidCapacity _ _)) \<Rightarrow> writeError 400 ''invalid_capacity''
           | Inl _ \<Rightarrow> writeError 400 ''registration_failed''
           | Inr _ \<Rightarrow> writeJSON 201 (RegisteredBody (rh_ID r) (rh_Capacity r)))
      | _ \<Rightarrow> writeError 400 ''invalid_body'')"

definition handleHeartbeatHost :: "(host_id \<Rightarrow> reg_error + unit) \<Rightarrow> string \<Rightarrow> response" where
  "handleHeartbeatHost heartbeat i =
     (case heartbeat i of
        Inl _ \<Rightarrow> writeError 404 ''unknown_host''
      | Inr _ \<Rightarrow> \<lparr>status = 204, retry_after = None, body = Empty\<rparr>)"

definition handleDeregisterHost :: "(host_id \<Rightarrow> reg_error + unit) \<Rightarrow> string \<Rightarrow> response" where
  "handleDeregisterHost deregister i =
     (case deregister i of
        Inl _ \<Rightarrow> writeError 404 ''unknown_host''
      | Inr _ \<Rightarrow> \<lparr>status = 204, retry_after = None, body = Empty\<rparr>)"

subsection \<open>Reports\<close>

fun view_loop :: "HostSnapshot list \<Rightarrow> HostView list \<Rightarrow> HostView list" where
  "view_loop [] out = out"
| "view_loop (h # hs) out =
     view_loop hs (out @ [\<lparr>hv_ID = snap_ID h, hv_State = HostState_String (snap_State h),
       hv_Capacity = snap_Capacity h, hv_Used = snap_Used h\<rparr>])"

definition handleListHosts :: "HostSnapshot list \<Rightarrow> response" where
  "handleListHosts snaps = writeJSON 200 (HostsBody (view_loop snaps []))"

definition handleHealthz :: response where
  "handleHealthz = writeJSON 200 HealthBody"

definition handleReadyz :: "Stats \<Rightarrow> response" where
  "handleReadyz st =
     writeJSON 200 (ReadyBody (st_ReadyHosts st) (st_Hosts st) (st_Capacity st - st_Used st))"

end
