(* ===== verification/HttpProps.thy ===== *)
theory HttpProps
  imports Http SchedulerStats
begin

section \<open>Properties of the HTTP API\<close>

text \<open>
  What the handlers accept, and how the outcomes of the placement service become statuses
  and metrics. The handler for new microVMs relies on its placer for one thing: which errors
  a call can end with. That is the locale \<open>placer\<close>; the admission machine is shown to keep it.
\<close>

subsection \<open>Validation\<close>

lemma MaxTTL_ns: "MaxTTL = 300000000000" "DefaultTTL = 500000000" "millisecond = 1000000"
  by (simp_all add: MaxTTL_def DefaultTTL_def second_def millisecond_def)

lemma Milliseconds_exact: "0 \<le> n \<Longrightarrow> Milliseconds (n * millisecond) = n"
  by (simp add: Milliseconds_def trunc_div_def MaxTTL_ns)

text \<open>A request is accepted exactly when its shape is the fixed one, or left out, and its
  lifetime is between zero and \<^verbatim>\<open>MaxTTL\<close>; the lifetime is then the one asked for, or the
  default, positive and at most \<^verbatim>\<open>MaxTTL\<close>, and the response reports it back unchanged. This
  is for lifetimes whose nanoseconds fit 64 bits.\<close>

theorem validate_exact:
  assumes "fits64 (TTLMillis r * millisecond)"
  shows "(validate r = Inr ttl \<longleftrightarrow>
      VCPUs r \<in> {0, FixedVCPUs} \<and> MemoryMiB r \<in> {0, FixedMemMiB} \<and> 0 \<le> TTLMillis r \<and>
      TTLMillis r * millisecond \<le> MaxTTL \<and>
      ttl = (if TTLMillis r = 0 then DefaultTTL else TTLMillis r * millisecond)) \<and>
    (validate r = Inr ttl \<longrightarrow> 0 < ttl \<and> ttl \<le> MaxTTL \<and>
      Milliseconds ttl = (if TTLMillis r = 0 then 500 else TTLMillis r))"
proof -
  have w: "wrap64 (TTLMillis r * millisecond) = TTLMillis r * millisecond" using assms by simp
  have *: "validate r = Inr ttl \<longleftrightarrow>
      VCPUs r \<in> {0, FixedVCPUs} \<and> MemoryMiB r \<in> {0, FixedMemMiB} \<and> 0 \<le> TTLMillis r \<and>
      TTLMillis r * millisecond \<le> MaxTTL \<and>
      ttl = (if TTLMillis r = 0 then DefaultTTL else TTLMillis r * millisecond)"
    unfolding validate_def w by (auto simp: Let_def MaxTTL_ns)
  moreover have "Milliseconds DefaultTTL = 500"
    using Milliseconds_exact [of 500] by (simp add: DefaultTTL_def)
  ultimately show ?thesis using Milliseconds_exact [of "TTLMillis r"] by (auto simp: MaxTTL_ns)
qed

theorem validate_exact_witness:
  "validate \<lparr>VCPUs = 1, MemoryMiB = 0, TTLMillis = 250, req_ID = ''x''\<rparr> = Inr 250000000 \<and>
   0 < (250000000 :: int)"
  using validate_exact [of "\<lparr>VCPUs = 1, MemoryMiB = 0, TTLMillis = 250, req_ID = ''x''\<rparr>" 250000000]
  by (simp add: fits64_def MaxTTL_ns FixedVCPUs_def FixedMemMiB_def)

text \<open>Beyond that the product wraps before the ceiling is checked: 584 years pass as less than
  half a millisecond, and 292 years as a negative lifetime.\<close>

lemma huge_ttl_passes_the_ceiling:
  "validate \<lparr>VCPUs = 0, MemoryMiB = 0, TTLMillis = 18446744073710, req_ID = ''x''\<rparr> = Inr 448384"
  "validate \<lparr>VCPUs = 0, MemoryMiB = 0, TTLMillis = 9223372036855, req_ID = ''x''\<rparr> =
     Inr (- 9223372036854551616)"
  by (simp_all add: validate_def wrap64_def MaxTTL_ns Let_def)

subsection \<open>What the handler relies on\<close>

locale placer =
  fixes ok :: "'s \<Rightarrow> bool"
    and call :: "'s \<Rightarrow> Request \<Rightarrow> p_error + Result \<Rightarrow> 's \<Rightarrow> bool"
  assumes call_error: "ok s \<Longrightarrow> call s q (Inl e) s' \<Longrightarrow> VMID q \<noteq> [] \<Longrightarrow>
      e \<in> {ErrAdmissionTimeout, ErrQueueFull, ErrShuttingDown, ErrSched (ErrDuplicateVM (VMID q))} \<or>
      (\<exists>m. e = ErrBootFailed m)"
begin

text \<open>The error replies: each outcome has its own status, and a refused client that may try again
  is told when.\<close>

lemma error_reply:
  assumes "ok s" "call s q (Inl e) s'" "VMID q \<noteq> []"
  shows "status (fst (writeAdmissionError e)) =
      (if \<exists>m. e = ErrBootFailed m then 500 else if e = ErrSched (ErrDuplicateVM (VMID q)) then 409 else 503)"
    "retry_after (fst (writeAdmissionError e)) \<noteq> None \<longleftrightarrow>
      e \<in> {ErrAdmissionTimeout, ErrQueueFull, ErrShuttingDown}"
    "snd (writeAdmissionError e) =
      (if e = ErrAdmissionTimeout then [RequestsDropped DropReasonTimeout]
       else if e = ErrQueueFull then [RequestsDropped DropReasonQueueFull] else [])"
  using call_error [OF assms]
  by (auto simp: writeAdmissionError_def writeError_def writeJSON_def split: p_error.splits sched_error.splits)

end

subsection \<open>The service keeps it\<close>

text \<open>A whole call of \<^verbatim>\<open>Admit\<close>: it enters, the machine runs, and the caller has returned.\<close>

definition svc_admits :: "service \<Rightarrow> Request \<Rightarrow> p_error + Result \<Rightarrow> service \<Rightarrow> bool" where
  "svc_admits s q x s' \<longleftrightarrow> (\<exists>p now es s1 r. admissions s p = None \<and>
     svc_step (EvAdmit p q now) s = Some s1 \<and> svc_run es s1 = Some s' \<and>
     admissions s' p = Some r \<and> phase r = Finished x)"

lemma svc_admits_reachable:
  assumes "svc_reachable s" "svc_admits s q x s'"
  shows "svc_reachable s'" "\<exists>p r. admissions s' p = Some r \<and> phase r = Finished x \<and> req r = q"
proof -
  from assms(2) obtain p now es s1 r where e: "admissions s p = None"
    "svc_step (EvAdmit p q now) s = Some s1" "svc_run es s1 = Some s'"
    "admissions s' p = Some r" "phase r = Finished x" by (auto simp: svc_admits_def)
  have r1: "svc_reachable s1"
    by (rule svc_reachable_run [OF assms(1), of "[EvAdmit p q now]"]) (use e(2) in simp)
  then show "svc_reachable s'" using svc_reachable_run e(3) by blast
  from e(1,2) obtain u where u: "admissions s1 p = Some u" "req u = q"
    by (auto simp: admit_enter_def split: if_splits)
  from run_grows [OF svc_reachable_inv [OF r1] e(3) u(1)] u(2) e(4)
  have "req r = q" by (auto simp: grows_def)
  with e(4,5) show "\<exists>p r. admissions s' p = Some r \<and> phase r = Finished x \<and> req r = q" by blast
qed

interpretation pl: placer svc_reachable svc_admits
proof unfold_locales
  fix s q e s' assume s: "svc_reachable s" "svc_admits s q (Inl e) s'" and v: "VMID q \<noteq> []"
  from svc_admits_reachable [OF s] obtain p r where
    r: "svc_reachable s'" "admissions s' p = Some r" "phase r = Finished (Inl e)" "req r = q" by blast
  then have "verdict_ok r" using svc_reachable_verdicts by (auto simp: verdicts_inv_def)
  then show "e \<in> {ErrAdmissionTimeout, ErrQueueFull, ErrShuttingDown, ErrSched (ErrDuplicateVM (VMID q))} \<or>
      (\<exists>m. e = ErrBootFailed m)"
    using r(3,4) v by (cases e) (auto simp: verdict_ok_def err_of_def)
qed

subsection \<open>Creating a microVM\<close>

lemma handleCreateVM_calls:
  assumes "uuid \<noteq> []"
  shows "handleCreateVM admit uuid took b = (resp, qs, ms) \<Longrightarrow>
    status resp = 400 \<and> qs = [] \<and> ms = [] \<or>
    (\<exists>q. qs = [q] \<and> VMID q \<noteq> [] \<and>
       (case admit q of
          Inl e \<Rightarrow> resp = fst (writeAdmissionError e) \<and> ms = RequestsOffered # snd (writeAdmissionError e)
        | Inr res \<Rightarrow> status resp = 201 \<and> ms = [RequestsOffered, RequestsPlaced, PlacementLatency took]))"
  using assms
  by (auto simp: handleCreateVM_def Let_def writeError_def writeJSON_def
      split: body.splits sum.splits prod.splits if_splits)

text \<open>C35. Over the real placement service every outcome has its own status. A request refused
  with 400 never reached the service and touches no metric. Any other is one call of
  \<^verbatim>\<open>Admit\<close>, counted as offered once: 201 and counted as placed exactly when it succeeded;
  503 with \<^verbatim>\<open>Retry-After\<close> for a timeout, a full queue or a shutdown, the first two counted as
  dropped; 409 for a duplicate identifier; 500 for a failed boot and for nothing else.\<close>

theorem create_reports_the_outcome:
  assumes "svc_reachable s" and "uuid \<noteq> []"
    and "\<forall>q\<in>set qs. \<exists>s'. svc_admits s q (admit q) s'"
    and "handleCreateVM admit uuid took b = (resp, qs, ms)"
  shows "status resp = 400 \<and> qs = [] \<and> ms = [] \<or>
    (\<exists>q. qs = [q] \<and> filter (\<lambda>m. m = RequestsOffered) ms = [RequestsOffered] \<and>
       (status resp = 201 \<longleftrightarrow> (\<exists>res. admit q = Inr res)) \<and>
       (RequestsPlaced \<in> set ms \<longleftrightarrow> (\<exists>res. admit q = Inr res)) \<and>
       (status resp = 503 \<longleftrightarrow> admit q \<in> Inl ` {ErrAdmissionTimeout, ErrQueueFull, ErrShuttingDown}) \<and>
       (status resp = 503 \<longrightarrow> retry_after resp \<noteq> None) \<and>
       ((\<exists>x. RequestsDropped x \<in> set ms) \<longleftrightarrow> admit q \<in> Inl ` {ErrAdmissionTimeout, ErrQueueFull}) \<and>
       (status resp = 409 \<longleftrightarrow> admit q = Inl (ErrSched (ErrDuplicateVM (VMID q)))) \<and>
       (status resp = 500 \<longleftrightarrow> (\<exists>m. admit q = Inl (ErrBootFailed m))))"
  using handleCreateVM_calls [OF assms(2,4)]
proof (elim disjE exE conjE)
  fix q assume q: "qs = [q]" "VMID q \<noteq> []"
    and r: "case admit q of
          Inl e \<Rightarrow> resp = fst (writeAdmissionError e) \<and> ms = RequestsOffered # snd (writeAdmissionError e)
        | Inr res \<Rightarrow> status resp = 201 \<and> ms = [RequestsOffered, RequestsPlaced, PlacementLatency took]"
  have "\<exists>s'. svc_admits s q (admit q) s'" using assms(3) unfolding q(1) by simp
  then obtain s' where call: "svc_admits s q (admit q) s'" ..
  show ?thesis
  proof (cases "admit q")
    case (Inl e)
    with call have "svc_admits s q (Inl e) s'" by simp
    note er = pl.error_reply [OF assms(1) this q(2)] and kinds = pl.call_error [OF assms(1) this q(2)]
    from r Inl have "resp = fst (writeAdmissionError e)" "ms = RequestsOffered # snd (writeAdmissionError e)"
      by simp_all
    note resp = this
    consider "e = ErrAdmissionTimeout" | "e = ErrQueueFull" | "e = ErrShuttingDown"
      | "e = ErrSched (ErrDuplicateVM (VMID q))" | m where "e = ErrBootFailed m"
      using kinds by blast
    then show ?thesis
      by cases (rule disjI2, rule exI [of _ q], use resp er q(1) Inl in \<open>simp add: image_iff\<close>)+
  next
    case (Inr res)
    with r q(1) show ?thesis
      by (intro disjI2 exI [of _ q]) (simp add: image_iff)
  qed
qed simp

theorem create_reports_the_outcome_witness:
  "\<exists>resp qs ms. handleCreateVM (\<lambda>q. Inr \<lparr>res_Host = ''a'', res_Wait = 7, res_Attempts = 1\<rparr>)
      ''u'' 9 NoBody = (resp, qs, ms) \<and> qs \<noteq> [] \<and> status resp = 201 \<and> RequestsPlaced \<in> set ms"
proof -
  let ?x = "Inr \<lparr>res_Host = ''a'', res_Wait = 7, res_Attempts = 1\<rparr>"
  let ?q = "\<lparr>VMID = ''u'', TTL = DefaultTTL\<rparr>"
  let ?s = "demo_run_svc False [EvStart]"
  let ?es = "[EvSend 0, EvReadDepth 0, EvRecordDepth 0, EvTake, EvCheck, EvPlace, EvReceive 0 7]"
  have d: "admissions ?s 0 = None"
    "map_option (\<lambda>s. map_option phase (admissions s 0)) (svc_run (EvAdmit 0 ?q 0 # ?es) ?s) =
      Some (Some (Finished ?x))"
    by code_simp+
  then obtain s' where s': "svc_run (EvAdmit 0 ?q 0 # ?es) ?s = Some s'"
    "map_option phase (admissions s' 0) = Some (Finished ?x)"
    by (auto simp del: run.simps svc_step.simps)
  from s'(1) obtain s1 where "svc_step (EvAdmit 0 ?q 0) ?s = Some s1" "svc_run ?es s1 = Some s'"
    by (rule run_ConsE)
  moreover from s'(2) obtain r where "admissions s' 0 = Some r" "phase r = Finished ?x" by auto
  ultimately have "svc_admits ?s ?q ?x s'" using d(1) unfolding svc_admits_def by blast
  obtain resp qs ms where h: "handleCreateVM (\<lambda>q. ?x) ''u'' 9 NoBody = (resp, qs, ms)"
    by (metis prod_cases3)
  then have qs: "qs = [?q]" "status resp \<noteq> 400"
    by (auto simp: handleCreateVM_def validate_def writeJSON_def Let_def MaxTTL_ns)
  with \<open>svc_admits ?s ?q ?x s'\<close> have "\<forall>q\<in>set qs. \<exists>s'. svc_admits ?s q ?x s'" by auto
  from create_reports_the_outcome [OF demo_run_svc_reachable _ this h] qs show ?thesis
    using h by auto
qed

subsection \<open>Deleting a microVM, and host membership\<close>

text \<open>A deletion over the real service is 204 exactly when the microVM held a slot, which
  it then no longer does, and 404 exactly when it held none; it is never an internal error.\<close>

theorem delete_reports_the_release:
  assumes "svc_reachable s" and "svc_Release s i = Some (x, s')" and "i \<noteq> []"
  shows "status (handleDeleteVM (\<lambda>_. x) i) =
      (if assigned (svc_sched s) i = None then 404 else 204) \<and>
    assigned (svc_sched s') i = None \<and>
    (assigned (svc_sched s) i \<noteq> None \<longrightarrow> released s' = released s + 1 \<and> freed s')"
proof -
  note ok = svc_invD(1) [OF svc_reachable_inv [OF assms(1)]]
  from assms(2) obtain y sc where rel: "Release (svc_sched s) i = Some (y, sc)"
    by (auto simp: svc_Release_def split: bind_splits)
  note a = sl.release_asg [OF ok rel]
  show ?thesis
  proof (cases "assigned (svc_sched s) i")
    case None
    then have "y = Inl (ErrUnknownVM i)" using rel by (simp add: Release_unknown)
    with assms(2,3) rel None a show ?thesis
      by (auto simp: svc_Release_def handleDeleteVM_def writeError_def writeJSON_def)
  next
    case (Some h)
    with a have "y = Inr ()" by auto
    with assms(2,3) rel Some a show ?thesis
      by (auto simp: svc_Release_def handleDeleteVM_def signalCapacity_def)
  qed
qed

theorem delete_reports_the_release_witness:
  "\<exists>s s'. svc_Release s ''x'' = Some (Inr (), s') \<and>
     status (handleDeleteVM (\<lambda>_. Inr ()) ''x'') = 204 \<and> assigned (svc_sched s') ''x'' = None"
proof -
  let ?s = "demo_run_svc False (EvStart # one_request 0 ''x'')"
  have d: "assigned (svc_sched ?s) ''x'' = Some ''a''" "map_option fst (svc_Release ?s ''x'') = Some (Inr ())"
    by code_simp+
  then obtain s' where s': "svc_Release ?s ''x'' = Some (Inr (), s')" by auto
  from delete_reports_the_release [OF demo_run_svc_reachable s'] d(1) s' show ?thesis by auto
qed

text \<open>The readiness report is derived from counters that do not match while hosts drain: it can
  announce a negative number of free slots.\<close>

lemma readyz_reports_negative_slots:
  "\<exists>s is r t n. sched_reachable BestFit s \<and> iterates is (hosts s) \<and>
     body (handleReadyz (sched_Stats s is)) = ReadyBody r t n \<and> n < 0"
proof -
  let ?cs = "[CallAddHost ''a'' 3, CallSetHostState ''a'' HostReady, CallPlace ''v1'', CallPlace ''v2'',
    CallPlace ''v3'', CallSetHostState ''a'' HostDraining, CallAddHost ''b'' 2, CallSetHostState ''b'' HostReady]"
  let ?s = "demo_run BestFit ?cs"
  have "iterates [''a'', ''b''] (hosts ?s)" by (rule demo_hosts) code_simp+
  moreover have "st_Used (sched_Stats ?s [''a'', ''b'']) = 3"
    unfolding sched_Stats_sums by code_simp
  moreover have "st_Capacity (sched_Stats ?s [''a'', ''b'']) = 2"
    unfolding sched_Stats_sums by code_simp
  ultimately show ?thesis
    using demo_run_reachable [of BestFit ?cs]
    by (intro exI [of _ ?s] exI [of _ "[''a'', ''b'']"]) (simp add: handleReadyz_def writeJSON_def)
qed

end
