(* ===== verification/Hypervisor.thy ===== *)
theory Hypervisor
  imports Machine
begin

section \<open>The hypervisor (internal/hypervisor/hypervisor.go, fake.go)\<close>

text \<open>
  What the agent of a host asks of a hypervisor, and the in-process hypervisor the
  simulation and the tests run. \<^verbatim>\<open>Start\<close> reserves a slot, boots for a while with the mutex
  released, and arms a timer for the microVM's lifetime; the timer's goroutine reaps the
  microVM and announces it on a bounded channel; \<^verbatim>\<open>Stop\<close> and \<^verbatim>\<open>Close\<close> may come in
  between. As in the placement service, each stretch of code between two interleaving points
  is one definition, \<open>None\<close> when it cannot run, and a run is a list of events. The boot
  latency, the simulated failure and the clock are arguments.
\<close>

subsection \<open>Specifications\<close>

datatype hv_error =
    HvNoCapacity
  | HvUnknownVM string
  | HvDuplicateVM string
  | HvBootFailed string
  | HvClosed
  | HvContext
  | SpecEmptyID
  | SpecLongID int
  | SpecBadByte char int
  | SpecLeadingDot
  | SpecVCPUs int
  | SpecMemMiB int
  | SpecTTL duration
  | FakeSlots int
  | FakeNegative
  | FakeJitter duration duration
  | FakeFailureRate real

record Spec =
  spec_ID :: string
  spec_VCPUs :: int
  spec_MemMiB :: int
  spec_TTL :: duration

definition maxIDLen :: int where
  "maxIDLen = 128"

definition validIDChar :: "char \<Rightarrow> bool" where
  "validIDChar c \<longleftrightarrow>
     c \<ge> CHR ''a'' \<and> c \<le> CHR ''z'' \<or> c \<ge> CHR ''A'' \<and> c \<le> CHR ''Z'' \<or>
     c \<ge> CHR ''0'' \<and> c \<le> CHR ''9'' \<or> c = CHR ''-'' \<or> c = CHR ''_'' \<or> c = CHR ''.''"

text \<open>The loop over the bytes of the identifier, from offset \<open>i\<close>.\<close>

fun bad_byte :: "string \<Rightarrow> int \<Rightarrow> hv_error option" where
  "bad_byte [] i = None"
| "bad_byte (c # cs) i = (if \<not> validIDChar c then Some (SpecBadByte c i) else bad_byte cs (i + 1))"

definition spec_Validate :: "Spec \<Rightarrow> hv_error option" where
  "spec_Validate s =
     (if spec_ID s = '''' then Some SpecEmptyID
      else if int (length (spec_ID s)) > maxIDLen then Some (SpecLongID (int (length (spec_ID s))))
      else case bad_byte (spec_ID s) 0 of
        Some e \<Rightarrow> Some e
      | None \<Rightarrow>
          if hd (spec_ID s) = CHR ''.'' then Some SpecLeadingDot
          else if spec_VCPUs s < 1 then Some (SpecVCPUs (spec_VCPUs s))
          else if spec_MemMiB s < 1 then Some (SpecMemMiB (spec_MemMiB s))
          else if spec_TTL s < 0 then Some (SpecTTL (spec_TTL s))
          else None)"

record Instance =
  inst_ID :: string
  StartedAt :: instant
  inst_BootLatency :: duration
  ExpiresAt :: "instant option"

subsection \<open>Configuration of the fake\<close>

record FakeConfig =
  Slots :: int
  BootLatency :: duration
  BootJitter :: duration
  StopLatency :: duration
  FailureRate :: real

definition DefaultBootLatency :: duration where "DefaultBootLatency = 25 * millisecond"
definition DefaultBootJitter :: duration where "DefaultBootJitter = 10 * millisecond"
definition DefaultStopLatency :: duration where "DefaultStopLatency = 2 * millisecond"

definition fake_applyDefaults :: "FakeConfig \<Rightarrow> FakeConfig" where
  "fake_applyDefaults c =
     (let c1 = (if BootLatency c = 0 then c\<lparr>BootLatency := DefaultBootLatency\<rparr> else c);
          c2 = (if BootJitter c1 = 0 then c1\<lparr>BootJitter := DefaultBootJitter\<rparr> else c1)
      in if StopLatency c2 = 0 then c2\<lparr>StopLatency := DefaultStopLatency\<rparr> else c2)"

definition fake_Validate :: "FakeConfig \<Rightarrow> hv_error option" where
  "fake_Validate c =
     (if Slots c < 2 then Some (FakeSlots (Slots c))
      else if BootLatency c < 0 \<or> BootJitter c < 0 \<or> StopLatency c < 0 then Some FakeNegative
      else if BootJitter c > BootLatency c then Some (FakeJitter (BootJitter c) (BootLatency c))
      else if FailureRate c < 0 \<or> FailureRate c > 1 then Some (FakeFailureRate (FailureRate c))
      else None)"

text \<open>\<open>draw\<close> is what \<^verbatim>\<open>rng.Int64N(2 * BootJitter)\<close> returns, a number of its range.\<close>

definition sampleBootLatency :: "FakeConfig \<Rightarrow> int \<Rightarrow> duration" where
  "sampleBootLatency c draw =
     (if BootJitter c = 0 then BootLatency c else BootLatency c + (draw - BootJitter c))"

subsection \<open>State of the fake\<close>

text \<open>A pointer to a \<^verbatim>\<open>fakeVM\<close>; every call of \<^verbatim>\<open>Start\<close> that gets past its checks makes one.\<close>

type_synonym ref = nat

text \<open>
  The timer of a microVM and the goroutine it starts: none yet, running, stopped in time,
  fired with the goroutine before its lock, past its lock with an announcement to send, and
  finished.
\<close>

datatype timer = NoTimer | Armed | Halted | Fired | Announcing | Over

datatype start_phase = Starting | StartDone "hv_error + Instance"

record fakeVM =
  vm_spec :: Spec
  boot_time :: duration
  will_fail :: bool
  started :: start_phase
  timer :: timer

record fake =
  f_cfg :: FakeConfig
  running :: "string \<rightharpoonup> ref"
  closed :: bool
  expired :: "string list"
  expired_closed :: bool
  wg :: int
  vms :: "ref \<rightharpoonup> fakeVM"

definition NewFake :: "FakeConfig \<Rightarrow> hv_error + fake" where
  "NewFake cfg0 =
     (let cfg = fake_applyDefaults cfg0 in
      case fake_Validate cfg of
        Some e \<Rightarrow> Inl e
      | None \<Rightarrow> Inr \<lparr>f_cfg = cfg, running = Map.empty, closed = False, expired = [],
          expired_closed = False, wg = 0, vms = Map.empty\<rparr>)"

definition Running :: "fake \<Rightarrow> int" where
  "Running f = int (card (dom (running f)))"

definition Capacity :: "fake \<Rightarrow> int" where
  "Capacity f = Slots (f_cfg f)"

definition put_vm :: "fake \<Rightarrow> ref \<Rightarrow> fakeVM \<Rightarrow> fake" where
  "put_vm f v r = f\<lparr>vms := (vms f)(v \<mapsto> r)\<rparr>"

subsection \<open>Starting\<close>

text \<open>
  The first critical section of \<^verbatim>\<open>Start\<close>, with the check of the specification: the call is
  refused, or it owns a slot and a new \<^verbatim>\<open>fakeVM\<close> at \<open>v\<close>. \<open>count\<close> is \<^verbatim>\<open>len(f.running)\<close>.
\<close>

definition start_reserve ::
  "fake \<Rightarrow> ref \<Rightarrow> Spec \<Rightarrow> int \<Rightarrow> bool \<Rightarrow> int \<Rightarrow> (hv_error option \<times> fake)" where
  "start_reserve f v s draw fail count =
     (case spec_Validate s of
        Some e \<Rightarrow> (Some e, f)
      | None \<Rightarrow>
          if closed f then (Some HvClosed, f)
          else case running f (spec_ID s) of
            Some _ \<Rightarrow> (Some (HvDuplicateVM (spec_ID s)), f)
          | None \<Rightarrow>
              if count \<ge> Slots (f_cfg f) then (Some HvNoCapacity, f)
              else (None, put_vm (f\<lparr>running := (running f)(spec_ID s \<mapsto> v)\<rparr>) v
                \<lparr>vm_spec = s, boot_time = sampleBootLatency (f_cfg f) draw, will_fail = fail,
                 started = Starting, timer = NoTimer\<rparr>))"

definition start_release :: "fake \<Rightarrow> ref \<Rightarrow> fakeVM \<Rightarrow> hv_error \<Rightarrow> fake" where
  "start_release f v r e =
     put_vm (f\<lparr>running := (running f)(spec_ID (vm_spec r) := None)\<rparr>) v (r\<lparr>started := StartDone (Inl e)\<rparr>)"

text \<open>The boot ends: its context was cancelled, or it slept to the end at \<open>now\<close>.\<close>

definition start_cancelled :: "fake \<Rightarrow> ref \<Rightarrow> fake option" where
  "start_cancelled f v =
     (case vms f v of
        Some r \<Rightarrow> if started r = Starting then Some (start_release f v r HvContext) else None
      | None \<Rightarrow> None)"

definition start_booted :: "fake \<Rightarrow> ref \<Rightarrow> instant \<Rightarrow> fake option" where
  "start_booted f v now =
     (case vms f v of
        None \<Rightarrow> None
      | Some r \<Rightarrow>
          if started r \<noteq> Starting then None
          else if will_fail r then Some (start_release f v r (HvBootFailed (spec_ID (vm_spec r))))
          else if closed f then Some (put_vm f v (r\<lparr>started := StartDone (Inl HvClosed)\<rparr>))
          else
            let ttl = spec_TTL (vm_spec r);
                inst = \<lparr>inst_ID = spec_ID (vm_spec r), StartedAt = now, inst_BootLatency = boot_time r,
                        ExpiresAt = (if ttl > 0 then Some (now + ttl) else None)\<rparr>;
                r1 = r\<lparr>started := StartDone (Inr inst)\<rparr>
            in Some (if ttl > 0 then put_vm (f\<lparr>wg := wg f + 1\<rparr>) v (r1\<lparr>timer := Armed\<rparr>)
                     else put_vm f v r1))"

subsection \<open>Expiry\<close>

definition timer_fires :: "fake \<Rightarrow> ref \<Rightarrow> fake option" where
  "timer_fires f v =
     (case vms f v of
        Some r \<Rightarrow> if timer r = Armed then Some (put_vm f v (r\<lparr>timer := Fired\<rparr>)) else None
      | None \<Rightarrow> None)"

text \<open>The critical section of \<^verbatim>\<open>reap\<close>; its early returns end the goroutine.\<close>

definition reap_lock :: "fake \<Rightarrow> ref \<Rightarrow> fake option" where
  "reap_lock f v =
     (case vms f v of
        None \<Rightarrow> None
      | Some r \<Rightarrow>
          if timer r \<noteq> Fired then None
          else if closed f \<or> running f (spec_ID (vm_spec r)) = None
          then Some (put_vm (f\<lparr>wg := wg f - 1\<rparr>) v (r\<lparr>timer := Over\<rparr>))
          else Some (put_vm (f\<lparr>running := (running f)(spec_ID (vm_spec r) := None)\<rparr>) v
            (r\<lparr>timer := Announcing\<rparr>)))"

text \<open>The send that drops the announcement when the channel is full. Sending on a closed channel
  panics, which is \<open>None\<close> here as well.\<close>

definition reap_send :: "fake \<Rightarrow> ref \<Rightarrow> fake option" where
  "reap_send f v =
     (case vms f v of
        None \<Rightarrow> None
      | Some r \<Rightarrow>
          if timer r \<noteq> Announcing \<or> expired_closed f then None
          else
            let f1 = (if int (length (expired f)) < Slots (f_cfg f) * 4
                      then f\<lparr>expired := expired f @ [spec_ID (vm_spec r)]\<rparr> else f)
            in Some (put_vm (f1\<lparr>wg := wg f1 - 1\<rparr>) v (r\<lparr>timer := Over\<rparr>)))"

text \<open>The consumer of the channel.\<close>

definition expired_receive :: "fake \<Rightarrow> (string \<times> fake) option" where
  "expired_receive f =
     (case expired f of i # is \<Rightarrow> Some (i, f\<lparr>expired := is\<rparr>) | [] \<Rightarrow> None)"

subsection \<open>Stopping and closing\<close>

text \<open>\<^verbatim>\<open>vm.timer != nil && vm.timer.Stop()\<close>: stopping succeeds only before the timer fires.\<close>

definition stop_timer :: "fake \<Rightarrow> ref \<Rightarrow> fake" where
  "stop_timer f v =
     (case vms f v of
        Some r \<Rightarrow> if timer r = Armed then put_vm (f\<lparr>wg := wg f - 1\<rparr>) v (r\<lparr>timer := Halted\<rparr>) else f
      | None \<Rightarrow> f)"

definition fake_Stop :: "fake \<Rightarrow> string \<Rightarrow> hv_error option \<times> fake" where
  "fake_Stop f i =
     (if closed f then (Some HvClosed, f)
      else case running f i of
        None \<Rightarrow> (Some (HvUnknownVM i), f)
      | Some v \<Rightarrow> (None, stop_timer (f\<lparr>running := (running f)(i := None)\<rparr>) v))"

text \<open>The loop of \<^verbatim>\<open>Close\<close> over the running microVMs, in the order \<open>is\<close>.\<close>

fun close_loop :: "string list \<Rightarrow> fake \<Rightarrow> fake" where
  "close_loop [] f = f"
| "close_loop (i # is) f =
     close_loop is
       (case running f i of
          Some v \<Rightarrow> (let f1 = stop_timer f v in f1\<lparr>running := (running f1)(i := None)\<rparr>)
        | None \<Rightarrow> f)"

definition close_begin :: "fake \<Rightarrow> string list \<Rightarrow> fake" where
  "close_begin f is = (if closed f then f else close_loop is (f\<lparr>closed := True\<rparr>))"

text \<open>After \<^verbatim>\<open>f.wg.Wait()\<close>; closing a channel twice panics.\<close>

definition close_finish :: "fake \<Rightarrow> fake option" where
  "close_finish f =
     (if closed f \<and> wg f = 0 \<and> \<not> expired_closed f then Some (f\<lparr>expired_closed := True\<rparr>) else None)"

subsection \<open>The machine\<close>

datatype hv_event =
    HvStart ref Spec int bool
  | HvCancelled ref
  | HvBooted ref instant
  | HvFires ref
  | HvReapLock ref
  | HvReapSend ref
  | HvReceive
  | HvStop string
  | HvClose "string list"
  | HvCloseEnd

fun hv_step :: "hv_event \<Rightarrow> fake \<Rightarrow> fake option" where
  "hv_step (HvStart v s draw fail) f =
     (if vms f v \<noteq> None then None else Some (snd (start_reserve f v s draw fail (Running f))))"
| "hv_step (HvCancelled v) f = start_cancelled f v"
| "hv_step (HvBooted v now) f = start_booted f v now"
| "hv_step (HvFires v) f = timer_fires f v"
| "hv_step (HvReapLock v) f = reap_lock f v"
| "hv_step (HvReapSend v) f = reap_send f v"
| "hv_step HvReceive f = map_option snd (expired_receive f)"
| "hv_step (HvStop i) f = Some (snd (fake_Stop f i))"
| "hv_step (HvClose is) f = (if iterates is (running f) then Some (close_begin f is) else None)"
| "hv_step HvCloseEnd f = close_finish f"

end
