(* ===== verification/HypervisorProps.thy ===== *)
theory HypervisorProps
  imports Hypervisor
begin

section \<open>Properties of the hypervisor\<close>

text \<open>
  Identifiers that pass the check are harmless; the fake never runs more microVMs than it
  has slots, accounts for every timer, and never announces on a closed channel; and a
  microVM stopped while it boots leaves a timer behind that later reaps another.
\<close>

subsection \<open>Identifiers\<close>

lemma bad_byte_None: "bad_byte cs i = None \<longleftrightarrow> (\<forall>c\<in>set cs. validIDChar c)"
  by (induction cs arbitrary: i) auto

text \<open>A specification that passes the check is harmless on a kernel command line and in a
  directory name: its identifier has between 1 and 128 bytes, each a letter, a digit, a dash,
  an underscore or a dot, so no slash, blank, quote or control byte, and it does not begin
  with a dot, so it is not a path of dots either.\<close>

theorem valid_spec_is_harmless:
  assumes "spec_Validate s = None"
  shows "0 < length (spec_ID s) \<and> int (length (spec_ID s)) \<le> 128 \<and>
    set (spec_ID s) \<inter> {CHR ''/'', CHR '' '', CHR 0x22, CHR 0x27, CHR 0x5C, CHR 0x0A, CHR 0x00, CHR '';''} = {} \<and>
    spec_ID s \<notin> {''.'', ''..''} \<and> hd (spec_ID s) \<noteq> CHR ''.'' \<and>
    1 \<le> spec_VCPUs s \<and> 1 \<le> spec_MemMiB s \<and> 0 \<le> spec_TTL s"
proof -
  from assms have v: "spec_ID s \<noteq> ''''" "int (length (spec_ID s)) \<le> 128" "bad_byte (spec_ID s) 0 = None"
    "hd (spec_ID s) \<noteq> CHR ''.''" "1 \<le> spec_VCPUs s" "1 \<le> spec_MemMiB s" "0 \<le> spec_TTL s"
    by (auto simp: spec_Validate_def maxIDLen_def not_less split: if_splits option.splits)
  have "\<not> validIDChar c"
    if "c \<in> {CHR ''/'', CHR '' '', CHR 0x22, CHR 0x27, CHR 0x5C, CHR 0x0A, CHR 0x00, CHR '';''}" for c
    using that by (auto simp: validIDChar_def less_eq_char_def)
  with v(3) have "set (spec_ID s) \<inter>
      {CHR ''/'', CHR '' '', CHR 0x22, CHR 0x27, CHR 0x5C, CHR 0x0A, CHR 0x00, CHR '';''} = {}"
    unfolding bad_byte_None by blast
  with v show ?thesis by auto
qed

theorem valid_spec_is_harmless_witness:
  "set ''vm-7.a'' \<inter> {CHR ''/'', CHR '' '', CHR 0x22, CHR 0x27, CHR 0x5C, CHR 0x0A, CHR 0x00, CHR '';''} = {}"
proof -
  have "spec_Validate \<lparr>spec_ID = ''vm-7.a'', spec_VCPUs = 1, spec_MemMiB = 1024, spec_TTL = 0\<rparr> = None"
    by (simp add: spec_Validate_def maxIDLen_def validIDChar_def less_eq_char_def)
  from valid_spec_is_harmless [OF this] show ?thesis by simp
qed

subsection \<open>The fake's invariant\<close>

fun live :: "timer \<Rightarrow> bool" where
  "live Armed = True"
| "live Fired = True"
| "live Announcing = True"
| "live _ = False"

definition hv_inv :: "fake \<Rightarrow> bool" where
  "hv_inv f \<longleftrightarrow> finite (dom (running f)) \<and> finite (dom (vms f)) \<and>
     Running f \<le> Slots (f_cfg f) \<and> int (length (expired f)) \<le> Slots (f_cfg f) * 4 \<and>
     wg f = census (\<lambda>r. live (timer r)) (vms f) \<and>
     (closed f \<longrightarrow> running f = Map.empty) \<and>
     (expired_closed f \<longrightarrow> closed f \<and> wg f = 0) \<and>
     (\<forall>i v. running f i = Some v \<longrightarrow> (\<exists>r. vms f v = Some r \<and> spec_ID (vm_spec r) = i)) \<and>
     (\<forall>v r. vms f v = Some r \<and> started r = Starting \<longrightarrow> timer r = NoTimer)"

lemma hv_invD:
  assumes "hv_inv f"
  shows "finite (dom (running f))" "finite (dom (vms f))" "Running f \<le> Slots (f_cfg f)"
    "int (length (expired f)) \<le> Slots (f_cfg f) * 4"
    "wg f = census (\<lambda>r. live (timer r)) (vms f)"
    "closed f \<Longrightarrow> running f = Map.empty" "expired_closed f \<Longrightarrow> closed f \<and> wg f = 0"
    "running f i = Some v \<Longrightarrow> \<exists>r. vms f v = Some r \<and> spec_ID (vm_spec r) = i"
    "vms f v = Some r \<Longrightarrow> started r = Starting \<Longrightarrow> timer r = NoTimer"
  using assms unfolding hv_inv_def by auto

lemma Running_del: "finite (dom (running f)) \<Longrightarrow> Running (f\<lparr>running := (running f)(i := None)\<rparr>) \<le> Running f"
  by (simp add: Running_def card_Diff1_le)

text \<open>A step that changes one microVM and keeps or frees slots.\<close>

lemma hv_inv_put:
  assumes inv: "hv_inv f" and r: "vms f v = Some r"
    and same: "vm_spec r' = vm_spec r" "started r' = Starting \<longrightarrow> timer r' = NoTimer"
    and f': "f_cfg f' = f_cfg f" "closed f' = closed f" "expired_closed f' = expired_closed f"
      "vms f' = (vms f)(v \<mapsto> r')"
    and run: "running f' = running f \<or> running f' = (running f)(i := None)"
    and ex: "int (length (expired f')) \<le> Slots (f_cfg f) * 4"
    and w: "wg f' = wg f + of_bool (live (timer r')) - of_bool (live (timer r))"
    and cl: "expired_closed f \<Longrightarrow> \<not> live (timer r')"
  shows "hv_inv f'"
proof -
  note D = hv_invD [OF inv]
  have fin: "finite (dom (running f'))" using run D(1) by auto
  have "Running f' \<le> Running f"
    using run Running_del [OF D(1), of i] by (auto simp: Running_def)
  moreover have sub: "running f' j = Some u \<Longrightarrow> running f j = Some u" for j u
    using run by (auto split: if_splits)
  have "wg f' = census (\<lambda>r. live (timer r)) (vms f')"
    using census_put [OF D(2), of "\<lambda>r. live (timer r)" v r'] r w D(5) by (simp add: f'(4))
  moreover have "\<not> live (timer r)" if "expired_closed f"
    using census_zero [OF D(2) _ r, of "\<lambda>r. live (timer r)"] D(5,7) that by simp
  moreover have "\<exists>s. vms f' u = Some s \<and> spec_ID (vm_spec s) = j" if "running f' j = Some u" for j u
    using D(8) [OF sub [OF that]] r same(1) by (auto simp: f'(4))
  moreover have "closed f \<Longrightarrow> running f' = Map.empty" using run D(6) by auto
  ultimately show ?thesis
    using D fin ex same(2) w cl unfolding hv_inv_def f'(1-3)
    by (auto simp: f'(4) split: if_splits)
qed

lemma put_vm_simps [simp]:
  "f_cfg (put_vm f v r) = f_cfg f" "running (put_vm f v r) = running f" "closed (put_vm f v r) = closed f"
  "expired (put_vm f v r) = expired f" "expired_closed (put_vm f v r) = expired_closed f"
  "wg (put_vm f v r) = wg f" "vms (put_vm f v r) = (vms f)(v \<mapsto> r)"
  by (simp_all add: put_vm_def)

lemma hv_inv_put_vm:
  assumes "hv_inv f" and "vms f v = Some r" and "vms g = vms f" and "vm_spec r' = vm_spec r"
    and "started r' = Starting \<longrightarrow> timer r' = NoTimer"
    and "f_cfg g = f_cfg f" "closed g = closed f" "expired_closed g = expired_closed f"
    and "running g = running f \<or> running g = (running f)(spec_ID (vm_spec r) := None)"
    and "int (length (expired g)) \<le> Slots (f_cfg f) * 4"
    and "wg g = wg f + of_bool (live (timer r')) - of_bool (live (timer r))"
    and "expired_closed f \<Longrightarrow> \<not> live (timer r')"
  shows "hv_inv (put_vm g v r')"
  by (rule hv_inv_put [OF assms(1,2), of r' _ "spec_ID (vm_spec r)"]) (use assms in simp_all)

lemma start_reserve_inv:
  assumes inv: "hv_inv f" and new: "vms f v = None"
  shows "hv_inv (snd (start_reserve f v s draw fail (Running f)))"
proof (cases "fst (start_reserve f v s draw fail (Running f))")
  case (Some e)
  then have "snd (start_reserve f v s draw fail (Running f)) = f"
    by (auto simp: start_reserve_def split: option.splits if_splits)
  with inv show ?thesis by simp
next
  case None
  let ?r = "\<lparr>vm_spec = s, boot_time = sampleBootLatency (f_cfg f) draw, will_fail = fail,
    started = Starting, timer = NoTimer\<rparr>"
  let ?f = "put_vm (f\<lparr>running := (running f)(spec_ID s \<mapsto> v)\<rparr>) v ?r"
  from None have c: "\<not> closed f" "running f (spec_ID s) = None" "Running f < Slots (f_cfg f)"
    and f: "snd (start_reserve f v s draw fail (Running f)) = ?f"
    by (auto simp: start_reserve_def split: option.splits if_splits)
  note D = hv_invD [OF inv]
  have "spec_ID s \<notin> dom (running f)" using c(2) by blast
  then have "Running ?f = Running f + 1" using D(1) by (simp add: Running_def)
  moreover have "census (\<lambda>r. live (timer r)) (vms ?f) = wg f"
    using census_put [OF D(2), of "\<lambda>r. live (timer r)" v ?r] new D(5) by simp
  moreover have "\<exists>r. vms ?f u = Some r \<and> spec_ID (vm_spec r) = j" if "running ?f j = Some u" for j u
    using that D(8) [of j u] new by (auto split: if_splits)
  ultimately show ?thesis
    unfolding f hv_inv_def using D c by (auto split: if_splits)
qed

lemma stop_timer_inv:
  assumes "hv_inv f"
  shows "hv_inv (stop_timer f v)" "running (stop_timer f v) = running f"
    "closed (stop_timer f v) = closed f" "f_cfg (stop_timer f v) = f_cfg f"
proof -
  show "running (stop_timer f v) = running f" "closed (stop_timer f v) = closed f"
    "f_cfg (stop_timer f v) = f_cfg f"
    by (auto simp: stop_timer_def split: option.splits)
  show "hv_inv (stop_timer f v)"
  proof (cases "\<exists>r. vms f v = Some r \<and> timer r = Armed")
    case True
    then obtain r where r: "vms f v = Some r" "timer r = Armed" by blast
    then have "started r \<noteq> Starting" using hv_invD(9) [OF assms] by force
    with r have "hv_inv (put_vm (f\<lparr>wg := wg f - 1\<rparr>) v (r\<lparr>timer := Halted\<rparr>))"
      using hv_invD(4) [OF assms]
      by (intro hv_inv_put [OF assms r(1), of "r\<lparr>timer := Halted\<rparr>"]) simp_all
    with r show ?thesis by (simp add: stop_timer_def)
  next
    case False
    then have "stop_timer f v = f" by (auto simp: stop_timer_def split: option.splits)
    with assms show ?thesis by simp
  qed
qed

lemma hv_inv_del:
  assumes inv: "hv_inv f"
  shows "hv_inv (f\<lparr>running := (running f)(i := None)\<rparr>)"
proof -
  note D = hv_invD [OF inv]
  have "Running (f\<lparr>running := (running f)(i := None)\<rparr>) \<le> Slots (f_cfg f)"
    using Running_del [OF D(1), of i] D(3) by simp
  then show ?thesis using D unfolding hv_inv_def by (auto split: if_splits)
qed

lemma close_loop_inv:
  "hv_inv f \<Longrightarrow> hv_inv (close_loop is f) \<and> closed (close_loop is f) = closed f \<and>
     dom (running (close_loop is f)) = dom (running f) - set is"
proof (induction "is" arbitrary: f)
  case (Cons i "is")
  show ?case
  proof (cases "running f i")
    case None
    with Cons show ?thesis by auto
  next
    case (Some v)
    let ?f = "(stop_timer f v)\<lparr>running := (running (stop_timer f v))(i := None)\<rparr>"
    note st = stop_timer_inv [OF Cons.prems, of v]
    have "hv_inv ?f" by (rule hv_inv_del [OF st(1)])
    note IH = Cons.IH [OF this]
    have eq: "close_loop (i # is) f = close_loop is ?f" using Some by (simp add: Let_def)
    have d: "dom (running ?f) = dom (running f) - {i}" and c: "closed ?f = closed f"
      using st(2,3) by simp_all
    have "dom (running f) - set (i # is) = dom (running f) - {i} - set is" by auto
    then show ?thesis unfolding eq using IH by (simp only: d c simp_thms)
  qed
qed simp

lemma close_begin_inv:
  assumes inv: "hv_inv f" and "iterates is (running f)"
  shows "hv_inv (close_begin f is)"
proof (cases "closed f")
  case True
  with inv show ?thesis by (simp add: close_begin_def)
next
  case False
  note D = hv_invD [OF inv]
  text \<open>Set \<open>closed\<close> last: the loop does not look at it.\<close>
  have comm: "close_loop js (g\<lparr>closed := True\<rparr>) = (close_loop js g)\<lparr>closed := True\<rparr>" for js g
  proof (induction js arbitrary: g)
    case (Cons j js)
    have "stop_timer (g\<lparr>closed := True\<rparr>) u = (stop_timer g u)\<lparr>closed := True\<rparr>" for u
      by (simp add: stop_timer_def put_vm_def split: option.splits)
    note st = this
    show ?case
    proof (cases "running g j")
      case None
      with Cons.IH [of g] show ?thesis by simp
    next
      case (Some u)
      let ?g = "(stop_timer g u)\<lparr>running := (running (stop_timer g u))(j := None)\<rparr>"
      have swap: "(stop_timer g u)\<lparr>closed := True, running := m\<rparr> = (stop_timer g u)\<lparr>running := m, closed := True\<rparr>"
        for m by simp
      have "close_loop (j # js) (g\<lparr>closed := True\<rparr>) = close_loop js (?g\<lparr>closed := True\<rparr>)"
        using Some by (simp add: Let_def st swap del: fake.update_convs)
      with Cons.IH [of ?g] Some show ?thesis by (simp add: Let_def)
    qed
  qed simp
  have L: "hv_inv (close_loop is f)" "dom (running (close_loop is f)) = {}"
    using close_loop_inv [OF inv, of "is"] assms(2) by (simp_all add: iterates_def)
  then have "running (close_loop is f) = Map.empty" by (simp only: dom_eq_empty_conv)
  with L(1) have "hv_inv ((close_loop is f)\<lparr>closed := True\<rparr>)"
    by (auto simp: hv_inv_def Running_def)
  with False show ?thesis by (simp add: close_begin_def comm)
qed

text \<open>The step of each goroutine and timer keeps the invariant.\<close>

lemma start_cancelled_inv:
  assumes inv: "hv_inv f" and st: "start_cancelled f v = Some f'"
  shows "hv_inv f'"
proof -
  note D = hv_invD [OF inv]
  from st obtain r where r: "vms f v = Some r" "started r = Starting" "f' = start_release f v r HvContext"
    by (auto simp: start_cancelled_def split: option.splits if_splits)
  show ?thesis unfolding r(3) start_release_def
    by (rule hv_inv_put_vm [OF inv r(1)]) (use D(4) D(9) [OF r(1,2)] in simp_all)
qed

lemma start_booted_inv:
  assumes inv: "hv_inv f" and st: "start_booted f v now = Some f'"
  shows "hv_inv f'"
proof -
  note D = hv_invD [OF inv]
  from st obtain r where r: "vms f v = Some r" "started r = Starting"
    by (auto simp: start_booted_def split: option.splits if_splits)
  note nt = D(9) [OF r] and put = hv_inv_put_vm [OF inv r(1)]
  consider (fail) "f' = start_release f v r (HvBootFailed (spec_ID (vm_spec r)))"
    | (shut) "f' = put_vm f v (r\<lparr>started := StartDone (Inl HvClosed)\<rparr>)"
    | (timed) x where "\<not> closed f"
        "f' = put_vm (f\<lparr>wg := wg f + 1\<rparr>) v (r\<lparr>started := StartDone x, timer := Armed\<rparr>)"
    | (untimed) x where "f' = put_vm f v (r\<lparr>started := StartDone x\<rparr>)"
    using st r by (auto simp: start_booted_def Let_def split: if_splits)
  then show ?thesis
  proof cases
    case fail
    show ?thesis unfolding fail start_release_def by (rule put) (use D(4) nt in simp_all)
  next
    case shut
    show ?thesis unfolding shut by (rule put) (use D(4) nt in simp_all)
  next
    case timed
    show ?thesis unfolding timed(2) by (rule put) (use D(4,7) nt timed(1) in simp_all)
  next
    case untimed
    show ?thesis unfolding untimed by (rule put) (use D(4) nt in simp_all)
  qed
qed

lemma timer_fires_inv:
  assumes inv: "hv_inv f" and st: "timer_fires f v = Some f'"
  shows "hv_inv f'"
proof -
  note D = hv_invD [OF inv]
  from st obtain r where r: "vms f v = Some r" "timer r = Armed" "f' = put_vm f v (r\<lparr>timer := Fired\<rparr>)"
    by (auto simp: timer_fires_def split: option.splits if_splits)
  have dead: "\<not> live (timer r)" if "expired_closed f"
    using census_zero [OF D(2) _ r(1), of "\<lambda>r. live (timer r)"] D(5,7) that by simp
  have "started r \<noteq> Starting" using D(9) [OF r(1)] r(2) by force
  then show ?thesis unfolding r(3)
    by (intro hv_inv_put_vm [OF inv r(1)]) (use D(4) r dead in simp_all)
qed

lemma reap_lock_inv:
  assumes inv: "hv_inv f" and st: "reap_lock f v = Some f'"
  shows "hv_inv f'"
proof -
  note D = hv_invD [OF inv]
  from st obtain r where r: "vms f v = Some r" "timer r = Fired"
    by (auto simp: reap_lock_def split: option.splits if_splits)
  have s: "started r \<noteq> Starting" using D(9) [OF r(1)] r(2) by force
  show ?thesis
  proof (cases "closed f \<or> running f (spec_ID (vm_spec r)) = None")
    case True
    with st r have "f' = put_vm (f\<lparr>wg := wg f - 1\<rparr>) v (r\<lparr>timer := Over\<rparr>)"
      by (auto simp: reap_lock_def)
    then show ?thesis using s D(4) r(2) by (auto intro!: hv_inv_put_vm [OF inv r(1)])
  next
    case False
    with st r have "f' = put_vm (f\<lparr>running := (running f)(spec_ID (vm_spec r) := None)\<rparr>) v
        (r\<lparr>timer := Announcing\<rparr>)" by (auto simp: reap_lock_def)
    then show ?thesis using s D(4,7) r(2) False by (auto intro!: hv_inv_put_vm [OF inv r(1)])
  qed
qed

lemma reap_send_inv:
  assumes inv: "hv_inv f" and st: "reap_send f v = Some f'"
  shows "hv_inv f'"
proof -
  note D = hv_invD [OF inv]
  from st obtain r where r: "vms f v = Some r" "timer r = Announcing"
    by (auto simp: reap_send_def split: option.splits if_splits)
  have s: "started r \<noteq> Starting" using D(9) [OF r(1)] r(2) by force
  obtain xs where xs: "int (length xs) \<le> Slots (f_cfg f) * 4"
    "f' = put_vm (f\<lparr>expired := xs, wg := wg f - 1\<rparr>) v (r\<lparr>timer := Over\<rparr>)"
  proof (cases "int (length (expired f)) < Slots (f_cfg f) * 4")
    case True
    with st r that [of "expired f @ [spec_ID (vm_spec r)]"] show ?thesis
      by (auto simp: reap_send_def split: if_splits)
  next
    case False
    with st r D(4) that [of "expired f"] show ?thesis
      by (auto simp: reap_send_def split: if_splits)
  qed
  show ?thesis unfolding xs(2) by (rule hv_inv_put_vm [OF inv r(1)]) (use s xs(1) r(2) in simp_all)
qed

lemma hv_step_inv:
  assumes inv: "hv_inv f" and st: "hv_step e f = Some f'"
  shows "hv_inv f'"
proof -
  note D = hv_invD [OF inv]
  show ?thesis
  proof (cases e)
    case (HvStart v s draw fail)
    with st show ?thesis using start_reserve_inv [OF inv] by (auto split: if_splits)
  next
    case HvReceive
    with st D show ?thesis
      by (auto simp: expired_receive_def hv_inv_def Running_def split: list.splits)
  next
    case (HvStop i)
    with st have f': "f' = snd (fake_Stop f i)" by simp
    show ?thesis
      unfolding f' fake_Stop_def using inv stop_timer_inv(1) [OF hv_inv_del [OF inv]]
      by (auto split: option.splits)
  next
    case (HvClose "is")
    with st show ?thesis using close_begin_inv [OF inv] by (auto split: if_splits)
  next
    case HvCloseEnd
    with st D show ?thesis
      by (auto simp: close_finish_def hv_inv_def Running_def split: if_splits)
  qed (use st start_cancelled_inv [OF inv] start_booted_inv [OF inv] timer_fires_inv [OF inv] reap_lock_inv [OF inv]
      reap_send_inv [OF inv] in simp_all)
qed

interpretation fk: machine hv_step hv_inv
  by unfold_locales (rule hv_step_inv)

definition hv_reachable :: "fake \<Rightarrow> bool" where
  "hv_reachable f \<longleftrightarrow> (\<exists>cfg f0 es. NewFake cfg = Inr f0 \<and> run hv_step es f0 = Some f)"

lemma NewFake_inv: "NewFake cfg = Inr f \<Longrightarrow> hv_inv f"
  by (auto simp: NewFake_def fake_Validate_def hv_inv_def Running_def Let_def
      split: option.splits if_splits)

lemma hv_reachable_inv: "hv_reachable f \<Longrightarrow> hv_inv f"
  unfolding hv_reachable_def by (elim exE conjE) (rule fk.run_good [OF NewFake_inv])

text \<open>C36. Whatever calls, boots, timers and receivers interleave, the fake never runs more
  microVMs than it has slots, its expiry channel stays within its capacity, the wait group
  counts exactly the timers still to finish, and a closed fake runs nothing. A goroutine with
  an announcement can always send it: the channel is never closed under it, so the send
  cannot panic.\<close>

theorem fake_is_safe:
  assumes "hv_reachable f"
  shows "Running f \<le> Capacity f \<and> int (length (expired f)) \<le> 4 * Capacity f \<and>
    wg f = census (\<lambda>r. live (timer r)) (vms f) \<and> (closed f \<longrightarrow> Running f = 0) \<and>
    (\<forall>v r. vms f v = Some r \<and> timer r = Announcing \<longrightarrow> reap_send f v \<noteq> None)"
proof (intro conjI allI impI)
  note D = hv_invD [OF hv_reachable_inv [OF assms]]
  show "Running f \<le> Capacity f" "int (length (expired f)) \<le> 4 * Capacity f"
    using D(3,4) by (simp_all add: Capacity_def)
  show "wg f = census (\<lambda>r. live (timer r)) (vms f)" by (rule D(5))
  show "Running f = 0" if "closed f" using D(6) [OF that] by (simp add: Running_def)
  fix v r assume r: "vms f v = Some r \<and> timer r = Announcing"
  have "\<not> expired_closed f"
  proof
    assume "expired_closed f"
    with census_zero [OF D(2), of "\<lambda>r. live (timer r)" v r] D(5,7) r show False by simp
  qed
  with r show "reap_send f v \<noteq> None" by (simp add: reap_send_def Let_def)
qed

definition demo_fake :: fake where
  "demo_fake = \<lparr>f_cfg = \<lparr>Slots = 2, BootLatency = 25 * millisecond, BootJitter = 10 * millisecond,
     StopLatency = 2 * millisecond, FailureRate = 0\<rparr>, running = Map.empty, closed = False,
     expired = [], expired_closed = False, wg = 0, vms = Map.empty\<rparr>"

lemma demo_fake_reachable: "run hv_step es demo_fake = Some f \<Longrightarrow> hv_reachable f"
proof -
  have "NewFake \<lparr>Slots = 2, BootLatency = 0, BootJitter = 0, StopLatency = 0, FailureRate = 0\<rparr> = Inr demo_fake"
    by (simp add: NewFake_def fake_applyDefaults_def fake_Validate_def demo_fake_def
        DefaultBootLatency_def DefaultBootJitter_def DefaultStopLatency_def millisecond_def)
  then show "run hv_step es demo_fake = Some f \<Longrightarrow> hv_reachable f" unfolding hv_reachable_def by blast
qed

definition guest :: "string \<Rightarrow> duration \<Rightarrow> Spec" where
  "guest i ttl = \<lparr>spec_ID = i, spec_VCPUs = 1, spec_MemMiB = 1024, spec_TTL = ttl\<rparr>"

lemma guest_valid: "0 \<le> ttl \<Longrightarrow> spec_Validate (guest ''x'' ttl) = None"
  "0 \<le> ttl \<Longrightarrow> spec_Validate (guest ''y'' ttl) = None"
  "0 \<le> ttl \<Longrightarrow> spec_Validate (guest ''z'' ttl) = None"
  by (simp_all add: spec_Validate_def guest_def maxIDLen_def validIDChar_def less_eq_char_def)

lemma guest_sel [simp]: "spec_ID (guest i ttl) = i" "spec_TTL (guest i ttl) = ttl"
  by (simp_all add: guest_def)

lemmas hv_eval = demo_fake_def guest_valid start_reserve_def start_booted_def Running_def put_vm_def
  Let_def timer_fires_def reap_lock_def fake_Stop_def stop_timer_def

theorem fake_is_safe_witness:
  "\<exists>f. run hv_step [HvStart 0 (guest ''x'' 5) 7 False, HvStart 1 (guest ''y'' 5) 7 False,
      HvStart 2 (guest ''z'' 5) 7 False] demo_fake = Some f \<and>
     running f ''z'' = None \<and> Running f \<le> 2"
proof -
  let ?es = "[HvStart 0 (guest ''x'' 5) 7 False, HvStart 1 (guest ''y'' 5) 7 False,
    HvStart 2 (guest ''z'' 5) 7 False]"
  obtain f where f: "run hv_step ?es demo_fake = Some f" "running f ''z'' = None" "Capacity f = 2"
    by (simp add: hv_eval Capacity_def)
  from fake_is_safe [OF demo_fake_reachable [OF f(1)]] f show ?thesis by auto
qed

text \<open>A microVM stopped while it boots is reported as started all the same, and its timer runs on:
  when it fires it removes whatever microVM has the identifier by then. Here the second \<open>x\<close>,
  with a lifetime of an hour, is reaped by the timer of the first.\<close>

lemma stale_timer_reaps_another:
  "\<exists>f f' r r'. hv_reachable f \<and> running f ''x'' = Some 1 \<and>
     vms f 0 = Some r \<and> started r = StartDone (Inr \<lparr>inst_ID = ''x'', StartedAt = 25, inst_BootLatency = 15000007,
       ExpiresAt = Some 30\<rparr>) \<and>
     run hv_step [HvFires 0, HvReapLock 0] f = Some f' \<and> running f' ''x'' = None \<and>
     vms f' 1 = Some r' \<and> timer r' = Armed \<and> spec_TTL (vm_spec r') = 3600 * second"
proof -
  let ?es = "[HvStart 0 (guest ''x'' 5) 7 False, HvStop ''x'', HvBooted 0 25,
    HvStart 1 (guest ''x'' (3600 * second)) 7 False, HvBooted 1 26]"
  have s: "0 < 3600 * second" by (simp add: second_def)
  have "\<exists>f r. run hv_step ?es demo_fake = Some f \<and> running f ''x'' = Some 1 \<and> vms f 0 = Some r \<and>
     started r = StartDone (Inr \<lparr>inst_ID = ''x'', StartedAt = 25, inst_BootLatency = 15000007,
       ExpiresAt = Some 30\<rparr>) \<and>
     (\<exists>f' r'. run hv_step [HvFires 0, HvReapLock 0] f = Some f' \<and> running f' ''x'' = None \<and>
     vms f' 1 = Some r' \<and> timer r' = Armed \<and> spec_TTL (vm_spec r') = 3600 * second)"
    using s by (simp add: hv_eval sampleBootLatency_def millisecond_def)
  then show ?thesis using demo_fake_reachable by blast
qed

end
