(* ===== verification/LoadGen.thy ===== *)
theory LoadGen
  imports Prelude
begin

section \<open>The load generator (internal/loadgen)\<close>

text \<open>
  The offered load: envelopes give the mean arrival rate over the time of a run, and a
  process samples arrival times from an envelope by thinning, that is, it draws candidate
  times at the peak rate and keeps each with the probability of the rate over the peak.

  An interface value is the record of its methods, so that an envelope can be repeated
  whatever implements it; a nil interface is \<open>None\<close>. Floating-point numbers are real
  numbers. The random source is a library value that is threaded through: \<open>ExpFloat64\<close> and
  \<open>Float64\<close> take its state and yield a draw and the next state.
\<close>

subsection \<open>Envelopes\<close>

record Envelope =
  RateAt :: "duration \<Rightarrow> real"
  Duration :: duration
  PeakRate :: real

record Ramp =
  Up :: duration
  Hold :: duration
  Down :: duration
  Peak :: real

datatype ramp_error =
    NegativeDurations duration duration duration
  | ZeroTotalDuration
  | NegativePeak real

definition ramp_Validate :: "Ramp \<Rightarrow> ramp_error option" where
  "ramp_Validate r =
     (if Up r < 0 \<or> Hold r < 0 \<or> Down r < 0 then Some (NegativeDurations (Up r) (Hold r) (Down r))
      else if Up r = 0 \<and> Hold r = 0 \<and> Down r = 0 then Some ZeroTotalDuration
      else if Peak r < 0 then Some (NegativePeak (Peak r))
      else None)"

definition ramp_Duration :: "Ramp \<Rightarrow> duration" where
  "ramp_Duration r = wrap64 (wrap64 (Up r + Hold r) + Down r)"

definition ramp_RateAt :: "Ramp \<Rightarrow> duration \<Rightarrow> real" where
  "ramp_RateAt r t =
     (if t < 0 \<or> t > ramp_Duration r then 0
      else if t < Up r then Peak r * (real_of_int t / real_of_int (Up r))
      else if t < wrap64 (Up r + Hold r) then Peak r
      else if Down r = 0 then 0
      else let elapsed = wrap64 (wrap64 (t - Up r) - Hold r)
           in Peak r * (1 - real_of_int elapsed / real_of_int (Down r)))"

definition ramp_PeakRate :: "Ramp \<Rightarrow> real" where
  "ramp_PeakRate r = Peak r"

definition Ramp_Envelope :: "Ramp \<Rightarrow> Envelope" where
  "Ramp_Envelope r =
     \<lparr>RateAt = ramp_RateAt r, Duration = ramp_Duration r, PeakRate = ramp_PeakRate r\<rparr>"

record Repeat =
  Inner :: "Envelope option"
  Times :: int

definition repeat_Duration :: "Repeat \<Rightarrow> duration" where
  "repeat_Duration r =
     (case Inner r of
        None \<Rightarrow> 0
      | Some e \<Rightarrow> if Times r \<le> 0 then 0 else wrap64 (Duration e * Times r))"

definition repeat_RateAt :: "Repeat \<Rightarrow> duration \<Rightarrow> real" where
  "repeat_RateAt r t =
     (case Inner r of
        None \<Rightarrow> 0
      | Some e \<Rightarrow>
          if Times r \<le> 0 \<or> t < 0 \<or> t > repeat_Duration r then 0
          else let inner = Duration e in
            if inner \<le> 0 then 0
            else if t = repeat_Duration r then RateAt e inner
            else RateAt e (t mod inner))"

definition repeat_PeakRate :: "Repeat \<Rightarrow> real" where
  "repeat_PeakRate r =
     (case Inner r of None \<Rightarrow> 0 | Some e \<Rightarrow> if Times r \<le> 0 then 0 else PeakRate e)"

definition Repeat_Envelope :: "Repeat \<Rightarrow> Envelope" where
  "Repeat_Envelope r =
     \<lparr>RateAt = repeat_RateAt r, Duration = repeat_Duration r, PeakRate = repeat_PeakRate r\<rparr>"

subsection \<open>The expected number of arrivals\<close>

function trapezoid_loop :: "Envelope \<Rightarrow> int \<Rightarrow> duration \<Rightarrow> int \<Rightarrow> real \<Rightarrow> real" where
  "trapezoid_loop e steps step i acc =
     (if i < steps then
        let left = RateAt e (wrap64 (step * i));
            right = RateAt e (wrap64 (step * (i + 1)))
        in trapezoid_loop e steps step (i + 1) (acc + (left + right) / 2 * seconds step)
      else acc)"
  by pat_completeness auto
termination
  by (relation "measure (\<lambda>(e, steps, step, i, acc). nat (steps - i))") auto

declare trapezoid_loop.simps [simp del]

definition ExpectedArrivals :: "Envelope option \<Rightarrow> int \<Rightarrow> real" where
  "ExpectedArrivals env steps =
     (case env of
        None \<Rightarrow> 0
      | Some e \<Rightarrow>
          if steps < 1 \<or> Duration e \<le> 0 then 0
          else let step = Duration e div steps in
            if step \<le> 0 then 0 else trapezoid_loop e steps step 0 0)"

subsection \<open>The arrival process\<close>

record 'g rand_lib =
  NewPCG :: "u64 \<Rightarrow> u64 \<Rightarrow> 'g"
  ExpFloat64 :: "'g \<Rightarrow> real \<times> 'g"
  Float64 :: "'g \<Rightarrow> real \<times> 'g"

record 'g Process =
  env :: Envelope
  rng :: 'g
  cur :: duration
  p_done :: bool

datatype process_error =
    NilEnvelope
  | NonPositiveDuration duration
  | NegativePeakRate real

definition NewProcess ::
  "'g rand_lib \<Rightarrow> Envelope option \<Rightarrow> u64 \<Rightarrow> process_error + 'g Process" where
  "NewProcess R en seed =
     (case en of
        None \<Rightarrow> Inl NilEnvelope
      | Some e \<Rightarrow>
          if Duration e \<le> 0 then Inl (NonPositiveDuration (Duration e))
          else if PeakRate e < 0 then Inl (NegativePeakRate (PeakRate e))
          else Inr \<lparr>env = e, rng = NewPCG R seed (xor seed 0x9e3779b97f4a7c15), cur = 0,
                    p_done = False\<rparr>)"

text \<open>
  The loop of \<^verbatim>\<open>Next\<close>. Nothing in the code bounds how often it goes round, so not returning
  is a value of the model, \<open>None\<close>.
\<close>

definition next_gap :: "(real \<Rightarrow> int) \<Rightarrow> real \<Rightarrow> real \<Rightarrow> duration" where
  "next_gap oob pk x = float_to_int64 oob (x / pk * real_of_int second)"

partial_function (option) next_loop ::
  "(real \<Rightarrow> int) \<Rightarrow> 'g rand_lib \<Rightarrow> real \<Rightarrow> duration \<Rightarrow> 'g Process \<Rightarrow>
     ((duration \<times> bool) \<times> 'g Process) option"
where
  "next_loop oob R pk run_end p =
     (let (x, g1) = ExpFloat64 R (rng p);
          p1 = p\<lparr>rng := g1, cur := wrap64 (cur p + next_gap oob pk x)\<rparr>
      in if cur p1 > run_end then Some ((0, False), p1\<lparr>p_done := True\<rparr>)
         else
           let (u, g2) = Float64 R g1;
               p2 = p1\<lparr>rng := g2\<rparr>
           in if u * pk < RateAt (env p2) (cur p2) then Some ((cur p2, True), p2)
              else next_loop oob R pk run_end p2)"

definition Next ::
  "(real \<Rightarrow> int) \<Rightarrow> 'g rand_lib \<Rightarrow> 'g Process \<Rightarrow> ((duration \<times> bool) \<times> 'g Process) option" where
  "Next oob R p =
     (if p_done p then Some ((0, False), p)
      else
        let pk = PeakRate (env p); run_end = Duration (env p) in
        if pk \<le> 0 then Some ((0, False), p\<lparr>p_done := True\<rparr>)
        else next_loop oob R pk run_end p)"

partial_function (option) arrivals_loop ::
  "(real \<Rightarrow> int) \<Rightarrow> 'g rand_lib \<Rightarrow> 'g Process \<Rightarrow> duration list \<Rightarrow> duration list option"
where
  "arrivals_loop oob R p out =
     Option.bind (Next oob R p)
       (\<lambda>((t, ok), p'). if \<not> ok then Some out else arrivals_loop oob R p' (out @ [t]))"

definition Arrivals ::
  "(real \<Rightarrow> int) \<Rightarrow> 'g rand_lib \<Rightarrow> Envelope option \<Rightarrow> u64 \<Rightarrow> (process_error + duration list) option"
where
  "Arrivals oob R en seed =
     (case NewProcess R en seed of
        Inl e \<Rightarrow> Some (Inl e)
      | Inr p \<Rightarrow> map_option Inr (arrivals_loop oob R p []))"

end
