(* ===== verification/LoadGenProps.thy ===== *)
theory LoadGenProps
  imports LoadGen
begin

section \<open>Correctness of the load generator\<close>

text \<open>
  The locale \<open>envelopes\<close> states what the interface of an envelope promises its clients: a
  positive duration, a rate between zero and the peak, and no load outside the run. The ramp
  and the repetition both provide it. On it rest the bounds on the expected number of
  arrivals and the correctness of thinning, which is only sound when the peak rate
  dominates the rate everywhere.
\<close>

subsection \<open>The contract of an envelope\<close>

definition envelope_ok :: "Envelope \<Rightarrow> bool" where
  "envelope_ok e \<longleftrightarrow> 0 < Duration e \<and> Duration e \<le> max_duration \<and> 0 \<le> PeakRate e \<and>
     (\<forall>t. 0 \<le> RateAt e t \<and> RateAt e t \<le> PeakRate e) \<and>
     (\<forall>t. t < 0 \<or> Duration e < t \<longrightarrow> RateAt e t = 0)"

lemma envelope_okD:
  assumes "envelope_ok e"
  shows "0 < Duration e" "Duration e \<le> max_duration" "0 \<le> PeakRate e"
    and "0 \<le> RateAt e t" "RateAt e t \<le> PeakRate e"
    and "t < 0 \<or> Duration e < t \<Longrightarrow> RateAt e t = 0"
  using assms by (auto simp: envelope_ok_def)

lemma wrap64_nonneg: "0 \<le> d \<Longrightarrow> d \<le> max_duration \<Longrightarrow> wrap64 d = d"
  by (simp add: fits64_def max_duration_def)

text \<open>One term of the trapezoid rule, and the sum the loop computes.\<close>

definition trapezoid :: "Envelope \<Rightarrow> duration \<Rightarrow> int \<Rightarrow> real" where
  "trapezoid e step i =
     (RateAt e (wrap64 (step * i)) + RateAt e (wrap64 (step * (i + 1)))) / 2 * seconds step"

lemma trapezoid_loop_eq:
  "i \<le> n \<Longrightarrow> trapezoid_loop e n step i acc = acc + (\<Sum>k = i..<n. trapezoid e step k)"
proof (induction "nat (n - i)" arbitrary: i acc)
  case 0
  then show ?case by (simp add: trapezoid_loop.simps)
next
  case (Suc m)
  then have i: "i < n" and m: "m = nat (n - (i + 1))" by simp_all
  have "{i..<n} = insert i {i + 1..<n}" using i by auto
  then have "(\<Sum>k = i..<n. trapezoid e step k) =
      trapezoid e step i + (\<Sum>k = i + 1..<n. trapezoid e step k)" by simp
  moreover have "trapezoid_loop e n step i acc =
      trapezoid_loop e n step (i + 1) (acc + trapezoid e step i)"
    using i by (simp add: trapezoid_loop.simps [of e n step i acc] trapezoid_def)
  ultimately show ?case using Suc.hyps(1) [OF m] i by simp
qed

lemma ExpectedArrivals_eq:
  assumes "1 \<le> n" "n \<le> Duration e"
  shows "ExpectedArrivals (Some e) n = (\<Sum>k = 0..<n. trapezoid e (Duration e div n) k)"
proof -
  have "0 < Duration e div n" using assms by (simp add: pos_imp_zdiv_pos_iff)
  then show ?thesis using assms by (simp add: ExpectedArrivals_def Let_def trapezoid_loop_eq)
qed

locale envelopes =
  fixes view :: "'a \<Rightarrow> Envelope"
    and usable :: "'a \<Rightarrow> bool"
  assumes duration_pos: "usable a \<Longrightarrow> 0 < Duration (view a)"
    and duration_fits: "usable a \<Longrightarrow> Duration (view a) \<le> max_duration"
    and rate_nonneg: "usable a \<Longrightarrow> 0 \<le> RateAt (view a) t"
    and rate_le_peak: "usable a \<Longrightarrow> RateAt (view a) t \<le> PeakRate (view a)"
    and rate_outside: "usable a \<Longrightarrow> t < 0 \<or> Duration (view a) < t \<Longrightarrow> RateAt (view a) t = 0"
begin

lemma view_ok: "usable a \<Longrightarrow> envelope_ok (view a)"
  using duration_pos [of a] duration_fits [of a] rate_nonneg [of a] rate_le_peak [of a]
    rate_outside [of a] order_trans
  by (fastforce simp: envelope_ok_def)

lemma loaded_inside: "usable a \<Longrightarrow> RateAt (view a) t \<noteq> 0 \<Longrightarrow> 0 \<le> t \<and> t \<le> Duration (view a)"
  using rate_outside [of a t] by fastforce

lemma new_process:
  "usable a \<Longrightarrow> \<exists>p. NewProcess R (Some (view a)) seed = Inr p \<and> env p = view a \<and> cur p = 0"
  using duration_pos [of a] envelope_okD(3) [OF view_ok, of a] by (simp add: NewProcess_def)

text \<open>The expected number of arrivals lies between none and the peak rate for the whole run.\<close>

lemma expected_arrivals_bounds:
  assumes a: "usable a"
  shows "0 \<le> ExpectedArrivals (Some (view a)) n \<and>
    ExpectedArrivals (Some (view a)) n \<le> PeakRate (view a) * seconds (Duration (view a))"
proof (cases "1 \<le> n \<and> n \<le> Duration (view a)")
  case True
  let ?e = "view a" and ?step = "Duration (view a) div n"
  have step: "0 < ?step" using True by (simp add: pos_imp_zdiv_pos_iff)
  have each: "0 \<le> trapezoid ?e ?step k \<and> trapezoid ?e ?step k \<le> PeakRate ?e * seconds ?step" for k
  proof
    have le: "(RateAt ?e x + RateAt ?e y) / 2 \<le> PeakRate ?e" for x y
      using rate_le_peak [OF a, of x] rate_le_peak [OF a, of y] by simp
    show "trapezoid ?e ?step k \<le> PeakRate ?e * seconds ?step"
      unfolding trapezoid_def using step by (intro mult_right_mono le) simp
    show "0 \<le> trapezoid ?e ?step k"
      unfolding trapezoid_def using step rate_nonneg [OF a] by simp
  qed
  have "(\<Sum>k = 0..<n. trapezoid ?e ?step k) \<le> (\<Sum>k = 0..<n. PeakRate ?e * seconds ?step)"
    using each by (intro sum_mono) blast
  also have "\<dots> = PeakRate ?e * seconds (?step * n)" using True by (simp add: seconds_mult)
  also have "\<dots> \<le> PeakRate ?e * seconds (Duration ?e)"
    using envelope_okD(3) [OF view_ok [OF a]] True duration_pos [OF a]
    by (intro mult_left_mono seconds_mono) (simp_all flip: minus_mod_eq_div_mult)
  finally show ?thesis using each True by (simp add: ExpectedArrivals_eq sum_nonneg)
next
  case False
  then have "ExpectedArrivals (Some (view a)) n = 0"
    using duration_pos [OF a] by (auto simp: ExpectedArrivals_def Let_def div_pos_pos_trivial)
  then show ?thesis
    using envelope_okD(3) [OF view_ok [OF a]] duration_pos [OF a] by simp
qed

end

subsection \<open>The ramp provides it\<close>

definition ramp_ok :: "Ramp \<Rightarrow> bool" where
  "ramp_ok r \<longleftrightarrow> ramp_Validate r = None \<and> Up r + Hold r + Down r \<le> max_duration"

lemma Ramp_Envelope_sel [simp]:
  "RateAt (Ramp_Envelope r) = ramp_RateAt r" "Duration (Ramp_Envelope r) = ramp_Duration r"
  "PeakRate (Ramp_Envelope r) = Peak r"
  by (simp_all add: Ramp_Envelope_def ramp_PeakRate_def)

lemma Repeat_Envelope_sel [simp]:
  "RateAt (Repeat_Envelope q) = repeat_RateAt q" "Duration (Repeat_Envelope q) = repeat_Duration q"
  "PeakRate (Repeat_Envelope q) = repeat_PeakRate q"
  by (simp_all add: Repeat_Envelope_def)

lemma ramp_okD:
  assumes "ramp_ok r"
  shows "0 \<le> Up r" "0 \<le> Hold r" "0 \<le> Down r" "0 \<le> Peak r" "0 < Up r + Hold r + Down r"
    "Up r + Hold r + Down r \<le> max_duration"
  using assms by (auto simp: ramp_ok_def ramp_Validate_def split: if_splits)

lemma ramp_Duration_eq: "ramp_ok r \<Longrightarrow> ramp_Duration r = Up r + Hold r + Down r"
  using ramp_okD [of r] by (simp add: ramp_Duration_def wrap64_nonneg)

lemma ramp_RateAt_eq:
  assumes r: "ramp_ok r" and t: "0 \<le> t" "t \<le> Up r + Hold r + Down r"
  shows "ramp_RateAt r t =
    (if t < Up r then Peak r * (real_of_int t / real_of_int (Up r))
     else if t < Up r + Hold r then Peak r
     else if Down r = 0 then 0
     else Peak r * (real_of_int (Up r + Hold r + Down r - t) / real_of_int (Down r)))"
proof -
  note d = ramp_okD [OF r]
  have w: "wrap64 (Up r + Hold r) = Up r + Hold r" using d by (simp add: wrap64_nonneg)
  have "wrap64 (t - Up r) = t - Up r" if "Up r \<le> t"
    using that d t by (simp add: wrap64_nonneg)
  moreover have "wrap64 (t - Up r - Hold r) = t - Up r - Hold r" if "Up r + Hold r \<le> t"
    using that d t by (simp add: wrap64_nonneg)
  moreover have "1 - real_of_int (t - Up r - Hold r) / real_of_int (Down r) =
      real_of_int (Up r + Hold r + Down r - t) / real_of_int (Down r)" if "Down r \<noteq> 0"
    using that by (simp add: field_simps)
  ultimately show ?thesis
    using t d w by (simp add: ramp_RateAt_def ramp_Duration_eq [OF r] Let_def)
qed

lemma ramp_RateAt_bounds:
  assumes r: "ramp_ok r"
  shows "0 \<le> ramp_RateAt r t \<and> ramp_RateAt r t \<le> Peak r"
proof (cases "0 \<le> t \<and> t \<le> Up r + Hold r + Down r")
  case True
  note d = ramp_okD [OF r]
  have part: "0 \<le> Peak r * (real_of_int k / real_of_int n) \<and>
      Peak r * (real_of_int k / real_of_int n) \<le> Peak r" if "0 \<le> k" "k \<le> n" "0 < n" for k n
  proof
    show "Peak r * (real_of_int k / real_of_int n) \<le> Peak r"
      using that d(4) by (intro mult_left_le) simp_all
  qed (use that d(4) in simp)
  show ?thesis
    using True d part [of t "Up r"] part [of "Up r + Hold r + Down r - t" "Down r"]
    by (simp add: ramp_RateAt_eq [OF r])
next
  case False
  then show ?thesis using ramp_okD(4) [OF r] by (auto simp: ramp_RateAt_def ramp_Duration_eq [OF r])
qed

interpretation ramp: envelopes Ramp_Envelope ramp_ok
proof
  fix r and t :: int
  assume r: "ramp_ok r"
  note d = ramp_okD [OF r]
  show "0 < Duration (Ramp_Envelope r)" "Duration (Ramp_Envelope r) \<le> max_duration"
    using d by (simp_all add: Ramp_Envelope_def ramp_Duration_eq [OF r])
  show "0 \<le> RateAt (Ramp_Envelope r) t" "RateAt (Ramp_Envelope r) t \<le> PeakRate (Ramp_Envelope r)"
    using ramp_RateAt_bounds [OF r, of t] by (simp_all add: Ramp_Envelope_def ramp_PeakRate_def)
  show "RateAt (Ramp_Envelope r) t = 0" if "t < 0 \<or> Duration (Ramp_Envelope r) < t"
    using that by (auto simp: Ramp_Envelope_def ramp_RateAt_def)
qed

subsection \<open>The repetition provides it\<close>

definition repeat_ok :: "Repeat \<Rightarrow> bool" where
  "repeat_ok r \<longleftrightarrow> 0 < Times r \<and>
     (\<exists>e. Inner r = Some e \<and> envelope_ok e \<and> Duration e * Times r \<le> max_duration)"

lemma repeat_okE:
  assumes "repeat_ok r"
  obtains e where "Inner r = Some e" "envelope_ok e" "0 < Times r"
    "repeat_Duration r = Duration e * Times r" "0 < Duration e * Times r"
    "Duration e * Times r \<le> max_duration"
proof -
  from assms obtain e where e: "Inner r = Some e" "envelope_ok e" "0 < Times r"
    "Duration e * Times r \<le> max_duration" by (auto simp: repeat_ok_def)
  moreover have "0 < Duration e * Times r" using e envelope_okD(1) [OF e(2)] by simp
  moreover have "repeat_Duration r = Duration e * Times r"
    using e \<open>0 < Duration e * Times r\<close> by (simp add: repeat_Duration_def wrap64_nonneg)
  ultimately show ?thesis by (intro that)
qed

interpretation repetition: envelopes Repeat_Envelope repeat_ok
proof
  fix r and t :: int
  assume r: "repeat_ok r"
  from r obtain e where e: "Inner r = Some e" "envelope_ok e" "0 < Times r"
    "repeat_Duration r = Duration e * Times r" "0 < Duration e * Times r"
    "Duration e * Times r \<le> max_duration" by (rule repeat_okE)
  show "0 < Duration (Repeat_Envelope r)" "Duration (Repeat_Envelope r) \<le> max_duration"
    using e by (simp_all add: Repeat_Envelope_def)
  show "0 \<le> RateAt (Repeat_Envelope r) t"
    using e envelope_okD(4) [OF e(2)] by (auto simp: Repeat_Envelope_def repeat_RateAt_def Let_def)
  show "RateAt (Repeat_Envelope r) t \<le> PeakRate (Repeat_Envelope r)"
    using e envelope_okD(3,5) [OF e(2)]
    by (auto simp: Repeat_Envelope_def repeat_RateAt_def repeat_PeakRate_def Let_def)
  show "RateAt (Repeat_Envelope r) t = 0" if "t < 0 \<or> Duration (Repeat_Envelope r) < t"
    using that e by (auto simp: Repeat_Envelope_def repeat_RateAt_def)
qed

subsection \<open>Exactness on a ramp\<close>

text \<open>
  On a ramp whose three phases are whole numbers \<open>a\<close>, \<open>b\<close>, \<open>c\<close> of integration steps the
  rate is linear on every step, so the rule is exact. The partial sums have a closed form
  per phase.
\<close>

definition grid_ramp :: "duration \<Rightarrow> int \<Rightarrow> int \<Rightarrow> int \<Rightarrow> real \<Rightarrow> Ramp" where
  "grid_ramp s a b c p = \<lparr>Up = a * s, Hold = b * s, Down = c * s, Peak = p\<rparr>"

definition grid_rate :: "int \<Rightarrow> int \<Rightarrow> int \<Rightarrow> int \<Rightarrow> real" where
  "grid_rate a b c k =
     (if k < a then real_of_int k / real_of_int a else if k < a + b then 1
      else real_of_int (a + b + c - k) / real_of_int c)"

definition grid_area :: "int \<Rightarrow> int \<Rightarrow> int \<Rightarrow> int \<Rightarrow> real" where
  "grid_area a b c k =
     (if k \<le> a then (real_of_int k)\<^sup>2 / (2 * real_of_int a)
      else if k \<le> a + b then real_of_int a / 2 + real_of_int (k - a)
      else real_of_int a / 2 + real_of_int b +
        ((real_of_int c)\<^sup>2 - (real_of_int (a + b + c - k))\<^sup>2) / (2 * real_of_int c))"

lemma grid_area_step:
  assumes "0 \<le> a" "0 \<le> b" "0 < c" "0 \<le> k" "k < a + b + c"
  shows "grid_area a b c (k + 1) = grid_area a b c k + (grid_rate a b c k + grid_rate a b c (k + 1)) / 2"
proof -
  consider "k < a" | "a \<le> k" "k < a + b" | "a + b \<le> k" by linarith
  then show ?thesis
  proof cases
    case 1
    have "grid_rate a b c a = 1" using assms by (simp add: grid_rate_def)
    with 1 have "grid_rate a b c (k + 1) = real_of_int (k + 1) / real_of_int a"
      using assms by (cases "k + 1 = a") (auto simp: grid_rate_def)
    with 1 assms show ?thesis
      by (simp add: grid_area_def grid_rate_def field_simps power2_eq_square)
  next
    case 2
    then have "grid_rate a b c (k + 1) = 1" "grid_rate a b c k = 1"
      using assms by (auto simp: grid_rate_def)
    moreover have "grid_area a b c k = real_of_int a / 2 + real_of_int (k - a)"
      using 2 assms by (auto simp: grid_area_def power2_eq_square)
    ultimately show ?thesis using 2 by (simp add: grid_area_def)
  next
    case 3
    have "grid_area a b c k = real_of_int a / 2 + real_of_int b +
        ((real_of_int c)\<^sup>2 - (real_of_int (a + b + c - k))\<^sup>2) / (2 * real_of_int c)"
      using 3 assms by (auto simp: grid_area_def power2_eq_square)
    with 3 assms show ?thesis
      by (simp add: grid_area_def grid_rate_def field_simps power2_eq_square)
  qed
qed

lemma grid_area_sum:
  assumes "0 \<le> a" "0 \<le> b" "0 < c" "int n \<le> a + b + c"
  shows "(\<Sum>k = 0..<int n. (grid_rate a b c k + grid_rate a b c (k + 1)) / 2) = grid_area a b c (int n)"
  using assms(4)
proof (induction n)
  case 0
  show ?case using assms by (simp add: grid_area_def)
next
  case (Suc n)
  have "{0..<int (Suc n)} = insert (int n) {0..<int n}" by auto
  then show ?case using Suc grid_area_step [OF assms(1-3), of "int n"] by (simp add: add.commute)
qed

lemma grid_ramp_ok:
  assumes "0 < s" "0 \<le> a" "0 \<le> b" "0 < c" "0 \<le> p" "s * (a + b + c) \<le> max_duration"
  shows "ramp_ok (grid_ramp s a b c p)"
  using assms
  by (simp add: ramp_ok_def ramp_Validate_def grid_ramp_def mult.commute distrib_left mult_less_0_iff)

lemma grid_ramp_RateAt:
  assumes "0 < s" "0 \<le> a" "0 \<le> b" "0 < c" "0 \<le> p" "s * (a + b + c) \<le> max_duration"
    and k: "0 \<le> k" "k \<le> a + b + c"
  shows "ramp_RateAt (grid_ramp s a b c p) (wrap64 (s * k)) = p * grid_rate a b c k"
proof -
  have le: "s * k \<le> s * (a + b + c)" using k(2) assms(1) by (intro mult_left_mono) auto
  then have w: "wrap64 (s * k) = s * k"
    using k assms(1) order_trans [OF le assms(6)] by (simp add: wrap64_nonneg)
  have 1: "s * k < a * s \<longleftrightarrow> k < a" using assms(1) by (simp add: mult.commute)
  have 2: "s * k < a * s + b * s \<longleftrightarrow> k < a + b"
    using assms(1) mult_less_cancel_left_pos [of s k "a + b"] by (simp add: algebra_simps)
  have 3: "real_of_int (a * s + b * s + c * s - s * k) / real_of_int (c * s) =
      real_of_int (a + b + c - k) / real_of_int c"
  proof -
    have "a * s + b * s + c * s - s * k = (a + b + c - k) * s" by (simp add: algebra_simps)
    then show ?thesis using assms(1) by simp
  qed
  have 4: "real_of_int (s * k) / real_of_int (a * s) = real_of_int k / real_of_int a"
    using assms(1) by (simp add: mult.commute)
  have sel: "Up (grid_ramp s a b c p) = a * s" "Hold (grid_ramp s a b c p) = b * s"
    "Down (grid_ramp s a b c p) = c * s" "Peak (grid_ramp s a b c p) = p"
    by (simp_all add: grid_ramp_def)
  have "0 \<le> s * k" "s * k \<le> a * s + b * s + c * s"
    using le k(1) assms(1) by (simp_all add: algebra_simps)
  note eq = ramp_RateAt_eq [OF grid_ramp_ok [OF assms(1-6)], of "s * k", unfolded sel, OF this]
  show ?thesis
    unfolding w eq 1 2 3 4 grid_rate_def using assms(1,4) by simp
qed

text \<open>The integral of the rate is exact on a ramp whose phases are \<open>a\<close>, \<open>b\<close> and \<open>c\<close> whole
  integration steps of \<open>s\<close> nanoseconds: \<^verbatim>\<open>ExpectedArrivals\<close> yields the area of the trapezoid,
  the peak rate times half the climb, the whole hold and half the descent.\<close>

theorem expected_arrivals_exact:
  assumes "0 < s" "0 \<le> a" "0 \<le> b" "0 < c" "0 \<le> p" "s * (a + b + c) \<le> max_duration"
  shows "ExpectedArrivals (Some (Ramp_Envelope (grid_ramp s a b c p))) (a + b + c) =
    p * (seconds (a * s) / 2 + seconds (b * s) + seconds (c * s) / 2)"
proof -
  let ?e = "Ramp_Envelope (grid_ramp s a b c p)" and ?n = "a + b + c"
  have dur: "Duration ?e = s * ?n"
    using ramp_Duration_eq [OF grid_ramp_ok [OF assms]]
    by simp (simp add: grid_ramp_def algebra_simps)
  have n: "1 \<le> ?n" "?n \<le> s * ?n" using assms(1-4) mult_right_mono [of 1 s ?n] by simp_all
  have step: "Duration ?e div ?n = s" unfolding dur using n by simp
  have cell: "trapezoid ?e s k = p * seconds s * ((grid_rate a b c k + grid_rate a b c (k + 1)) / 2)"
    if "k \<in> {0..<?n}" for k
  proof -
    have "RateAt ?e (wrap64 (s * k)) = p * grid_rate a b c k"
      "RateAt ?e (wrap64 (s * (k + 1))) = p * grid_rate a b c (k + 1)"
      using that grid_ramp_RateAt [OF assms, of k] grid_ramp_RateAt [OF assms, of "k + 1"]
      by simp_all
    then show ?thesis by (simp add: trapezoid_def algebra_simps add_divide_distrib)
  qed
  have "ExpectedArrivals (Some ?e) ?n = (\<Sum>k = 0..<?n. trapezoid ?e s k)"
    using ExpectedArrivals_eq [of ?n ?e, OF n(1)] n(2) unfolding step unfolding dur .
  also have "\<dots> = p * seconds s * (\<Sum>k = 0..<?n. (grid_rate a b c k + grid_rate a b c (k + 1)) / 2)"
    by (simp only: sum_distrib_left cell cong: sum.cong)
  also have "\<dots> = p * seconds s * grid_area a b c ?n"
    using grid_area_sum [OF assms(2-4), of "nat ?n"] n by simp
  also have "grid_area a b c ?n = real_of_int a / 2 + real_of_int b + real_of_int c / 2"
    using assms(2-4) by (simp add: grid_area_def power2_eq_square)
  finally show ?thesis by (simp add: seconds_def algebra_simps add_divide_distrib)
qed

lemma expected_arrivals_exact_witness:
  "ExpectedArrivals (Some (Ramp_Envelope (grid_ramp second 2 1 2 100))) 5 = 300"
  using expected_arrivals_exact [of second 2 1 2 100] by (simp add: second_def seconds_def max_duration_def)

text \<open>A ramp repeated \<open>k\<close> times back to back, the shape of a load run, stays between zero and
  its peak at every instant, is silent outside the run, and is periodic: inside the run its
  rate is that of one ramp at the time since the current cycle began, and at the very end
  that of the end of a ramp.\<close>

theorem repeated_ramp_shape:
  assumes r: "ramp_ok r" and k: "0 < k" "ramp_Duration r * k \<le> max_duration"
  defines "e \<equiv> Repeat_Envelope \<lparr>Inner = Some (Ramp_Envelope r), Times = k\<rparr>"
  shows "Duration e = ramp_Duration r * k \<and> PeakRate e = Peak r \<and>
    0 \<le> RateAt e t \<and> RateAt e t \<le> Peak r \<and>
    RateAt e t =
      (if t < 0 \<or> ramp_Duration r * k < t then 0
       else if t = ramp_Duration r * k then ramp_RateAt r (ramp_Duration r)
       else ramp_RateAt r (t mod ramp_Duration r))"
proof (intro conjI)
  let ?r = "\<lparr>Inner = Some (Ramp_Envelope r), Times = k\<rparr>"
  have ok: "repeat_ok ?r"
    using ramp.view_ok [OF r] k by (simp add: repeat_ok_def)
  have d: "0 < ramp_Duration r" using ramp.duration_pos [OF r] by simp
  have dur: "repeat_Duration ?r = ramp_Duration r * k"
    using k d by (simp add: repeat_Duration_def wrap64_nonneg)
  show "Duration e = ramp_Duration r * k" by (simp add: e_def dur)
  show pk: "PeakRate e = Peak r" using k by (simp add: e_def repeat_PeakRate_def)
  show "0 \<le> RateAt e t" "RateAt e t \<le> Peak r"
    using repetition.rate_nonneg [OF ok, of t] repetition.rate_le_peak [OF ok, of t] pk
    by (simp_all add: e_def)
  show "RateAt e t =
      (if t < 0 \<or> ramp_Duration r * k < t then 0
       else if t = ramp_Duration r * k then ramp_RateAt r (ramp_Duration r)
       else ramp_RateAt r (t mod ramp_Duration r))"
    using k d by (simp add: e_def repeat_RateAt_def dur Let_def)
qed

lemma repeated_ramp_shape_witness:
  "RateAt (Repeat_Envelope
     \<lparr>Inner = Some (Ramp_Envelope \<lparr>Up = 4, Hold = 0, Down = 4, Peak = 8\<rparr>), Times = 2\<rparr>) 9 = 2"
proof -
  let ?r = "\<lparr>Up = 4, Hold = 0, Down = 4, Peak = 8\<rparr>"
  have r: "ramp_ok ?r" by (simp add: ramp_ok_def ramp_Validate_def max_duration_def)
  then have "ramp_Duration ?r = 8" by (simp add: ramp_Duration_eq)
  then show ?thesis
    using repeated_ramp_shape [OF r, of 2 9] ramp_RateAt_eq [OF r, of 1]
    by (simp add: max_duration_def)
qed

subsection \<open>The arrivals are a thinned clock\<close>

text \<open>
  The reference the process is compared with. Candidate \<open>i\<close> comes at \<open>clock (Suc i)\<close>, the sum of
  the first \<open>i + 1\<close> gaps; it is kept when the uniform draw that follows its gap, scaled by the
  peak, is below the rate at its time.
\<close>

fun draws :: "'g rand_lib \<Rightarrow> 'g \<Rightarrow> nat \<Rightarrow> 'g" where
  "draws R g 0 = g"
| "draws R g (Suc i) = snd (Float64 R (snd (ExpFloat64 R (draws R g i))))"

fun clock :: "(real \<Rightarrow> int) \<Rightarrow> 'g rand_lib \<Rightarrow> real \<Rightarrow> 'g \<Rightarrow> nat \<Rightarrow> duration" where
  "clock oob R pk g 0 = 0"
| "clock oob R pk g (Suc i) = clock oob R pk g i + next_gap oob pk (fst (ExpFloat64 R (draws R g i)))"

definition accepted :: "(real \<Rightarrow> int) \<Rightarrow> 'g rand_lib \<Rightarrow> Envelope \<Rightarrow> 'g \<Rightarrow> nat \<Rightarrow> bool" where
  "accepted oob R e g i \<longleftrightarrow>
     fst (Float64 R (snd (ExpFloat64 R (draws R g i)))) * PeakRate e
       < RateAt e (clock oob R (PeakRate e) g (Suc i))"

text \<open>The exponential draws the clock can bear: not negative, gaps below \<open>2\<^sup>3\<^sup>2\<close> seconds.\<close>

definition bounded_draws :: "'g rand_lib \<Rightarrow> real \<Rightarrow> bool" where
  "bounded_draws R pk \<longleftrightarrow>
     (\<forall>g. 0 \<le> fst (ExpFloat64 R g) \<and> fst (ExpFloat64 R g) < 2 ^ 32 * pk)"

lemma next_gap_bounds:
  assumes "0 < pk" "0 \<le> x" "x < 2 ^ 32 * pk"
  shows "0 \<le> next_gap oob pk x" "next_gap oob pk x < 2 ^ 62"
proof -
  have "x / pk < 2 ^ 32" using assms by (simp add: pos_divide_less_eq mult.commute)
  then have "x / pk * 1000000000 < 2 ^ 32 * 1000000000" by (intro mult_strict_right_mono) simp_all
  then have lt: "x / pk * real_of_int second < 2 ^ 62" by (simp add: second_def)
  have "0 \<le> x / pk * real_of_int second" using assms by (simp add: second_def)
  then have "next_gap oob pk x = \<lfloor>x / pk * real_of_int second\<rfloor>"
    unfolding next_gap_def using lt by (intro float_to_int64_in_range) auto
  then show "0 \<le> next_gap oob pk x" "next_gap oob pk x < 2 ^ 62"
    using \<open>0 \<le> x / pk * real_of_int second\<close> lt by (simp_all add: floor_less_iff)
qed

lemma clock_step:
  assumes "0 < pk" "bounded_draws R pk"
  shows "clock oob R pk g i \<le> clock oob R pk g (Suc i)"
    "clock oob R pk g (Suc i) < clock oob R pk g i + 2 ^ 62"
  using next_gap_bounds [OF assms(1)] assms(2) by (simp_all add: bounded_draws_def)

lemma clock_mono:
  assumes "0 < pk" "bounded_draws R pk"
  shows "i \<le> j \<Longrightarrow> clock oob R pk g i \<le> clock oob R pk g j"
  using clock_step(1) [OF assms] by (rule lift_Suc_mono_le)

definition proc_at :: "(real \<Rightarrow> int) \<Rightarrow> 'g rand_lib \<Rightarrow> Envelope \<Rightarrow> 'g \<Rightarrow> nat \<Rightarrow> 'g Process" where
  "proc_at oob R e g i =
     \<lparr>env = e, rng = draws R g i, cur = clock oob R (PeakRate e) g i, p_done = False\<rparr>"

lemma next_loop_step:
  assumes "0 < PeakRate e" "bounded_draws R (PeakRate e)"
    and "clock oob R (PeakRate e) g i \<le> Duration e" "Duration e < 2 ^ 62"
  shows "next_loop oob R (PeakRate e) (Duration e) (proc_at oob R e g i) =
    (let t = clock oob R (PeakRate e) g (Suc i) in
     if t > Duration e then
       Some ((0, False), (proc_at oob R e g i)
         \<lparr>rng := snd (ExpFloat64 R (draws R g i)), cur := t, p_done := True\<rparr>)
     else if accepted oob R e g i then Some ((t, True), proc_at oob R e g (Suc i))
     else next_loop oob R (PeakRate e) (Duration e) (proc_at oob R e g (Suc i)))"
proof -
  let ?t = "clock oob R (PeakRate e) g (Suc i)"
  have "0 \<le> ?t" using clock_mono [OF assms(1,2), of 0 "Suc i" oob g] by simp
  moreover have "?t \<le> max_duration"
    using clock_step(2) [OF assms(1,2), of oob g i] assms(3,4) by (simp add: max_duration_def)
  ultimately have w: "wrap64 (clock oob R (PeakRate e) g i +
      next_gap oob (PeakRate e) (fst (ExpFloat64 R (draws R g i)))) = ?t"
    by (simp add: wrap64_nonneg)
  obtain x g1 where x: "ExpFloat64 R (draws R g i) = (x, g1)" by fastforce
  obtain u g2 where u: "Float64 R g1 = (u, g2)" by fastforce
  show ?thesis
    using w by (subst next_loop.simps) (simp add: proc_at_def accepted_def x u Let_def)
qed

lemma arrivals_loop_eq:
  assumes "0 < PeakRate e" "bounded_draws R (PeakRate e)" "0 < Duration e" "Duration e < 2 ^ 62"
    and over: "Duration e < clock oob R (PeakRate e) g (Suc n)"
    and under: "clock oob R (PeakRate e) g n \<le> Duration e"
  shows "i \<le> n \<Longrightarrow> arrivals_loop oob R (proc_at oob R e g i) out =
    Some (out @ map (\<lambda>k. clock oob R (PeakRate e) g (Suc k)) (filter (accepted oob R e g) [i..<n]))"
proof (induction "n - i" arbitrary: i out)
  case 0
  then have "i = n" by simp
  then show ?case
    using next_loop_step [OF assms(1,2) under assms(4)] over assms(1)
    by (subst arrivals_loop.simps) (simp add: Next_def proc_at_def Let_def)
next
  case (Suc m)
  then have i: "i < n" "m = n - Suc i" "Suc i \<le> n" by simp_all
  have le: "clock oob R (PeakRate e) g j \<le> Duration e" if "j \<le> n" for j
    using clock_mono [OF assms(1,2) that] under by (rule order_trans)
  have IH: "arrivals_loop oob R (proc_at oob R e g (Suc i)) out' =
    Some (out' @ map (\<lambda>k. clock oob R (PeakRate e) g (Suc k)) (filter (accepted oob R e g) [Suc i..<n]))"
    for out' using Suc.hyps(1) [OF i(2,3)] .
  have next_eq: "Next oob R (proc_at oob R e g j) =
      next_loop oob R (PeakRate e) (Duration e) (proc_at oob R e g j)" for j
    using assms(1) by (simp add: Next_def proc_at_def Let_def)
  have split: "[i..<n] = i # [Suc i..<n]" using i(1) by (rule upt_conv_Cons)
  note step = next_loop_step [OF assms(1,2) le [OF less_imp_le [OF i(1)]] assms(4)]
  show ?case
  proof (cases "accepted oob R e g i")
    case True
    then have "Next oob R (proc_at oob R e g i) =
        Some ((clock oob R (PeakRate e) g (Suc i), True), proc_at oob R e g (Suc i))"
      using step le [OF i(3)] by (simp add: next_eq)
    then show ?thesis using True IH by (subst arrivals_loop.simps) (simp add: split)
  next
    case False
    then have "Next oob R (proc_at oob R e g i) = Next oob R (proc_at oob R e g (Suc i))"
      using step le [OF i(3)] by (simp add: next_eq)
    then have "arrivals_loop oob R (proc_at oob R e g i) out =
        arrivals_loop oob R (proc_at oob R e g (Suc i)) out"
      by (subst (1 2) arrivals_loop.simps) simp
    then show ?thesis using False IH by (simp add: split)
  qed
qed


text \<open>A generator whose exponential draws are all one and whose uniform draws are all a quarter,
  on a trapezoid of four seconds with a peak of one request a second.\<close>

definition demo_rand :: "unit rand_lib" where
  "demo_rand = \<lparr>NewPCG = (\<lambda>_ _. ()), ExpFloat64 = (\<lambda>_. (1, ())), Float64 = (\<lambda>_. (1 / 4, ()))\<rparr>"

definition demo_ramp :: Ramp where
  "demo_ramp = \<lparr>Up = 2 * second, Hold = 0, Down = 2 * second, Peak = 1\<rparr>"

lemma demo_peak: "Peak demo_ramp = 1"
  by (simp add: demo_ramp_def)

lemma demo_clock: "clock oob demo_rand 1 g n = int n * second"
  by (induction n) (simp_all add: demo_rand_def next_gap_def float_to_int64_in_range second_def)


end
