(* ===== verification/Fleet.thy ===== *)
theory Fleet
  imports SchedulerStats Machine "HOL-Library.Product_Lexorder"
begin

section \<open>The simulated fleet (internal/sim/fleet.go)\<close>

text \<open>
  The pod lifecycle of a simulated run. Reconciling the fleet with a desired number of pods
  adds hosts, each ready after its start latency, or drains ready hosts, emptiest first, and
  removes the drained ones once their last microVM has gone.

  A \<open>pods\<close> state is the fleet, the scheduler it shares with the placement service, how often
  it signalled that service, and the timers of pods still starting. One reconciliation runs
  to its end before the next step; timers, placements and releases come between.
\<close>

subsection \<open>Names of pods\<close>

text \<open>\<^verbatim>\<open>fmt.Sprintf("vmhost-%d", n)\<close>\<close>

definition pod_name :: "int \<Rightarrow> host_id" where
  "pod_name n = ''vmhost-'' @ itoa n"

subsection \<open>State\<close>

record pods =
  slotsPerHost :: int
  startLatency :: duration
  pod_next :: int
  pod_draining :: "host_id \<rightharpoonup> unit"
  pod_sched :: scheduler
  pod_signals :: nat
  pod_timers :: "host_id list"

text \<open>The iteration orders of a reconciliation: over the draining set, over the hosts when a
  snapshot is taken, and over the assignments at each removal.\<close>

record pod_orders =
  draining_ord :: "(host_id \<rightharpoonup> unit) \<Rightarrow> host_id list"
  snap_ord :: "(host_id \<rightharpoonup> host) \<Rightarrow> host_id list"
  assigned_ord :: "(vm_id \<rightharpoonup> host_id) \<Rightarrow> vm_id list"

subsection \<open>Starting pods\<close>

definition markReady :: "pods \<Rightarrow> host_id \<Rightarrow> pods option" where
  "markReady w i =
     (if pod_draining w i \<noteq> None then Some w
      else do {
        (res, s1) \<leftarrow> SetHostState (pod_sched w) i HostReady;
        (case res of
           Inl _ \<Rightarrow> Some (w\<lparr>pod_sched := s1\<rparr>)
         | Inr _ \<Rightarrow> Some (w\<lparr>pod_sched := s1, pod_signals := pod_signals w + 1\<rparr>))
      })"

text \<open>One iteration of the loop of \<^verbatim>\<open>startHosts\<close>, and the loop.\<close>

definition start_one :: "pods \<Rightarrow> pods option" where
  "start_one w =
     (let i = pod_name (pod_next w);
          w1 = w\<lparr>pod_next := pod_next w + 1\<rparr>;
          (added, s1) = AddHost (pod_sched w1) i (slotsPerHost w1);
          w2 = w1\<lparr>pod_sched := s1\<rparr>
      in (case added of
            Inl _ \<Rightarrow> Some w2
          | Inr _ \<Rightarrow>
              if startLatency w2 \<le> 0 then markReady w2 i
              else Some (w2\<lparr>pod_timers := pod_timers w2 @ [i]\<rparr>)))"

fun start_pods_loop :: "nat \<Rightarrow> pods \<Rightarrow> pods option" where
  "start_pods_loop 0 w = Some w"
| "start_pods_loop (Suc n) w = Option.bind (start_one w) (start_pods_loop n)"

definition startHosts :: "pods \<Rightarrow> int \<Rightarrow> pods option" where
  "startHosts w n = start_pods_loop (nat n) w"

text \<open>A timer of \<^verbatim>\<open>startHosts\<close> fires, with the run's context cancelled or not.\<close>

definition pod_timer :: "pods \<Rightarrow> host_id \<Rightarrow> bool \<Rightarrow> pods option" where
  "pod_timer w i cancelled =
     (if i \<notin> set (pod_timers w) then None
      else
        let w1 = w\<lparr>pod_timers := remove1 i (pod_timers w)\<rparr>
        in if cancelled then Some w1 else markReady w1 i)"

subsection \<open>Removing drained pods\<close>

text \<open>The map \<^verbatim>\<open>used\<close> built from a snapshot of the hosts.\<close>

fun used_loop :: "HostSnapshot list \<Rightarrow> (host_id \<rightharpoonup> int) \<Rightarrow> (host_id \<rightharpoonup> int)" where
  "used_loop [] m = m"
| "used_loop (h # hs) m = used_loop hs (m(snap_ID h \<mapsto> snap_Used h))"

definition reap_pod :: "pod_orders \<Rightarrow> (host_id \<rightharpoonup> int) \<Rightarrow> host_id \<Rightarrow> pods \<Rightarrow> pods option" where
  "reap_pod os usedm i w =
     (case usedm i of
        Some u \<Rightarrow>
          if u > 0 then Some w
          else do {
            (res, s1) \<leftarrow> RemoveHost (pod_sched w) i (assigned_ord os (assigned (pod_sched w)));
            (case res of
               Inl _ \<Rightarrow> Some (w\<lparr>pod_sched := s1\<rparr>)
             | Inr _ \<Rightarrow> Some (w\<lparr>pod_sched := s1, pod_draining := (pod_draining w)(i := None)\<rparr>))
          }
      | None \<Rightarrow> Some (w\<lparr>pod_draining := (pod_draining w)(i := None)\<rparr>))"

fun reap_pods_loop ::
  "pod_orders \<Rightarrow> (host_id \<rightharpoonup> int) \<Rightarrow> host_id list \<Rightarrow> pods \<Rightarrow> pods option" where
  "reap_pods_loop os usedm [] w = Some w"
| "reap_pods_loop os usedm (i # is) w =
     Option.bind (reap_pod os usedm i w) (reap_pods_loop os usedm is)"

definition reapDrained :: "pod_orders \<Rightarrow> pods \<Rightarrow> pods option" where
  "reapDrained os w =
     (let pend = draining_ord os (pod_draining w) in
      if pend = [] then Some w
      else reap_pods_loop os
        (used_loop (Hosts (pod_sched w) (snap_ord os (hosts (pod_sched w)))) Map.empty) pend w)"

subsection \<open>Draining\<close>

definition pod_key :: "HostSnapshot \<Rightarrow> int \<times> host_id" where
  "pod_key h = (snap_Used h, snap_ID h)"

definition drain_pod :: "host_id \<Rightarrow> pods \<Rightarrow> pods option" where
  "drain_pod i w =
     do {
       (res, s1) \<leftarrow> SetHostState (pod_sched w) i HostDraining;
       (case res of
          Inl _ \<Rightarrow> Some (w\<lparr>pod_sched := s1\<rparr>)
        | Inr _ \<Rightarrow> Some (w\<lparr>pod_sched := s1, pod_draining := (pod_draining w)(i \<mapsto> ())\<rparr>))
     }"

fun drain_pods_loop :: "nat \<Rightarrow> HostSnapshot list \<Rightarrow> pods \<Rightarrow> pods option" where
  "drain_pods_loop (Suc n) (h # hs) w = Option.bind (drain_pod (snap_ID h) w) (drain_pods_loop n hs)"
| "drain_pods_loop _ _ w = Some w"

definition drainHosts :: "pod_orders \<Rightarrow> pods \<Rightarrow> HostSnapshot list \<Rightarrow> int \<Rightarrow> pods option" where
  "drainHosts os w live n =
     (let ready = sort_key pod_key (filter (\<lambda>h. snap_State h = HostReady) live)
      in Option.bind (drain_pods_loop (nat n) ready w) (reapDrained os))"

subsection \<open>Reconciling\<close>

definition reconcile :: "pod_orders \<Rightarrow> pods \<Rightarrow> int \<Rightarrow> pods option" where
  "reconcile os w desired =
     do {
       w1 \<leftarrow> reapDrained os w;
       let snaps = Hosts (pod_sched w1) (snap_ord os (hosts (pod_sched w1)));
       let live = filter (\<lambda>h. snap_State h \<noteq> HostDraining) snaps;
       (if int (length live) < desired then startHosts w1 (desired - int (length live))
        else if int (length live) > desired then drainHosts os w1 live (int (length live) - desired)
        else Some w1)
     }"

definition new_fleet :: "scheduler \<Rightarrow> int \<Rightarrow> duration \<Rightarrow> pods" where
  "new_fleet s slots latency =
     \<lparr>slotsPerHost = slots, startLatency = latency, pod_next = 0, pod_draining = Map.empty,
      pod_sched = s, pod_signals = 0, pod_timers = []\<rparr>"

subsection \<open>The machine\<close>

text \<open>What happens to the fleet of a run: reconciliations, timers, and the placements and
  releases of the service on the shared scheduler.\<close>

datatype pod_event =
    PodReconcile pod_orders int
  | PodTimer host_id bool
  | PodPlace vm_id
  | PodRelease vm_id

definition pod_orders_ok :: "pod_orders \<Rightarrow> bool" where
  "pod_orders_ok os \<longleftrightarrow>
     (\<forall>m. finite (dom m) \<longrightarrow> iterates (draining_ord os m) m) \<and>
     (\<forall>m. finite (dom m) \<longrightarrow> iterates (snap_ord os m) m) \<and>
     (\<forall>m. finite (dom m) \<longrightarrow> iterates (assigned_ord os m) m)"

fun pod_step :: "pod_event \<Rightarrow> pods \<Rightarrow> pods option" where
  "pod_step (PodReconcile os n) w = reconcile os w n"
| "pod_step (PodTimer i c) w = pod_timer w i c"
| "pod_step (PodPlace vm) w = map_option (\<lambda>(_, s). w\<lparr>pod_sched := s\<rparr>) (Place (pod_sched w) vm)"
| "pod_step (PodRelease vm) w = map_option (\<lambda>(_, s). w\<lparr>pod_sched := s\<rparr>) (Release (pod_sched w) vm)"

fun pod_event_ok :: "pod_event \<Rightarrow> bool" where
  "pod_event_ok (PodReconcile os n) \<longleftrightarrow> pod_orders_ok os"
| "pod_event_ok _ \<longleftrightarrow> True"

end
