(* ===== verification/FleetProps.thy ===== *)
theory FleetProps
  imports Fleet
begin

section \<open>Correctness of the simulated fleet\<close>

text \<open>
  The invariant of the fleet: every pod carries a name the fleet handed out, a host is
  draining exactly when the fleet is draining it, and a pod whose start timer runs is still
  pending. On it rest what a reconciliation does to the set of live pods, which pods it
  drains, and that it never costs a microVM its host.
\<close>

subsection \<open>Names are distinct\<close>

lemma pod_name_inject: "0 \<le> m \<Longrightarrow> 0 \<le> n \<Longrightarrow> pod_name m = pod_name n \<longleftrightarrow> m = n"
  by (simp add: pod_name_def itoa_inject)

subsection \<open>The invariant\<close>

definition given_name :: "pods \<Rightarrow> host_id \<Rightarrow> bool" where
  "given_name w i \<longleftrightarrow> (\<exists>k. 0 \<le> k \<and> k < pod_next w \<and> i = pod_name k)"

definition drains :: "(host_id \<rightharpoonup> host) \<Rightarrow> (host_id \<rightharpoonup> unit)" where
  "drains hs i = Option.bind (hs i) (\<lambda>h. if state h = HostDraining then Some () else None)"

lemma drains_upd [simp]:
  "drains (hs(i \<mapsto> h)) = (drains hs)(i := if state h = HostDraining then Some () else None)"
  "drains (hs(i := None)) = (drains hs)(i := None)"
  by (auto simp: drains_def)

lemma drains_empty [simp]: "drains (\<lambda>_. None) = (\<lambda>_. None)"
  by (simp add: drains_def fun_eq_iff)

lemma drains_None: "hs i = None \<Longrightarrow> drains hs i = None"
  by (simp add: drains_def)

lemma drains_other: "hs i = Some h \<Longrightarrow> state h \<noteq> HostDraining \<Longrightarrow> drains hs i = None"
  by (simp add: drains_def)

lemma dom_drains: "dom (drains hs) \<subseteq> dom hs"
  by (auto simp: drains_def split: bind_splits)

definition pods_inv :: "pods \<Rightarrow> bool" where
  "pods_inv w \<longleftrightarrow> sched_inv (pod_sched w) \<and> MinSlotsPerHost \<le> slotsPerHost w \<and> 0 \<le> pod_next w \<and>
     (\<forall>i h. hosts (pod_sched w) i = Some h \<longrightarrow> given_name w i \<and> capacity h = slotsPerHost w) \<and>
     pod_draining w = drains (hosts (pod_sched w)) \<and>
     (\<forall>i\<in>set (pod_timers w). \<exists>h. hosts (pod_sched w) i = Some h \<and> state h = HostPending) \<and>
     distinct (pod_timers w)"

lemma pods_invD:
  assumes "pods_inv w"
  shows "sched_inv (pod_sched w)" "MinSlotsPerHost \<le> slotsPerHost w" "0 \<le> pod_next w"
    and "hosts (pod_sched w) i = Some h \<Longrightarrow> given_name w i \<and> capacity h = slotsPerHost w"
    and "pod_draining w = drains (hosts (pod_sched w))"
    and "i \<in> set (pod_timers w) \<Longrightarrow> \<exists>h. hosts (pod_sched w) i = Some h \<and> state h = HostPending"
    and "distinct (pod_timers w)"
  using assms by (auto simp: pods_inv_def)

lemma draining_finite: "pods_inv w \<Longrightarrow> finite (dom (pod_draining w))"
  using finite_subset [OF dom_drains sched_invD(1) [OF pods_invD(1)]] by (simp add: pods_invD(5))

text \<open>A step of the fleet itself: the invariant and everything the placement service owns stay.\<close>

definition evolves :: "pods \<Rightarrow> pods \<Rightarrow> bool" where
  "evolves w w' \<longleftrightarrow> pods_inv w' \<and> assigned (pod_sched w') = assigned (pod_sched w) \<and>
     slotsPerHost w' = slotsPerHost w \<and> startLatency w' = startLatency w"

lemma evolves_refl: "pods_inv w \<Longrightarrow> evolves w w"
  by (simp add: evolves_def)

lemma evolves_trans: "evolves w1 w2 \<Longrightarrow> evolves w2 w3 \<Longrightarrow> evolves w1 w3"
  by (simp add: evolves_def)

lemma evolvesD: "evolves w w' \<Longrightarrow> pods_inv w'"
  by (simp add: evolves_def)

subsection \<open>Marking and starting\<close>

lemma markReady_ok:
  assumes w: "pods_inv w" and h: "hosts (pod_sched w) i = Some h" "state h = HostPending"
    and timers: "i \<notin> set (pod_timers w)"
  shows "\<exists>w'. markReady w i = Some w' \<and> evolves w w' \<and> pod_next w' = pod_next w \<and>
    pod_timers w' = pod_timers w \<and>
    hosts (pod_sched w') = (hosts (pod_sched w))(i \<mapsto> h\<lparr>state := HostReady\<rparr>)"
proof -
  have nd: "drains (hosts (pod_sched w)) i = None" using h by (simp add: drains_other)
  from SetHostState_ok [OF pods_invD(1) [OF w] h(1), of HostReady] obtain s' where
    s: "SetHostState (pod_sched w) i HostReady = Some (Inr (), s')" "sched_inv s'"
      "assigned s' = assigned (pod_sched w)"
      "hosts s' = (hosts (pod_sched w))(i \<mapsto> h\<lparr>state := HostReady\<rparr>)" by blast
  let ?w = "w\<lparr>pod_sched := s', pod_signals := pod_signals w + 1\<rparr>"
  have "pods_inv ?w"
    using w h nd timers s by (auto simp: pods_inv_def given_name_def fun_upd_idem)
  then show ?thesis using s nd pods_invD(5) [OF w] by (simp add: markReady_def evolves_def)
qed

text \<open>The host a start creates.\<close>

definition new_pod :: "pods \<Rightarrow> host_id \<Rightarrow> host" where
  "new_pod w i = \<lparr>h_id = i, capacity = slotsPerHost w, used = 0,
     state = (if startLatency w \<le> 0 then HostReady else HostPending)\<rparr>"

lemma start_one_ok:
  assumes w: "pods_inv w"
  shows "\<exists>w'. start_one w = Some w' \<and> evolves w w' \<and> pod_next w' = pod_next w + 1 \<and>
    pod_timers w' = (if startLatency w \<le> 0 then pod_timers w
      else pod_timers w @ [pod_name (pod_next w)]) \<and>
    hosts (pod_sched w) (pod_name (pod_next w)) = None \<and>
    hosts (pod_sched w') =
      (hosts (pod_sched w))(pod_name (pod_next w) \<mapsto> new_pod w (pod_name (pod_next w)))"
proof -
  let ?i = "pod_name (pod_next w)"
  have fresh: "hosts (pod_sched w) ?i = None"
  proof (rule ccontr)
    assume "hosts (pod_sched w) ?i \<noteq> None"
    then obtain k where "0 \<le> k" "k < pod_next w" "?i = pod_name k"
      using pods_invD(4) [OF w] by (auto simp: given_name_def)
    then show False using pod_name_inject [of "pod_next w" k] by simp
  qed
  from AddHost_ok [OF pods_invD(1) [OF w], of ?i "slotsPerHost w"] fresh pods_invD(2) [OF w]
  obtain s' where s: "AddHost (pod_sched w) ?i (slotsPerHost w) = (Inr (), s')" "sched_inv s'"
    "assigned s' = assigned (pod_sched w)"
    "hosts s' = (hosts (pod_sched w))(?i \<mapsto>
       \<lparr>h_id = ?i, capacity = slotsPerHost w, used = 0, state = HostPending\<rparr>)"
    by (auto simp: dom_def)
  have nt: "?i \<notin> set (pod_timers w)" using pods_invD(6) [OF w, of ?i] fresh by auto
  let ?w1 = "w\<lparr>pod_next := pod_next w + 1, pod_sched := s'\<rparr>"
  have given: "given_name ?w1 j" if "given_name w j \<or> j = ?i" for j
    using that pods_invD(3) [OF w] by (auto simp: given_name_def intro: exI [of _ "pod_next w"])
  have nd: "drains (hosts (pod_sched w)) ?i = None" using fresh by (rule drains_None)
  have inv1: "pods_inv ?w1"
    unfolding pods_inv_def using pods_invD [OF w] s(2,4) given nt nd fresh
    by (auto simp: given_name_def fun_upd_idem split: if_splits)
  show ?thesis
  proof (cases "startLatency w \<le> 0")
    case True
    obtain w' where "markReady ?w1 ?i = Some w'" "evolves ?w1 w'" "pod_next w' = pod_next ?w1"
      "pod_timers w' = pod_timers ?w1"
      "hosts (pod_sched w') = (hosts (pod_sched ?w1))(?i \<mapsto>
         \<lparr>h_id = ?i, capacity = slotsPerHost w, used = 0, state = HostPending\<rparr>\<lparr>state := HostReady\<rparr>)"
      using markReady_ok [OF inv1, of ?i] s(4) nt by fastforce
    then show ?thesis
      using True s fresh by (simp add: start_one_def Let_def evolves_def new_pod_def)
  next
    case False
    let ?w2 = "?w1\<lparr>pod_timers := pod_timers w @ [?i]\<rparr>"
    have "pods_inv ?w2"
      using inv1 nt s(4) by (auto simp: pods_inv_def given_name_def)
    then show ?thesis
      using False s fresh by (simp add: start_one_def Let_def evolves_def new_pod_def)
  qed
qed

text \<open>The live pods: every host that is not draining.\<close>

abbreviation live_pods :: "pods \<Rightarrow> host_id set" where
  "live_pods w \<equiv> hosts_with (pod_sched w) (\<lambda>h. state h \<noteq> HostDraining)"

abbreviation ready_pods :: "pods \<Rightarrow> host_id set" where
  "ready_pods w \<equiv> hosts_with (pod_sched w) (\<lambda>h. state h = HostReady)"

lemma hosts_with_finite: "pods_inv w \<Longrightarrow> finite (hosts_with (pod_sched w) P)"
  by (rule finite_subset [OF _ sched_invD(1) [OF pods_invD(1)]]) (auto simp: hosts_with_def)

lemma start_pods_loop_ok:
  "pods_inv w \<Longrightarrow> \<exists>w'. start_pods_loop n w = Some w' \<and> evolves w w' \<and>
    (\<forall>i h. hosts (pod_sched w) i = Some h \<longrightarrow> hosts (pod_sched w') i = Some h) \<and>
    card (live_pods w') = card (live_pods w) + n"
proof (induction n arbitrary: w)
  case (Suc n)
  let ?i = "pod_name (pod_next w)"
  from start_one_ok [OF Suc.prems] obtain w1 where w1: "start_one w = Some w1" "evolves w w1"
    "hosts (pod_sched w) ?i = None" "hosts (pod_sched w1) = (hosts (pod_sched w))(?i \<mapsto> new_pod w ?i)"
    by blast
  from Suc.IH [OF evolvesD [OF w1(2)]] obtain w' where w': "start_pods_loop n w1 = Some w'"
    "evolves w1 w'" "\<forall>i h. hosts (pod_sched w1) i = Some h \<longrightarrow> hosts (pod_sched w') i = Some h"
    "card (live_pods w') = card (live_pods w1) + n" by blast
  have "live_pods w1 = insert ?i (live_pods w)" "?i \<notin> live_pods w"
    using w1(3,4) by (auto simp: hosts_with_def new_pod_def)
  then have "card (live_pods w1) = Suc (card (live_pods w))"
    using hosts_with_finite [OF Suc.prems] by simp
  moreover have "hosts (pod_sched w1) j = Some h" if "hosts (pod_sched w) j = Some h" for j h
    using that w1(3,4) by auto
  ultimately show ?case using w1 w' evolves_trans [OF w1(2) w'(2)] by auto
qed (simp add: evolves_refl)

subsection \<open>Reaping\<close>

text \<open>A drained host inside \<open>S\<close> is gone once it is empty; everything else stays.\<close>

definition reaped :: "host_id set \<Rightarrow> (host_id \<rightharpoonup> host) \<Rightarrow> (host_id \<rightharpoonup> host)" where
  "reaped S hs i =
     Option.bind (hs i)
       (\<lambda>h. if i \<in> S \<and> state h = HostDraining \<and> used h = 0 then None else Some h)"

lemma map_filter_Cons: "hs k = Some h \<Longrightarrow> List.map_filter hs (k # ks) = h # List.map_filter hs ks"
  by (simp add: List.map_filter_simps)

lemma used_loop_snaps:
  assumes "\<And>k h. hs k = Some h \<Longrightarrow> h_id h = k"
  shows "set ks \<subseteq> dom hs \<Longrightarrow> used_loop (map snapshot (List.map_filter hs ks)) m i =
    (if i \<in> set ks then map_option used (hs i) else m i)"
proof (induction ks arbitrary: m)
  case (Cons k ks)
  then obtain h where "hs k = Some h" by auto
  with Cons assms [of k h] show ?case by (auto simp: map_filter_Cons snapshot_def)
qed (simp add: List.map_filter_simps)

lemma used_map_eq:
  assumes "sched_inv s" "iterates ks (hosts s)"
  shows "used_loop (Hosts s ks) Map.empty = (\<lambda>i. map_option used (hosts s i))"
proof
  fix i
  show "used_loop (Hosts s ks) Map.empty i = map_option used (hosts s i)"
    using used_loop_snaps [of "hosts s" ks Map.empty i] host_okD(1) [OF assms(1)] assms(2)
    by (auto simp: Hosts_def hosts_loop_eq iterates_def)
qed

lemma reap_pod_ok:
  assumes w: "pods_inv w" and os: "pod_orders_ok os" and i: "drains (hosts (pod_sched w)) i \<noteq> None"
    and usedm: "usedm i = map_option used (hosts (pod_sched w) i)"
  shows "\<exists>w'. reap_pod os usedm i w = Some w' \<and> evolves w w' \<and>
    hosts (pod_sched w') = reaped {i} (hosts (pod_sched w))"
proof -
  from i obtain h where h: "hosts (pod_sched w) i = Some h" "state h = HostDraining"
    by (auto simp: drains_def split: bind_splits if_splits)
  note inv = pods_invD(1) [OF w]
  show ?thesis
  proof (cases "used h > 0")
    case True
    then have "reaped {i} (hosts (pod_sched w)) = hosts (pod_sched w)"
      using h by (auto simp: reaped_def fun_eq_iff split: bind_splits)
    then show ?thesis using True h usedm evolves_refl [OF w] by (simp add: reap_pod_def)
  next
    case False
    with host_okD [OF inv h(1)] have used: "used h = 0" "vms_on (pod_sched w) i = {}"
      using inv by simp_all
    have it: "iterates (assigned_ord os (assigned (pod_sched w))) (assigned (pod_sched w))"
      using os sched_invD(2) [OF inv] by (simp add: pod_orders_ok_def)
    from RemoveHost_ok [OF inv h(1) it] obtain s' gone where
      s: "RemoveHost (pod_sched w) i (assigned_ord os (assigned (pod_sched w))) = Some (Inr gone, s')"
        "sched_inv s'" "hosts s' = (hosts (pod_sched w))(i := None)"
        "assigned s' = (\<lambda>v. if assigned (pod_sched w) v = Some i then None else assigned (pod_sched w) v)"
      by blast
    have asg: "assigned s' = assigned (pod_sched w)"
      using s(4) used(2) by (auto simp: vms_on_def fun_eq_iff)
    have hs: "hosts s' = reaped {i} (hosts (pod_sched w))"
      using s(3) h used(1) by (auto simp: reaped_def fun_eq_iff split: bind_splits)
    let ?w = "w\<lparr>pod_sched := s', pod_draining := (pod_draining w)(i := None)\<rparr>"
    have "i \<notin> set (pod_timers w)" using pods_invD(6) [OF w, of i] h by auto
    then have "pods_inv ?w"
      using w s(2,3) by (auto simp: pods_inv_def given_name_def)
    then show ?thesis
      using s(1) asg hs h(1) usedm False by (simp add: reap_pod_def evolves_def)
  qed
qed

lemma reaped_reaped: "reaped S (reaped T hs) = reaped (T \<union> S) hs"
  by (auto simp: reaped_def fun_eq_iff split: bind_splits)

lemma reap_pods_loop_ok:
  assumes "pod_orders_ok os"
  shows "pods_inv w \<Longrightarrow> distinct ks \<Longrightarrow> set ks \<subseteq> dom (drains (hosts (pod_sched w))) \<Longrightarrow>
    \<forall>i\<in>set ks. usedm i = map_option used (hosts (pod_sched w) i) \<Longrightarrow>
    \<exists>w'. reap_pods_loop os usedm ks w = Some w' \<and> evolves w w' \<and>
      hosts (pod_sched w') = reaped (set ks) (hosts (pod_sched w))"
proof (induction ks arbitrary: w)
  case Nil
  then show ?case by (simp add: evolves_refl reaped_def)
next
  case (Cons i ks)
  have "drains (hosts (pod_sched w)) i \<noteq> None" using Cons.prems(3) by auto
  with reap_pod_ok [OF Cons.prems(1) assms, of i usedm] Cons.prems(4) obtain w1 where
    w1: "reap_pod os usedm i w = Some w1" "evolves w w1"
      "hosts (pod_sched w1) = reaped {i} (hosts (pod_sched w))" by auto
  have same: "hosts (pod_sched w1) j = hosts (pod_sched w) j" if "j \<in> set ks" for j
    using that Cons.prems(2) by (auto simp: w1(3) reaped_def split: bind_splits)
  have "set ks \<subseteq> dom (drains (hosts (pod_sched w1)))"
    using Cons.prems(3) same by (auto simp: drains_def)
  then obtain w' where "reap_pods_loop os usedm ks w1 = Some w'" "evolves w1 w'"
    "hosts (pod_sched w') = reaped (set ks) (hosts (pod_sched w1))"
    using Cons.IH [OF evolvesD [OF w1(2)]] Cons.prems(2,4) same by auto
  then show ?case
    using w1 evolves_trans [OF w1(2)] by (auto simp: reaped_reaped)
qed

lemma reapDrained_ok:
  assumes w: "pods_inv w" and os: "pod_orders_ok os"
  shows "\<exists>w'. reapDrained os w = Some w' \<and> evolves w w' \<and>
    hosts (pod_sched w') = reaped UNIV (hosts (pod_sched w))"
proof -
  let ?ks = "draining_ord os (pod_draining w)" and ?hs = "hosts (pod_sched w)"
  have it: "iterates ?ks (pod_draining w)" "iterates (snap_ord os ?hs) ?hs"
    using os draining_finite [OF w] sched_invD(1) [OF pods_invD(1) [OF w]]
    by (simp_all add: pod_orders_ok_def)
  then have ks: "distinct ?ks" "set ?ks = dom (drains ?hs)"
    by (simp_all add: iterates_def pods_invD(5) [OF w])
  have "reaped (set ?ks) ?hs = reaped UNIV ?hs"
    unfolding ks(2) by (auto simp: reaped_def drains_def fun_eq_iff split: bind_splits)
  then show ?thesis
    using reap_pods_loop_ok [OF os w ks(1)] ks(2) used_map_eq [OF pods_invD(1) [OF w] it(2)]
      evolves_refl [OF w]
    by (cases "?ks = []") (auto simp: reapDrained_def Let_def)
qed

subsection \<open>Listing\<close>

lemma listed_ids:
  assumes "sched_inv s" "iterates ks (hosts s)"
  shows "map snap_ID (Hosts s ks) = ks"
proof -
  have "map snap_ID (map snapshot (List.map_filter (hosts s) js)) = js" if "set js \<subseteq> dom (hosts s)" for js
    using that
  proof (induction js)
    case (Cons j js)
    then obtain h where "hosts s j = Some h" by auto
    with Cons host_okD(1) [OF assms(1) this] show ?case by (simp add: map_filter_Cons snapshot_def)
  qed (simp add: List.map_filter_simps)
  then show ?thesis using assms(2) by (simp add: Hosts_def hosts_loop_eq iterates_def)
qed

lemma listed_row:
  assumes "sched_inv s" "iterates ks (hosts s)"
  shows "r \<in> set (Hosts s ks) \<longleftrightarrow> (\<exists>h. hosts s (snap_ID r) = Some h \<and> r = snapshot h)"
proof -
  have "set (Hosts s ks) = snapshot ` {h. \<exists>i. hosts s i = Some h}"
    using assms(2) by (force simp: Hosts_def hosts_loop_eq map_filter_def iterates_def)
  then show ?thesis using host_okD(1) [OF assms(1)] by (auto simp: snapshot_def)
qed

text \<open>The rows a filter on the state keeps, once each.\<close>

lemma listed_filter:
  assumes "sched_inv s" "iterates ks (hosts s)"
  shows "distinct (map snap_ID (filter (\<lambda>r. P (snap_State r)) (Hosts s ks)))"
    "snap_ID ` set (filter (\<lambda>r. P (snap_State r)) (Hosts s ks)) = hosts_with s (\<lambda>h. P (state h))"
    "length (filter (\<lambda>r. P (snap_State r)) (Hosts s ks)) = card (hosts_with s (\<lambda>h. P (state h)))"
proof -
  let ?xs = "filter (\<lambda>r. P (snap_State r)) (Hosts s ks)"
  have "distinct (map snap_ID (Hosts s ks))"
    using listed_ids [OF assms] assms(2) by (simp add: iterates_def)
  then show d: "distinct (map snap_ID ?xs)" by (rule distinct_map_filter)
  show s: "snap_ID ` set ?xs = hosts_with s (\<lambda>h. P (state h))"
  proof (intro set_eqI iffI)
    fix i
    assume "i \<in> snap_ID ` set ?xs"
    then obtain r where "r \<in> set (Hosts s ks)" "P (snap_State r)" "i = snap_ID r" by auto
    then show "i \<in> hosts_with s (\<lambda>h. P (state h))"
      using listed_row [OF assms, of r] by (auto simp: hosts_with_def snapshot_def)
  next
    fix i
    assume "i \<in> hosts_with s (\<lambda>h. P (state h))"
    then obtain h where h: "hosts s i = Some h" "P (state h)" by (auto simp: hosts_with_def)
    have "snap_ID (snapshot h) = i" using host_okD(1) [OF assms(1) h(1)] by (simp add: snapshot_def)
    moreover from this have "snapshot h \<in> set ?xs"
      using h listed_row [OF assms, of "snapshot h"] by (auto simp: snapshot_def)
    ultimately show "i \<in> snap_ID ` set ?xs" by (metis image_eqI)
  qed
  show "length ?xs = card (hosts_with s (\<lambda>h. P (state h)))"
    using distinct_card [OF d] s by simp
qed

subsection \<open>Draining\<close>

text \<open>The hosts of \<open>D\<close> drain.\<close>

definition drained :: "host_id set \<Rightarrow> (host_id \<rightharpoonup> host) \<Rightarrow> (host_id \<rightharpoonup> host)" where
  "drained D hs i = map_option (\<lambda>h. if i \<in> D then h\<lparr>state := HostDraining\<rparr> else h) (hs i)"

lemma drain_pod_ok:
  assumes w: "pods_inv w" and h: "hosts (pod_sched w) i = Some h" "state h = HostReady"
  shows "\<exists>w'. drain_pod i w = Some w' \<and> evolves w w' \<and>
    hosts (pod_sched w') = drained {i} (hosts (pod_sched w))"
proof -
  from SetHostState_ok [OF pods_invD(1) [OF w] h(1), of HostDraining] obtain s' where
    s: "SetHostState (pod_sched w) i HostDraining = Some (Inr (), s')" "sched_inv s'"
      "assigned s' = assigned (pod_sched w)"
      "hosts s' = (hosts (pod_sched w))(i \<mapsto> h\<lparr>state := HostDraining\<rparr>)" by blast
  let ?w = "w\<lparr>pod_sched := s', pod_draining := (pod_draining w)(i \<mapsto> ())\<rparr>"
  have "i \<notin> set (pod_timers w)" using pods_invD(6) [OF w, of i] h by auto
  then have "pods_inv ?w"
    using w h(1) s(2,4) by (auto simp: pods_inv_def given_name_def)
  moreover have "hosts s' = drained {i} (hosts (pod_sched w))"
    using s(4) h by (auto simp: drained_def fun_eq_iff option.map_ident)
  ultimately show ?thesis using s by (simp add: drain_pod_def evolves_def)
qed

lemma drained_drained: "drained D (drained E hs) = drained (E \<union> D) hs"
  by (auto simp: drained_def fun_eq_iff option.map_comp o_def intro!: option.map_cong)

lemma drained_empty [simp]: "drained {} hs = hs"
  by (auto simp: drained_def fun_eq_iff option.map_ident)

lemma drain_pods_loop_ok:
  "pods_inv w \<Longrightarrow> distinct (map snap_ID xs) \<Longrightarrow> snap_ID ` set xs \<subseteq> ready_pods w \<Longrightarrow>
    \<exists>w'. drain_pods_loop n xs w = Some w' \<and> evolves w w' \<and>
      hosts (pod_sched w') = drained (snap_ID ` set (take n xs)) (hosts (pod_sched w))"
proof (induction n xs w rule: drain_pods_loop.induct)
  case (1 n x xs w)
  from "1.prems"(3) obtain h where h: "hosts (pod_sched w) (snap_ID x) = Some h" "state h = HostReady"
    by (auto simp: hosts_with_def)
  from drain_pod_ok [OF "1.prems"(1) h] obtain w1 where w1: "drain_pod (snap_ID x) w = Some w1"
    "evolves w w1" "hosts (pod_sched w1) = drained {snap_ID x} (hosts (pod_sched w))" by blast
  have "snap_ID ` set xs \<subseteq> ready_pods w1"
  proof
    fix j assume j: "j \<in> snap_ID ` set xs"
    then have "j \<noteq> snap_ID x"
      using "1.prems"(2) unfolding list.map distinct.simps set_map by metis
    then have "hosts (pod_sched w1) j = hosts (pod_sched w) j"
      by (simp add: w1(3) drained_def option.map_ident)
    then show "j \<in> ready_pods w1" using j "1.prems"(3) by (auto simp: hosts_with_def)
  qed
  then show ?case
    using "1.IH" [OF w1(1) evolvesD [OF w1(2)]] "1.prems"(2) w1 evolves_trans [OF w1(2)]
    by (auto simp: drained_drained)
qed (simp_all add: evolves_refl)

text \<open>What sorting by use and name buys: the rows taken come strictly before the others.\<close>

lemma pod_key_take:
  assumes "distinct (map snap_ID xs)"
    and "x \<in> set (take n (sort_key pod_key xs))" and "y \<in> set xs" "y \<notin> set (take n (sort_key pod_key xs))"
  shows "pod_key x < pod_key y"
proof -
  let ?ys = "sort_key pod_key xs"
  have y: "y \<in> set (drop n ?ys)"
    using assms(3,4) set_append [of "take n ?ys" "drop n ?ys"] by simp
  have "sorted (map pod_key (take n ?ys @ drop n ?ys))" by simp
  then have "pod_key x \<le> pod_key y"
    using assms(2) y by (auto simp only: map_append sorted_append set_map)
  moreover have "snap_ID x \<noteq> snap_ID y"
    using assms(1) in_set_takeD [OF assms(2)] assms(2-4)
    by (auto simp: distinct_map dest: inj_onD)
  ultimately show ?thesis by (auto simp: pod_key_def less_le)
qed

subsection \<open>Reconciling\<close>

text \<open>A state in which \<open>n\<close> ready pods, or all there are, have been drained, those with the fewest
  microVMs, and every empty drained pod is gone.\<close>

definition drains_emptiest :: "pods \<Rightarrow> nat \<Rightarrow> pods \<Rightarrow> bool" where
  "drains_emptiest w n w' \<longleftrightarrow>
     (\<exists>D \<subseteq> ready_pods w. card D = min n (card (ready_pods w)) \<and>
        hosts (pod_sched w') = reaped UNIV (drained D (hosts (pod_sched w))) \<and>
        (\<forall>i \<in> D. \<forall>j \<in> ready_pods w - D. \<forall>h g. hosts (pod_sched w) i = Some h \<longrightarrow>
           hosts (pod_sched w) j = Some g \<longrightarrow> (used h, i) < (used g, j)))"

lemma drains_emptiestI:
  assumes "D \<subseteq> ready_pods w" "card D = min n (card (ready_pods w))"
    and "hosts (pod_sched w') = reaped UNIV (drained D (hosts (pod_sched w)))"
    and "\<And>i j h g. i \<in> D \<Longrightarrow> j \<in> ready_pods w - D \<Longrightarrow> hosts (pod_sched w) i = Some h \<Longrightarrow>
      hosts (pod_sched w) j = Some g \<Longrightarrow> (used h, i) < (used g, j)"
  shows "drains_emptiest w n w'"
  using assms unfolding drains_emptiest_def by blast

text \<open>The outcomes of a reconciliation.\<close>

text \<open>The first pods of the sorted listing come before every ready pod that is left.\<close>

lemma drained_first:
  fixes w :: pods and ks :: "host_id list"
  defines "ready \<equiv> sort_key pod_key (filter (\<lambda>h. snap_State h = HostReady)
      (filter (\<lambda>h. snap_State h \<noteq> HostDraining) (Hosts (pod_sched w) ks)))"
  assumes s: "sched_inv (pod_sched w)" and ks: "iterates ks (hosts (pod_sched w))"
    and i: "i \<in> snap_ID ` set (take n ready)" and j: "j \<in> ready_pods w - snap_ID ` set (take n ready)"
    and h: "hosts (pod_sched w) i = Some h" "hosts (pod_sched w) j = Some g"
  shows "(used h, i) < (used g, j)"
proof -
  let ?ready = "filter (\<lambda>h. snap_State h = HostReady) (Hosts (pod_sched w) ks)"
  have ready: "ready = sort_key pod_key ?ready"
    unfolding ready_def by (rule arg_cong [of _ _ "sort_key pod_key"]) (auto intro!: filter_cong)
  note rd = listed_filter [OF s ks, of "\<lambda>st. st = HostReady"]
  from i obtain x where x: "x \<in> set (take n ready)" "snap_ID x = i" by auto
  have "j \<in> snap_ID ` set ?ready" unfolding rd(2) using j by (rule DiffD1)
  then obtain y where y: "y \<in> set ?ready" "snap_ID y = j"
    by (rule imageE) (rule that, assumption, erule sym)
  have "y \<notin> set (take n ready)" using j y(2) by auto
  from pod_key_take [OF rd(1) x(1) [unfolded ready] y(1) this [unfolded ready]]
  have lt: "pod_key x < pod_key y" .
  have "x \<in> set ?ready" using in_set_takeD [OF x(1)] by (simp add: ready)
  then have "snap_Used x = used h" "snap_Used y = used g"
    using listed_row [OF s ks, of x] listed_row [OF s ks, of y] x y h by (auto simp: snapshot_def)
  with lt x(2) y(2) show ?thesis by (simp add: pod_key_def)
qed

text \<open>What \<^verbatim>\<open>drainHosts\<close> does with the listing of the live pods.\<close>

lemma drainHosts_ok:
  assumes w: "pods_inv w" and os: "pod_orders_ok os"
  shows "\<exists>w'. drainHosts os w (filter (\<lambda>h. snap_State h \<noteq> HostDraining)
      (Hosts (pod_sched w) (snap_ord os (hosts (pod_sched w))))) m = Some w' \<and>
    evolves w w' \<and> drains_emptiest w (nat m) w'"
proof -
  let ?ks = "snap_ord os (hosts (pod_sched w))" and ?s = "pod_sched w" and ?n = "nat m"
  have s: "sched_inv ?s" and ks: "iterates ?ks (hosts ?s)"
    using os pods_invD(1) [OF w] sched_invD(1) [OF pods_invD(1) [OF w]] by (simp_all add: pod_orders_ok_def)
  let ?live = "filter (\<lambda>h. snap_State h \<noteq> HostDraining) (Hosts ?s ?ks)"
  let ?ready = "filter (\<lambda>h. snap_State h = HostReady) ?live"
  let ?sorted = "sort_key pod_key ?ready"
  let ?D = "snap_ID ` set (take ?n ?sorted)"
  have "?ready = filter (\<lambda>h. snap_State h = HostReady) (Hosts ?s ?ks)" by (auto intro!: filter_cong)
  note rd = listed_filter [OF s ks, of "\<lambda>st. st = HostReady", folded this]
  have ids: "distinct (map snap_ID ?sorted)" "snap_ID ` set ?sorted = ready_pods w"
    using rd(1,2) by (simp_all add: distinct_map)
  from drain_pods_loop_ok [OF w ids(1), of ?n] ids(2) obtain w2 where
    w2: "drain_pods_loop ?n ?sorted w = Some w2" "evolves w w2" "hosts (pod_sched w2) = drained ?D (hosts ?s)" by auto
  from reapDrained_ok [OF evolvesD [OF w2(2)] os] obtain w' where
    w': "reapDrained os w2 = Some w'" "evolves w2 w'"
      "hosts (pod_sched w') = reaped UNIV (hosts (pod_sched w2))" by blast
  have "distinct (map snap_ID (take ?n ?sorted))" using ids(1) by (simp add: take_map [symmetric])
  from distinct_card [OF this] have card: "card ?D = min ?n (card (ready_pods w))"
    using rd(3) by (simp add: min.commute)
  have D: "?D \<subseteq> ready_pods w" using ids(2) set_take_subset [of ?n ?sorted] by blast
  have "drains_emptiest w ?n w'"
    by (rule drains_emptiestI [OF D card w'(3) [unfolded w2(3)] drained_first [OF s ks]])
  moreover have "drainHosts os w ?live m = Some w'" using w2(1) w'(1) by (simp add: drainHosts_def Let_def)
  ultimately show ?thesis using evolves_trans [OF w2(2) w'(2)] by blast
qed

text \<open>Pods that were reaped before make no difference.\<close>

lemma drains_emptiest_reaped:
  assumes h: "hosts (pod_sched w1) = reaped UNIV (hosts (pod_sched w))" and d: "drains_emptiest w1 n w'"
  shows "drains_emptiest w n w'"
proof -
  have ready: "ready_pods w1 = ready_pods w" by (auto simp: hosts_with_def h reaped_def split: bind_splits)
  from d obtain D where D: "D \<subseteq> ready_pods w1" "card D = min n (card (ready_pods w1))"
    "hosts (pod_sched w') = reaped UNIV (drained D (hosts (pod_sched w1)))"
    and first: "\<And>i j h g. i \<in> D \<Longrightarrow> j \<in> ready_pods w1 - D \<Longrightarrow> hosts (pod_sched w1) i = Some h \<Longrightarrow>
      hosts (pod_sched w1) j = Some g \<Longrightarrow> (used h, i) < (used g, j)" unfolding drains_emptiest_def by blast
  have keep: "hosts (pod_sched w1) i = Some h" if "i \<in> ready_pods w" "hosts (pod_sched w) i = Some h" for i h
    using that by (auto simp: h reaped_def hosts_with_def)
  have "hosts (pod_sched w') = reaped UNIV (drained D (hosts (pod_sched w)))"
    using D(1) ready by (auto simp: D(3) h reaped_def drained_def hosts_with_def fun_eq_iff split: bind_splits)
  with D(1,2) show ?thesis
    by (intro drains_emptiestI [of D] first) (auto simp: ready intro: keep)
qed

lemma reconcile_ok:
  fixes d :: int
  assumes w: "pods_inv w" and os: "pod_orders_ok os"
  defines "n \<equiv> nat (int (card (live_pods w)) - d)"
  shows "\<exists>w'. reconcile os w d = Some w' \<and> evolves w w' \<and>
    (if int (card (live_pods w)) \<le> d then
       (\<forall>i h. reaped UNIV (hosts (pod_sched w)) i = Some h \<longrightarrow> hosts (pod_sched w') i = Some h) \<and>
       int (card (live_pods w')) = d
     else drains_emptiest w n w')"
proof -
  from reapDrained_ok [OF w os] obtain w1 where w1: "reapDrained os w = Some w1" "evolves w w1"
    "hosts (pod_sched w1) = reaped UNIV (hosts (pod_sched w))" by blast
  note inv1 = evolvesD [OF w1(2)]
  let ?live = "filter (\<lambda>h. snap_State h \<noteq> HostDraining) (Hosts (pod_sched w1) (snap_ord os (hosts (pod_sched w1))))"
  have live1: "live_pods w1 = live_pods w" by (auto simp: hosts_with_def w1(3) reaped_def split: bind_splits)
  have "iterates (snap_ord os (hosts (pod_sched w1))) (hosts (pod_sched w1))"
    using os sched_invD(1) [OF pods_invD(1) [OF inv1]] by (simp add: pod_orders_ok_def)
  note len = listed_filter(3) [OF pods_invD(1) [OF inv1] this, of "\<lambda>st. st \<noteq> HostDraining", unfolded live1]
  have L: "int (length ?live) = int (card (live_pods w))" using len by (rule arg_cong)
  consider "int (length ?live) < d" | "int (length ?live) = d" | "int (length ?live) > d" by linarith
  then show ?thesis
  proof cases
    case 1
    from start_pods_loop_ok [OF inv1, of "nat (d - int (length ?live))"] obtain w' where w':
      "startHosts w1 (d - int (length ?live)) = Some w'" "evolves w1 w'"
      "\<forall>i h. hosts (pod_sched w1) i = Some h \<longrightarrow> hosts (pod_sched w') i = Some h"
      "card (live_pods w') = card (live_pods w1) + nat (d - int (length ?live))"
      unfolding startHosts_def by blast
    have "reconcile os w d = Some w'" using 1 w1(1) w'(1) by (simp add: reconcile_def Let_def)
    moreover have "int (card (live_pods w')) = d" "int (card (live_pods w)) \<le> d" using w'(4) 1 L live1 by simp_all
    ultimately show ?thesis using w'(3) evolves_trans [OF w1(2) w'(2)] unfolding w1(3) by simp
  next
    case 2
    have "reconcile os w d = Some w1" using 2 w1(1) by (simp add: reconcile_def Let_def)
    with 2 L live1 w1(2) show ?thesis by (simp add: w1(3))
  next
    case 3
    from drainHosts_ok [OF inv1 os, of "int (length ?live) - d"] obtain w' where w':
      "drainHosts os w1 ?live (int (length ?live) - d) = Some w'" "evolves w1 w'" "drains_emptiest w1 n w'"
      unfolding n_def L by blast
    have "reconcile os w d = Some w'" using 3 w1(1) w'(1) by (simp add: reconcile_def Let_def)
    with 3 L drains_emptiest_reaped [OF w1(3) w'(3)] evolves_trans [OF w1(2) w'(2)] show ?thesis by simp
  qed
qed

subsection \<open>All runs\<close>

definition fleet_step :: "pod_event \<Rightarrow> pods \<Rightarrow> pods option" where
  "fleet_step e w = (if pod_event_ok e then pod_step e w else None)"

lemma reconcile_total:
  "pods_inv w \<Longrightarrow> pod_orders_ok os \<Longrightarrow> \<exists>w'. reconcile os w d = Some w' \<and> evolves w w'"
  using reconcile_ok by blast

lemma pod_timer_inv:
  assumes w: "pods_inv w" and e: "pod_timer w i c = Some w'"
  shows "pods_inv w'"
proof -
  let ?w = "w\<lparr>pod_timers := remove1 i (pod_timers w)\<rparr>"
  from e have i: "i \<in> set (pod_timers w)" by (auto simp: pod_timer_def split: if_splits)
  have inv: "pods_inv ?w"
    using w pods_invD(7) [OF w] by (auto simp: pods_inv_def given_name_def)
  from pods_invD(6) [OF w i] obtain h where "hosts (pod_sched w) i = Some h" "state h = HostPending"
    by blast
  then obtain w2 where "markReady ?w i = Some w2" "pods_inv w2"
    using markReady_ok [OF inv, of i h] pods_invD(7) [OF w] evolvesD by auto
  with e i inv show ?thesis by (auto simp: pod_timer_def Let_def split: if_splits)
qed

text \<open>Placements and releases change only how much of a host is used.\<close>

lemma pods_inv_service:
  assumes w: "pods_inv w" and s: "sched_inv s"
    and hs: "hosts s = hosts (pod_sched w) \<or>
      (\<exists>i h u. hosts (pod_sched w) i = Some h \<and> hosts s = (hosts (pod_sched w))(i \<mapsto> h\<lparr>used := u\<rparr>))"
  shows "pods_inv (w\<lparr>pod_sched := s\<rparr>)"
  using hs
proof (elim disjE exE conjE)
  fix i h u
  assume h: "hosts (pod_sched w) i = Some h" "hosts s = (hosts (pod_sched w))(i \<mapsto> h\<lparr>used := u\<rparr>)"
  have "drains (hosts s) = drains (hosts (pod_sched w))"
    using h by (auto simp: drains_def fun_eq_iff)
  then show ?thesis
    using w s h by (auto simp: pods_inv_def given_name_def)
qed (use w s in \<open>auto simp: pods_inv_def given_name_def\<close>)

lemma fleet_step_inv:
  assumes w: "pods_inv w" and e: "fleet_step e w = Some w'"
  shows "pods_inv w'"
proof (cases e)
  case (PodReconcile os n)
  then show ?thesis
    using e reconcile_total [OF w, of os n] by (auto simp: fleet_step_def evolves_def split: if_splits)
next
  case (PodTimer i c)
  then show ?thesis using e pod_timer_inv [OF w] by (simp add: fleet_step_def)
next
  case (PodPlace vm)
  from Place_cases [OF pods_invD(1) [OF w], of vm] obtain r s' where
    "Place (pod_sched w) vm = Some (r, s')" "pods_inv (w\<lparr>pod_sched := s'\<rparr>)"
    using pods_inv_service [OF w] by blast
  then show ?thesis using PodPlace e by (simp add: fleet_step_def)
next
  case (PodRelease vm)
  from Release_cases [OF pods_invD(1) [OF w], of vm] obtain r s' where
    "Release (pod_sched w) vm = Some (r, s')" "pods_inv (w\<lparr>pod_sched := s'\<rparr>)"
    using pods_inv_service [OF w] by blast
  then show ?thesis using PodRelease e by (simp add: fleet_step_def)
qed

interpretation pm: machine fleet_step pods_inv
  by unfold_locales (rule fleet_step_inv)

text \<open>The states of a run that starts with no pods and at least two slots a pod.\<close>

definition pods_reachable :: "pods \<Rightarrow> bool" where
  "pods_reachable w \<longleftrightarrow> (\<exists>p slots latency es. MinSlotsPerHost \<le> slots \<and>
     run fleet_step es (new_fleet (New p) slots latency) = Some w)"

lemma new_fleet_inv: "MinSlotsPerHost \<le> slots \<Longrightarrow> pods_inv (new_fleet (New p) slots latency)"
  using New_inv [of p] by (auto simp: pods_inv_def new_fleet_def New_def drains_def)

lemma pods_reachable_inv: "pods_reachable w \<Longrightarrow> pods_inv w"
  using pm.run_good new_fleet_inv by (fastforce simp: pods_reachable_def)


text \<open>Orders that visit keys in ascending order, for the examples.\<close>

definition ascending :: pod_orders where
  "ascending = \<lparr>draining_ord = (\<lambda>m. sorted_list_of_set (dom m)),
     snap_ord = (\<lambda>m. sorted_list_of_set (dom m)), assigned_ord = (\<lambda>m. sorted_list_of_set (dom m))\<rparr>"

lemma ascending_ok: "pod_orders_ok ascending"
  by (simp add: pod_orders_ok_def ascending_def iterates_def)

lemma ascending_sel [simp]:
  "draining_ord ascending m = sorted_list_of_set (dom m)" "snap_ord ascending m' = sorted_list_of_set (dom m')"
  "assigned_ord ascending m'' = sorted_list_of_set (dom m'')"
  by (simp_all add: ascending_def)

definition demo_fleet :: pods where
  "demo_fleet = new_fleet (New BestFit) 2 0"

lemma demo_fleet_reachable: "run fleet_step es demo_fleet = Some w \<Longrightarrow> pods_reachable w"
  unfolding pods_reachable_def demo_fleet_def MinSlotsPerHost_def
  by (intro exI [of _ BestFit] exI [of _ 2] exI [of _ 0] exI [of _ es]) simp

lemma demo_fleet_runs: "\<exists>w. run fleet_step [PodReconcile ascending 2, PodPlace ''x''] demo_fleet = Some w"
proof -
  have inv: "pods_inv demo_fleet" by (simp add: demo_fleet_def new_fleet_inv MinSlotsPerHost_def)
  from reconcile_total [OF inv ascending_ok] obtain w1 where
    w1: "reconcile ascending demo_fleet 2 = Some w1" "pods_inv w1" by (auto simp: evolves_def)
  from Place_cases [OF pods_invD(1) [OF w1(2)], of "''x''"] show ?thesis
    using w1(1) ascending_ok by (auto simp: fleet_step_def)
qed


subsection \<open>What a reconciliation does\<close>

lemma ready_live: "ready_pods w \<subseteq> live_pods w"
  by (auto simp: hosts_with_def)

lemma kept_ready:
  assumes "\<forall>i h. reaped UNIV (hosts (pod_sched w)) i = Some h \<longrightarrow> hosts (pod_sched w') i = Some h"
  shows "ready_pods w \<subseteq> ready_pods w'"
  using assms by (fastforce simp: hosts_with_def reaped_def)

lemma drained_live:
  assumes "hosts (pod_sched w') = reaped UNIV (drained D (hosts (pod_sched w)))"
  shows "live_pods w' = live_pods w - D" "ready_pods w' = ready_pods w - D"
proof -
  have "(i \<in> live_pods w' \<longleftrightarrow> i \<in> live_pods w - D) \<and> (i \<in> ready_pods w' \<longleftrightarrow> i \<in> ready_pods w - D)" for i
    by (cases "hosts (pod_sched w) i") (auto simp: hosts_with_def assms reaped_def drained_def)
  then show "live_pods w' = live_pods w - D" "ready_pods w' = ready_pods w - D" by blast+
qed

text \<open>How many pods are live afterwards.\<close>

lemma reconcile_count:
  fixes d :: int
  assumes inv: "pods_inv w" and "pod_orders_ok os" and "reconcile os w d = Some w'"
  shows "int (card (live_pods w')) =
    (if int (card (live_pods w)) \<le> d then d
     else max d (int (card (live_pods w)) - int (card (ready_pods w))))"
proof -
  note fin = hosts_with_finite [OF inv]
  from reconcile_ok [OF inv assms(2), of d] assms(3)
  have out: "if int (card (live_pods w)) \<le> d then int (card (live_pods w')) = d
      else drains_emptiest w (nat (int (card (live_pods w)) - d)) w'"
    by (auto split: if_splits)
  have "int (card (live_pods w')) = max d (int (card (live_pods w)) - int (card (ready_pods w)))"
    if more: "\<not> int (card (live_pods w)) \<le> d"
  proof -
    from out more obtain D where D: "D \<subseteq> ready_pods w"
      "card D = min (nat (int (card (live_pods w)) - d)) (card (ready_pods w))"
      "hosts (pod_sched w') = reaped UNIV (drained D (hosts (pod_sched w)))"
      by (auto simp: drains_emptiest_def)
    have "finite D" using D(1) fin by (rule finite_subset)
    moreover have "D \<subseteq> live_pods w" using D(1) ready_live by (rule order_trans)
    ultimately have "card (live_pods w') = card (live_pods w) - card D"
      by (simp add: drained_live [OF D(3)] card_Diff_subset)
    moreover have "card (ready_pods w) \<le> card (live_pods w)"
      using ready_live fin by (intro card_mono) auto
    ultimately show ?thesis using D(2) more by (simp add: min_def max_def) linarith
  qed
  then show ?thesis using out by auto
qed

text \<open>A reconciliation drives the number of live pods, those not draining, to the desired
  one: exactly there when there were too few or just enough, and as far down as the ready
  pods allow when there were too many. It moves no microVM.\<close>

theorem reconcile_converges:
  fixes d :: int
  assumes "pods_reachable w" and "pod_orders_ok os"
  shows "\<exists>w'. reconcile os w d = Some w' \<and> assigned (pod_sched w') = assigned (pod_sched w) \<and>
    int (card (live_pods w')) =
      (if int (card (live_pods w)) \<le> d then d
       else max d (int (card (live_pods w)) - int (card (ready_pods w))))"
proof -
  note inv = pods_reachable_inv [OF assms(1)]
  from reconcile_total [OF inv assms(2), of d] obtain w' where
    "reconcile os w d = Some w'" "evolves w w'" by blast
  then show ?thesis using reconcile_count [OF inv assms(2)] by (auto simp: evolves_def)
qed

theorem reconcile_converges_witness:
  "\<exists>w'. reconcile ascending demo_fleet 2 = Some w' \<and> card (live_pods w') = 2"
proof -
  have "pods_reachable demo_fleet" by (rule demo_fleet_reachable [of "[]"]) simp
  moreover have "live_pods demo_fleet = {}"
    by (simp add: hosts_with_def demo_fleet_def new_fleet_def New_def)
  ultimately show ?thesis using reconcile_converges [OF _ ascending_ok, of demo_fleet 2] by auto
qed

text \<open>Scaling down spares the busy: no microVM is moved or loses its pod, and a ready pod
  that is drained runs fewer microVMs than every ready pod that is not, or as many under a
  smaller name.\<close>

theorem drains_spare_the_busy:
  assumes "pods_reachable w" and "pod_orders_ok os" and "reconcile os w d = Some w'"
  shows "assigned (pod_sched w') = assigned (pod_sched w) \<and>
    (\<forall>vm i. assigned (pod_sched w) vm = Some i \<longrightarrow> i \<in> dom (hosts (pod_sched w'))) \<and>
    (\<forall>i \<in> ready_pods w - ready_pods w'. \<forall>j \<in> ready_pods w \<inter> ready_pods w'. \<forall>h g.
       hosts (pod_sched w) i = Some h \<longrightarrow> hosts (pod_sched w) j = Some g \<longrightarrow>
       used h < used g \<or> used h = used g \<and> i < j)"
proof -
  note inv = pods_reachable_inv [OF assms(1)]
  from reconcile_ok [OF inv assms(2), of d] assms(3) have ev: "evolves w w'"
    and out: "if int (card (live_pods w)) \<le> d
      then \<forall>i h. reaped UNIV (hosts (pod_sched w)) i = Some h \<longrightarrow> hosts (pod_sched w') i = Some h
      else drains_emptiest w (nat (int (card (live_pods w)) - d)) w'"
    by (auto split: if_splits)
  have asg: "assigned (pod_sched w') = assigned (pod_sched w)" using ev by (simp add: evolves_def)
  have "i \<in> dom (hosts (pod_sched w'))" if "assigned (pod_sched w) vm = Some i" for vm i
    using sched_invD(4) [OF pods_invD(1) [OF evolvesD [OF ev]], of vm i] that asg by auto
  moreover have "used h < used g \<or> used h = used g \<and> i < j"
    if ij: "i \<in> ready_pods w - ready_pods w'" "j \<in> ready_pods w \<inter> ready_pods w'"
      "hosts (pod_sched w) i = Some h" "hosts (pod_sched w) j = Some g" for i j h g
  proof (cases "int (card (live_pods w)) \<le> d")
    case True
    with out have "ready_pods w \<subseteq> ready_pods w'" by (intro kept_ready) simp
    with ij(1) show ?thesis by blast
  next
    case False
    with out obtain D where D: "hosts (pod_sched w') = reaped UNIV (drained D (hosts (pod_sched w)))"
      "\<forall>i \<in> D. \<forall>j \<in> ready_pods w - D. \<forall>h g. hosts (pod_sched w) i = Some h \<longrightarrow>
         hosts (pod_sched w) j = Some g \<longrightarrow> (used h, i) < (used g, j)"
      by (auto simp: drains_emptiest_def)
    have "i \<in> D" "j \<in> ready_pods w - D" using ij(1,2) by (auto simp: drained_live [OF D(1)])
    then have "(used h, i) < (used g, j)" using D(2) ij(3,4) by blast
    then show ?thesis by auto
  qed
  ultimately show ?thesis using asg by blast
qed

theorem drains_spare_the_busy_witness:
  "\<exists>w w'. run fleet_step [PodReconcile ascending 2, PodPlace ''x''] demo_fleet = Some w \<and>
     reconcile ascending w 1 = Some w' \<and> assigned (pod_sched w') = assigned (pod_sched w)"
proof -
  from demo_fleet_runs obtain w where
    w: "run fleet_step [PodReconcile ascending 2, PodPlace ''x''] demo_fleet = Some w" by blast
  note r = demo_fleet_reachable [OF w]
  from reconcile_total [OF pods_reachable_inv [OF r] ascending_ok] obtain w' where
    "reconcile ascending w 1 = Some w'" by blast
  with w drains_spare_the_busy [OF r ascending_ok this] show ?thesis by blast
qed

subsection \<open>Too many pods, most of them starting\<close>

text \<open>
  \<^verbatim>\<open>reconcile\<close> counts the pods still starting as live but can drain only ready ones. When the
  surplus is at least the number of ready pods it drains every one of them, and the run
  goes on with no pod serving until a start timer fires.
\<close>

lemma surplus_drains_all_ready:
  assumes w: "pods_inv w" "pod_orders_ok os" "reconcile os w d = Some w'"
    and starting: "d < int (card (live_pods w))" "d \<le> int (card (live_pods w)) - int (card (ready_pods w))"
  shows "ready_pods w' = {}"
proof -
  from reconcile_ok [OF w(1,2), of d] w(3) starting(1)
  obtain D where D: "D \<subseteq> ready_pods w"
    "card D = min (nat (int (card (live_pods w)) - d)) (card (ready_pods w))"
    "hosts (pod_sched w') = reaped UNIV (drained D (hosts (pod_sched w)))"
    by (auto simp: drains_emptiest_def)
  have "card D = card (ready_pods w)" using D(2) starting by (simp add: min_def) linarith
  then have "D = ready_pods w" using D(1) hosts_with_finite [OF w(1)] by (intro card_subset_eq) auto
  then show ?thesis using drained_live [OF D(3)] by simp
qed

text \<open>A run in which it happens: one pod ready, one starting, and a single pod wanted.\<close>

lemma ready_pod_drained_for_a_starting_one:
  "\<exists>w. run fleet_step [PodReconcile ascending 1, PodTimer (pod_name 0) False, PodReconcile ascending 2]
      (new_fleet (New BestFit) 2 second) = Some w \<and> ready_pods w = {pod_name 0} \<and>
    (\<exists>w'. reconcile ascending w 1 = Some w' \<and> ready_pods w' = {})"
proof -
  let ?p0 = "pod_name 0" and ?p1 = "pod_name 1"
  define f where "f = new_fleet (New BestFit) 2 second"
  have f: "pods_inv f" "pod_timers f = []" "startLatency f = second" "pod_next f = 0"
      "hosts (pod_sched f) = Map.empty"
    by (simp_all add: f_def new_fleet_inv MinSlotsPerHost_def) (simp_all add: new_fleet_def New_def)
  have lat: "0 < second" by (simp add: second_def)
  have ne: "?p1 \<noteq> ?p0" by (simp add: pod_name_inject)
  from start_one_ok [OF f(1)] f lat obtain w1 where w1: "start_one f = Some w1" "evolves f w1"
    "pod_next w1 = 1" "hosts (pod_sched w1) = [?p0 \<mapsto> new_pod f ?p0]" "pod_timers w1 = [?p0]"
    by auto
  have r1: "reconcile ascending f 1 = Some w1"
    using w1(1) f pods_invD(5) [OF f(1)]
    by (simp add: reconcile_def reapDrained_def Hosts_def startHosts_def Let_def)
  let ?w1 = "w1\<lparr>pod_timers := []\<rparr>"
  have "pods_inv ?w1" using evolvesD [OF w1(2)] by (simp add: pods_inv_def given_name_def)
  from markReady_ok [OF this, of ?p0] w1(4) lat f(3) obtain w2 where
    w2: "markReady ?w1 ?p0 = Some w2" "evolves ?w1 w2" "pod_next w2 = 1"
      "hosts (pod_sched w2) = [?p0 \<mapsto> (new_pod f ?p0)\<lparr>state := HostReady\<rparr>]"
    using w1(3) by (auto simp: new_pod_def)
  have r2: "pod_timer w1 ?p0 False = Some w2" using w2(1) w1(5) by (simp add: pod_timer_def)
  note inv2 = evolvesD [OF w2(2)]
  have "pod_draining w2 = Map.empty"
    using pods_invD(5) [OF inv2] w2(4) by (auto simp: drains_def fun_eq_iff)
  moreover from start_one_ok [OF inv2] w2(3,4) obtain w3 where w3: "start_one w2 = Some w3"
    "evolves w2 w3" "hosts (pod_sched w3) =
       [?p0 \<mapsto> (new_pod f ?p0)\<lparr>state := HostReady\<rparr>, ?p1 \<mapsto> new_pod w2 ?p1]" by auto
  ultimately have r3: "reconcile ascending w2 2 = Some w3"
    using w2(4) by (simp add: reconcile_def reapDrained_def Hosts_def startHosts_def Let_def
        snapshot_def numeral_2_eq_2)
  have lat2: "startLatency w2 = second"
    using w1(2) w2(2) f(3) by (simp add: evolves_def)
  have sets: "ready_pods w3 = {?p0}" "live_pods w3 = {?p0, ?p1}"
    using ne lat lat2 by (auto simp: hosts_with_def w3(3) new_pod_def)
  have "run fleet_step [PodReconcile ascending 1, PodTimer ?p0 False, PodReconcile ascending 2] f = Some w3"
    using r1 r2 r3 ascending_ok by (simp add: fleet_step_def)
  moreover from reconcile_total [OF evolvesD [OF w3(2)] ascending_ok] obtain w' where
    w': "reconcile ascending w3 1 = Some w'" by blast
  moreover have "ready_pods w' = {}"
    using surplus_drains_all_ready [OF evolvesD [OF w3(2)] ascending_ok w'] sets ne by simp
  ultimately show ?thesis using sets(1) unfolding f_def by blast
qed

end
