(* ===== verification/Sim.thy ===== *)
theory Sim
  imports Fleet Autoscale Placement LoadGen
begin

section \<open>The simulated run (internal/sim/sim.go)\<close>

text \<open>
  A run drives the placement service with generated load, samples the system on a fixed
  interval, lets the autoscaler decide and reconciles the simulated fleet, and sums the
  timeline up at the end. Here are the configuration, one sampling step, the pieces of code a
  request runs through, and the summary with its percentiles and the two ratios of the result;
  theory \<open>SimRun\<close> puts them together with the goroutines of a run. What a step reads of the
  placement service comes as an argument.
\<close>

subsection \<open>Configuration\<close>

record sim_config =
  sim_Envelope :: "Envelope option"
  sim_Seed :: u64
  sim_MeanTTL :: duration
  sim_SlotsPerHost :: int
  PodStartLatency :: duration
  SampleInterval :: duration
  sim_Autoscale :: as_config
  sim_Placement :: p_config

datatype sim_error =
    SimNoEnvelope
  | SimBadMeanTTL duration
  | SimBadSlots int
  | SimNegativeStartLatency
  | SimBadSampleInterval duration
  | SimAutoscale as_error

definition sim_Validate :: "sim_config \<Rightarrow> sim_error option" where
  "sim_Validate c =
     (if (case sim_Envelope c of None \<Rightarrow> True | Some e \<Rightarrow> Duration e \<le> 0) then Some SimNoEnvelope
      else if sim_MeanTTL c \<le> 0 then Some (SimBadMeanTTL (sim_MeanTTL c))
      else if sim_SlotsPerHost c < MinSlotsPerHost then Some (SimBadSlots (sim_SlotsPerHost c))
      else if PodStartLatency c < 0 then Some SimNegativeStartLatency
      else if SampleInterval c \<le> 0 then Some (SimBadSampleInterval (SampleInterval c))
      else map_option SimAutoscale (as_Validate (sim_Autoscale c)))"

subsection \<open>Snapshots and the result\<close>

record sim_snapshot =
  Elapsed :: duration
  OfferedRate :: real
  snap_InflightVMs :: int
  DesiredHosts :: int
  ReadyHosts :: int
  PendingHosts :: int
  DrainingHosts :: int
  IdleHosts :: int
  snap_Utilisation :: real
  snap_QueueDepth :: int
  snap_Dropped :: u64

record sim_result =
  Offered :: int
  Placed :: int
  res_Dropped :: u64
  res_TimedOut :: u64
  res_QueueRejected :: u64
  PeakInflight :: int
  PeakHosts :: int
  MaxQueueDepth :: u64
  HostSeconds :: real
  IdleHostSeconds :: real
  WaitP50 :: duration
  WaitP99 :: duration
  WaitMax :: duration
  Timeline :: "sim_snapshot list"

definition PlacementRate :: "sim_result \<Rightarrow> real" where
  "PlacementRate r = (if Offered r = 0 then 0 else real_of_int (Placed r) / real_of_int (Offered r))"

definition IdleFraction :: "sim_result \<Rightarrow> real" where
  "IdleFraction r = (if HostSeconds r = 0 then 0 else IdleHostSeconds r / HostSeconds r)"

subsection \<open>One sampling step\<close>

record runner =
  run_cfg :: sim_config
  run_scaler :: autoscaler
  run_fleet :: pods
  run_offered :: i64
  run_placed :: i64
  run_arrivals :: i64
  run_waits :: "duration list"
  run_peakInflight :: i64

text \<open>
  \<open>os\<close> holds the iteration orders, \<open>ps\<close> is what \<^verbatim>\<open>r.svc.Stats()\<close> reads. A panic of the
  scheduler is \<open>None\<close>.
\<close>

definition sim_step ::
  "(real \<Rightarrow> int) \<Rightarrow> pod_orders \<Rightarrow> p_stats \<Rightarrow> instant \<Rightarrow> instant \<Rightarrow> runner \<Rightarrow>
     (sim_snapshot \<times> runner) option"
where
  "sim_step oob os ps start now r =
     (let arrivals = run_arrivals r;
          r1 = r\<lparr>run_arrivals := 0\<rparr>;
          rate = real_of_int (sint arrivals) / seconds (SampleInterval (run_cfg r1));
          s = pod_sched (run_fleet r1);
          stats = sched_Stats s (snap_ord os (hosts s));
          (decision, scaler) =
            Decide oob (run_scaler r1)
              \<lparr>At = now, ArrivalRate = rate, InflightVMs = st_InflightVMs stats\<rparr>;
          r2 = r1\<lparr>run_scaler := scaler\<rparr>
      in do {
           w \<leftarrow> reconcile os (run_fleet r2) (Replicas decision);
           let s' = pod_sched w;
           let after = sched_Stats s' (snap_ord os (hosts s'));
           Some
             (\<lparr>Elapsed = time_sub now start, OfferedRate = rate,
               snap_InflightVMs = st_InflightVMs stats, DesiredHosts = Replicas decision,
               ReadyHosts = st_ReadyHosts after,
               PendingHosts = st_Hosts after - st_ReadyHosts after - st_DrainingHosts after,
               DrainingHosts = st_DrainingHosts after, IdleHosts = st_IdleHosts after,
               snap_Utilisation = Utilisation after, snap_QueueDepth = ps_CurrentQueueLen ps,
               snap_Dropped = Dropped ps\<rparr>,
              r2\<lparr>run_fleet := w\<rparr>)
         })"

text \<open>The sampler: one step per tick until it is stopped, each tick with what the step reads.\<close>

fun sample_loop ::
  "(real \<Rightarrow> int) \<Rightarrow> instant \<Rightarrow> (pod_orders \<times> p_stats \<times> instant) list \<Rightarrow> sim_snapshot list \<Rightarrow> runner \<Rightarrow>
     (sim_snapshot list \<times> runner) option"
where
  "sample_loop oob start [] timeline r = Some (timeline, r)"
| "sample_loop oob start ((os, ps, now) # ticks) timeline r =
     do {
       (snap, r1) \<leftarrow> sim_step oob os ps start now r;
       sample_loop oob start ticks (timeline @ [snap]) r1
     }"

subsection \<open>Requests\<close>

text \<open>What the loop of \<^verbatim>\<open>run\<close> does at an arrival: the identifier of the microVM, and the counters.\<close>

definition run_offer :: "runner \<Rightarrow> string \<times> runner" where
  "run_offer r =
     (let r1 = r\<lparr>run_offered := run_offered r + 1\<rparr>;
          r2 = r1\<lparr>run_arrivals := run_arrivals r1 + 1\<rparr>
      in (''vm-'' @ itoa (sint (run_offered r2)), r2))"

text \<open>The request \<^verbatim>\<open>issue\<close> admits, and what it does when that succeeds: the counter; the wait,
  under its mutex; the in-flight count it reads; the comparison with the peak; and the store,
  which is a step of its own.\<close>

definition issue_request :: "runner \<Rightarrow> string \<Rightarrow> Request" where
  "issue_request r i = \<lparr>VMID = i, TTL = sim_MeanTTL (run_cfg r)\<rparr>"

definition issue_counted :: "runner \<Rightarrow> runner" where
  "issue_counted r = r\<lparr>run_placed := run_placed r + 1\<rparr>"

definition issue_waited :: "runner \<Rightarrow> Result \<Rightarrow> runner" where
  "issue_waited r res = r\<lparr>run_waits := run_waits r @ [res_Wait res]\<rparr>"

definition issue_inflight :: "pod_orders \<Rightarrow> runner \<Rightarrow> int" where
  "issue_inflight os r =
     (let s = pod_sched (run_fleet r) in st_InflightVMs (sched_Stats s (snap_ord os (hosts s))))"

definition issue_above_peak :: "runner \<Rightarrow> int \<Rightarrow> bool" where
  "issue_above_peak r inflight \<longleftrightarrow> inflight > sint (run_peakInflight r)"

definition issue_store_peak :: "runner \<Rightarrow> int \<Rightarrow> runner" where
  "issue_store_peak r inflight = r\<lparr>run_peakInflight := of_int inflight\<rparr>"

text \<open>\<^verbatim>\<open>sampleTTL\<close>; \<open>x\<close> is the draw of \<^verbatim>\<open>ExpFloat64\<close>.\<close>

definition sampleTTL :: "(real \<Rightarrow> int) \<Rightarrow> runner \<Rightarrow> real \<Rightarrow> duration" where
  "sampleTTL oob r x = float_to_int64 oob (x * real_of_int (sim_MeanTTL (run_cfg r)))"

subsection \<open>The summary\<close>

text \<open>The index of a quantile, and the percentiles of the waits.\<close>

definition quantile_index :: "real \<Rightarrow> int \<Rightarrow> int" where
  "quantile_index q n =
     (let idx0 = \<lceil>q * real_of_int n\<rceil> - 1;
          idx1 = (if idx0 < 0 then 0 else idx0)
      in if idx1 \<ge> n then n - 1 else idx1)"

definition percentiles :: "duration list \<Rightarrow> (duration \<times> duration \<times> duration) option" where
  "percentiles d0 =
     (if d0 = [] then Some (0, 0, 0)
      else
        let d = sort d0; n = int (length d) in
        do {
          p50 \<leftarrow> go_index d (quantile_index (1 / 2) n);
          p99 \<leftarrow> go_index d (quantile_index (99 / 100) n);
          top \<leftarrow> go_index d (n - 1);
          Some (p50, p99, top)
        })"

fun timeline_loop :: "duration \<Rightarrow> sim_snapshot list \<Rightarrow> sim_result \<Rightarrow> sim_result" where
  "timeline_loop ival [] res = res"
| "timeline_loop ival (s # ss) res =
     (let res1 = (if ReadyHosts s > PeakHosts res then res\<lparr>PeakHosts := ReadyHosts s\<rparr> else res);
          res2 = res1\<lparr>HostSeconds := HostSeconds res1 + real_of_int (ReadyHosts s) * seconds ival\<rparr>;
          res3 = res2\<lparr>IdleHostSeconds := IdleHostSeconds res2 + real_of_int (IdleHosts s) * seconds ival\<rparr>
      in timeline_loop ival ss res3)"

text \<open>\<^verbatim>\<open>finish\<close> after its last step: \<open>sampled\<close> is the timeline the sampler hands over, empty when
  it does not in time, \<open>final\<close> the snapshot of the last step.\<close>

definition finish :: "runner \<Rightarrow> p_stats \<Rightarrow> sim_snapshot list \<Rightarrow> sim_snapshot \<Rightarrow> sim_result option" where
  "finish r ps sampled final =
     (let timeline = sampled @ [final];
          res = timeline_loop (SampleInterval (run_cfg r)) timeline
            \<lparr>Offered = sint (run_offered r), Placed = sint (run_placed r), res_Dropped = Dropped ps,
             res_TimedOut = ps_TimedOut ps, res_QueueRejected = ps_QueueRejected ps,
             PeakInflight = sint (run_peakInflight r), PeakHosts = 0,
             MaxQueueDepth = ps_MaxQueueLen ps, HostSeconds = 0, IdleHostSeconds = 0,
             WaitP50 = 0, WaitP99 = 0, WaitMax = 0, Timeline = timeline\<rparr>
      in map_option (\<lambda>(p50, p99, top). res\<lparr>WaitP50 := p50, WaitP99 := p99, WaitMax := top\<rparr>)
           (percentiles (run_waits r)))"

text \<open>The runner \<^verbatim>\<open>Run\<close> starts with, up to its first reconciliation.\<close>

datatype sim_run_error =
    SimConfig sim_error
  | SimPlacement p_error
  | SimScaler as_error

definition sim_Run_start ::
  "sim_config \<Rightarrow> pod_orders \<Rightarrow> (sim_run_error + runner) option" where
  "sim_Run_start cfg os =
     (case sim_Validate cfg of
        Some e \<Rightarrow> Some (Inl (SimConfig e))
      | None \<Rightarrow>
          let s = New BestFit in
          (case svc_New (Some s) (sim_Placement cfg) of
             Inl e \<Rightarrow> Some (Inl (SimPlacement e))
           | Inr svc \<Rightarrow>
               (case as_New (sim_Autoscale cfg) of
                  Inl e \<Rightarrow> Some (Inl (SimScaler e))
                | Inr scaler \<Rightarrow>
                    map_option (\<lambda>w. Inr
                        \<lparr>run_cfg = cfg, run_scaler = scaler, run_fleet = w, run_offered = 0,
                         run_placed = 0, run_arrivals = 0, run_waits = [], run_peakInflight = 0\<rparr>)
                      (reconcile os (new_fleet s (sim_SlotsPerHost cfg) (PodStartLatency cfg))
                         (MinReplicas (sim_Autoscale cfg))))))"

end
