(* ===== verification/SimRun.thy ===== *)
theory SimRun
  imports Sim Machine
begin

section \<open>A simulated run (internal/sim/sim.go)\<close>

text \<open>
  The runner with all its goroutines: the loop that offers the arrivals, one goroutine of
  \<^verbatim>\<open>issue\<close> per request, the sampler and the fleet's timers. A step is one access to what they
  share: an atomic, the section under a mutex, a call of the scheduler. The answer of the
  placement service, its statistics, the instants and the random draws come with the events.
\<close>

text \<open>Where the goroutine of a request is: before it calls \<^verbatim>\<open>Admit\<close>; placed and about to be counted;
  counted, its wait to append; about to read the in-flight count; with the count read; about to
  store a new peak; about to draw its lifetime; serving for that long; gone.\<close>

datatype sim_task =
    SimSpawned string
  | SimPlaced string Result
  | SimCounted string Result
  | SimWaited string
  | SimSeen string int
  | SimStore string int
  | SimDraw string
  | SimServing string duration
  | SimGone

record sim_run =
  sr_runner :: runner
  sr_started :: instant
  sr_spawned :: nat
  sr_tasks :: "nat \<rightharpoonup> sim_task"
  sr_timeline :: "sim_snapshot list"

definition new_run :: "runner \<Rightarrow> instant \<Rightarrow> sim_run" where
  "new_run r start = \<lparr>sr_runner = r, sr_started = start, sr_spawned = 0, sr_tasks = Map.empty, sr_timeline = []\<rparr>"

definition goto :: "sim_run \<Rightarrow> nat \<Rightarrow> runner \<Rightarrow> sim_task \<Rightarrow> sim_run" where
  "goto s k r t = s\<lparr>sr_runner := r, sr_tasks := (sr_tasks s)(k \<mapsto> t)\<rparr>"

text \<open>An arrival is offered and its goroutine started.\<close>

definition run_spawn :: "sim_run \<Rightarrow> sim_run" where
  "run_spawn s =
     (let (i, r) = run_offer (sr_runner s); k = Suc (sr_spawned s)
      in goto (s\<lparr>sr_spawned := k\<rparr>) k r (SimSpawned i))"

text \<open>\<^verbatim>\<open>Admit\<close> returns.\<close>

definition issue_admitted :: "sim_run \<Rightarrow> nat \<Rightarrow> p_error + Result \<Rightarrow> sim_run option" where
  "issue_admitted s k res =
     (case sr_tasks s k of
        Some (SimSpawned i) \<Rightarrow>
          Some (goto s k (sr_runner s) (case res of Inl e \<Rightarrow> SimGone | Inr r \<Rightarrow> SimPlaced i r))
      | _ \<Rightarrow> None)"

text \<open>The steps of \<^verbatim>\<open>issue\<close> after a placement, up to the wait for the lifetime \<open>ttl\<close> drawn from \<open>x\<close>.\<close>

definition issue_next :: "(real \<Rightarrow> int) \<Rightarrow> pod_orders \<Rightarrow> real \<Rightarrow> sim_run \<Rightarrow> nat \<Rightarrow> sim_run option" where
  "issue_next oob os x s k =
     (let r = sr_runner s in
      case sr_tasks s k of
        Some (SimPlaced i res) \<Rightarrow> Some (goto s k (issue_counted r) (SimCounted i res))
      | Some (SimCounted i res) \<Rightarrow> Some (goto s k (issue_waited r res) (SimWaited i))
      | Some (SimWaited i) \<Rightarrow> Some (goto s k r (SimSeen i (issue_inflight os r)))
      | Some (SimSeen i n) \<Rightarrow> Some (goto s k r (if issue_above_peak r n then SimStore i n else SimDraw i))
      | Some (SimStore i n) \<Rightarrow> Some (goto s k (issue_store_peak r n) (SimDraw i))
      | Some (SimDraw i) \<Rightarrow> Some (goto s k r (SimServing i (sampleTTL oob r x)))
      | _ \<Rightarrow> None)"

text \<open>The lifetime is over or the context cancelled: the slot is released, whatever the answer.\<close>

definition issue_release :: "sim_run \<Rightarrow> nat \<Rightarrow> sim_run option" where
  "issue_release s k =
     (case sr_tasks s k of
        Some (SimServing i ttl) \<Rightarrow>
          do {
            (_, s1) \<leftarrow> Release (pod_sched (run_fleet (sr_runner s))) i;
            Some (goto s k ((sr_runner s)\<lparr>run_fleet := (run_fleet (sr_runner s))\<lparr>pod_sched := s1\<rparr>\<rparr>) SimGone)
          }
      | _ \<Rightarrow> None)"

text \<open>A tick of the sampler.\<close>

definition sampler_tick :: "(real \<Rightarrow> int) \<Rightarrow> pod_orders \<Rightarrow> p_stats \<Rightarrow> instant \<Rightarrow> sim_run \<Rightarrow> sim_run option" where
  "sampler_tick oob os ps now s =
     do {
       (snap, r) \<leftarrow> sim_step oob os ps (sr_started s) now (sr_runner s);
       Some (s\<lparr>sr_runner := r, sr_timeline := sr_timeline s @ [snap]\<rparr>)
     }"

datatype run_event =
    RunSpawn
  | RunAdmitted nat "p_error + Result"
  | RunNext nat pod_orders real
  | RunRelease nat
  | RunTick pod_orders p_stats instant
  | RunTimer host_id bool
  | RunPlace vm_id

fun run_step :: "(real \<Rightarrow> int) \<Rightarrow> run_event \<Rightarrow> sim_run \<Rightarrow> sim_run option" where
  "run_step oob RunSpawn s = Some (run_spawn s)"
| "run_step oob (RunAdmitted k res) s = issue_admitted s k res"
| "run_step oob (RunNext k os x) s = issue_next oob os x s k"
| "run_step oob (RunRelease k) s = issue_release s k"
| "run_step oob (RunTick os ps now) s = sampler_tick oob os ps now s"
| "run_step oob (RunTimer i cancelled) s =
     map_option (\<lambda>w. s\<lparr>sr_runner := (sr_runner s)\<lparr>run_fleet := w\<rparr>\<rparr>)
       (pod_timer (run_fleet (sr_runner s)) i cancelled)"
| "run_step oob (RunPlace vm) s =
     map_option (\<lambda>(r, s1). s\<lparr>sr_runner := (sr_runner s)\<lparr>run_fleet := (run_fleet (sr_runner s))\<lparr>pod_sched := s1\<rparr>\<rparr>\<rparr>)
       (Place (pod_sched (run_fleet (sr_runner s))) vm)"

text \<open>The end of \<^verbatim>\<open>run\<close>, once every goroutine is gone: a last step, and the summary of the timeline.
  \<open>handed\<close> tells whether the sampler hands its part over in time; without it the summary has only
  the last step.\<close>

definition run_result ::
  "(real \<Rightarrow> int) \<Rightarrow> pod_orders \<Rightarrow> p_stats \<Rightarrow> p_stats \<Rightarrow> bool \<Rightarrow> instant \<Rightarrow> sim_run \<Rightarrow> sim_result option" where
  "run_result oob os ps ps' handed now s =
     do {
       (final, r) \<leftarrow> sim_step oob os ps (sr_started s) now (sr_runner s);
       finish r ps' (if handed then sr_timeline s else []) final
     }"

end
