(* ===== verification/SimMain.thy ===== *)
theory SimMain
  imports SimRun
begin

section \<open>The goroutine that runs a simulation (internal/sim/sim.go)\<close>

text \<open>
  \<^verbatim>\<open>run\<close> itself, on top of the goroutines of theory \<open>SimRun\<close>: it draws the arrivals of the configured
  envelope one by one, waits for each, starts its goroutine, gives up when its context is
  cancelled, and at the end waits for all the requests, stops the sampler and sums up.
\<close>

text \<open>Where it is: before the next draw; waiting for an arrival; in \<^verbatim>\<open>wg.Wait\<close>; in \<^verbatim>\<open>finish\<close>; returned,
  with the result or the error of the context.\<close>

datatype sim_pos = SmNext | SmDue duration | SmJoining | SmFinishing | SmReturned "sim_result option"

text \<open>\<open>sm_stopped\<close> is \<^verbatim>\<open>stopSampling\<close>; \<open>sm_sampled\<close> tells that the sampler has seen it, or the
  cancellation, and has handed its timeline over.\<close>

record 'g sim_main =
  sm_run :: sim_run
  sm_proc :: "'g Process"
  sm_pos :: sim_pos
  sm_cancelled :: bool
  sm_stopped :: bool
  sm_sampled :: bool

definition sim_main_start :: "'g rand_lib \<Rightarrow> runner \<Rightarrow> instant \<Rightarrow> process_error + 'g sim_main" where
  "sim_main_start R r begun =
     (case NewProcess R (sim_Envelope (run_cfg r)) (sim_Seed (run_cfg r)) of
        Inl e \<Rightarrow> Inl e
      | Inr p \<Rightarrow> Inr \<lparr>sm_run = new_run r begun, sm_proc = p, sm_pos = SmNext, sm_cancelled = False,
                     sm_stopped = False, sm_sampled = False\<rparr>)"

text \<open>The draw of the next arrival, which may never return: then there is no step.\<close>

definition main_next :: "(real \<Rightarrow> int) \<Rightarrow> 'g rand_lib \<Rightarrow> 'g sim_main \<Rightarrow> 'g sim_main option" where
  "main_next oob R m =
     (if sm_pos m \<noteq> SmNext then None
      else
        do {
          ((t, ok), p) \<leftarrow> Next oob R (sm_proc m);
          Some (m\<lparr>sm_proc := p, sm_pos := if ok then SmDue t else SmJoining\<rparr>)
        })"

text \<open>The end of the wait for an arrival, at the instant \<open>now\<close>.\<close>

definition main_due :: "instant \<Rightarrow> 'g sim_main \<Rightarrow> 'g sim_main option" where
  "main_due now m =
     (case sm_pos m of
        SmDue t \<Rightarrow>
          if sm_cancelled m then Some (m\<lparr>sm_stopped := True, sm_pos := SmReturned None\<rparr>)
          else if now < sr_started (sm_run m) + t then None
          else Some (m\<lparr>sm_run := run_spawn (sm_run m), sm_pos := SmNext\<rparr>)
      | _ \<Rightarrow> None)"

definition main_join :: "'g sim_main \<Rightarrow> 'g sim_main option" where
  "main_join m =
     (if sm_pos m = SmJoining \<and>
         list_all (\<lambda>k. sr_tasks (sm_run m) k = Some SimGone) [1..<Suc (sr_spawned (sm_run m))]
      then Some (m\<lparr>sm_stopped := True, sm_pos := SmFinishing\<rparr>) else None)"

definition main_finish ::
  "(real \<Rightarrow> int) \<Rightarrow> pod_orders \<Rightarrow> p_stats \<Rightarrow> p_stats \<Rightarrow> bool \<Rightarrow> instant \<Rightarrow> 'g sim_main \<Rightarrow> 'g sim_main option" where
  "main_finish oob os ps ps' handed now m =
     (if sm_pos m = SmFinishing \<and> (handed \<longrightarrow> sm_sampled m)
      then map_option (\<lambda>res. m\<lparr>sm_pos := SmReturned (Some res)\<rparr>) (run_result oob os ps ps' handed now (sm_run m))
      else None)"

text \<open>The other goroutines: a tick of the sampler only while it runs; arrivals are \<open>main_due\<close>'s.\<close>

definition others_move :: "(real \<Rightarrow> int) \<Rightarrow> run_event \<Rightarrow> 'g sim_main \<Rightarrow> 'g sim_main option" where
  "others_move oob e m =
     (if e = RunSpawn \<or> (case e of RunTick os ps now \<Rightarrow> sm_sampled m | _ \<Rightarrow> False) then None
      else map_option (\<lambda>s. m\<lparr>sm_run := s\<rparr>) (run_step oob e (sm_run m)))"

definition sampler_leaves :: "'g sim_main \<Rightarrow> 'g sim_main option" where
  "sampler_leaves m =
     (if \<not> sm_sampled m \<and> (sm_stopped m \<or> sm_cancelled m) then Some (m\<lparr>sm_sampled := True\<rparr>) else None)"

datatype main_event =
    MNext
  | MDue instant
  | MJoin
  | MFinish pod_orders p_stats p_stats bool instant
  | MOther run_event
  | MSamplerLeaves
  | MCancel

fun main_step :: "(real \<Rightarrow> int) \<Rightarrow> 'g rand_lib \<Rightarrow> main_event \<Rightarrow> 'g sim_main \<Rightarrow> 'g sim_main option" where
  "main_step oob R MNext m = main_next oob R m"
| "main_step oob R (MDue now) m = main_due now m"
| "main_step oob R MJoin m = main_join m"
| "main_step oob R (MFinish os ps ps' handed now) m = main_finish oob os ps ps' handed now m"
| "main_step oob R (MOther e) m = others_move oob e m"
| "main_step oob R MSamplerLeaves m = sampler_leaves m"
| "main_step oob R MCancel m = Some (m\<lparr>sm_cancelled := True\<rparr>)"

end
