(* ===== verification/SimProps.thy ===== *)
theory SimProps
  imports Sim FleetProps AutoscaleProps "HOL-Library.Multiset"
begin

section \<open>Correctness of the simulated run\<close>

text \<open>
  What a sampling step reports is consistent with the fleet it leaves behind and with the
  decision it acted on, in every state of a run; the summary of a run is made of such
  snapshots, and its percentiles are order statistics of the recorded waits.
\<close>

subsection \<open>Percentiles\<close>

lemma sorted_rank:
  fixes d :: "'a::linorder list"
  assumes "sorted d" "i < length d"
  shows "i < length (filter (\<lambda>y. y \<le> d ! i) d)" "length (filter (\<lambda>y. y < d ! i) d) \<le> i"
proof -
  have split: "d = take i d @ d ! i # drop (Suc i) d" using assms(2) by (rule id_take_nth_drop)
  have below: "\<forall>y \<in> set (take i d). y \<le> d ! i"
    using assms by (auto simp: in_set_conv_nth intro!: sorted_nth_mono)
  have above: "\<forall>y \<in> set (drop (Suc i) d). d ! i \<le> y"
    using assms by (auto simp: in_set_conv_nth intro!: sorted_nth_mono)
  have len: "length (take i d) = i" using assms(2) by simp
  have "filter (\<lambda>y. y \<le> d ! i) (take i d @ d ! i # drop (Suc i) d) =
      take i d @ d ! i # filter (\<lambda>y. y \<le> d ! i) (drop (Suc i) d)"
    using below by (simp add: filter_id_conv)
  then show "i < length (filter (\<lambda>y. y \<le> d ! i) d)"
    using len unfolding split [symmetric] by simp
  have "filter (\<lambda>y. y < d ! i) (take i d @ d ! i # drop (Suc i) d) =
      filter (\<lambda>y. y < d ! i) (take i d)"
    using above by (auto simp: filter_empty_conv)
  then show "length (filter (\<lambda>y. y < d ! i) d) \<le> i"
    using length_filter_le [of "\<lambda>y. y < d ! i" "take i d"] len unfolding split [symmetric] by simp
qed

lemma count_sort: "length (filter P (sort xs)) = length (filter P (xs :: 'a::linorder list))"
proof -
  have "mset (filter P (sort xs)) = mset (filter P xs)" by simp
  then show ?thesis by (rule mset_eq_length)
qed

text \<open>At least the share \<open>q\<close> of the values is at most \<open>x\<close>, and less than that share is below it.\<close>

definition is_quantile :: "real \<Rightarrow> duration list \<Rightarrow> duration \<Rightarrow> bool" where
  "is_quantile q ws x \<longleftrightarrow> x \<in> set ws \<and>
     q * real (length ws) \<le> real (length (filter (\<lambda>y. y \<le> x) ws)) \<and>
     real (length (filter (\<lambda>y. y < x) ws)) < q * real (length ws)"

lemma quantile_index_ok:
  assumes "0 < q" "q \<le> 1" "0 < n"
  shows "quantile_index q n = \<lceil>q * real_of_int n\<rceil> - 1" "0 \<le> quantile_index q n" "quantile_index q n < n"
proof -
  have "0 < q * real_of_int n" using assms by simp
  then have 1: "1 \<le> \<lceil>q * real_of_int n\<rceil>" by linarith
  have "q * real_of_int n \<le> real_of_int n" using assms by simp
  then have 2: "\<lceil>q * real_of_int n\<rceil> \<le> n" by linarith
  from 1 2 show "quantile_index q n = \<lceil>q * real_of_int n\<rceil> - 1" "0 \<le> quantile_index q n"
    "quantile_index q n < n" by (simp_all add: quantile_index_def Let_def)
qed

lemma quantile_at_index:
  assumes q: "0 < q" "q \<le> 1" and ws: "ws \<noteq> []"
  shows "\<exists>x. go_index (sort ws) (quantile_index q (int (length ws))) = Some x \<and> is_quantile q ws x \<and>
    x = sort ws ! nat (quantile_index q (int (length ws)))"
proof -
  let ?n = "int (length ws)" and ?d = "sort ws"
  let ?i = "nat (quantile_index q ?n)"
  have n: "0 < ?n" using ws by simp
  note idx = quantile_index_ok [OF q n]
  have i: "?i < length ?d" using idx(2,3) by simp
  have ceil: "real ?i = real_of_int (\<lceil>q * real (length ws)\<rceil> - 1)" using idx(1,2) by simp
  have "real (length (filter (\<lambda>y. y < ?d ! ?i) ws)) \<le> real ?i"
    using sorted_rank(2) [OF _ i] by (simp add: count_sort)
  moreover have "real ?i < q * real (length ws)" unfolding ceil by linarith
  moreover have "real ?i + 1 \<le> real (length (filter (\<lambda>y. y \<le> ?d ! ?i) ws))"
    using sorted_rank(1) [OF _ i] by (simp add: count_sort)
  moreover have "q * real (length ws) \<le> real ?i + 1" unfolding ceil by linarith
  moreover have "?d ! ?i \<in> set ws" using i nth_mem [of ?i ?d] by simp
  ultimately have "is_quantile q ws (?d ! ?i)" unfolding is_quantile_def by linarith
  then show ?thesis using idx(2,3) by (simp add: go_index_def)
qed

text \<open>The percentiles of a non-empty list of waits are order statistics of it: half of the
  waits are at most the median and fewer than half are below it, 99 in 100 are at most the
  99th percentile and fewer are below it, and the last value is the longest wait. All three
  were measured, and they come in order.\<close>

lemma percentiles_are_order_statistics:
  assumes "ws \<noteq> []"
  shows "\<exists>p50 p99 top. percentiles ws = Some (p50, p99, top) \<and> p50 \<le> p99 \<and> p99 \<le> top \<and>
    is_quantile (1 / 2) ws p50 \<and> is_quantile (99 / 100) ws p99 \<and> top \<in> set ws \<and> (\<forall>x \<in> set ws. x \<le> top)"
proof -
  let ?n = "int (length ws)" and ?d = "sort ws"
  have n: "0 < ?n" using assms by simp
  then have last: "nat (?n - 1) < length ws" by linarith
  obtain p50 where p50: "go_index ?d (quantile_index (1 / 2) ?n) = Some p50"
    "is_quantile (1 / 2) ws p50" "p50 = ?d ! nat (quantile_index (1 / 2) ?n)"
    using quantile_at_index [of "1 / 2", OF _ _ assms] by auto
  obtain p99 where p99: "go_index ?d (quantile_index (99 / 100) ?n) = Some p99"
    "is_quantile (99 / 100) ws p99" "p99 = ?d ! nat (quantile_index (99 / 100) ?n)"
    using quantile_at_index [of "99 / 100", OF _ _ assms] by auto
  let ?top = "?d ! nat (?n - 1)"
  have top: "go_index ?d (?n - 1) = Some ?top" using n by (simp add: go_index_def)
  note i50 = quantile_index_ok [of "1 / 2", OF _ _ n]
  note i99 = quantile_index_ok [of "99 / 100", OF _ _ n]
  have "(1 / 2) * real_of_int ?n \<le> (99 / 100) * real_of_int ?n" by (intro mult_right_mono) simp_all
  then have "\<lceil>(1 / 2) * real_of_int ?n\<rceil> \<le> \<lceil>(99 / 100) * real_of_int ?n\<rceil>" by (rule ceiling_mono)
  then have le: "quantile_index (1 / 2) ?n \<le> quantile_index (99 / 100) ?n"
    using i50(1) i99(1) by simp
  have "p50 \<le> p99" unfolding p50(3) p99(3)
    using le i99(2,3) by (intro sorted_nth_mono) auto
  moreover have "p99 \<le> ?top" unfolding p99(3) using i99(3) last by (intro sorted_nth_mono) auto
  moreover have "x \<le> ?top" if "x \<in> set ws" for x
  proof -
    from that have "x \<in> set ?d" by simp
    then obtain j where "j < length ?d" "x = ?d ! j" by (metis in_set_conv_nth)
    then show ?thesis using n by (auto intro!: sorted_nth_mono)
  qed
  moreover have "?top \<in> set ws" using n nth_mem [of "nat (?n - 1)" ?d] last by simp
  moreover have "percentiles ws = Some (p50, p99, ?top)"
    using p50(1) p99(1) top assms by (simp add: percentiles_def Let_def)
  ultimately show ?thesis using p50(2) p99(2) by blast
qed

subsection \<open>The states of a run\<close>

text \<open>A run starts as \<^verbatim>\<open>Run\<close> sets it up; then sampling steps, and timers, placements and
  releases on its fleet, come in any order, and requests are counted.\<close>

inductive runner_reachable :: "(real \<Rightarrow> int) \<Rightarrow> runner \<Rightarrow> bool" for oob where
  start: "pod_orders_ok os \<Longrightarrow> sim_Run_start cfg os = Some (Inr r) \<Longrightarrow> runner_reachable oob r"
| sample: "runner_reachable oob r \<Longrightarrow> pod_orders_ok os \<Longrightarrow>
    sim_step oob os ps start now r = Some (snap, r') \<Longrightarrow> runner_reachable oob r'"
| service: "runner_reachable oob r \<Longrightarrow> fleet_step e (run_fleet r) = Some w \<Longrightarrow>
    runner_reachable oob (r\<lparr>run_fleet := w\<rparr>)"
| request: "runner_reachable oob r \<Longrightarrow> runner_reachable oob (snd (run_offer r))"
| counted: "runner_reachable oob r \<Longrightarrow> runner_reachable oob (issue_counted r)"
| waited: "runner_reachable oob r \<Longrightarrow> runner_reachable oob (issue_waited r res)"
| peaked: "runner_reachable oob r \<Longrightarrow> runner_reachable oob (issue_store_peak r n)"

definition runner_inv :: "runner \<Rightarrow> bool" where
  "runner_inv r \<longleftrightarrow> pods_inv (run_fleet r) \<and> as_inv (run_scaler r) \<and>
     sim_Validate (run_cfg r) = None \<and> as_cfg (run_scaler r) = as_applyDefaults (sim_Autoscale (run_cfg r))"

lemma sim_Validate_None:
  assumes "sim_Validate c = None"
  shows "MinSlotsPerHost \<le> sim_SlotsPerHost c" "0 < SampleInterval c" "as_Validate (sim_Autoscale c) = None"
  using assms by (auto simp: sim_Validate_def split: if_splits)

lemma as_New_reachable: "as_New cfg = Inr a \<Longrightarrow> as_inv a \<and> as_cfg a = as_applyDefaults cfg"
  using as_reachable_inv [OF as_reachable.start]
  by (auto simp: as_New_def Let_def split: option.splits)

lemma hosts_with_split:
  assumes "finite (hosts_with s (\<lambda>h. state h \<noteq> st))" "finite (hosts_with s (\<lambda>h. state h = st))"
    and "X = hosts_with s (\<lambda>h. state h \<noteq> st) \<union> hosts_with s (\<lambda>h. state h = st)"
  shows "card X = card (hosts_with s (\<lambda>h. state h \<noteq> st)) + card (hosts_with s (\<lambda>h. state h = st))"
  unfolding assms(3) by (rule card_Un_disjoint [OF assms(1,2)]) (auto simp: hosts_with_def)

text \<open>A sampling step, in terms of what it calls.\<close>

lemma sim_step_ok:
  assumes inv: "runner_inv r" and os: "pod_orders_ok os"
  shows "\<exists>snap r' w'. sim_step oob os ps start now r = Some (snap, r') \<and> runner_inv r' \<and>
    run_cfg r' = run_cfg r \<and> run_fleet r' = w' \<and>
    reconcile os (run_fleet r) (DesiredHosts snap) = Some w' \<and> evolves (run_fleet r) w' \<and>
    MinReplicas (sim_Autoscale (run_cfg r)) \<le> DesiredHosts snap \<and>
    DesiredHosts snap \<le> MaxReplicas (sim_Autoscale (run_cfg r)) \<and>
    snap_InflightVMs snap = int (card (dom (assigned (pod_sched (run_fleet r))))) \<and>
    ReadyHosts snap = int (card (ready_pods w')) \<and>
    PendingHosts snap = int (card (live_pods w')) - int (card (ready_pods w')) \<and>
    IdleHosts snap = int (card (hosts_with (pod_sched w') (\<lambda>h. state h = HostReady \<and> used h = 0)))"
proof -
  let ?s = "pod_sched (run_fleet r)"
  let ?stats = "sched_Stats ?s (snap_ord os (hosts ?s))"
  let ?rate = "real_of_int (sint (run_arrivals r)) / seconds (SampleInterval (run_cfg r))"
  obtain d a where d: "Decide oob (run_scaler r)
      \<lparr>At = now, ArrivalRate = ?rate, InflightVMs = st_InflightVMs ?stats\<rparr> = (d, a)" by fastforce
  have fleet: "pods_inv (run_fleet r)" and sc: "as_inv (run_scaler r)" using inv by (simp_all add: runner_inv_def)
  note D = Decide_inv [OF sc d]
  from reconcile_total [OF fleet os] obtain w' where
    w': "reconcile os (run_fleet r) (Replicas d) = Some w'" "evolves (run_fleet r) w'" by blast
  let ?s' = "pod_sched w'"
  have it: "iterates (snap_ord os (hosts ?s)) (hosts ?s)" "iterates (snap_ord os (hosts ?s')) (hosts ?s')"
    using os sched_invD(1) [OF pods_invD(1) [OF fleet]] sched_invD(1) [OF pods_invD(1) [OF evolvesD [OF w'(2)]]]
    by (simp_all add: pod_orders_ok_def)
  note stats = sched_Stats_exact [OF pods_invD(1) [OF fleet] it(1)]
  note stats' = sched_Stats_exact [OF pods_invD(1) [OF evolvesD [OF w'(2)]] it(2)]

  have "dom (hosts ?s') = live_pods w' \<union> hosts_with ?s' (\<lambda>h. state h = HostDraining)"
    by (auto simp: hosts_with_def)
  then have "card (dom (hosts ?s')) = card (live_pods w') + card (hosts_with ?s' (\<lambda>h. state h = HostDraining))"
    by (rule hosts_with_split [OF hosts_with_finite [OF evolvesD [OF w'(2)]] hosts_with_finite [OF evolvesD [OF w'(2)]]])
  then have pend: "int (card (dom (hosts ?s'))) - int (card (ready_pods w')) -
      int (card (hosts_with ?s' (\<lambda>h. state h = HostDraining))) =
      int (card (live_pods w')) - int (card (ready_pods w'))" by simp
  have "\<exists>snap r'. sim_step oob os ps start now r = Some (snap, r') \<and> run_fleet r' = w' \<and>
      run_scaler r' = a \<and> run_cfg r' = run_cfg r \<and> DesiredHosts snap = Replicas d \<and>
      snap_InflightVMs snap = int (card (dom (assigned ?s))) \<and>
      ReadyHosts snap = int (card (ready_pods w')) \<and>
      PendingHosts snap = int (card (live_pods w')) - int (card (ready_pods w')) \<and>
      IdleHosts snap = int (card (hosts_with ?s' (\<lambda>h. state h = HostReady \<and> used h = 0)))"
    unfolding sim_step_def Let_def by (simp add: d w'(1) del: of_int_sint) (simp add: stats stats' pend)
  then obtain snap r' where sr: "sim_step oob os ps start now r = Some (snap, r')" "run_fleet r' = w'"
      "run_scaler r' = a" "run_cfg r' = run_cfg r" "DesiredHosts snap = Replicas d"
      "snap_InflightVMs snap = int (card (dom (assigned ?s)))"
      "ReadyHosts snap = int (card (ready_pods w'))"
      "PendingHosts snap = int (card (live_pods w')) - int (card (ready_pods w'))"
      "IdleHosts snap = int (card (hosts_with ?s' (\<lambda>h. state h = HostReady \<and> used h = 0)))"
    by blast
  have cfg: "as_cfg (run_scaler r) = as_applyDefaults (sim_Autoscale (run_cfg r))"
    using inv by (simp add: runner_inv_def)
  have "runner_inv r'"
    using inv evolvesD [OF w'(2)] D(1) Decide_state(1) [OF d] by (simp add: runner_inv_def sr)
  moreover have "MinReplicas (sim_Autoscale (run_cfg r)) \<le> DesiredHosts snap"
    "DesiredHosts snap \<le> MaxReplicas (sim_Autoscale (run_cfg r))"
    using D(2,3) by (simp_all add: cfg as_applyDefaults_def sr(5) split: if_splits)
  ultimately show ?thesis using sr w' by (intro exI conjI) simp_all
qed

lemma runner_reachable_inv: "runner_reachable oob r \<Longrightarrow> runner_inv r"
proof (induction rule: runner_reachable.induct)
  case (start os cfg r)
  from start(2) have v: "sim_Validate cfg = None"
    by (auto simp: sim_Run_start_def split: option.splits)
  then obtain a w where a: "as_New (sim_Autoscale cfg) = Inr a"
    and w: "reconcile os (new_fleet (New BestFit) (sim_SlotsPerHost cfg) (PodStartLatency cfg))
      (MinReplicas (sim_Autoscale cfg)) = Some w"
    and r: "run_scaler r = a" "run_fleet r = w" "run_cfg r = cfg"
    using start(2) by (auto simp: sim_Run_start_def Let_def split: sum.splits)
  have "pods_inv w"
    using reconcile_total [OF new_fleet_inv [OF sim_Validate_None(1) [OF v]] start(1),
      of BestFit "PodStartLatency cfg" "MinReplicas (sim_Autoscale cfg)"] w evolvesD by auto
  then show ?case using as_New_reachable [OF a] r v by (simp add: runner_inv_def)
next
  case (sample r os ps start now snap r')
  then show ?case using sim_step_ok [of r os oob ps start now] by auto
next
  case (service r e w)
  then show ?case using fleet_step_inv by (auto simp: runner_inv_def)
qed (auto simp: runner_inv_def issue_counted_def issue_waited_def run_offer_def issue_store_peak_def Let_def)

text \<open>Every request of a run has an identifier of its own.\<close>

lemma offered_ids_distinct:
  assumes "0 \<le> sint (run_offered r + 1)" "0 \<le> sint (run_offered r' + 1)"
  shows "fst (run_offer r) = fst (run_offer r') \<longleftrightarrow> run_offered r = run_offered r'"
proof
  assume "fst (run_offer r) = fst (run_offer r')"
  then have "sint (run_offered r + 1) = sint (run_offered r' + 1)"
    using itoa_inject [OF assms] by (simp add: run_offer_def Let_def)
  then have "run_offered r + 1 = run_offered r' + 1" by (rule signed_word_eqI)
  then show "run_offered r = run_offered r'" by simp
qed (simp add: run_offer_def Let_def)

text \<open>The comparison and the store are two steps: two goroutines that read 2 and 3 in flight can both
  find the peak smaller, and the one with 2 store last, so that the reported peak is too small.\<close>

lemma stale_store_lowers_the_peak:
  assumes "run_peakInflight r = 0"
  shows "issue_above_peak r 2 \<and> issue_above_peak r 3 \<and>
    run_peakInflight (issue_store_peak (issue_store_peak r 3) 2) = 2"
  using assms by (simp add: issue_above_peak_def issue_store_peak_def)

text \<open>A sampling step acts on its decision and reports what it did, in every state of a run.
  The number of hosts it wants is within the configured bounds; afterwards as many hosts are
  ready or starting, or more when too few are ready to be drained; the counts it reports are
  consistent; and the microVMs in flight are those placed, none of which it moves.\<close>

theorem step_acts_on_its_decision:
  assumes "runner_reachable oob r" and "pod_orders_ok os"
  shows "\<exists>snap r'. sim_step oob os ps start now r = Some (snap, r') \<and>
    MinReplicas (sim_Autoscale (run_cfg r)) \<le> DesiredHosts snap \<and>
    DesiredHosts snap \<le> MaxReplicas (sim_Autoscale (run_cfg r)) \<and>
    (let live = card (live_pods (run_fleet r)); ready = card (ready_pods (run_fleet r)) in
     ReadyHosts snap + PendingHosts snap =
       (if int live \<le> DesiredHosts snap then DesiredHosts snap
        else max (DesiredHosts snap) (int live - int ready))) \<and>
    0 \<le> IdleHosts snap \<and> IdleHosts snap \<le> ReadyHosts snap \<and> 0 \<le> PendingHosts snap \<and>
    snap_InflightVMs snap = int (card (dom (assigned (pod_sched (run_fleet r'))))) \<and>
    assigned (pod_sched (run_fleet r')) = assigned (pod_sched (run_fleet r))"
proof -
  note inv = runner_reachable_inv [OF assms(1)]
  have fleet: "pods_inv (run_fleet r)" using inv by (simp add: runner_inv_def)
  from sim_step_ok [OF inv assms(2), of oob ps start now] obtain snap r' w' where
    st: "sim_step oob os ps start now r = Some (snap, r')" "run_fleet r' = w'"
      "reconcile os (run_fleet r) (DesiredHosts snap) = Some w'" "evolves (run_fleet r) w'"
      "MinReplicas (sim_Autoscale (run_cfg r)) \<le> DesiredHosts snap"
      "DesiredHosts snap \<le> MaxReplicas (sim_Autoscale (run_cfg r))"
      "snap_InflightVMs snap = int (card (dom (assigned (pod_sched (run_fleet r)))))"
      "ReadyHosts snap = int (card (ready_pods w'))"
      "PendingHosts snap = int (card (live_pods w')) - int (card (ready_pods w'))"
      "IdleHosts snap = int (card (hosts_with (pod_sched w') (\<lambda>h. state h = HostReady \<and> used h = 0)))"
    by (elim exE conjE) (rule that; assumption?)
  note fin = hosts_with_finite [OF evolvesD [OF st(4)]]
  have 1: "card (ready_pods w') \<le> card (live_pods w')" using fin ready_live by (rule card_mono)
  have 2: "card (hosts_with (pod_sched w') (\<lambda>h. state h = HostReady \<and> used h = 0)) \<le> card (ready_pods w')"
    using fin by (intro card_mono) (auto simp: hosts_with_def)
  have 3: "assigned (pod_sched (run_fleet r')) = assigned (pod_sched (run_fleet r))"
    using st(2,4) by (simp add: evolves_def)
  have 4: "ReadyHosts snap + PendingHosts snap = int (card (live_pods w'))" using st(8,9) by simp
  note cnt = reconcile_count [OF fleet assms(2) st(3)]
  have 5: "0 \<le> PendingHosts snap" unfolding st(9) using 1 by simp
  have 6: "IdleHosts snap \<le> ReadyHosts snap" "0 \<le> IdleHosts snap" unfolding st(8,10) using 2 by simp_all
  show ?thesis
    by (rule exI [of _ snap], rule exI [of _ r'], intro conjI)
      (use 5 6 in \<open>simp_all only: st(1,5-7) 3 4 cnt Let_def\<close>)
qed

definition demo_sim :: sim_config where
  "demo_sim = \<lparr>sim_Envelope = Some (Ramp_Envelope \<lparr>Up = 4, Hold = 0, Down = 4, Peak = 8\<rparr>),
     sim_Seed = 1, sim_MeanTTL = second, sim_SlotsPerHost = 2, PodStartLatency = 0,
     SampleInterval = second, sim_Autoscale = demo_cfg,
     sim_Placement = \<lparr>QueueDepth = 0, AdmissionDeadline = 0, RetryInterval = 0\<rparr>\<rparr>"

definition demo_stats :: p_stats where
  "demo_stats = \<lparr>ps_Accepted = 0, ps_Placed = 0, ps_TimedOut = 0, ps_QueueRejected = 0, ps_Released = 0,
     ps_BootFailed = 0, ps_CurrentQueueLen = 0, ps_MaxQueueLen = 0\<rparr>"

lemma demo_runner_exists: "\<exists>r. sim_Run_start demo_sim ascending = Some (Inr r)"
proof -
  have "as_Validate demo_cfg = None" by (simp add: demo_cfg_def as_Validate_def second_def)
  then have v: "sim_Validate demo_sim = None"
    by (simp add: sim_Validate_def demo_sim_def Ramp_Envelope_def ramp_Duration_def fits64_def
        second_def MinSlotsPerHost_def)
  have "as_New demo_cfg = Inr demo_as"
    by (simp add: as_New_def as_applyDefaults_def as_Validate_def demo_cfg_def demo_as_def second_def)
  moreover have "\<exists>svc. svc_New (Some (New BestFit)) \<lparr>QueueDepth = 0, AdmissionDeadline = 0, RetryInterval = 0\<rparr> = Inr svc"
    by (simp add: svc_New_def p_applyDefaults_def p_Validate_def DefaultQueueDepth_def
        DefaultAdmissionDeadline_def DefaultRetryInterval_def second_def millisecond_def)
  moreover obtain w where "reconcile ascending (new_fleet (New BestFit) 2 0) (MinReplicas demo_cfg) = Some w"
    using reconcile_total [OF new_fleet_inv ascending_ok] by (metis MinSlotsPerHost_def order_refl)
  ultimately show ?thesis
    unfolding sim_Run_start_def v by (auto simp: demo_sim_def Let_def)
qed

theorem step_acts_on_its_decision_witness:
  "\<exists>r snap r'. runner_reachable (\<lambda>_. 0) r \<and>
     sim_step (\<lambda>_. 0) ascending demo_stats 0 second r = Some (snap, r') \<and> IdleHosts snap \<le> ReadyHosts snap"
proof -
  from demo_runner_exists obtain r where "runner_reachable (\<lambda>_. 0) r"
    using runner_reachable.start [OF ascending_ok] by blast
  with step_acts_on_its_decision [OF this ascending_ok, of demo_stats 0 second] show ?thesis by blast
qed

text \<open>The idle share of the host time lies between zero and one when every snapshot of the
  timeline has at most as many idle as ready hosts, which the steps above guarantee.\<close>

lemma timeline_loop_bounds:
  assumes "0 \<le> ival"
  shows "\<forall>s \<in> set ss. 0 \<le> IdleHosts s \<and> IdleHosts s \<le> ReadyHosts s \<Longrightarrow>
    0 \<le> IdleHostSeconds res \<Longrightarrow> IdleHostSeconds res \<le> HostSeconds res \<Longrightarrow>
    0 \<le> IdleHostSeconds (timeline_loop ival ss res) \<and>
    IdleHostSeconds (timeline_loop ival ss res) \<le> HostSeconds (timeline_loop ival ss res)"
proof (induction ss arbitrary: res)
  case (Cons s ss)
  have "real_of_int (IdleHosts s) * seconds ival \<le> real_of_int (ReadyHosts s) * seconds ival"
    using Cons.prems(1) assms by (intro mult_right_mono) auto
  moreover have "0 \<le> real_of_int (IdleHosts s) * seconds ival" using Cons.prems(1) assms by simp
  moreover define r1 where "r1 = (if ReadyHosts s > PeakHosts res then res\<lparr>PeakHosts := ReadyHosts s\<rparr> else res)"
  define r3 where "r3 = r1\<lparr>HostSeconds := HostSeconds r1 + real_of_int (ReadyHosts s) * seconds ival,
    IdleHostSeconds := IdleHostSeconds r1 + real_of_int (IdleHosts s) * seconds ival\<rparr>"
  have "timeline_loop ival (s # ss) res = timeline_loop ival ss r3"
    by (simp add: Let_def r1_def r3_def)
  moreover have "IdleHostSeconds r3 = IdleHostSeconds res + real_of_int (IdleHosts s) * seconds ival"
    "HostSeconds r3 = HostSeconds res + real_of_int (ReadyHosts s) * seconds ival"
    by (simp_all add: r1_def r3_def)
  ultimately show ?case using Cons.prems Cons.IH [of r3] by simp
qed simp

lemma idle_fraction_bounds:
  assumes "0 \<le> SampleInterval (run_cfg r)" and "finish r ps sampled final = Some res"
    and "\<forall>s \<in> set (final # sampled). 0 \<le> IdleHosts s \<and> IdleHosts s \<le> ReadyHosts s"
  shows "0 \<le> IdleFraction res \<and> IdleFraction res \<le> 1"
proof -
  have "0 \<le> IdleHostSeconds res \<and> IdleHostSeconds res \<le> HostSeconds res"
    using assms(2,3) timeline_loop_bounds [OF assms(1), of "sampled @ [final]"]
    by (auto simp: finish_def Let_def)
  then show ?thesis by (auto simp: IdleFraction_def divide_le_eq_1)
qed

end
