(* ===== verification/SimRunProps.thy ===== *)
theory SimRunProps
  imports SimRun SimProps
begin

section \<open>Correctness of a simulated run\<close>

text \<open>
  The summary of a run whose goroutines are all gone is exact: every offered request and every
  admission is in it once, with its wait, and the sampled rates add up to the requests, however
  the goroutines interleaved. (The peak of the in-flight count is the exception, see
  \<open>stale_store_lowers_the_peak\<close>.)
\<close>

subsection \<open>What the steps of a run change\<close>

fun spawned_by :: "run_event list \<Rightarrow> nat" where
  "spawned_by [] = 0"
| "spawned_by (RunSpawn # es) = Suc (spawned_by es)"
| "spawned_by (e # es) = spawned_by es"

text \<open>The waits of the admissions that succeeded, in the order in which \<^verbatim>\<open>Admit\<close> returned.\<close>

fun admitted_waits :: "run_event list \<Rightarrow> duration list" where
  "admitted_waits [] = []"
| "admitted_waits (RunAdmitted k (Inr res) # es) = res_Wait res # admitted_waits es"
| "admitted_waits (e # es) = admitted_waits es"

lemma spawned_by_append: "spawned_by (es @ fs) = spawned_by es + spawned_by fs"
  by (induction es rule: spawned_by.induct) auto

lemma admitted_waits_append: "admitted_waits (es @ fs) = admitted_waits es @ admitted_waits fs"
  by (induction es rule: admitted_waits.induct) auto

lemma spawned_by_le: "spawned_by es \<le> length es"
  by (induction es rule: spawned_by.induct) auto

text \<open>Goroutines that have not counted their placement, and that have not appended their wait.\<close>

fun uncounted :: "sim_task \<Rightarrow> bool" where
  "uncounted (SimPlaced i res) = True"
| "uncounted _ = False"

fun wait_due :: "(duration \<Rightarrow> bool) \<Rightarrow> sim_task \<Rightarrow> bool" where
  "wait_due P (SimPlaced i res) = P (res_Wait res)"
| "wait_due P (SimCounted i res) = P (res_Wait res)"
| "wait_due P _ = False"

lemma sim_step_frame:
  assumes "sim_step oob os ps start now r = Some (snap, r')"
  shows "run_cfg r' = run_cfg r" "run_offered r' = run_offered r" "run_placed r' = run_placed r"
    "run_waits r' = run_waits r" "run_peakInflight r' = run_peakInflight r" "run_arrivals r' = 0"
    "OfferedRate snap = real_of_int (sint (run_arrivals r)) / seconds (SampleInterval (run_cfg r))"
  using assms by (auto simp: sim_step_def Let_def split: bind_splits prod.splits)

subsection \<open>The books of a run\<close>

definition rates_times :: "duration \<Rightarrow> sim_snapshot list \<Rightarrow> real" where
  "rates_times ival snaps = sum_list (map OfferedRate snaps) * seconds ival"

lemma rates_times_snoc:
  "rates_times ival (snaps @ [snap]) = rates_times ival snaps + OfferedRate snap * seconds ival"
  by (simp add: rates_times_def distrib_right)

lemma rates_times_Nil [simp]: "rates_times ival [] = 0"
  by (simp add: rates_times_def)

definition tasks_inv :: "nat \<Rightarrow> duration list \<Rightarrow> sim_run \<Rightarrow> bool" where
  "tasks_inv n waits s \<longleftrightarrow> finite (dom (sr_tasks s)) \<and> sr_spawned s = n \<and>
     (\<forall>k > sr_spawned s. sr_tasks s k = None) \<and>
     of_nat (length waits) = run_placed (sr_runner s) + of_int (census uncounted (sr_tasks s)) \<and>
     (\<forall>P. int (length (filter P waits)) =
        int (length (filter P (run_waits (sr_runner s)))) + census (wait_due P) (sr_tasks s))"

definition rate_inv :: "sim_config \<Rightarrow> nat \<Rightarrow> sim_run \<Rightarrow> bool" where
  "rate_inv cfg n s \<longleftrightarrow> run_cfg (sr_runner s) = cfg \<and> run_offered (sr_runner s) = of_nat n \<and>
     0 \<le> sint (run_arrivals (sr_runner s)) \<and> sint (run_arrivals (sr_runner s)) \<le> int n \<and>
     rates_times (SampleInterval cfg) (sr_timeline s) + real_of_int (sint (run_arrivals (sr_runner s))) = real n"

lemma rate_invD:
  assumes "rate_inv cfg n s"
  shows "run_cfg (sr_runner s) = cfg" "run_offered (sr_runner s) = of_nat n"
    "0 \<le> sint (run_arrivals (sr_runner s))" "sint (run_arrivals (sr_runner s)) \<le> int n"
    "rates_times (SampleInterval cfg) (sr_timeline s) + real_of_int (sint (run_arrivals (sr_runner s))) = real n"
  using assms by (simp_all add: rate_inv_def)

text \<open>A step of one goroutine: the censuses move by what it was and what it is.\<close>

definition was :: "(sim_task \<Rightarrow> bool) \<Rightarrow> sim_run \<Rightarrow> nat \<Rightarrow> int" where
  "was Q s k = of_bool (case sr_tasks s k of None \<Rightarrow> False | Some t \<Rightarrow> Q t)"

lemma tasks_inv_goto:
  assumes inv: "tasks_inv n waits s"
    and k: "k \<le> sr_spawned s'" and same: "sr_tasks s' = sr_tasks s" "n \<le> sr_spawned s'"
    and cnt: "of_nat (length new) + of_int (was uncounted s k) + run_placed (sr_runner s) =
      run_placed r + of_bool (uncounted t)"
    and wts: "\<And>P. int (length (filter P new)) + was (wait_due P) s k + int (length (filter P (run_waits (sr_runner s)))) =
      int (length (filter P (run_waits r))) + of_bool (wait_due P t)"
  shows "tasks_inv (sr_spawned s') (waits @ new) (goto s' k r t)"
proof -
  have fin: "finite (dom (sr_tasks s))" and sp: "sr_spawned s = n" and fresh: "\<forall>k > sr_spawned s. sr_tasks s k = None"
    and c: "of_nat (length waits) = run_placed (sr_runner s) + of_int (census uncounted (sr_tasks s))"
    and w: "int (length (filter P waits)) =
        int (length (filter P (run_waits (sr_runner s)))) + census (wait_due P) (sr_tasks s)" for P
    using inv by (simp_all add: tasks_inv_def)
  have put: "census Q ((sr_tasks s)(k \<mapsto> t)) = census Q (sr_tasks s) + of_bool (Q t) - was Q s k" for Q
    using census_put [OF fin, of Q k t] by (simp add: was_def)
  have "of_nat (length (waits @ new)) = run_placed r + of_int (census uncounted ((sr_tasks s)(k \<mapsto> t)))"
    unfolding put using c cnt by (simp add: algebra_simps)
  moreover have "int (length (filter P (waits @ new))) =
      int (length (filter P (run_waits r))) + census (wait_due P) ((sr_tasks s)(k \<mapsto> t))" for P
    unfolding put using w [of P] wts [of P] by simp
  ultimately show ?thesis
    using fin fresh k same sp by (simp add: tasks_inv_def goto_def)
qed
lemma tasks_inv_frame:
  assumes "tasks_inv n waits s" and "sr_tasks s' = sr_tasks s" "sr_spawned s' = sr_spawned s"
    and "run_placed (sr_runner s') = run_placed (sr_runner s)" "run_waits (sr_runner s') = run_waits (sr_runner s)"
  shows "tasks_inv n waits s'"
  using assms by (simp add: tasks_inv_def)

lemma tasks_inv_fresh: "tasks_inv n waits s \<Longrightarrow> sr_spawned s = n \<and> was Q s (Suc n) = 0"
  by (simp add: tasks_inv_def was_def)

lemma tasks_inv_known:
  assumes "tasks_inv n waits s" "sr_tasks s k = Some t"
  shows "k \<le> n" "n = sr_spawned s" "was Q s k = of_bool (Q t)"
proof -
  show "k \<le> n" using assms by (metis tasks_inv_def not_le option.distinct(1))
  show "n = sr_spawned s" using assms(1) by (simp add: tasks_inv_def)
  show "was Q s k = of_bool (Q t)" using assms(2) by (simp add: was_def)
qed

text \<open>A goroutine known to the run moves on and nothing is admitted.\<close>

lemma tasks_inv_move:
  assumes inv: "tasks_inv n waits s" and t: "sr_tasks s k = Some t"
    and cnt: "of_bool (uncounted t) + run_placed (sr_runner s) = run_placed r + of_bool (uncounted t')"
    and wts: "\<And>P. of_bool (wait_due P t) + int (length (filter P (run_waits (sr_runner s)))) =
      int (length (filter P (run_waits r))) + of_bool (wait_due P t')"
  shows "tasks_inv n waits (goto s k r t')"
  using tasks_inv_goto [OF inv, of k s "[]" r t'] tasks_inv_known [OF inv t] cnt wts by simp

lemma issue_next_tasks:
  assumes inv: "tasks_inv n waits s" and st: "issue_next oob os x s k = Some s'"
  shows "tasks_inv n waits s'"
proof -
  have "sr_tasks s k \<noteq> None" using st by (intro notI) (simp add: issue_next_def Let_def)
  then obtain t where t: "sr_tasks s k = Some t" by blast
  define r where "r = sr_runner s"
  note move = tasks_inv_move [OF inv t, folded r_def]
  note next_def = issue_next_def [of oob os x s k, unfolded t r_def [symmetric] Let_def option.case]
  show ?thesis
  proof (cases t)
    case (SimPlaced i res)
    with st have "s' = goto s k (issue_counted r) (SimCounted i res)" by (simp add: next_def)
    with SimPlaced show ?thesis by (auto intro!: move simp: issue_counted_def)
  next
    case (SimCounted i res)
    with st have "s' = goto s k (issue_waited r res) (SimWaited i)" by (simp add: next_def)
    with SimCounted show ?thesis by (auto intro!: move simp: issue_waited_def)
  next
    case (SimWaited i)
    with st have "s' = goto s k r (SimSeen i (issue_inflight os r))" by (simp add: next_def)
    with SimWaited show ?thesis by (auto intro!: move)
  next
    case (SimSeen i m)
    with st have "s' = goto s k r (if issue_above_peak r m then SimStore i m else SimDraw i)" by (simp add: next_def)
    with SimSeen show ?thesis by (auto intro!: move)
  next
    case (SimStore i m)
    with st have "s' = goto s k (issue_store_peak r m) (SimDraw i)" by (simp add: next_def)
    with SimStore show ?thesis by (auto intro!: move simp: issue_store_peak_def)
  next
    case (SimDraw i)
    with st have "s' = goto s k r (SimServing i (sampleTTL oob r x))" by (simp add: next_def)
    with SimDraw show ?thesis by (auto intro!: move)
  qed (use st in \<open>simp_all add: next_def\<close>)
qed

lemma run_step_tasks:
  assumes inv: "tasks_inv n waits s" and st: "run_step oob e s = Some s'"
  shows "tasks_inv (n + spawned_by [e]) (waits @ admitted_waits [e]) s'"
proof (cases e)
  case RunSpawn
  note fresh = tasks_inv_fresh [OF inv]
  obtain i r where r: "run_offer (sr_runner s) = (i, r)" by fastforce
  then have same: "run_placed r = run_placed (sr_runner s)" "run_waits r = run_waits (sr_runner s)"
    by (auto simp: run_offer_def Let_def)
  from tasks_inv_goto [OF inv, of "Suc n" "s\<lparr>sr_spawned := Suc n\<rparr>" "[]" r "SimSpawned i"]
  show ?thesis using RunSpawn st fresh same by (simp add: run_spawn_def r)
next
  case (RunAdmitted k res)
  with st obtain i where t: "sr_tasks s k = Some (SimSpawned i)"
    and s': "s' = goto s k (sr_runner s) (case res of Inl e \<Rightarrow> SimGone | Inr r \<Rightarrow> SimPlaced i r)"
    by (auto simp: issue_admitted_def split: option.splits sim_task.splits)
  note k = tasks_inv_known [OF inv t]
  show ?thesis
  proof (cases res)
    case (Inl err)
    with RunAdmitted s' show ?thesis using tasks_inv_move [OF inv t, of "sr_runner s" SimGone] by simp
  next
    case (Inr r)
    with RunAdmitted s' k show ?thesis
      using tasks_inv_goto [OF inv, of k s "[res_Wait r]" "sr_runner s" "SimPlaced i r"] by simp
  qed
next
  case (RunNext k os x)
  with st issue_next_tasks [OF inv] show ?thesis by simp
next
  case (RunRelease k)
  with st obtain i d s1 where t: "sr_tasks s k = Some (SimServing i d)"
    and s': "s' = goto s k ((sr_runner s)\<lparr>run_fleet := (run_fleet (sr_runner s))\<lparr>pod_sched := s1\<rparr>\<rparr>) SimGone"
    by (auto simp: issue_release_def split: option.splits sim_task.splits bind_splits)
  with RunRelease tasks_inv_move [OF inv t] show ?thesis by simp
next
  case (RunTick os ps now)
  with st show ?thesis
    by (auto simp: sampler_tick_def sim_step_frame(3,4) split: bind_splits intro: tasks_inv_frame [OF inv])
next
  case (RunTimer i c)
  with st show ?thesis by (auto intro: tasks_inv_frame [OF inv])
next
  case (RunPlace vm)
  with st show ?thesis by (auto intro: tasks_inv_frame [OF inv])
qed

subsection \<open>The rates\<close>

lemma sint_Suc:
  assumes "0 \<le> sint (w :: i64)" "sint w < 2 ^ 63 - 1"
  shows "sint (w + 1) = sint w + 1"
proof -
  have "sint (w + 1) = signed_take_bit 63 (sint w + 1)" by (simp add: sint_word_ariths)
  then show ?thesis using assms by (simp add: signed_take_bit_int_eq_self)
qed

lemma run_step_rates:
  assumes inv: "rate_inv cfg n s" and ival: "0 < SampleInterval cfg" and n: "int n < 2 ^ 63 - 1"
    and st: "run_step oob e s = Some s'"
  shows "rate_inv cfg (n + spawned_by [e]) s'"
proof (cases e)
  case RunSpawn
  note d = rate_invD [OF inv]
  have "sint (run_arrivals (sr_runner s) + 1) = sint (run_arrivals (sr_runner s)) + 1"
    using d(3,4) n by (intro sint_Suc) simp_all
  with d RunSpawn st show ?thesis
    by (auto simp: rate_inv_def run_spawn_def run_offer_def goto_def Let_def simp del: of_int_sint)
next
  case (RunTick os ps now)
  note d = rate_invD [OF inv]
  from RunTick st obtain snap r where s: "sim_step oob os ps (sr_started s) now (sr_runner s) = Some (snap, r)"
    "s' = s\<lparr>sr_runner := r, sr_timeline := sr_timeline s @ [snap]\<rparr>"
    by (auto simp: sampler_tick_def split: bind_splits)
  have "OfferedRate snap * seconds (SampleInterval cfg) = real_of_int (sint (run_arrivals (sr_runner s)))"
    using sim_step_frame(7) [OF s(1)] ival d(1) by (simp add: seconds_def)
  with d sim_step_frame [OF s(1)] RunTick show ?thesis
    unfolding rate_inv_def s(2) by (simp add: rates_times_snoc del: of_int_sint)
qed (use st inv in \<open>auto simp: rate_inv_def issue_admitted_def issue_next_def issue_release_def goto_def Let_def
      issue_counted_def issue_waited_def issue_store_peak_def
      split: option.splits sim_task.splits bind_splits sum.splits\<close>)

subsection \<open>A whole run\<close>

fun run_event_ok :: "run_event \<Rightarrow> bool" where
  "run_event_ok (RunTick os ps now) = pod_orders_ok os"
| "run_event_ok (RunNext k os x) = pod_orders_ok os"
| "run_event_ok _ = True"

lemma issue_next_reachable:
  assumes r: "runner_reachable oob (sr_runner s)" and st: "issue_next oob' os x s k = Some s'"
  shows "runner_reachable oob (sr_runner s')"
proof -
  have "sr_runner s' \<in> {sr_runner s, issue_counted (sr_runner s)} \<or>
      (\<exists>res. sr_runner s' = issue_waited (sr_runner s) res) \<or> (\<exists>n. sr_runner s' = issue_store_peak (sr_runner s) n)"
    using st by (auto simp: issue_next_def Let_def goto_def split: option.splits sim_task.splits)
  with r show ?thesis by (auto intro: runner_reachable.counted runner_reachable.waited runner_reachable.peaked)
qed

lemma run_step_reachable:
  assumes r: "runner_reachable oob (sr_runner s)" and ok: "run_event_ok e" and st: "run_step oob e s = Some s'"
  shows "runner_reachable oob (sr_runner s')"
proof (cases e)
  case RunSpawn
  with st runner_reachable.request [OF r] show ?thesis by (auto simp: run_spawn_def goto_def Let_def split_beta)
next
  case (RunAdmitted k res)
  with st r show ?thesis by (auto simp: issue_admitted_def goto_def split: option.splits sim_task.splits)
next
  case (RunNext k os x)
  with st issue_next_reachable [OF r] show ?thesis by simp
next
  case (RunRelease k)
  with st obtain i b s1 where "Release (pod_sched (run_fleet (sr_runner s))) i = Some (b, s1)"
    "sr_runner s' = (sr_runner s)\<lparr>run_fleet := (run_fleet (sr_runner s))\<lparr>pod_sched := s1\<rparr>\<rparr>"
    by (auto simp: issue_release_def goto_def split: option.splits sim_task.splits bind_splits)
  with runner_reachable.service [OF r, of "PodRelease i"] show ?thesis by (simp add: fleet_step_def)
next
  case (RunTick os ps now)
  with st ok runner_reachable.sample [OF r] show ?thesis by (auto simp: sampler_tick_def split: bind_splits)
next
  case (RunTimer i c)
  with st obtain w where "fleet_step (PodTimer i c) (run_fleet (sr_runner s)) = Some w"
    "sr_runner s' = (sr_runner s)\<lparr>run_fleet := w\<rparr>" by (auto simp: fleet_step_def)
  with runner_reachable.service [OF r] show ?thesis by simp
next
  case (RunPlace vm)
  with st obtain w where "fleet_step (PodPlace vm) (run_fleet (sr_runner s)) = Some w"
    "sr_runner s' = (sr_runner s)\<lparr>run_fleet := w\<rparr>" by (auto simp: fleet_step_def)
  with runner_reachable.service [OF r] show ?thesis by simp
qed

lemma sim_Run_start_fields:
  assumes "sim_Run_start cfg os = Some (Inr r)"
  shows "run_cfg r = cfg" "run_offered r = 0" "run_placed r = 0" "run_arrivals r = 0" "run_waits r = []"
    "0 < SampleInterval cfg"
  using assms by (auto simp: sim_Run_start_def Let_def split: option.splits sum.splits dest: sim_Validate_None)

lemma run_books:
  assumes st: "sim_Run_start cfg os = Some (Inr r0)" and os: "pod_orders_ok os"
  shows "run (run_step oob) es (new_run r0 begun) = Some s \<Longrightarrow> list_all run_event_ok es \<Longrightarrow> int (length es) < 2 ^ 63 \<Longrightarrow>
    tasks_inv (spawned_by es) (admitted_waits es) s \<and> rate_inv cfg (spawned_by es) s \<and>
    runner_reachable oob (sr_runner s)"
proof (induction es arbitrary: s rule: rev_induct)
  case Nil
  then show ?case using sim_Run_start_fields [OF st] runner_reachable.start [OF os st, of oob]
    by (auto simp: new_run_def tasks_inv_def rate_inv_def)
next
  case (snoc e es)
  from snoc.prems(1) obtain s1 where s1: "run (run_step oob) es (new_run r0 begun) = Some s1"
    "run_step oob e s1 = Some s" by (auto simp: run_append split: bind_splits)
  note IH = snoc.IH [OF s1(1)]
  have ih: "tasks_inv (spawned_by es) (admitted_waits es) s1" "rate_inv cfg (spawned_by es) s1"
    "runner_reachable oob (sr_runner s1)" using IH snoc.prems(2,3) by simp_all
  have "int (spawned_by es) < 2 ^ 63 - 1" using spawned_by_le [of es] snoc.prems(3) by simp
  from run_step_rates [OF ih(2) sim_Run_start_fields(6) [OF st] this s1(2)]
    run_step_tasks [OF ih(1) s1(2)] run_step_reachable [OF ih(3) _ s1(2)] snoc.prems(2)
  show ?case by (simp add: spawned_by_append admitted_waits_append)
qed

subsection \<open>The summary\<close>

lemma percentiles_mset: "mset xs = mset ys \<Longrightarrow> percentiles xs = percentiles ys"
proof -
  assume "mset xs = mset ys"
  then have "sort xs = sort ys" "length xs = length ys" "xs = [] \<longleftrightarrow> ys = []"
    by (auto intro!: properties_for_sort dest: mset_eq_length)
  then show ?thesis by (simp add: percentiles_def Let_def)
qed

lemma timeline_loop_frame:
  "Offered (timeline_loop ival snaps res) = Offered res" "Placed (timeline_loop ival snaps res) = Placed res"
  "Timeline (timeline_loop ival snaps res) = Timeline res"
  by (induction ival snaps res rule: timeline_loop.induct) (simp_all add: Let_def)

lemma finish_fields:
  assumes "percentiles (run_waits r) = Some (a, b, c)"
  obtains res where "finish r ps snaps final = Some res" "Offered res = sint (run_offered r)"
    "Placed res = sint (run_placed r)" "Timeline res = snaps @ [final]" "WaitP50 res = a" "WaitP99 res = b" "WaitMax res = c"
  using assms by (auto simp: finish_def Let_def timeline_loop_frame simp del: timeline_loop.simps)

lemma sint_of_nat: "int n < 2 ^ 63 \<Longrightarrow> sint (of_nat n :: i64) = int n"
proof -
  assume n: "int n < 2 ^ 63"
  have "signed_take_bit 63 (int n) = int n" using n by (intro signed_take_bit_int_eq_self) simp_all
  then have "sint (word_of_int (int n) :: i64) = int n" by (subst sint_sbintrunc') simp
  then show ?thesis by simp
qed

lemma admitted_waits_le: "length (admitted_waits es) \<le> length es"
  by (induction es rule: admitted_waits.induct) auto

text \<open>C39. The summary of a simulated run is accurate, however its goroutines interleave with one
  another, with the sampler, with the fleet's timers and with the placement service. Once every
  goroutine is gone the summary exists; it reports as many requests as arrived and as many
  placements as \<^verbatim>\<open>Admit\<close> granted; its wait percentiles are those of exactly the granted waits;
  and, when the sampler hands its timeline over in time, the rates in it, times the sampling
  interval, add up to the arrivals.\<close>

theorem run_report_is_accurate:
  assumes "sim_Run_start cfg os0 = Some (Inr r0)" and "pod_orders_ok os0" and "pod_orders_ok os"
    and "run (run_step oob) es (new_run r0 begun) = Some s" and "list_all run_event_ok es"
    and "int (length es) < 2 ^ 63" and gone: "\<forall>k. sr_tasks s k \<in> {None, Some SimGone}"
  shows "\<exists>res. run_result oob os ps ps' handed now s = Some res \<and>
    Offered res = int (spawned_by es) \<and> Placed res = int (length (admitted_waits es)) \<and>
    (handed \<longrightarrow> rates_times (SampleInterval cfg) (Timeline res) = real (spawned_by es)) \<and>
    (admitted_waits es \<noteq> [] \<longrightarrow>
       is_quantile (1 / 2) (admitted_waits es) (WaitP50 res) \<and> is_quantile (99 / 100) (admitted_waits es) (WaitP99 res) \<and>
       WaitMax res \<in> set (admitted_waits es) \<and> (\<forall>x \<in> set (admitted_waits es). x \<le> WaitMax res))"
proof -
  let ?ws = "admitted_waits es"
  note books = run_books [OF assms(1,2,4,5,6)]
  have none: "census Q (sr_tasks s) = 0" if "\<not> Q SimGone" for Q
    using gone that unfolding census_def by (auto simp: card_eq_0_iff) (metis option.distinct(1) option.inject)
  have placed: "run_placed (sr_runner s) = of_nat (length ?ws)"
    using books none [of uncounted] by (simp_all add: tasks_inv_def)
  have waits: "length (filter P ?ws) = length (filter P (run_waits (sr_runner s)))" for P
    using books none [of "wait_due P"] unfolding tasks_inv_def by (metis add.right_neutral of_nat_eq_iff wait_due.simps(9))
  have "mset (run_waits (sr_runner s)) = mset ?ws"
    using waits by (intro multiset_eqI) (simp add: count_mset count_list_eq_length_filter)
  then have pct: "percentiles (run_waits (sr_runner s)) = percentiles ?ws" by (rule percentiles_mset)
  note d = rate_invD [OF books [THEN conjunct2, THEN conjunct1]]
  from sim_step_ok [OF runner_reachable_inv, of oob "sr_runner s" os oob ps "sr_started s" now] books assms(3)
  obtain final r where st: "sim_step oob os ps (sr_started s) now (sr_runner s) = Some (final, r)" by blast
  note fr = sim_step_frame [OF st]
  have small: "int (spawned_by es) < 2 ^ 63" "int (length ?ws) < 2 ^ 63"
    using spawned_by_le [of es] admitted_waits_le [of es] assms(6) by linarith+
  obtain a b c where abc: "percentiles ?ws = Some (a, b, c)"
    "?ws \<noteq> [] \<Longrightarrow> is_quantile (1 / 2) ?ws a \<and> is_quantile (99 / 100) ?ws b \<and> c \<in> set ?ws \<and> (\<forall>x \<in> set ?ws. x \<le> c)"
    using percentiles_are_order_statistics [of ?ws] by (cases "?ws = []") (auto simp: percentiles_def)
  then have "percentiles (run_waits r) = Some (a, b, c)" using fr(4) pct by simp
  from finish_fields [OF this, of ps' "if handed then sr_timeline s else []" final] obtain res where
    res: "finish r ps' (if handed then sr_timeline s else []) final = Some res" "Offered res = sint (run_offered r)"
      "Placed res = sint (run_placed r)" "Timeline res = (if handed then sr_timeline s else []) @ [final]"
      "WaitP50 res = a" "WaitP99 res = b" "WaitMax res = c" by blast
  have rate: "OfferedRate final * seconds (SampleInterval cfg) = real_of_int (sint (run_arrivals (sr_runner s)))"
    using fr(7) d(1) sim_Run_start_fields(6) [OF assms(1)] by (simp add: seconds_def)
  have "run_result oob os ps ps' handed now s = Some res" by (simp add: run_result_def st res(1))
  moreover have "Offered res = int (spawned_by es)" "Placed res = int (length ?ws)"
    using res(2,3) fr(2,3) d(2) placed sint_of_nat small by simp_all
  moreover have "rates_times (SampleInterval cfg) (Timeline res) = real (spawned_by es)" if handed
    unfolding res(4) rates_times_snoc rate using d(5) that by (simp del: of_int_sint)
  ultimately show ?thesis using abc(2) res(5-7) by blast
qed

text \<open>A goroutine that was placed can always run to its end.\<close>

lemma issue_completes:
  assumes t: "sr_tasks s k = Some (SimPlaced i res)" and inv: "sched_inv (pod_sched (run_fleet (sr_runner s)))"
  shows "\<exists>es s'. run (run_step oob) es s = Some s' \<and> sr_tasks s' = (sr_tasks s)(k \<mapsto> SimGone) \<and>
    spawned_by es = 0 \<and> admitted_waits es = [] \<and> list_all run_event_ok es \<and> length es \<le> 7"
proof -
  let ?r = "sr_runner s"
  let ?r2 = "issue_waited (issue_counted ?r) res"
  let ?n = "issue_inflight ascending ?r2"
  let ?r3 = "if issue_above_peak ?r2 ?n then issue_store_peak ?r2 ?n else ?r2"
  let ?go = "RunNext k ascending 0"
  let ?es = "[?go, ?go, ?go, ?go] @ (if issue_above_peak ?r2 ?n then [?go] else []) @ [?go]"
  let ?s1 = "goto s k ?r3 (SimServing i (sampleTTL oob ?r3 0))"
  have go: "run (run_step oob) ?es s = Some ?s1"
    by (simp add: issue_next_def t goto_def Let_def)
  have "run_fleet ?r3 = run_fleet ?r" by (simp add: issue_waited_def issue_counted_def issue_store_peak_def)
  then obtain b s2 where rel: "Release (pod_sched (run_fleet ?r3)) i = Some (b, s2)"
    using Release_cases [OF inv, of i] by auto
  have "run (run_step oob) (?es @ [RunRelease k]) s =
      Some (goto ?s1 k (?r3\<lparr>run_fleet := (run_fleet ?r3)\<lparr>pod_sched := s2\<rparr>\<rparr>) SimGone)"
    by (simp only: run_append [of "run_step oob" ?es "[RunRelease k]"] go Option.bind.simps)
      (simp add: issue_release_def goto_def rel)
  moreover have "sr_tasks (goto ?s1 k (?r3\<lparr>run_fleet := (run_fleet ?r3)\<lparr>pod_sched := s2\<rparr>\<rparr>) SimGone) =
      (sr_tasks s)(k \<mapsto> SimGone)" by (simp add: goto_def)
  moreover have "list_all run_event_ok (?es @ [RunRelease k])" using ascending_ok by simp
  moreover have "spawned_by (?es @ [RunRelease k]) = 0" "admitted_waits (?es @ [RunRelease k]) = []"
    "length (?es @ [RunRelease k]) \<le> 7" by simp_all
  ultimately show ?thesis by blast
qed

theorem run_report_is_accurate_witness:
  "\<exists>r0 es s res. sim_Run_start demo_sim ascending = Some (Inr r0) \<and>
     run (run_step (\<lambda>_. 0)) es (new_run r0 0) = Some s \<and> admitted_waits es = [7] \<and>
     run_result (\<lambda>_. 0) ascending demo_stats demo_stats True second s = Some res \<and>
     Offered res = 1 \<and> Placed res = 1 \<and> WaitMax res = 7"
proof -
  from demo_runner_exists obtain r0 where r0: "sim_Run_start demo_sim ascending = Some (Inr r0)" by blast
  let ?res = "\<lparr>res_Host = ''vmhost-0'', res_Wait = 7, res_Attempts = 1\<rparr>"
  let ?es = "[RunSpawn, RunAdmitted (Suc 0) (Inr ?res)]"
  let ?r = "snd (run_offer r0)" and ?i = "fst (run_offer r0)"
  let ?s1 = "\<lparr>sr_runner = ?r, sr_started = 0, sr_spawned = Suc 0, sr_tasks = [Suc 0 \<mapsto> SimPlaced ?i ?res],
    sr_timeline = []\<rparr>"
  have s1: "run (run_step (\<lambda>_. 0)) ?es (new_run r0 0) = Some ?s1"
    by (simp add: run_spawn_def new_run_def goto_def issue_admitted_def split_beta)
  have "run_fleet ?r = run_fleet r0" by (simp add: run_offer_def Let_def)
  moreover have "runner_inv r0"
    using runner_reachable_inv [OF runner_reachable.start [OF ascending_ok r0]] .
  ultimately have "sched_inv (pod_sched (run_fleet (sr_runner ?s1)))"
    using pods_invD(1) by (simp add: runner_inv_def)
  moreover have "sr_tasks ?s1 (Suc 0) = Some (SimPlaced ?i ?res)" by simp
  ultimately obtain fs s where
    fs: "run (run_step (\<lambda>_. 0)) fs ?s1 = Some s" "sr_tasks s = (sr_tasks ?s1)(Suc 0 \<mapsto> SimGone)" "spawned_by fs = 0"
      "admitted_waits fs = []" "list_all run_event_ok fs" "length fs \<le> 7"
    using issue_completes [of ?s1 "Suc 0" ?i ?res "\<lambda>_. 0"] by blast
  have run: "run (run_step (\<lambda>_. 0)) (?es @ fs) (new_run r0 0) = Some s"
    by (simp only: run_append [of _ ?es fs] s1 Option.bind.simps fs(1))
  have ok: "list_all run_event_ok (?es @ fs)" "int (length (?es @ fs)) < 2 ^ 63" using fs(5,6) by simp_all
  have gone: "\<forall>k. sr_tasks s k \<in> {None, Some SimGone}" by (simp add: fs(2))
  have adm: "admitted_waits (?es @ fs) = [7]" "spawned_by (?es @ fs) = 1" using fs(3,4) by simp_all
  from run_report_is_accurate [OF r0 ascending_ok ascending_ok run ok gone, of demo_stats demo_stats True second]
  show ?thesis unfolding adm using r0 run adm(1) by fastforce
qed

end
