(* ===== verification/Harness.thy ===== *)
theory Harness
  imports Sim Machine Http
begin

section \<open>The load generator's harness (cmd/loadgen/main.go)\<close>

text \<open>
  A run of the load generator against a placement API: one goroutine per arrival sends a
  request and counts what becomes of it. The counters are atomics, so each of their
  operations is a step of its own; the loop that raises \<^verbatim>\<open>peakInflight\<close> is its load and its
  compare-and-swap. The HTTP client and the clock are the events. The counters move by one per
  request and are integers here.
\<close>

subsection \<open>State\<close>

record result =
  Seq :: int
  OffsetMS :: int
  LatencyUS :: int
  r_Status :: int
  r_Host :: string
  r_QueueWaitUS :: int
  Err :: string

text \<open>What the exchange of a request ends with: no request could be built; the client's error; or
  a response with its status and what decoding a 201 body yields.\<close>

datatype answer = NoRequest | ClientError string | Response int string int

text \<open>Where the goroutine of a request is: before its first statement; counted as offered; in the
  loop with its in-flight number, about to load the peak, or with the peak loaded; past the
  loop; with its outcome counted and the result and latency to record; before its deferred
  decrement; finished.\<close>

datatype task =
    TSpawned
  | TOffered
  | TLoad int
  | TSwap int int
  | TSending
  | TRecording result "duration option"
  | TLeaving
  | TGone

record harness =
  h_results_out :: bool
  h_offered :: int
  h_placed :: int
  h_dropped :: int
  h_failed :: int
  h_inflight :: int
  h_peak :: int
  h_latencies :: "duration list"
  h_results :: "result list"
  h_seq :: nat
  h_offset :: "nat \<Rightarrow> duration"
  h_tasks :: "nat \<rightharpoonup> task"

definition new_harness :: "bool \<Rightarrow> harness" where
  "new_harness out =
     \<lparr>h_results_out = out, h_offered = 0, h_placed = 0, h_dropped = 0, h_failed = 0, h_inflight = 0,
      h_peak = 0, h_latencies = [], h_results = [], h_seq = 0, h_offset = (\<lambda>k. 0), h_tasks = Map.empty\<rparr>"

definition put_task :: "harness \<Rightarrow> nat \<Rightarrow> task \<Rightarrow> harness" where
  "put_task h k t = h\<lparr>h_tasks := (h_tasks h)(k \<mapsto> t)\<rparr>"

subsection \<open>The goroutines\<close>

definition h_spawn :: "harness \<Rightarrow> duration \<Rightarrow> harness" where
  "h_spawn h off =
     (let k = Suc (h_seq h)
      in put_task (h\<lparr>h_seq := k, h_offset := (h_offset h)(k := off)\<rparr>) k TSpawned)"

definition issue_offered :: "harness \<Rightarrow> nat \<Rightarrow> harness option" where
  "issue_offered h k =
     (if h_tasks h k = Some TSpawned then Some (put_task (h\<lparr>h_offered := h_offered h + 1\<rparr>) k TOffered) else None)"

definition issue_enter :: "harness \<Rightarrow> nat \<Rightarrow> harness option" where
  "issue_enter h k =
     (if h_tasks h k = Some TOffered then
        (let n = h_inflight h + 1 in Some (put_task (h\<lparr>h_inflight := n\<rparr>) k (TLoad n)))
      else None)"

definition issue_load :: "harness \<Rightarrow> nat \<Rightarrow> harness option" where
  "issue_load h k =
     (case h_tasks h k of
        Some (TLoad n) \<Rightarrow>
          (let p = h_peak h in Some (put_task h k (if n \<le> p then TSending else TSwap n p)))
      | _ \<Rightarrow> None)"

definition issue_swap :: "harness \<Rightarrow> nat \<Rightarrow> harness option" where
  "issue_swap h k =
     (case h_tasks h k of
        Some (TSwap n p) \<Rightarrow>
          Some (if h_peak h = p then put_task (h\<lparr>h_peak := n\<rparr>) k TSending else put_task h k (TLoad n))
      | _ \<Rightarrow> None)"

definition issue_answer :: "harness \<Rightarrow> nat \<Rightarrow> answer \<Rightarrow> duration \<Rightarrow> harness option" where
  "issue_answer h k ans latency =
     (if h_tasks h k \<noteq> Some TSending then None
      else
        let r = \<lparr>Seq = int k, OffsetMS = Milliseconds (h_offset h k), LatencyUS = Microseconds latency,
                 r_Status = 0, r_Host = '''', r_QueueWaitUS = 0, Err = ''''\<rparr>
        in Some (case ans of
             NoRequest \<Rightarrow> put_task (h\<lparr>h_failed := h_failed h + 1\<rparr>) k TLeaving
           | ClientError e \<Rightarrow>
               put_task (h\<lparr>h_failed := h_failed h + 1\<rparr>) k (TRecording (r\<lparr>Err := e\<rparr>) None)
           | Response st hst wait \<Rightarrow>
               (if st = 201 then
                  put_task (h\<lparr>h_placed := h_placed h + 1\<rparr>) k
                    (TRecording (r\<lparr>r_Status := st, r_Host := hst, r_QueueWaitUS := wait\<rparr>) (Some latency))
                else if st = 503 then
                  put_task (h\<lparr>h_dropped := h_dropped h + 1\<rparr>) k (TRecording (r\<lparr>r_Status := st\<rparr>) (Some latency))
                else
                  put_task (h\<lparr>h_failed := h_failed h + 1\<rparr>) k (TRecording (r\<lparr>r_Status := st\<rparr>) (Some latency)))))"

text \<open>The latency and the line of the results file, each appended under the mutex.\<close>

definition issue_record :: "harness \<Rightarrow> nat \<Rightarrow> harness option" where
  "issue_record h k =
     (case h_tasks h k of
        Some (TRecording r lat) \<Rightarrow>
          (let h1 = (case lat of Some d \<Rightarrow> h\<lparr>h_latencies := h_latencies h @ [d]\<rparr> | None \<Rightarrow> h);
               h2 = (if h_results_out h1 then h1\<lparr>h_results := h_results h1 @ [r]\<rparr> else h1)
           in Some (put_task h2 k TLeaving))
      | _ \<Rightarrow> None)"

definition issue_leave :: "harness \<Rightarrow> nat \<Rightarrow> harness option" where
  "issue_leave h k =
     (if h_tasks h k = Some TLeaving then Some (put_task (h\<lparr>h_inflight := h_inflight h - 1\<rparr>) k TGone) else None)"

datatype h_event =
    HSpawn duration
  | HOffered nat
  | HEnter nat
  | HLoad nat
  | HSwap nat
  | HAnswer nat answer duration
  | HRecord nat
  | HLeave nat

fun h_step :: "h_event \<Rightarrow> harness \<Rightarrow> harness option" where
  "h_step (HSpawn off) h = Some (h_spawn h off)"
| "h_step (HOffered k) h = issue_offered h k"
| "h_step (HEnter k) h = issue_enter h k"
| "h_step (HLoad k) h = issue_load h k"
| "h_step (HSwap k) h = issue_swap h k"
| "h_step (HAnswer k ans latency) h = issue_answer h k ans latency"
| "h_step (HRecord k) h = issue_record h k"
| "h_step (HLeave k) h = issue_leave h k"

subsection \<open>The report\<close>

definition h_percentiles :: "duration list \<Rightarrow> (duration \<times> duration \<times> duration \<times> duration) option" where
  "h_percentiles d0 =
     (if d0 = [] then Some (0, 0, 0, 0)
      else
        let d = sort d0; n = int (length d) in
        do {
          p50 \<leftarrow> go_index d (quantile_index (1 / 2) n);
          p95 \<leftarrow> go_index d (quantile_index (95 / 100) n);
          p99 \<leftarrow> go_index d (quantile_index (99 / 100) n);
          top \<leftarrow> go_index d (n - 1);
          Some (p50, p95, p99, top)
        })"

record report =
  rep_offered :: int
  rep_placed :: int
  rep_rate :: real
  rep_dropped :: int
  rep_failed :: int
  rep_peak :: int
  rep_latency :: "duration \<times> duration \<times> duration \<times> duration"

datatype verdict = ObjectiveMet | ObjectiveNotMet int int

text \<open>\<^verbatim>\<open>wg.Wait\<close> lets it run once every goroutine has finished.\<close>

definition h_finish :: "harness \<Rightarrow> (report \<times> verdict) option" where
  "h_finish h =
     (if \<exists>k \<in> set [1..<Suc (h_seq h)]. h_tasks h k \<noteq> Some TGone then None
      else
        do {
          lat \<leftarrow> h_percentiles (h_latencies h);
          let rate = (if h_offered h > 0 then real_of_int (h_placed h) / real_of_int (h_offered h) * 100 else 0);
          Some (\<lparr>rep_offered = h_offered h, rep_placed = h_placed h, rep_rate = rate, rep_dropped = h_dropped h,
                  rep_failed = h_failed h, rep_peak = h_peak h, rep_latency = lat\<rparr>,
            if h_dropped h > 0 \<or> h_failed h > 0 then ObjectiveNotMet (h_dropped h) (h_failed h) else ObjectiveMet)
        })"

subsection \<open>The run\<close>

record lg_options =
  lg_target :: string
  lg_peakRPS :: real
  lg_rampUp :: duration
  lg_hold :: duration
  lg_rampDown :: duration
  lg_cycles :: int
  lg_ttl :: duration
  lg_seed :: u64
  lg_resultsOut :: string
  lg_timeout :: duration
  lg_maxConns :: int

text \<open>What \<^verbatim>\<open>parseFlags\<close> yields for an empty command line.\<close>

definition default_lg_options :: lg_options where
  "default_lg_options =
     \<lparr>lg_target = ''http://127.0.0.1:18080'', lg_peakRPS = 1000, lg_rampUp = 30 * second, lg_hold = 0,
      lg_rampDown = 30 * second, lg_cycles = 2, lg_ttl = 500 * millisecond, lg_seed = 1,
      lg_resultsOut = '''', lg_timeout = 30 * second, lg_maxConns = 512\<rparr>"

datatype lg_error = LgRamp ramp_error | LgProcess process_error

definition lg_ramp :: "lg_options \<Rightarrow> Ramp" where
  "lg_ramp opts = \<lparr>Up = lg_rampUp opts, Hold = lg_hold opts, Down = lg_rampDown opts, Peak = lg_peakRPS opts\<rparr>"

definition lg_envelope :: "lg_options \<Rightarrow> Envelope" where
  "lg_envelope opts = Repeat_Envelope \<lparr>Inner = Some (Ramp_Envelope (lg_ramp opts)), Times = lg_cycles opts\<rparr>"

definition lg_setup :: "'g rand_lib \<Rightarrow> lg_options \<Rightarrow> lg_error + 'g Process" where
  "lg_setup R opts =
     (case ramp_Validate (lg_ramp opts) of
        Some e \<Rightarrow> Inl (LgRamp e)
      | None \<Rightarrow>
          case NewProcess R (Some (lg_envelope opts)) (lg_seed opts) of
            Inl e \<Rightarrow> Inl (LgProcess e)
          | Inr p \<Rightarrow> Inr p)"

text \<open>
  The loop that waits for each arrival and starts its goroutine. \<open>cancelled k\<close> tells whether the
  context is done by the time arrival number \<open>k\<close>, counted from 0, is due. The loop may wait for
  an arrival that never comes, which is \<open>None\<close>.
\<close>

partial_function (option) offer_loop ::
  "(real \<Rightarrow> int) \<Rightarrow> 'g rand_lib \<Rightarrow> (nat \<Rightarrow> bool) \<Rightarrow> 'g Process \<Rightarrow> harness \<Rightarrow> harness option"
where
  "offer_loop oob R cancelled p h =
     Option.bind (Next oob R p)
       (\<lambda>((t, ok), p').
          if \<not> ok then Some h
          else if cancelled (h_seq h) then Some h
          else offer_loop oob R cancelled p' (h_spawn h t))"

end
