(* ===== verification/HarnessProps.thy ===== *)
theory HarnessProps
  imports Harness SimProps LoadGenProps
begin

section \<open>Correctness of the harness\<close>

text \<open>
  The report of a run is exact, whatever the interleaving of its goroutines: every request is
  counted once, the objective is met exactly when every request was placed, and the reported
  peak is the largest number of requests that were in flight at any moment, although each
  goroutine updates it with a load and a compare-and-swap.
\<close>

subsection \<open>The counters\<close>

fun flying :: "task \<Rightarrow> bool" where
  "flying TSpawned = False"
| "flying TOffered = False"
| "flying TGone = False"
| "flying _ = True"

fun settled :: "task \<Rightarrow> bool" where
  "settled (TRecording r l) = True"
| "settled TLeaving = True"
| "settled TGone = True"
| "settled _ = False"

definition hs_inv :: "harness \<Rightarrow> bool" where
  "hs_inv h \<longleftrightarrow> dom (h_tasks h) = {1..h_seq h} \<and>
     h_offered h = census (\<lambda>t. t \<noteq> TSpawned) (h_tasks h) \<and>
     h_inflight h = census flying (h_tasks h) \<and>
     h_placed h + h_dropped h + h_failed h = census settled (h_tasks h) \<and>
     0 \<le> h_placed h \<and> 0 \<le> h_dropped h \<and> 0 \<le> h_failed h"

lemma put_task_sel [simp]:
  "h_offered (put_task h k t) = h_offered h" "h_placed (put_task h k t) = h_placed h"
  "h_dropped (put_task h k t) = h_dropped h" "h_failed (put_task h k t) = h_failed h"
  "h_inflight (put_task h k t) = h_inflight h" "h_peak (put_task h k t) = h_peak h"
  "h_seq (put_task h k t) = h_seq h" "h_tasks (put_task h k t) = (h_tasks h)(k \<mapsto> t)"
  by (simp_all add: put_task_def)

lemma hs_inv_put:
  assumes inv: "hs_inv h" and t: "h_tasks h k = Some t"
    and h': "h_tasks h' = (h_tasks h)(k \<mapsto> t')" "h_seq h' = h_seq h"
      "h_offered h' = h_offered h + of_bool (t' \<noteq> TSpawned) - of_bool (t \<noteq> TSpawned)"
      "h_inflight h' = h_inflight h + of_bool (flying t') - of_bool (flying t)"
      "h_placed h' + h_dropped h' + h_failed h' =
        h_placed h + h_dropped h + h_failed h + of_bool (settled t') - of_bool (settled t)"
    and pos: "0 \<le> h_placed h'" "0 \<le> h_dropped h'" "0 \<le> h_failed h'"
  shows "hs_inv h'"
proof -
  have fin: "finite (dom (h_tasks h))" using inv by (simp add: hs_inv_def)
  have "census P (h_tasks h') = census P (h_tasks h) + of_bool (P t') - of_bool (P t)" for P
    using census_put [OF fin, of P k t'] t by (simp add: h'(1))
  moreover have "dom (h_tasks h') = dom (h_tasks h)" using t by (auto simp: h'(1))
  ultimately show ?thesis using inv h'(2-5) pos by (simp add: hs_inv_def)
qed

lemma h_spawn_inv:
  assumes inv: "hs_inv h"
  shows "hs_inv (h_spawn h off)"
proof -
  have fin: "finite (dom (h_tasks h))" using inv by (simp add: hs_inv_def)
  have new: "h_tasks h (Suc (h_seq h)) = None"
  proof (rule ccontr)
    assume "h_tasks h (Suc (h_seq h)) \<noteq> None"
    then have "Suc (h_seq h) \<in> dom (h_tasks h)" by blast
    then show False using inv by (simp add: hs_inv_def)
  qed
  have "census P ((h_tasks h)(Suc (h_seq h) \<mapsto> TSpawned)) = census P (h_tasks h) + of_bool (P TSpawned)" for P
    using census_put [OF fin, of P "Suc (h_seq h)" TSpawned] new by simp
  then show ?thesis
    using inv by (auto simp: hs_inv_def h_spawn_def Let_def put_task_def)
qed

lemma issue_answer_effect:
  assumes "issue_answer h k ans latency = Some h'"
  shows "\<exists>t'. h_tasks h k = Some TSending \<and> settled t' \<and> flying t' \<and> t' \<noteq> TSpawned \<and>
    h_tasks h' = (h_tasks h)(k \<mapsto> t') \<and> h_seq h' = h_seq h \<and> h_offered h' = h_offered h \<and>
    h_inflight h' = h_inflight h \<and> h_peak h' = h_peak h \<and>
    h_placed h' + h_dropped h' + h_failed h' = h_placed h + h_dropped h + h_failed h + 1 \<and>
    h_placed h \<le> h_placed h' \<and> h_dropped h \<le> h_dropped h' \<and> h_failed h \<le> h_failed h'"
  using assms
  by (cases ans; intro exI [of _ "the (h_tasks h' k)"]) (auto simp: issue_answer_def Let_def split: if_splits)

lemma issue_record_effect:
  assumes "issue_record h k = Some h'"
  shows "\<exists>r l. h_tasks h k = Some (TRecording r l) \<and> h_tasks h' = (h_tasks h)(k \<mapsto> TLeaving) \<and>
    h_seq h' = h_seq h \<and> h_offered h' = h_offered h \<and> h_inflight h' = h_inflight h \<and> h_peak h' = h_peak h \<and>
    h_placed h' = h_placed h \<and> h_dropped h' = h_dropped h \<and> h_failed h' = h_failed h"
  using assms by (auto simp: issue_record_def Let_def split: option.splits task.splits)

lemma issue_swap_effect:
  assumes "issue_swap h k = Some h'"
  shows "\<exists>n p t m. h_tasks h k = Some (TSwap n p) \<and> h' = put_task (h\<lparr>h_peak := m\<rparr>) k t \<and> flying t \<and> \<not> settled t \<and>
    t \<noteq> TSpawned"
proof -
  from assms obtain n p where t: "h_tasks h k = Some (TSwap n p)" and
    h': "h' = (if h_peak h = p then put_task (h\<lparr>h_peak := n\<rparr>) k TSending else put_task h k (TLoad n))"
    by (auto simp: issue_swap_def split: option.splits task.splits)
  show ?thesis
  proof (cases "h_peak h = p")
    case True
    with t h' show ?thesis by (intro exI [of _ n] exI [of _ p] exI [of _ TSending]) simp
  next
    case False
    with h' have "h' = put_task (h\<lparr>h_peak := h_peak h\<rparr>) k (TLoad n)" by simp
    with t show ?thesis by (intro exI [of _ n] exI [of _ p] exI [of _ "TLoad n"] exI [of _ "h_peak h"]) simp
  qed
qed

lemma h_step_inv:
  assumes inv: "hs_inv h" and st: "h_step e h = Some h'"
  shows "hs_inv h'"
proof -
  have pos: "0 \<le> h_placed h" "0 \<le> h_dropped h" "0 \<le> h_failed h" using inv by (simp_all add: hs_inv_def)
  show ?thesis
  proof (cases e)
    case (HSpawn off)
    with st inv h_spawn_inv show ?thesis by auto
  next
    case (HOffered k)
    with st pos show ?thesis
      by (auto simp: issue_offered_def split: if_splits intro!: hs_inv_put [OF inv, of k TSpawned _ TOffered])
  next
    case (HEnter k)
    with st pos show ?thesis
      by (auto simp: issue_enter_def Let_def split: if_splits
          intro!: hs_inv_put [OF inv, of k TOffered _ "TLoad (h_inflight h + 1)"])
  next
    case (HLoad k)
    with st obtain n t' where "h_tasks h k = Some (TLoad n)" "h' = put_task h k t'" "flying t'" "\<not> settled t'"
      "t' \<noteq> TSpawned" by (auto simp: issue_load_def Let_def split: option.splits task.splits if_splits)
    with pos show ?thesis by (intro hs_inv_put [OF inv, of k "TLoad n" _ t']) simp_all
  next
    case (HSwap k)
    with st issue_swap_effect obtain n p t' m where "h_tasks h k = Some (TSwap n p)" "h' = put_task (h\<lparr>h_peak := m\<rparr>) k t'"
      "flying t'" "\<not> settled t'" "t' \<noteq> TSpawned" by (simp only: h_step.simps) blast
    with pos show ?thesis by (intro hs_inv_put [OF inv, of k "TSwap n p" _ t']) simp_all
  next
    case (HAnswer k ans latency)
    with st issue_answer_effect obtain t' where t: "h_tasks h k = Some TSending"
      and t': "settled t'" "flying t'" "t' \<noteq> TSpawned" "h_tasks h' = (h_tasks h)(k \<mapsto> t')"
        "h_seq h' = h_seq h" "h_offered h' = h_offered h" "h_inflight h' = h_inflight h"
        "h_placed h' + h_dropped h' + h_failed h' = h_placed h + h_dropped h + h_failed h + 1"
        "h_placed h \<le> h_placed h'" "h_dropped h \<le> h_dropped h'" "h_failed h \<le> h_failed h'"
      by (simp only: h_step.simps) blast
    show ?thesis using t' pos by (intro hs_inv_put [OF inv t t'(4,5)]) simp_all
  next
    case (HRecord k)
    with st issue_record_effect obtain r l where t: "h_tasks h k = Some (TRecording r l)"
      and h': "h_tasks h' = (h_tasks h)(k \<mapsto> TLeaving)" "h_seq h' = h_seq h" "h_offered h' = h_offered h"
        "h_inflight h' = h_inflight h" "h_placed h' = h_placed h" "h_dropped h' = h_dropped h" "h_failed h' = h_failed h"
      by (simp only: h_step.simps) blast
    show ?thesis using h' pos by (intro hs_inv_put [OF inv t h'(1,2)]) simp_all
  next
    case (HLeave k)
    with st pos show ?thesis
      by (auto simp: issue_leave_def split: if_splits intro!: hs_inv_put [OF inv, of k TLeaving _ TGone])
  qed
qed

interpretation hm: machine h_step hs_inv
  by unfold_locales (rule h_step_inv)

lemma new_harness_inv: "hs_inv (new_harness out)"
  by (simp add: hs_inv_def new_harness_def)

subsection \<open>The peak\<close>

text \<open>The in-flight number a goroutine is about to raise the peak to.\<close>

fun wanted :: "task \<Rightarrow> int option" where
  "wanted (TLoad n) = Some n"
| "wanted (TSwap n p) = Some n"
| "wanted _ = None"

definition h_step_high :: "h_event \<Rightarrow> harness \<times> int \<Rightarrow> (harness \<times> int) option" where
  "h_step_high e s = map_option (\<lambda>h'. (h', max (snd s) (h_inflight h'))) (h_step e (fst s))"

text \<open>Beside the highest number \<open>m\<close> of requests in flight so far: the peak has reached it, or some
  goroutine still wants to raise it there; and nobody swaps in less than what is there.\<close>

definition peak_ok :: "int \<Rightarrow> int \<Rightarrow> (nat \<rightharpoonup> task) \<Rightarrow> bool" where
  "peak_ok p m ts \<longleftrightarrow> p \<le> m \<and>
     (\<forall>k t n. ts k = Some t \<and> wanted t = Some n \<longrightarrow> n \<le> m) \<and>
     (\<forall>k n q. ts k = Some (TSwap n q) \<longrightarrow> q < n \<and> q \<le> p) \<and>
     (p = m \<or> (\<exists>k t. ts k = Some t \<and> wanted t = Some m))"

definition peak_inv :: "harness \<times> int \<Rightarrow> bool" where
  "peak_inv s \<longleftrightarrow> h_inflight (fst s) \<le> snd s \<and> peak_ok (h_peak (fst s)) (snd s) (h_tasks (fst s))"

lemma peak_ok_put:
  assumes ok: "peak_ok p m ts" and p': "p \<le> p'" "p' \<le> m'" "m \<le> m'"
    and want: "\<And>n. wanted t' = Some n \<Longrightarrow> n \<le> m'"
    and swap: "\<And>n q. t' = TSwap n q \<Longrightarrow> q < n \<and> q \<le> p'"
    and high: "p' = m' \<or> wanted t' = Some m' \<or> m' = m \<and> (\<forall>t. ts k = Some t \<longrightarrow> wanted t \<noteq> Some m)"
  shows "peak_ok p' m' (ts(k \<mapsto> t'))"
  unfolding peak_ok_def
proof (intro conjI allI impI)
  show "n \<le> m'" if "(ts(k \<mapsto> t')) j = Some t \<and> wanted t = Some n" for j t n
  proof (cases "j = k")
    case True
    with that want show ?thesis by simp
  next
    case False
    with that have "ts j = Some t \<and> wanted t = Some n" by simp
    then have "n \<le> m" using ok unfolding peak_ok_def by blast
    with p'(3) show ?thesis by simp
  qed
  show "q < n" "q \<le> p'" if "(ts(k \<mapsto> t')) j = Some (TSwap n q)" for j n q
  proof -
    have "q < n \<and> q \<le> p'"
    proof (cases "j = k")
      case True
      with that swap show ?thesis by simp
    next
      case False
      with that have "ts j = Some (TSwap n q)" by simp
      then have "q < n \<and> q \<le> p" using ok unfolding peak_ok_def by blast
      with p'(1) show ?thesis by simp
    qed
    then show "q < n" "q \<le> p'" by simp_all
  qed
  show "p' = m' \<or> (\<exists>j t. (ts(k \<mapsto> t')) j = Some t \<and> wanted t = Some m')"
    using high
  proof (elim disjE conjE)
    assume "wanted t' = Some m'"
    then have "(ts(k \<mapsto> t')) k = Some t' \<and> wanted t' = Some m'" by simp
    then show ?thesis by blast
  next
    assume m: "m' = m" and k: "\<forall>t. ts k = Some t \<longrightarrow> wanted t \<noteq> Some m"
    from ok have "p = m \<or> (\<exists>j t. ts j = Some t \<and> wanted t = Some m)" unfolding peak_ok_def by blast
    then show ?thesis
    proof (elim disjE exE conjE)
      assume "p = m"
      with m p' show ?thesis by simp
    next
      fix j t assume j: "ts j = Some t" "wanted t = Some m"
      with k have "j \<noteq> k" by blast
      with j m have "(ts(k \<mapsto> t')) j = Some t \<and> wanted t = Some m'" by simp
      then show ?thesis by blast
    qed
  qed simp
qed (fact p'(2))

lemma peak_okD:
  assumes "peak_ok p m ts"
  shows "p \<le> m" "ts k = Some t \<Longrightarrow> wanted t = Some n \<Longrightarrow> n \<le> m"
    "ts k = Some (TSwap n q) \<Longrightarrow> q < n \<and> q \<le> p" "\<forall>t \<in> ran ts. wanted t = None \<Longrightarrow> p = m"
proof -
  show "p \<le> m" using assms unfolding peak_ok_def by blast
  show "ts k = Some t \<Longrightarrow> wanted t = Some n \<Longrightarrow> n \<le> m" using assms unfolding peak_ok_def by blast
  show "ts k = Some (TSwap n q) \<Longrightarrow> q < n \<and> q \<le> p" using assms unfolding peak_ok_def by blast
  from assms have "p = m \<or> (\<exists>k t. ts k = Some t \<and> wanted t = Some m)" unfolding peak_ok_def by blast
  then show "p = m" if "\<forall>t \<in> ran ts. wanted t = None" using that by (auto simp: ran_def)
qed

text \<open>A goroutine that neither wanted nor wants to raise the peak.\<close>

lemma peak_ok_idle:
  assumes "peak_ok p m ts" and "\<And>t. ts k = Some t \<Longrightarrow> wanted t = None" and "wanted t' = None"
  shows "peak_ok p m (ts(k \<mapsto> t'))"
  using assms(2,3) by (intro peak_ok_put [OF assms(1)] peak_okD(1) [OF assms(1)]) auto

text \<open>The steps of a goroutine that raises the counter or the peak.\<close>

lemma peak_enter:
  assumes "peak_ok p m ts" and "ts k = Some TOffered"
  shows "peak_ok p (max m n) (ts(k \<mapsto> TLoad n))"
  using peak_okD(1) [OF assms(1)] assms(2) by (intro peak_ok_put [OF assms(1)]) (auto simp: max_def)

lemma peak_load:
  assumes "peak_ok p m ts" and "ts k = Some (TLoad n)"
  shows "peak_ok p m (ts(k \<mapsto> (if n \<le> p then TSending else TSwap n p)))"
proof -
  have "n \<le> m" using peak_okD(2) [OF assms] by simp
  then show ?thesis
    using assms(2) peak_okD(1) [OF assms(1)] by (intro peak_ok_put [OF assms(1)]) (auto split: if_splits)
qed

lemma peak_swap:
  assumes "peak_ok p m ts" and "ts k = Some (TSwap n q)"
  shows "p = q \<Longrightarrow> peak_ok n m (ts(k \<mapsto> TSending))" "peak_ok p m (ts(k \<mapsto> TLoad n))"
proof -
  have n: "n \<le> m" "q < n" using peak_okD(2,3) [OF assms] by simp_all
  show "peak_ok n m (ts(k \<mapsto> TSending))" if "p = q"
    using n assms(2) that by (intro peak_ok_put [OF assms(1)]) auto
  show "peak_ok p m (ts(k \<mapsto> TLoad n))"
    using n assms(2) peak_okD(1) [OF assms(1)] by (intro peak_ok_put [OF assms(1)]) auto
qed

lemma peak_inv_step:
  assumes inv: "peak_inv s" and hs: "hs_inv (fst s)" and st: "h_step_high e s = Some s'"
  shows "peak_inv s'"
proof -
  obtain h m where s: "s = (h, m)" by (cases s)
  from st obtain h' where h': "h_step e h = Some h'" "s' = (h', max m (h_inflight h'))"
    by (auto simp: s h_step_high_def)
  have ok: "peak_ok (h_peak h) m (h_tasks h)" and le: "h_inflight h \<le> m" using inv by (simp_all add: s peak_inv_def)
  have idle: ?thesis
    if "h_tasks h' = (h_tasks h)(k \<mapsto> t')" "\<And>t. h_tasks h k = Some t \<Longrightarrow> wanted t = None" "wanted t' = None"
      "h_inflight h' \<le> h_inflight h" "h_peak h' = h_peak h" for k t'
  proof -
    have "max m (h_inflight h') = m" "h_inflight h' \<le> m" using that(4) le by simp_all
    then show ?thesis using peak_ok_idle [OF ok that(2,3)] that(1,5) by (simp add: h' peak_inv_def)
  qed
  show ?thesis
  proof (cases e)
    case (HSpawn off)
    have "Suc (h_seq h) \<notin> dom (h_tasks h)" using hs by (simp add: s hs_inv_def)
    then have "h_tasks h (Suc (h_seq h)) = None" by blast
    with h'(1) HSpawn show ?thesis
      by (intro idle [of "Suc (h_seq h)" TSpawned]) (auto simp: h_spawn_def Let_def put_task_def)
  next
    case (HOffered k)
    with h'(1) show ?thesis by (intro idle [of k TOffered]) (auto simp: issue_offered_def split: if_splits)
  next
    case (HEnter k)
    with h'(1) have "h_tasks h k = Some TOffered" "h' = put_task (h\<lparr>h_inflight := h_inflight h + 1\<rparr>) k (TLoad (h_inflight h + 1))"
      by (auto simp: issue_enter_def Let_def split: if_splits)
    with peak_enter [OF ok] show ?thesis by (simp add: h' peak_inv_def)
  next
    case (HLoad k)
    with h'(1) obtain n where "h_tasks h k = Some (TLoad n)"
      "h' = put_task h k (if n \<le> h_peak h then TSending else TSwap n (h_peak h))"
      by (auto simp: issue_load_def Let_def split: option.splits task.splits)
    with peak_load [OF ok] le show ?thesis by (simp add: h' peak_inv_def)
  next
    case (HSwap k)
    with h'(1) obtain n q where "h_tasks h k = Some (TSwap n q)" and
      "h' = (if h_peak h = q then put_task (h\<lparr>h_peak := n\<rparr>) k TSending else put_task h k (TLoad n))"
      by (auto simp: issue_swap_def split: option.splits task.splits)
    with peak_swap [OF ok] le show ?thesis by (simp add: h' peak_inv_def)
  next
    case (HAnswer k ans latency)
    with h'(1) issue_answer_effect obtain t' where "h_tasks h k = Some TSending" "settled t'"
      "h_tasks h' = (h_tasks h)(k \<mapsto> t')" "h_inflight h' = h_inflight h" "h_peak h' = h_peak h"
      by (simp only: h_step.simps) blast
    then show ?thesis by (intro idle [of k t']) (cases t'; simp)+
  next
    case (HRecord k)
    with h'(1) issue_record_effect obtain r l where "h_tasks h k = Some (TRecording r l)"
      "h_tasks h' = (h_tasks h)(k \<mapsto> TLeaving)" "h_inflight h' = h_inflight h" "h_peak h' = h_peak h"
      by (simp only: h_step.simps) blast
    then show ?thesis by (intro idle [of k TLeaving]) simp_all
  next
    case (HLeave k)
    with h'(1) show ?thesis by (intro idle [of k TGone]) (auto simp: issue_leave_def split: if_splits)
  qed
qed

interpretation hh: machine h_step_high "\<lambda>s. hs_inv (fst s) \<and> peak_inv s"
  by unfold_locales (auto simp: h_step_high_def intro: h_step_inv peak_inv_step)

subsection \<open>The report is exact\<close>

text \<open>How many requests are in flight at each moment of a run.\<close>

fun in_flight_trail :: "h_event list \<Rightarrow> harness \<Rightarrow> int list" where
  "in_flight_trail [] h = [h_inflight h]"
| "in_flight_trail (e # es) h =
     h_inflight h # (case h_step e h of Some h' \<Rightarrow> in_flight_trail es h' | None \<Rightarrow> [])"

lemma in_flight_trail_start: "h_inflight h \<in> set (in_flight_trail es h)"
  by (cases es) simp_all

lemma run_high:
  "run h_step es h = Some h' \<Longrightarrow>
    run h_step_high es (h, m) = Some (h', Max (insert m (set (tl (in_flight_trail es h)))))"
proof (induction es arbitrary: h m)
  case (Cons e es)
  from Cons.prems obtain h1 where h1: "h_step e h = Some h1" "run h_step es h1 = Some h'"
    by (rule run_ConsE)
  let ?T = "in_flight_trail es h1"
  have T: "insert (h_inflight h1) (set (tl ?T)) = set ?T" by (cases es) auto
  have "Max (insert (max m (h_inflight h1)) (set (tl ?T))) = Max (insert m (set ?T))"
    unfolding T [symmetric] by (cases "set (tl ?T) = {}") (simp_all add: max.assoc)
  then show ?case using Cons.IH [OF h1(2), of "max m (h_inflight h1)"] h1(1) by (simp add: h_step_high_def)
qed simp

lemma peak_is_max:
  assumes run: "run h_step es (new_harness out) = Some h" and gone: "\<forall>t \<in> ran (h_tasks h). t = TGone"
  shows "h_peak h = Max (set (in_flight_trail es (new_harness out)))"
proof -
  let ?T = "in_flight_trail es (new_harness out)"
  have "peak_inv (new_harness out, 0)" by (simp add: peak_inv_def peak_ok_def new_harness_def)
  then have "peak_inv (h, Max (insert 0 (set (tl ?T))))"
    using hh.run_good [OF _ run_high [OF run, of 0]] new_harness_inv by simp
  then have "h_peak h = Max (insert 0 (set (tl ?T)))"
    using peak_okD(4) gone by (fastforce simp: peak_inv_def)
  moreover have "insert 0 (set (tl ?T)) = set ?T" by (cases es) (auto simp: new_harness_def)
  ultimately show ?thesis by simp
qed

lemma h_percentiles_total: "\<exists>x. h_percentiles ls = Some x"
proof (cases "ls = []")
  case False
  then have n: "0 < int (length ls)" by simp
  have q: "\<exists>x. go_index (sort ls) (quantile_index q (int (length ls))) = Some x" if "0 < q" "q \<le> 1" for q
    using quantile_index_ok [OF that n] by (simp add: go_index_def)
  obtain a b c where "go_index (sort ls) (quantile_index (1 / 2) (int (length ls))) = Some a"
    "go_index (sort ls) (quantile_index (95 / 100) (int (length ls))) = Some b"
    "go_index (sort ls) (quantile_index (99 / 100) (int (length ls))) = Some c"
    using q [of "1 / 2"] q [of "95 / 100"] q [of "99 / 100"] by auto
  moreover have "\<exists>x. go_index (sort ls) (int (length ls) - 1) = Some x" using n by (simp add: go_index_def)
  ultimately show ?thesis using False by (auto simp only: h_percentiles_def Let_def length_sort bind.simps if_False)
qed (simp add: h_percentiles_def)

text \<open>C17. When every goroutine of a run has finished, the harness reports, and its report is exact for
  every interleaving: each request that was issued is counted once, as placed, dropped or failed;
  the run meets its objective exactly when all of them were placed; and the reported peak is the
  largest number of requests that were in flight at any moment of the run.\<close>

theorem report_is_exact:
  assumes "run h_step es (new_harness out) = Some h" and "\<forall>t \<in> ran (h_tasks h). t = TGone"
  shows "\<exists>rep v. h_finish h = Some (rep, v) \<and> rep_offered rep = int (h_seq h) \<and>
    rep_placed rep + rep_dropped rep + rep_failed rep = int (h_seq h) \<and>
    (v = ObjectiveMet \<longleftrightarrow> rep_placed rep = int (h_seq h)) \<and>
    rep_peak rep = Max (set (in_flight_trail es (new_harness out))) \<and> h_inflight h = 0"
proof -
  have inv: "hs_inv h" by (rule hm.run_good [OF new_harness_inv assms(1)])
  have dom: "dom (h_tasks h) = {1..h_seq h}" using inv by (simp add: hs_inv_def)
  have gone: "h_tasks h k = Some TGone" if "k \<in> {1..h_seq h}" for k
    using that assms(2) unfolding dom [symmetric] by (auto simp: ran_def)
  have all: "census P (h_tasks h) = (if P TGone then int (h_seq h) else 0)" for P
  proof -
    have "{k. \<exists>t. h_tasks h k = Some t \<and> P t} = (if P TGone then dom (h_tasks h) else {})"
      using assms(2) by (auto simp: ran_def dom_def)
    then show ?thesis by (simp add: census_def dom)
  qed
  have c: "h_offered h = int (h_seq h)" "h_inflight h = 0"
    "h_placed h + h_dropped h + h_failed h = int (h_seq h)"
    "0 \<le> h_placed h" "0 \<le> h_dropped h" "0 \<le> h_failed h"
    using inv by (simp_all add: hs_inv_def all)
  obtain lat where "h_percentiles (h_latencies h) = Some lat" using h_percentiles_total by blast
  moreover have "\<not> (\<exists>k \<in> set [1..<Suc (h_seq h)]. h_tasks h k \<noteq> Some TGone)" using gone by auto
  ultimately show ?thesis
    using c peak_is_max [OF assms] by (auto simp: h_finish_def)
qed

text \<open>Two requests in flight together; the second to enter raises the peak before the first has
  swapped, whose compare-and-swap then fails.\<close>

definition "race = [HSpawn 0, HSpawn 5, HOffered 1, HEnter 1, HOffered 2, HEnter 2, HLoad 1, HLoad 2, HSwap 2,
  HSwap 1, HLoad 1, HAnswer 1 (Response 201 ''a'' 7) 100, HAnswer 2 (Response 503 '''' 0) 200,
  HRecord 1, HRecord 2, HLeave 1, HLeave 2]"

lemma ran_two: "m = [1 \<mapsto> TGone, 2 \<mapsto> TGone] \<Longrightarrow> \<forall>t \<in> ran m. t = TGone"
  by (auto simp: ran_def split: if_splits)

theorem report_is_exact_witness:
  "\<exists>h rep v. run h_step race (new_harness False) = Some h \<and> h_finish h = Some (rep, v) \<and>
     rep_peak rep = 2 \<and> rep_offered rep = 2 \<and> v \<noteq> ObjectiveMet"
proof -
  have r: "\<exists>h. run h_step race (new_harness False) = Some h \<and> h_seq h = 2 \<and> h_placed h = 1 \<and>
      h_tasks h = [1 \<mapsto> TGone, 2 \<mapsto> TGone]"
    by (simp add: race_def new_harness_def h_spawn_def issue_offered_def issue_enter_def issue_load_def
        issue_swap_def issue_answer_def issue_record_def issue_leave_def put_task_def Let_def fun_upd_twist
        eval_nat_numeral)
  then obtain h where h: "run h_step race (new_harness False) = Some h" "h_seq h = 2" "h_placed h = 1"
    "\<forall>t \<in> ran (h_tasks h). t = TGone" using ran_two by blast
  have trail: "Max (set (in_flight_trail race (new_harness False))) = 2"
    by (simp add: race_def new_harness_def h_spawn_def issue_offered_def issue_enter_def issue_load_def
        issue_swap_def issue_answer_def issue_record_def issue_leave_def put_task_def Let_def)
  from report_is_exact [OF h(1,4)] obtain rep v where rep: "h_finish h = Some (rep, v)" "rep_offered rep = 2"
    "v = ObjectiveMet \<longleftrightarrow> rep_placed rep = 2" "rep_peak rep = 2" using h(2) trail by auto
  have "rep_placed rep = 1" using rep(1) h(3) by (auto simp: h_finish_def split: if_splits bind_splits)
  with h(1) rep show ?thesis by auto
qed

subsection \<open>The requests of a run\<close>

lemma h_seq_spawns [simp]: "h_seq (foldl h_spawn h ts) = h_seq h + length ts"
  by (induction ts arbitrary: h) (simp_all add: h_spawn_def Let_def)

text \<open>The arrivals a run issues: those before the first that finds its context done.\<close>

definition cut_short :: "(nat \<Rightarrow> bool) \<Rightarrow> nat \<Rightarrow> duration list \<Rightarrow> nat \<Rightarrow> bool" where
  "cut_short cancelled n ts k \<longleftrightarrow>
     k \<le> length ts \<and> (\<forall>j < k. \<not> cancelled (n + j)) \<and> (k < length ts \<longrightarrow> cancelled (n + k))"

lemma cut_short_Cons:
  "\<not> cancelled n \<Longrightarrow> cut_short cancelled (Suc n) ts k \<Longrightarrow> cut_short cancelled n (t # ts) (Suc k)"
  by (auto simp: cut_short_def less_Suc_eq_0_disj)

lemma offer_loop_arrivals:
  "arrivals_loop oob R p out = Some r \<Longrightarrow>
    \<exists>ts. r = out @ ts \<and> (\<forall>cancelled h. \<exists>k. cut_short cancelled (h_seq h) ts k \<and>
      offer_loop oob R cancelled p h = Some (foldl h_spawn h (take k ts)))"
proof (induction rule: arrivals_loop.raw_induct [rotated 1, consumes 1, case_names step])
  case (step arrivals oob R p out r)
  from step(2) obtain t ok p' where nx: "Next oob R p = Some ((t, ok), p')"
    and r: "(if \<not> ok then Some out else arrivals oob R p' (out @ [t])) = Some r"
    by (auto split: bind_splits)
  show ?case
  proof (cases ok)
    case False
    with r nx show ?thesis
      by (auto simp: offer_loop.simps cut_short_def intro!: exI [of _ "[]"])
  next
    case True
    with r have "arrivals oob R p' (out @ [t]) = Some r" by simp
    from step(1) [OF this] obtain ts where ts: "r = (out @ [t]) @ ts"
      and IH: "\<forall>cancelled h. \<exists>k. cut_short cancelled (h_seq h) ts k \<and>
        offer_loop oob R cancelled p' h = Some (foldl h_spawn h (take k ts))" by blast
    have "\<exists>k. cut_short cancelled (h_seq h) (t # ts) k \<and>
        offer_loop oob R cancelled p h = Some (foldl h_spawn h (take k (t # ts)))" for cancelled h
    proof (cases "cancelled (h_seq h)")
      case True
      with nx \<open>ok\<close> show ?thesis
        by (intro exI [of _ 0]) (simp add: offer_loop.simps cut_short_def)
    next
      case False
      from IH obtain k where k: "cut_short cancelled (h_seq (h_spawn h t)) ts k"
        "offer_loop oob R cancelled p' (h_spawn h t) = Some (foldl h_spawn (h_spawn h t) (take k ts))" by blast
      have "h_seq (h_spawn h t) = Suc (h_seq h)" by (simp add: h_spawn_def Let_def)
      with k(1) cut_short_Cons [of cancelled "h_seq h" ts k t] False
      have "cut_short cancelled (h_seq h) (t # ts) (Suc k)" by simp
      with False k(2) nx \<open>ok\<close> show ?thesis
        by (intro exI [of _ "Suc k"]) (simp add: offer_loop.simps)
    qed
    then show ?thesis using ts by (intro exI [of _ "t # ts"]) simp
  qed
qed

text \<open>C24. A run issues exactly the arrivals of its process: when the arrivals of the configured ramps
  are a finite list, the loop returns, and it has started one goroutine for each arrival in order,
  up to the first that finds the context cancelled; without a cancellation that is all of them.\<close>

theorem run_issues_its_arrivals:
  assumes "lg_setup R opts = Inr p" and "Arrivals oob R (Some (lg_envelope opts)) (lg_seed opts) = Some (Inr ts)"
  shows "\<exists>k. offer_loop oob R cancelled p (new_harness out) = Some (foldl h_spawn (new_harness out) (take k ts)) \<and>
    k \<le> length ts \<and> (\<forall>j < k. \<not> cancelled j) \<and> (k < length ts \<longrightarrow> cancelled k)"
proof -
  have "NewProcess R (Some (lg_envelope opts)) (lg_seed opts) = Inr p"
    using assms(1) by (auto simp: lg_setup_def split: option.splits sum.splits)
  with assms(2) have "arrivals_loop oob R p [] = Some ts" by (simp add: Arrivals_def)
  from offer_loop_arrivals [OF this] obtain k where
    "cut_short cancelled (h_seq (new_harness out)) ts k"
    "offer_loop oob R cancelled p (new_harness out) = Some (foldl h_spawn (new_harness out) (take k ts))" by auto
  then show ?thesis by (intro exI [of _ k]) (auto simp: cut_short_def new_harness_def le_less)
qed

text \<open>One cycle of the trapezoid of four seconds, and a context that is done when the third arrival
  is due.\<close>

definition demo_lg :: lg_options where
  "demo_lg = default_lg_options\<lparr>lg_peakRPS := 1, lg_rampUp := 2 * second, lg_rampDown := 2 * second,
     lg_cycles := 1\<rparr>"

lemma demo_lg_arrivals:
  "Arrivals (\<lambda>_. 0) demo_rand (Some (lg_envelope demo_lg)) (lg_seed demo_lg) =
    Some (Inr [second, 2 * second, 3 * second])"
proof -
  let ?e = "lg_envelope demo_lg"
  have ramp: "lg_ramp demo_lg = demo_ramp" by (simp add: lg_ramp_def demo_lg_def default_lg_options_def demo_ramp_def)
  have ok: "ramp_ok demo_ramp"
    by (simp add: ramp_ok_def ramp_Validate_def demo_ramp_def second_def max_duration_def)
  have dur: "ramp_Duration demo_ramp = 4 * second"
    using ramp_Duration_eq [OF ok] by (simp add: demo_ramp_def)
  have cycles: "lg_cycles demo_lg = 1" by (simp add: demo_lg_def)
  have e: "PeakRate ?e = 1" "Duration ?e = 4 * second"
    "\<And>t. 0 \<le> t \<Longrightarrow> t < 4 * second \<Longrightarrow> RateAt ?e t = ramp_RateAt demo_ramp t"
    by (simp_all add: lg_envelope_def ramp cycles Repeat_Envelope_def repeat_PeakRate_def repeat_Duration_def
        repeat_RateAt_def dur demo_peak second_def wrap64_def)
  have p: "NewProcess demo_rand (Some ?e) (lg_seed demo_lg) = Inr (proc_at (\<lambda>_. 0) demo_rand ?e () 0)"
    using e by (simp add: NewProcess_def proc_at_def second_def)
  have rate: "RateAt ?e (int i * second) = ramp_RateAt demo_ramp (int i * second)" if "i \<le> 4" for i
    using that by (cases "i = 4") (simp_all add: e(3) lg_envelope_def ramp cycles Repeat_Envelope_def
        repeat_Duration_def repeat_RateAt_def dur second_def wrap64_def)
  have acc: "accepted (\<lambda>_. 0) demo_rand ?e () i \<longleftrightarrow> 1 / 4 < ramp_RateAt demo_ramp (int (Suc i) * second)"
    if "i < 4" for i
    using rate [of "Suc i"] that by (simp del: clock.simps of_nat_Suc add: accepted_def e(1) demo_clock)
      (simp add: demo_rand_def)
  have "[0..<4] = [0, 1, 2, 3::nat]" by (simp add: upt_rec)
  then have kept: "filter (accepted (\<lambda>_. 0) demo_rand ?e ()) [0..<4] = [0, 1, 2]"
    using ramp_RateAt_eq [OF ok] by (simp add: acc) (simp add: demo_ramp_def second_def)
  have "bounded_draws demo_rand (PeakRate ?e)" by (simp add: bounded_draws_def demo_rand_def e(1))
  then have "arrivals_loop (\<lambda>_. 0) demo_rand (proc_at (\<lambda>_. 0) demo_rand ?e () 0) [] = Some [second, 2 * second, 3 * second]"
    using arrivals_loop_eq [where e = ?e and R = demo_rand and oob = "\<lambda>_. 0" and g = "()" and n = 4 and i = 0 and out = "[]"]
      kept by (simp del: clock.simps add: e(1,2) demo_clock) (simp add: second_def)
  then show ?thesis using p by (simp add: Arrivals_def)
qed

lemma demo_lg_setup: "\<exists>p. lg_setup R demo_lg = Inr p"
  by (simp add: lg_setup_def lg_ramp_def lg_envelope_def demo_lg_def default_lg_options_def ramp_Validate_def
      NewProcess_def Repeat_Envelope_def Ramp_Envelope_def repeat_Duration_def ramp_Duration_def
      repeat_PeakRate_def ramp_PeakRate_def second_def wrap64_def Let_def)

theorem run_issues_its_arrivals_witness:
  "\<exists>p. lg_setup demo_rand demo_lg = Inr p \<and>
     offer_loop (\<lambda>_. 0) demo_rand (\<lambda>j. j = 2) p (new_harness False) =
       Some (foldl h_spawn (new_harness False) [second, 2 * second])"
proof -
  obtain p where p: "lg_setup demo_rand demo_lg = Inr p"
    using demo_lg_setup by blast
  from run_issues_its_arrivals [OF p demo_lg_arrivals, of "\<lambda>j. j = 2" False] p show ?thesis by auto
qed

lemma default_run_is_valid: "\<exists>p. lg_setup R default_lg_options = Inr p"
  by (simp add: lg_setup_def lg_ramp_def lg_envelope_def default_lg_options_def ramp_Validate_def NewProcess_def
      Repeat_Envelope_def Ramp_Envelope_def repeat_Duration_def ramp_Duration_def repeat_PeakRate_def
      ramp_PeakRate_def second_def wrap64_def Let_def)

end
