(* ===== verification/SimMainProps.thy ===== *)
theory SimMainProps
  imports SimMain SimRunProps HarnessProps
begin

section \<open>Correctness of the goroutine that runs a simulation\<close>

text \<open>
  A simulation that returns a result has offered exactly the arrivals of its envelope and seed, and
  its summary counts them; one that returns an error was cancelled.
\<close>

subsection \<open>Granted requests\<close>

text \<open>Every placement was granted to a request that had not been answered before.\<close>

fun unanswered_task :: "sim_task \<Rightarrow> bool" where
  "unanswered_task (SimSpawned i) = True"
| "unanswered_task _ = False"

definition granted_inv :: "nat \<Rightarrow> duration list \<Rightarrow> sim_run \<Rightarrow> bool" where
  "granted_inv n waits s \<longleftrightarrow> int (length waits) + census unanswered_task (sr_tasks s) \<le> int n"

lemma goto_sel [simp]:
  "sr_tasks (goto s k r t) = (sr_tasks s)(k \<mapsto> t)" "sr_spawned (goto s k r t) = sr_spawned s"
  "sr_runner (goto s k r t) = r" "sr_timeline (goto s k r t) = sr_timeline s"
  by (simp_all add: goto_def)

lemma run_step_granted:
  assumes inv: "tasks_inv n waits s" and g: "granted_inv n waits s" and st: "run_step oob e s = Some s'"
  shows "granted_inv (n + spawned_by [e]) (waits @ admitted_waits [e]) s'"
proof -
  have fin: "finite (dom (sr_tasks s))" using inv by (simp add: tasks_inv_def)
  have put: "census unanswered_task ((sr_tasks s)(k \<mapsto> t)) =
      census unanswered_task (sr_tasks s) + of_bool (unanswered_task t) - was unanswered_task s k" for k t
    using census_put [OF fin, of unanswered_task k t] by (simp add: was_def)
  have w: "0 \<le> was unanswered_task s k" for k by (simp add: was_def)
  show ?thesis
  proof (cases e)
    case RunSpawn
    have "was unanswered_task s (Suc n) = 0" using tasks_inv_fresh [OF inv] by blast
    moreover have "sr_spawned s = n" using inv by (simp add: tasks_inv_def)
    ultimately show ?thesis using st g RunSpawn put [of "Suc n"]
      by (auto simp: granted_inv_def run_spawn_def Let_def split_beta simp del: fun_upd_apply)
  next
    case (RunAdmitted k res)
    with st obtain i where i: "sr_tasks s k = Some (SimSpawned i)"
      "s' = goto s k (sr_runner s) (case res of Inl e \<Rightarrow> SimGone | Inr r \<Rightarrow> SimPlaced i r)"
      by (auto simp: issue_admitted_def split: option.splits sim_task.splits)
    then have "was unanswered_task s k = 1" by (simp add: was_def)
    with i(2) RunAdmitted g put [of k] show ?thesis by (cases res) (simp_all add: granted_inv_def)
  next
    case (RunNext k os x)
    with st obtain r t where "s' = goto s k r t" "\<not> unanswered_task t"
      by (auto simp: issue_next_def Let_def split: option.splits sim_task.splits)
    with RunNext g put [of k t] w [of k] show ?thesis by (simp add: granted_inv_def)
  next
    case (RunRelease k)
    with st obtain r t where "s' = goto s k r t" "\<not> unanswered_task t"
      by (auto simp: issue_release_def split: option.splits sim_task.splits bind_splits)
    with RunRelease g put [of k t] w [of k] show ?thesis by (simp add: granted_inv_def)
  qed (use st g in \<open>auto simp: granted_inv_def sampler_tick_def split: bind_splits\<close>)
qed

subsection \<open>The books of the run\<close>

definition all_gone :: "sim_run \<Rightarrow> bool" where
  "all_gone s \<longleftrightarrow> (\<forall>k. sr_tasks s k \<in> {None, Some SimGone})"

lemma gone_step:
  assumes gone: "all_gone s" and st: "run_step oob e s = Some s'" and "e \<noteq> RunSpawn"
  shows "all_gone s'"
proof -
  have g: "sr_tasks s k = None \<or> sr_tasks s k = Some SimGone" for k using gone by (auto simp: all_gone_def)
  have "issue_admitted s k res = None" "issue_next oob os x s k = None" "issue_release s k = None" for k res os x
    using g [of k] by (auto simp: issue_admitted_def issue_next_def issue_release_def Let_def)
  with st gone assms(3) show ?thesis
    by (cases e) (auto simp: all_gone_def sampler_tick_def split: bind_splits)
qed

text \<open>What the position of \<^verbatim>\<open>run\<close> says of the arrivals \<open>ts\<close> and of what has been offered.\<close>

definition pos_good :: "(real \<Rightarrow> int) \<Rightarrow> 'g rand_lib \<Rightarrow> duration list \<Rightarrow> 'g sim_main \<Rightarrow> bool" where
  "pos_good oob R ts m \<longleftrightarrow>
     (let n = sr_spawned (sm_run m) in
      case sm_pos m of
        SmNext \<Rightarrow> \<exists>out. arrivals_loop oob R (sm_proc m) out = Some ts \<and> length out = n
      | SmDue t \<Rightarrow> \<exists>out. arrivals_loop oob R (sm_proc m) (out @ [t]) = Some ts \<and> length out = n
      | SmJoining \<Rightarrow> n = length ts
      | SmFinishing \<Rightarrow> n = length ts \<and> all_gone (sm_run m)
      | SmReturned None \<Rightarrow> n \<le> length ts \<and> sm_cancelled m
      | SmReturned (Some res) \<Rightarrow> n = length ts \<and> Offered res = int n \<and> 0 \<le> Placed res \<and> Placed res \<le> int n)"

definition sm_good :: "(real \<Rightarrow> int) \<Rightarrow> 'g rand_lib \<Rightarrow> sim_config \<Rightarrow> duration list \<Rightarrow> 'g sim_main \<Rightarrow> bool" where
  "sm_good oob R cfg ts m \<longleftrightarrow> int (length ts) < 2 ^ 63 - 1 \<and> 0 < SampleInterval cfg \<and> pos_good oob R ts m \<and>
     sr_tasks (sm_run m) 0 = None \<and> rate_inv cfg (sr_spawned (sm_run m)) (sm_run m) \<and>
     (\<exists>ws. tasks_inv (sr_spawned (sm_run m)) ws (sm_run m) \<and> granted_inv (sr_spawned (sm_run m)) ws (sm_run m))"

lemma arrivals_prefix: "arrivals_loop oob R p out = Some ts \<Longrightarrow> length out \<le> length ts"
  using offer_loop_arrivals [of oob R p out ts] by auto

lemma spawned_bound: "pos_good oob R ts m \<Longrightarrow> sr_spawned (sm_run m) \<le> length ts"
  by (auto simp: pos_good_def Let_def dest: arrivals_prefix split: sim_pos.splits option.splits)

text \<open>A step of \<^verbatim>\<open>arrivals_loop\<close> is a draw.\<close>

lemma arrivals_next:
  assumes "arrivals_loop oob R p out = Some ts"
  obtains t p' where "Next oob R p = Some ((t, True), p')" "arrivals_loop oob R p' (out @ [t]) = Some ts"
  | t p' where "Next oob R p = Some ((t, False), p')" "out = ts"
  using assms by (subst (asm) arrivals_loop.simps) (auto split: bind_splits if_splits)

text \<open>The other goroutines and the arrivals, as far as the books go.\<close>

lemma books_step:
  assumes good: "sm_good oob R cfg ts m" and st: "run_step oob e (sm_run m) = Some s" and n: "sr_spawned s \<le> length ts"
  shows "sr_spawned s = sr_spawned (sm_run m) + spawned_by [e]" "sr_tasks s 0 = None" "rate_inv cfg (sr_spawned s) s"
    "\<exists>ws. tasks_inv (sr_spawned s) ws s \<and> granted_inv (sr_spawned s) ws s"
proof -
  from good obtain ws where inv: "tasks_inv (sr_spawned (sm_run m)) ws (sm_run m)"
    "granted_inv (sr_spawned (sm_run m)) ws (sm_run m)" and r: "rate_inv cfg (sr_spawned (sm_run m)) (sm_run m)"
    and b: "int (length ts) < 2 ^ 63 - 1" "0 < SampleInterval cfg" "sr_tasks (sm_run m) 0 = None"
    "sr_spawned (sm_run m) \<le> length ts" by (auto simp: sm_good_def dest: spawned_bound)
  note t = run_step_tasks [OF inv(1) st]
  then show sp: "sr_spawned s = sr_spawned (sm_run m) + spawned_by [e]" by (simp add: tasks_inv_def)
  have "int (sr_spawned (sm_run m)) < 2 ^ 63 - 1" using b(1,4) by simp
  from run_step_rates [OF r b(2) this st] show "rate_inv cfg (sr_spawned s) s" by (simp add: sp)
  show "\<exists>ws. tasks_inv (sr_spawned s) ws s \<and> granted_inv (sr_spawned s) ws s"
    using t run_step_granted [OF inv st] unfolding sp by blast
  show "sr_tasks s 0 = None"
    using st b(3) by (cases e) (auto simp: run_spawn_def issue_admitted_def issue_next_def issue_release_def
        sampler_tick_def Let_def split_beta intro!: gr0I split: option.splits sim_task.splits bind_splits)
qed

lemma summary_counts:
  "run_result oob os ps ps' handed now s = Some res \<Longrightarrow>
     Offered res = sint (run_offered (sr_runner s)) \<and> Placed res = sint (run_placed (sr_runner s))"
  by (auto simp: run_result_def finish_def Let_def timeline_loop_frame simp del: timeline_loop.simps of_int_sint
      dest: sim_step_frame split: bind_splits)

lemma gone_counts:
  assumes good: "sm_good oob R cfg ts m" and gone: "all_gone (sm_run m)"
    and res: "run_result oob os ps ps' handed now (sm_run m) = Some res"
  shows "Offered res = int (sr_spawned (sm_run m))" "0 \<le> Placed res" "Placed res \<le> int (sr_spawned (sm_run m))"
proof -
  let ?s = "sm_run m"
  have none: "census Q (sr_tasks ?s) = 0" if "\<not> Q SimGone" for Q
    using gone that unfolding census_def all_gone_def by (auto simp: card_eq_0_iff) (metis option.distinct(1) option.inject)
  from good obtain ws where t: "tasks_inv (sr_spawned ?s) ws ?s" "granted_inv (sr_spawned ?s) ws ?s"
    and r: "run_offered (sr_runner ?s) = of_nat (sr_spawned ?s)" and b: "int (length ts) < 2 ^ 63 - 1" "sr_spawned ?s \<le> length ts"
    by (auto simp: sm_good_def rate_inv_def dest: spawned_bound)
  have "run_placed (sr_runner ?s) = of_nat (length ws)" using t(1) none [of SimRunProps.uncounted] by (simp add: tasks_inv_def)
  moreover have ws: "length ws \<le> sr_spawned ?s" using t(2) none [of unanswered_task] by (simp add: granted_inv_def)
  ultimately have "Placed res = int (length ws)" "Offered res = int (sr_spawned ?s)"
    using summary_counts [OF res] r b sint_of_nat [of "length ws"] sint_of_nat [of "sr_spawned ?s"] by simp_all
  with ws show "Offered res = int (sr_spawned ?s)" "0 \<le> Placed res" "Placed res \<le> int (sr_spawned ?s)" by simp_all
qed

text \<open>Every step keeps it.\<close>

lemma sm_good_pos: "sm_good oob R cfg ts m \<Longrightarrow> pos_good oob R ts m"
  by (simp add: sm_good_def)

lemma sm_good_keep:
  "sm_good oob R cfg ts m \<Longrightarrow> sm_run m' = sm_run m \<Longrightarrow> pos_good oob R ts m' \<Longrightarrow> sm_good oob R cfg ts m'"
  by (simp add: sm_good_def)

lemma main_next_good:
  assumes good: "sm_good oob R cfg ts m" and st: "main_next oob R m = Some m'"
  shows "sm_good oob R cfg ts m'"
proof -
  from st obtain t ok p where at: "sm_pos m = SmNext" "Next oob R (sm_proc m) = Some ((t, ok), p)"
    "m' = m\<lparr>sm_proc := p, sm_pos := if ok then SmDue t else SmJoining\<rparr>"
    by (auto simp: main_next_def split: if_splits bind_splits)
  from sm_good_pos [OF good] at(1) obtain out where out: "arrivals_loop oob R (sm_proc m) out = Some ts"
    "length out = sr_spawned (sm_run m)" by (auto simp: pos_good_def Let_def)
  show ?thesis
    by (rule sm_good_keep [OF good]; rule arrivals_next [OF out(1)]) (use at out(2) in \<open>auto simp: pos_good_def Let_def\<close>)
qed

lemma main_due_good:
  assumes good: "sm_good oob R cfg ts m" and st: "main_due now m = Some m'"
  shows "sm_good oob R cfg ts m'"
proof -
  note pos = sm_good_pos [OF good]
  from st obtain t where t: "sm_pos m = SmDue t" by (auto simp: main_due_def split: sim_pos.splits)
  from pos t obtain out where out: "arrivals_loop oob R (sm_proc m) (out @ [t]) = Some ts"
    "length out = sr_spawned (sm_run m)" by (auto simp: pos_good_def Let_def)
  show ?thesis
  proof (cases "sm_cancelled m")
    case True
    with st t have "m' = m\<lparr>sm_stopped := True, sm_pos := SmReturned None\<rparr>" by (simp add: main_due_def)
    with True spawned_bound [OF pos] show ?thesis by (intro sm_good_keep [OF good]) (simp_all add: pos_good_def Let_def)
  next
    case False
    with st t have m': "m' = m\<lparr>sm_run := run_spawn (sm_run m), sm_pos := SmNext\<rparr>" by (simp add: main_due_def split: if_splits)
    have n: "sr_spawned (run_spawn (sm_run m)) = Suc (sr_spawned (sm_run m))"
      by (simp add: run_spawn_def Let_def split_beta)
    have "run_step oob RunSpawn (sm_run m) = Some (run_spawn (sm_run m))" by simp
    note b = books_step [OF good this]
    have "sr_spawned (run_spawn (sm_run m)) \<le> length ts" using arrivals_prefix [OF out(1)] out(2) n by simp
    with b(2-4) good out n show ?thesis by (auto simp: sm_good_def pos_good_def m' Let_def intro!: exI [of _ "out @ [t]"])
  qed
qed

lemma main_join_good:
  assumes good: "sm_good oob R cfg ts m" and st: "main_join m = Some m'"
  shows "sm_good oob R cfg ts m'"
proof -
  from st have j: "sm_pos m = SmJoining" "m' = m\<lparr>sm_stopped := True, sm_pos := SmFinishing\<rparr>"
    "\<forall>k \<in> {1..sr_spawned (sm_run m)}. sr_tasks (sm_run m) k = Some SimGone"
    by (auto simp: main_join_def list_all_iff split: if_splits)
  from good obtain ws where "tasks_inv (sr_spawned (sm_run m)) ws (sm_run m)" "sr_tasks (sm_run m) 0 = None"
    by (auto simp: sm_good_def)
  then have "sr_tasks (sm_run m) k \<in> {None, Some SimGone}" for k
    using j(3) by (cases "k = 0"; cases "k \<le> sr_spawned (sm_run m)") (auto simp: tasks_inv_def)
  then have "all_gone (sm_run m)" by (simp add: all_gone_def)
  with sm_good_pos [OF good] j show ?thesis by (intro sm_good_keep [OF good]) (simp_all add: pos_good_def Let_def)
qed

lemma main_finish_good:
  assumes good: "sm_good oob R cfg ts m" and st: "main_finish oob os ps ps' handed now m = Some m'"
  shows "sm_good oob R cfg ts m'"
proof -
  from st obtain res where res: "sm_pos m = SmFinishing" "m' = m\<lparr>sm_pos := SmReturned (Some res)\<rparr>"
    "run_result oob os ps ps' handed now (sm_run m) = Some res"
    by (auto simp: main_finish_def split: if_splits)
  with sm_good_pos [OF good] have "sr_spawned (sm_run m) = length ts" "all_gone (sm_run m)"
    by (simp_all add: pos_good_def Let_def)
  with gone_counts [OF good _ res(3)] res(2) show ?thesis
    by (intro sm_good_keep [OF good]) (simp_all add: pos_good_def Let_def)
qed

lemma others_move_good:
  assumes good: "sm_good oob R cfg ts m" and st: "others_move oob f m = Some m'"
  shows "sm_good oob R cfg ts m'"
proof -
  note pos = sm_good_pos [OF good]
  from st obtain s where s: "f \<noteq> RunSpawn" "run_step oob f (sm_run m) = Some s" "m' = m\<lparr>sm_run := s\<rparr>"
    by (auto simp: others_move_def split: if_splits)
  from s(1) have "spawned_by [f] = 0" by (cases f) simp_all
  moreover have "sr_spawned s = sr_spawned (sm_run m)"
    using s(1,2) by (cases f) (auto simp: issue_admitted_def issue_next_def issue_release_def
      sampler_tick_def Let_def split: option.splits sim_task.splits bind_splits)
  moreover note b = books_step [OF good s(2)] spawned_bound [OF pos]
  moreover have "pos_good oob R ts m'"
    using pos gone_step [OF _ s(2,1)] calculation
    by (auto simp: pos_good_def Let_def s(3) split: sim_pos.splits option.splits)
  ultimately show ?thesis using good by (simp add: sm_good_def s(3))
qed

lemma main_step_good:
  assumes good: "sm_good oob R cfg ts m" and st: "main_step oob R e m = Some m'"
  shows "sm_good oob R cfg ts m'"
proof -
  note pos = sm_good_pos [OF good] and keep = sm_good_keep [OF good]
  show ?thesis
  proof (cases e)
    case MSamplerLeaves
    with st have "m' = m\<lparr>sm_sampled := True\<rparr>" by (simp add: sampler_leaves_def split: if_splits)
    with pos show ?thesis by (intro keep) (auto simp: pos_good_def Let_def split: sim_pos.splits option.splits)
  next
    case MCancel
    with st pos show ?thesis by (intro keep) (auto simp: pos_good_def Let_def split: sim_pos.splits option.splits)
  qed (use st main_next_good [OF good] main_due_good [OF good] main_join_good [OF good] main_finish_good [OF good]
      others_move_good [OF good] in simp_all)
qed

interpretation sm: machine "main_step oob R" "sm_good oob R cfg ts" for oob R cfg ts
  by unfold_locales (rule main_step_good)

lemma main_starts_good:
  assumes "sim_Run_start cfg os0 = Some (Inr r0)" and "sim_main_start R r0 begun = Inr m0"
    and "Arrivals oob R (sim_Envelope cfg) (sim_Seed cfg) = Some (Inr ts)" and "int (length ts) < 2 ^ 63 - 1"
  shows "sm_good oob R cfg ts m0"
proof -
  note f = sim_Run_start_fields [OF assms(1)]
  from assms(2,3) obtain p where p: "arrivals_loop oob R p [] = Some ts"
    "m0 = \<lparr>sm_run = new_run r0 begun, sm_proc = p, sm_pos = SmNext, sm_cancelled = False, sm_stopped = False, sm_sampled = False\<rparr>"
    by (auto simp: sim_main_start_def Arrivals_def f(1) split: sum.splits)
  then have "tasks_inv 0 [] (new_run r0 begun)" "granted_inv 0 [] (new_run r0 begun)" "rate_inv cfg 0 (new_run r0 begun)"
    using f by (auto simp: new_run_def tasks_inv_def granted_inv_def rate_inv_def)
  then show ?thesis using p f(6) assms(4) by (auto simp: sm_good_def pos_good_def new_run_def)
qed

text \<open>C19. A simulated run offers exactly the arrivals of its envelope and seed. Whatever its goroutines,
  the placement service and the clock do: it never offers more of them; its loop is never stuck
  at a draw; the result it returns reports all of them as offered, and no more placements than
  that; and it returns without a result only when it was cancelled.\<close>

theorem simulated_run_offers_its_arrivals:
  assumes "sim_Run_start cfg os0 = Some (Inr r0)" and "sim_main_start R r0 begun = Inr m0"
    and "Arrivals oob R (sim_Envelope cfg) (sim_Seed cfg) = Some (Inr ts)" and "int (length ts) < 2 ^ 63 - 1"
    and "run (main_step oob R) es m0 = Some m"
  shows "sr_spawned (sm_run m) \<le> length ts \<and> (sm_pos m = SmNext \<longrightarrow> main_step oob R MNext m \<noteq> None) \<and>
    (case sm_pos m of
       SmReturned (Some res) \<Rightarrow> Offered res = int (length ts) \<and> 0 \<le> Placed res \<and> Placed res \<le> Offered res
     | SmReturned None \<Rightarrow> sm_cancelled m
     | _ \<Rightarrow> True)"
proof -
  have good: "sm_good oob R cfg ts m" by (rule sm.run_good [OF main_starts_good [OF assms(1-4)] assms(5)])
  then have pos: "pos_good oob R ts m" by (simp add: sm_good_def)
  have "main_step oob R MNext m \<noteq> None" if n: "sm_pos m = SmNext"
  proof -
    from pos n obtain out where "arrivals_loop oob R (sm_proc m) out = Some ts" by (auto simp: pos_good_def Let_def)
    then show ?thesis by (rule arrivals_next) (use n in \<open>auto simp: main_next_def\<close>)
  qed
  with spawned_bound [OF pos] pos show ?thesis
    by (auto simp: pos_good_def Let_def split: sim_pos.splits option.splits)
qed

text \<open>A run nobody cancels can be carried to its result, here with every request refused.\<close>

lemma refused_arrival:
  assumes "sm_pos m = SmNext" and "\<not> sm_cancelled m" and "Next oob R (sm_proc m) = Some ((t, True), p)"
  defines "s \<equiv> run_spawn (sm_run m)"
  shows "run (main_step oob R) [MNext, MDue (sr_started (sm_run m) + t), MOther (RunAdmitted (sr_spawned s) (Inl ErrQueueFull))] m =
    Some (m\<lparr>sm_proc := p, sm_run := goto s (sr_spawned s) (sr_runner s) SimGone\<rparr>)"
proof -
  have "sr_tasks s (sr_spawned s) = Some (SimSpawned (fst (run_offer (sr_runner (sm_run m)))))"
    by (simp add: s_def run_spawn_def Let_def split_beta)
  then have "issue_admitted s (sr_spawned s) (Inl ErrQueueFull) = Some (goto s (sr_spawned s) (sr_runner s) SimGone)"
    by (simp add: issue_admitted_def)
  with assms show ?thesis by (simp add: main_next_def main_due_def others_move_def)
qed

lemma refused_run:
  assumes "arrivals_loop oob R (sm_proc m) out = Some (out @ us)" and "sm_pos m = SmNext" and "\<not> sm_cancelled m"
    and "\<forall>k \<in> {1..sr_spawned (sm_run m)}. sr_tasks (sm_run m) k = Some SimGone" and "runner_reachable oob (sr_runner (sm_run m))"
  shows "\<exists>es m'. run (main_step oob R) es m = Some m' \<and> sm_pos m' = SmFinishing \<and> runner_reachable oob (sr_runner (sm_run m'))"
  using assms
proof (induction us arbitrary: m out)
  case Nil
  from Nil.prems(1) have "Next oob R (sm_proc m) \<noteq> None" by (subst (asm) arrivals_loop.simps) (auto split: bind_splits)
  then obtain t ok p where nx: "Next oob R (sm_proc m) = Some ((t, ok), p)" by auto
  have "\<not> ok"
  proof
    assume ok
    with Nil.prems(1) nx have "arrivals_loop oob R p (out @ [t]) = Some out" by (subst (asm) arrivals_loop.simps) simp
    from arrivals_prefix [OF this] show False by simp
  qed
  moreover have "list_all (\<lambda>k. sr_tasks (sm_run m) k = Some SimGone) [1..<Suc (sr_spawned (sm_run m))]"
    using Nil.prems(4) by (auto simp: list_all_iff)
  ultimately have "run (main_step oob R) [MNext, MJoin] m =
      Some (m\<lparr>sm_proc := p, sm_stopped := True, sm_pos := SmFinishing\<rparr>)"
    using nx Nil.prems(2) by (simp add: main_next_def main_join_def del: upt_Suc)
  then show ?case using Nil.prems(5) by (intro exI [of _ "[MNext, MJoin]"]) simp
next
  case (Cons u us)
  let ?s = "run_spawn (sm_run m)"
  from Cons.prems(1) show ?case
  proof (rule arrivals_next)
    fix t p'
    assume nx: "Next oob R (sm_proc m) = Some ((t, True), p')" and rest: "arrivals_loop oob R p' (out @ [t]) = Some (out @ u # us)"
    from offer_loop_arrivals [OF rest] have "t = u" by auto
    let ?m = "m\<lparr>sm_proc := p', sm_run := goto ?s (sr_spawned ?s) (sr_runner ?s) SimGone\<rparr>"
    have "runner_reachable oob (sr_runner ?s)" using runner_reachable.request [OF Cons.prems(5)]
      by (simp add: run_spawn_def Let_def split_beta)
    moreover have "\<forall>k \<in> {1..sr_spawned (sm_run ?m)}. sr_tasks (sm_run ?m) k = Some SimGone"
      using Cons.prems(4) by (auto simp: run_spawn_def Let_def split_beta)
    ultimately obtain es m' where es: "run (main_step oob R) es ?m = Some m'" "sm_pos m' = SmFinishing"
      "runner_reachable oob (sr_runner (sm_run m'))"
      using Cons.IH [of ?m "out @ [t]"] rest \<open>t = u\<close> Cons.prems(2,3) by auto
    let ?es = "[MNext, MDue (sr_started (sm_run m) + t), MOther (RunAdmitted (sr_spawned ?s) (Inl ErrQueueFull))]"
    have "run (main_step oob R) (?es @ es) m = Some m'"
      by (simp only: run_append [of _ ?es es] refused_arrival [OF Cons.prems(2,3) nx] es(1) Option.bind.simps)
    with es(2,3) show ?thesis by blast
  qed simp
qed

lemma uncancelled_run_returns:
  assumes st: "sim_Run_start cfg os0 = Some (Inr r0)" and os: "pod_orders_ok os0" and m0: "sim_main_start R r0 begun = Inr m0"
    and arr: "Arrivals oob R (sim_Envelope cfg) (sim_Seed cfg) = Some (Inr ts)"
  shows "\<exists>es m res. run (main_step oob R) es m0 = Some m \<and> sm_pos m = SmReturned (Some res)"
proof -
  from m0 arr obtain p where p: "arrivals_loop oob R p [] = Some ts"
    "m0 = \<lparr>sm_run = new_run r0 begun, sm_proc = p, sm_pos = SmNext, sm_cancelled = False, sm_stopped = False, sm_sampled = False\<rparr>"
    by (auto simp: sim_main_start_def Arrivals_def sim_Run_start_fields(1) [OF st] split: sum.splits)
  with refused_run [of oob R m0 "[]" ts] runner_reachable.start [OF os st, of oob] obtain es m where
    es: "run (main_step oob R) es m0 = Some m" "sm_pos m = SmFinishing" "runner_reachable oob (sr_runner (sm_run m))"
    by (auto simp: new_run_def)
  from sim_step_ok [OF runner_reachable_inv [OF es(3)] os] obtain final r where
    f: "sim_step oob os0 demo_stats (sr_started (sm_run m)) 0 (sr_runner (sm_run m)) = Some (final, r)" by blast
  obtain a b c where "percentiles (run_waits r) = Some (a, b, c)"
    using percentiles_are_order_statistics [of "run_waits r"] by (cases "run_waits r = []") (auto simp: percentiles_def)
  then obtain res where "run_result oob os0 demo_stats demo_stats False 0 (sm_run m) = Some res"
    using f by (auto simp: run_result_def elim!: finish_fields)
  then have "run (main_step oob R) (es @ [MFinish os0 demo_stats demo_stats False 0]) m0 = Some (m\<lparr>sm_pos := SmReturned (Some res)\<rparr>)"
    by (simp add: run_append es main_finish_def)
  then show ?thesis by (metis (no_types, lifting) sim_main.select_convs(3) sim_main.surjective sim_main.update_convs(3))
qed

text \<open>The simulated run of the examples with the three arrivals of \<open>demo_lg\<close>.\<close>

definition three_sim :: sim_config where
  "three_sim = demo_sim\<lparr>sim_Envelope := Some (lg_envelope demo_lg), sim_Seed := lg_seed demo_lg\<rparr>"

lemma three_sim_starts:
  "\<exists>r0 m0. sim_Run_start three_sim ascending = Some (Inr r0) \<and> sim_main_start demo_rand r0 0 = Inr m0"
proof -
  obtain r where r: "sim_Run_start demo_sim ascending = Some (Inr r)" using demo_runner_exists by blast
  have "0 < Duration (lg_envelope demo_lg)"
    using demo_lg_arrivals by (auto simp: Arrivals_def NewProcess_def split: if_splits)
  then have "sim_Validate three_sim = sim_Validate demo_sim"
    by (simp add: three_sim_def sim_Validate_def demo_sim_def Ramp_Envelope_def ramp_Duration_def fits64_def)
  with r have r0: "sim_Run_start three_sim ascending = Some (Inr (r\<lparr>run_cfg := three_sim\<rparr>))"
    by (auto simp: sim_Run_start_def three_sim_def Let_def split: option.splits sum.splits)
  obtain p where "NewProcess demo_rand (Some (lg_envelope demo_lg)) (lg_seed demo_lg) = Inr p"
    using demo_lg_arrivals by (auto simp: Arrivals_def split: sum.splits)
  then have "\<exists>m0. sim_main_start demo_rand (r\<lparr>run_cfg := three_sim\<rparr>) 0 = Inr m0"
    by (simp add: sim_main_start_def three_sim_def)
  with r0 show ?thesis by blast
qed

theorem simulated_run_offers_its_arrivals_witness:
  "\<exists>r0 m0 es m res. sim_Run_start three_sim ascending = Some (Inr r0) \<and> sim_main_start demo_rand r0 0 = Inr m0 \<and>
     run (main_step (\<lambda>_. 0) demo_rand) es m0 = Some m \<and> sm_pos m = SmReturned (Some res) \<and> Offered res = 3"
proof -
  from three_sim_starts obtain r0 and m0 :: "unit sim_main" where
    st: "sim_Run_start three_sim ascending = Some (Inr r0)" "sim_main_start demo_rand r0 0 = Inr m0" by blast
  let ?ts = "[second, 2 * second, 3 * second]"
  have arr: "Arrivals (\<lambda>_. 0) demo_rand (sim_Envelope three_sim) (sim_Seed three_sim) = Some (Inr ?ts)"
    using demo_lg_arrivals by (simp add: three_sim_def)
  from uncancelled_run_returns [OF st(1) ascending_ok st(2) arr] obtain es m res where
    m: "run (main_step (\<lambda>_. 0) demo_rand) es m0 = Some m" "sm_pos m = SmReturned (Some res)" by blast
  have "int (length ?ts) < 2 ^ 63 - 1" by simp
  from simulated_run_offers_its_arrivals [OF st arr this m(1)] m st show ?thesis by auto
qed

end
