(* ===== verification/Qemu.thy ===== *)
theory Qemu
  imports Hypervisor
begin

section \<open>The QEMU hypervisor (internal/hypervisor/qemu.go)\<close>

text \<open>
  The hypervisor that runs every microVM as a QEMU process. Its slots and timers follow the
  pattern of the fake; what it adds are the processes. \<^verbatim>\<open>boot\<close> creates a context whose
  cancellation kills the process, spawns it, and publishes the command in the \<^verbatim>\<open>qemuVM\<close>,
  step by step and without the mutex, while \<^verbatim>\<open>Stop\<close>, \<^verbatim>\<open>reap\<close> and \<^verbatim>\<open>Close\<close> may terminate the
  same \<^verbatim>\<open>qemuVM\<close>. The operating system is the events: whether a spawn succeeds, whether the
  readiness marker arrives, the clock. The architecture, the file system and the \<^verbatim>\<open>PATH\<close> are
  arguments of the configuration's functions.
\<close>

subsection \<open>Configuration\<close>

record QEMUConfig =
  q_Slots :: int
  Binary :: string
  KernelImage :: string
  InitrdImage :: string
  RootfsImage :: string
  q_MemMiB :: int
  BootTimeout :: duration
  ReadyMarker :: string
  Accel :: string

definition DefaultReadyMarker :: string where "DefaultReadyMarker = ''MICROVM_READY''"
definition DefaultQEMUBootTimeout :: duration where "DefaultQEMUBootTimeout = 90 * second"
definition DefaultGuestMemMiB :: int where "DefaultGuestMemMiB = 128"

text \<open>\<open>arch\<close> is \<^verbatim>\<open>runtime.GOARCH\<close>; \<open>exists\<close> tells whether \<^verbatim>\<open>os.Stat\<close> of a path succeeds.\<close>

definition defaultQEMUBinary :: "string \<Rightarrow> string" where
  "defaultQEMUBinary arch =
     (if arch = ''arm64'' then ''qemu-system-aarch64''
      else if arch = ''amd64'' then ''qemu-system-x86_64''
      else ''qemu-system-'' @ arch)"

definition detectAccel :: "(string \<Rightarrow> bool) \<Rightarrow> string" where
  "detectAccel exists = (if exists ''/dev/kvm'' then ''kvm'' else ''tcg'')"

definition qemu_applyDefaults :: "string \<Rightarrow> (string \<Rightarrow> bool) \<Rightarrow> QEMUConfig \<Rightarrow> QEMUConfig" where
  "qemu_applyDefaults arch exists c =
     (let c1 = (if q_MemMiB c = 0 then c\<lparr>q_MemMiB := DefaultGuestMemMiB\<rparr> else c);
          c2 = (if BootTimeout c1 = 0 then c1\<lparr>BootTimeout := DefaultQEMUBootTimeout\<rparr> else c1);
          c3 = (if ReadyMarker c2 = '''' then c2\<lparr>ReadyMarker := DefaultReadyMarker\<rparr> else c2);
          c4 = (if Binary c3 = '''' then c3\<lparr>Binary := defaultQEMUBinary arch\<rparr> else c3)
      in if Accel c4 = '''' then c4\<lparr>Accel := detectAccel exists\<rparr> else c4)"

datatype qemu_error =
    QemuSlots int
  | QemuNoKernel
  | QemuNoUserspace
  | QemuInitrdMissing string
  | QemuKernelMissing string
  | QemuRootfsMissing string
  | QemuMemMiB int
  | QemuNotOnPath string

definition hv_MinSlotsPerHost :: int where "hv_MinSlotsPerHost = 2"

definition qemu_Validate :: "(string \<Rightarrow> bool) \<Rightarrow> QEMUConfig \<Rightarrow> qemu_error option" where
  "qemu_Validate exists c =
     (if q_Slots c < hv_MinSlotsPerHost then Some (QemuSlots (q_Slots c))
      else if KernelImage c = '''' then Some QemuNoKernel
      else if InitrdImage c = '''' \<and> RootfsImage c = '''' then Some QemuNoUserspace
      else if InitrdImage c \<noteq> '''' \<and> \<not> exists (InitrdImage c) then Some (QemuInitrdMissing (InitrdImage c))
      else if \<not> exists (KernelImage c) then Some (QemuKernelMissing (KernelImage c))
      else if RootfsImage c \<noteq> '''' \<and> \<not> exists (RootfsImage c) then Some (QemuRootfsMissing (RootfsImage c))
      else if q_MemMiB c < 16 then Some (QemuMemMiB (q_MemMiB c))
      else None)"

subsection \<open>The command line\<close>

definition consoleDevice :: "string \<Rightarrow> string" where
  "consoleDevice arch = (if arch = ''arm64'' then ''ttyAMA0'' else ''ttyS0'')"

definition qemu_args :: "string \<Rightarrow> QEMUConfig \<Rightarrow> Spec \<Rightarrow> string list" where
  "qemu_args arch c s =
     (let args1 = [''-accel'', Accel c, ''-m'', itoa (q_MemMiB c), ''-smp'', itoa (spec_VCPUs s),
                   ''-kernel'', KernelImage c, ''-nographic'', ''-no-reboot'', ''-nodefaults'',
                   ''-serial'', ''stdio''];
          args2 = (if arch = ''arm64''
                   then args1 @ [''-machine'', ''virt,highmem=off'', ''-cpu'', ''cortex-a72'']
                   else if arch = ''amd64''
                   then args1 @ [''-machine'', ''microvm,acpi=off,rtc=off'', ''-cpu'', ''max'']
                   else args1)
      in if InitrdImage c \<noteq> ''''
         then args2 @ [''-initrd'', InitrdImage c, ''-append'',
           ''console='' @ consoleDevice arch @ '' loglevel=3 vm_id='' @ spec_ID s]
         else if RootfsImage c \<noteq> ''''
         then args2 @ [''-drive'', ''file='' @ RootfsImage c @ '',format=raw,if=none,id=root,readonly=on'',
           ''-device'', ''virtio-blk-device,drive=root'', ''-append'',
           ''console='' @ consoleDevice arch @ '' root=/dev/vda ro loglevel=3 vm_id='' @ spec_ID s]
         else args2)"

text \<open>\<^verbatim>\<open>strings.Contains\<close>, and the scan of the console for the marker: the lines the scanner
  yields and the error it ends with, if any. \<open>None\<close> is success.\<close>

fun has_prefix :: "string \<Rightarrow> string \<Rightarrow> bool" where
  "has_prefix [] s = True"
| "has_prefix (c # cs) [] = False"
| "has_prefix (c # cs) (d # ds) \<longleftrightarrow> c = d \<and> has_prefix cs ds"

fun str_contains :: "string \<Rightarrow> string \<Rightarrow> bool" where
  "str_contains [] sub = has_prefix sub []"
| "str_contains (c # cs) sub \<longleftrightarrow> has_prefix sub (c # cs) \<or> str_contains cs sub"

datatype scan_error = ScanError string | GuestExited

fun awaitMarker :: "string list \<Rightarrow> string option \<Rightarrow> string \<Rightarrow> scan_error option" where
  "awaitMarker [] err marker =
     (case err of Some e \<Rightarrow> Some (ScanError e) | None \<Rightarrow> Some GuestExited)"
| "awaitMarker (l # ls) err marker =
     (if str_contains l marker then None else awaitMarker ls err marker)"

subsection \<open>State\<close>

text \<open>The process of a guest: not spawned, alive, killed but not waited for, waited for.\<close>

datatype process = NoProcess | Alive | Dying | Waited

text \<open>Where the \<^verbatim>\<open>Start\<close> of a guest is: past its reservation; with the cancel function set;
  with the process spawned; with the command published, waiting for the marker; booted and
  before its second critical section; failed and before its release; returned.\<close>

datatype q_phase =
    QReserved
  | QCancelSet
  | QSpawned
  | QWaiting
  | QBooted Instance
  | QFailed hv_error
  | QDone "hv_error + Instance"

text \<open>The timer and its goroutine; \<open>QReaping u\<close> holds the guest it took out of the map.\<close>

datatype q_timer = QNoTimer | QArmed | QHalted | QFired | QReaping ref | QAnnouncing | QOver

record qemuVM =
  qvm_spec :: Spec
  qvm_phase :: q_phase
  has_cancel :: bool
  cancelled :: bool
  has_cmd :: bool
  process :: process
  qvm_timer :: q_timer

text \<open>\<open>stopping\<close> holds the guests \<^verbatim>\<open>Stop\<close> calls have still to terminate, \<open>closing\<close> those of
  \<^verbatim>\<open>Close\<close>.\<close>

record qemu =
  q_cfg :: QEMUConfig
  q_running :: "string \<rightharpoonup> ref"
  q_closed :: bool
  q_expired :: "string list"
  q_expired_closed :: bool
  q_wg :: int
  q_vms :: "ref \<rightharpoonup> qemuVM"
  stopping :: "ref list"
  closing :: "ref list"

definition NewQEMU ::
  "string \<Rightarrow> (string \<Rightarrow> bool) \<Rightarrow> (string \<Rightarrow> bool) \<Rightarrow> QEMUConfig \<Rightarrow> qemu_error + qemu" where
  "NewQEMU arch exists on_path cfg0 =
     (let cfg = qemu_applyDefaults arch exists cfg0 in
      case qemu_Validate exists cfg of
        Some e \<Rightarrow> Inl e
      | None \<Rightarrow>
          if \<not> on_path (Binary cfg) then Inl (QemuNotOnPath (Binary cfg))
          else Inr \<lparr>q_cfg = cfg, q_running = Map.empty, q_closed = False, q_expired = [],
            q_expired_closed = False, q_wg = 0, q_vms = Map.empty, stopping = [], closing = []\<rparr>)"

definition q_Capacity :: "qemu \<Rightarrow> int" where "q_Capacity q = q_Slots (q_cfg q)"
definition q_Running :: "qemu \<Rightarrow> int" where "q_Running q = int (card (dom (q_running q)))"
definition q_Accel :: "qemu \<Rightarrow> string" where "q_Accel q = Accel (q_cfg q)"

definition put_qvm :: "qemu \<Rightarrow> ref \<Rightarrow> qemuVM \<Rightarrow> qemu" where
  "put_qvm q v r = q\<lparr>q_vms := (q_vms q)(v \<mapsto> r)\<rparr>"

text \<open>Calling the cancel function kills a live process; \<^verbatim>\<open>terminate\<close> also waits for it, if the
  command has been published.\<close>

definition q_cancel :: "qemuVM \<Rightarrow> qemuVM" where
  "q_cancel r = r\<lparr>cancelled := True, process := (if process r = Alive then Dying else process r)\<rparr>"

definition q_terminate :: "qemuVM \<Rightarrow> qemuVM" where
  "q_terminate r =
     (let r1 = (if has_cancel r then q_cancel r else r)
      in if \<not> has_cmd r1 then r1 else r1\<lparr>process := Waited\<rparr>)"

subsection \<open>Starting\<close>

definition q_reserve :: "qemu \<Rightarrow> ref \<Rightarrow> Spec \<Rightarrow> int \<Rightarrow> hv_error option \<times> qemu" where
  "q_reserve q v s count =
     (case spec_Validate s of
        Some e \<Rightarrow> (Some e, q)
      | None \<Rightarrow>
          if q_closed q then (Some HvClosed, q)
          else case q_running q (spec_ID s) of
            Some _ \<Rightarrow> (Some (HvDuplicateVM (spec_ID s)), q)
          | None \<Rightarrow>
              if count \<ge> q_Slots (q_cfg q) then (Some HvNoCapacity, q)
              else (None, put_qvm (q\<lparr>q_running := (q_running q)(spec_ID s \<mapsto> v)\<rparr>) v
                \<lparr>qvm_spec = s, qvm_phase = QReserved, has_cancel = False, cancelled = False,
                 has_cmd = False, process = NoProcess, qvm_timer = QNoTimer\<rparr>))"

definition boot_context :: "qemu \<Rightarrow> ref \<Rightarrow> qemu option" where
  "boot_context q v =
     do {
       r \<leftarrow> q_vms q v;
       (if qvm_phase r = QReserved then Some (put_qvm q v (r\<lparr>has_cancel := True, qvm_phase := QCancelSet\<rparr>))
        else None)
     }"

text \<open>Any of the errors of \<^verbatim>\<open>boot\<close>: the context is cancelled and the error returned.\<close>

definition boot_error :: "qemu \<Rightarrow> ref \<Rightarrow> qemuVM \<Rightarrow> qemu" where
  "boot_error q v r =
     put_qvm q v ((q_cancel r)\<lparr>qvm_phase := QFailed (HvBootFailed (spec_ID (qvm_spec r)))\<rparr>)"

text \<open>The pipe and \<^verbatim>\<open>cmd.Start\<close>, which fails at once when the context is already cancelled.\<close>

definition boot_spawn :: "qemu \<Rightarrow> ref \<Rightarrow> bool \<Rightarrow> qemu option" where
  "boot_spawn q v ok =
     do {
       r \<leftarrow> q_vms q v;
       (if qvm_phase r \<noteq> QCancelSet then None
        else if ok \<and> \<not> cancelled r then Some (put_qvm q v (r\<lparr>process := Alive, qvm_phase := QSpawned\<rparr>))
        else Some (boot_error q v r))
     }"

definition boot_publish :: "qemu \<Rightarrow> ref \<Rightarrow> qemu option" where
  "boot_publish q v =
     do {
       r \<leftarrow> q_vms q v;
       (if qvm_phase r = QSpawned then Some (put_qvm q v (r\<lparr>has_cmd := True, qvm_phase := QWaiting\<rparr>)) else None)
     }"

text \<open>The select on the marker and the boot's deadline.\<close>

definition boot_ready :: "qemu \<Rightarrow> ref \<Rightarrow> bool \<Rightarrow> instant \<Rightarrow> qemu option" where
  "boot_ready q v ok now =
     do {
       r \<leftarrow> q_vms q v;
       (if qvm_phase r \<noteq> QWaiting then None
        else if \<not> ok then Some (boot_error q v r)
        else
          let ttl = spec_TTL (qvm_spec r);
              inst = \<lparr>inst_ID = spec_ID (qvm_spec r), StartedAt = now, inst_BootLatency = 0,
                      ExpiresAt = (if ttl > 0 then Some (now + ttl) else None)\<rparr>
          in Some (put_qvm q v (r\<lparr>qvm_phase := QBooted inst\<rparr>)))
     }"

definition q_release :: "qemu \<Rightarrow> ref \<Rightarrow> qemu option" where
  "q_release q v =
     do {
       r \<leftarrow> q_vms q v;
       (case qvm_phase r of
          QFailed e \<Rightarrow>
            Some (put_qvm (q\<lparr>q_running := (q_running q)(spec_ID (qvm_spec r) := None)\<rparr>) v
              (r\<lparr>qvm_phase := QDone (Inl e)\<rparr>))
        | _ \<Rightarrow> None)
     }"

definition q_finish :: "qemu \<Rightarrow> ref \<Rightarrow> duration \<Rightarrow> qemu option" where
  "q_finish q v took =
     do {
       r \<leftarrow> q_vms q v;
       (case qvm_phase r of
          QBooted inst0 \<Rightarrow>
            let inst = inst0\<lparr>inst_BootLatency := took\<rparr> in
            if q_closed q
            then Some (put_qvm q v ((q_cancel r)\<lparr>qvm_phase := QDone (Inl HvClosed)\<rparr>))
            else
              let r1 = r\<lparr>qvm_phase := QDone (Inr inst)\<rparr>
              in Some (if spec_TTL (qvm_spec r) > 0
                       then put_qvm (q\<lparr>q_wg := q_wg q + 1\<rparr>) v (r1\<lparr>qvm_timer := QArmed\<rparr>)
                       else put_qvm q v r1)
        | _ \<Rightarrow> None)
     }"

subsection \<open>Expiry\<close>

definition q_fires :: "qemu \<Rightarrow> ref \<Rightarrow> qemu option" where
  "q_fires q v =
     do {
       r \<leftarrow> q_vms q v;
       (if qvm_timer r = QArmed then Some (put_qvm q v (r\<lparr>qvm_timer := QFired\<rparr>)) else None)
     }"

definition q_reap_lock :: "qemu \<Rightarrow> ref \<Rightarrow> qemu option" where
  "q_reap_lock q v =
     do {
       r \<leftarrow> q_vms q v;
       (if qvm_timer r \<noteq> QFired then None
        else if q_closed q then Some (put_qvm (q\<lparr>q_wg := q_wg q - 1\<rparr>) v (r\<lparr>qvm_timer := QOver\<rparr>))
        else case q_running q (spec_ID (qvm_spec r)) of
          None \<Rightarrow> Some (put_qvm (q\<lparr>q_wg := q_wg q - 1\<rparr>) v (r\<lparr>qvm_timer := QOver\<rparr>))
        | Some u \<Rightarrow>
            Some (put_qvm (q\<lparr>q_running := (q_running q)(spec_ID (qvm_spec r) := None)\<rparr>) v
              (r\<lparr>qvm_timer := QReaping u\<rparr>)))
     }"

text \<open>The terminations, by the timer's goroutine and by a caller of \<^verbatim>\<open>Stop\<close> or \<^verbatim>\<open>Close\<close>.\<close>

definition terminate_vm :: "qemu \<Rightarrow> ref \<Rightarrow> qemu" where
  "terminate_vm q u = (case q_vms q u of Some r \<Rightarrow> put_qvm q u (q_terminate r) | None \<Rightarrow> q)"

definition q_reap_terminate :: "qemu \<Rightarrow> ref \<Rightarrow> qemu option" where
  "q_reap_terminate q v =
     do {
       r \<leftarrow> q_vms q v;
       (case qvm_timer r of
          QReaping u \<Rightarrow>
            let q1 = terminate_vm q u in
            map_option (\<lambda>r1. put_qvm q1 v (r1\<lparr>qvm_timer := QAnnouncing\<rparr>)) (q_vms q1 v)
        | _ \<Rightarrow> None)
     }"

definition q_reap_send :: "qemu \<Rightarrow> ref \<Rightarrow> qemu option" where
  "q_reap_send q v =
     do {
       r \<leftarrow> q_vms q v;
       (if qvm_timer r \<noteq> QAnnouncing \<or> q_expired_closed q then None
        else
          let q1 = (if int (length (q_expired q)) < q_Slots (q_cfg q) * 4
                    then q\<lparr>q_expired := q_expired q @ [spec_ID (qvm_spec r)]\<rparr> else q)
          in Some (put_qvm (q1\<lparr>q_wg := q_wg q1 - 1\<rparr>) v (r\<lparr>qvm_timer := QOver\<rparr>)))
     }"

definition q_Expired :: "qemu \<Rightarrow> (string \<times> qemu) option" where
  "q_Expired q = (case q_expired q of i # is \<Rightarrow> Some (i, q\<lparr>q_expired := is\<rparr>) | [] \<Rightarrow> None)"

subsection \<open>Stopping and closing\<close>

definition q_stop_timer :: "qemu \<Rightarrow> ref \<Rightarrow> qemu" where
  "q_stop_timer q v =
     (case q_vms q v of
        Some r \<Rightarrow>
          if qvm_timer r = QArmed then put_qvm (q\<lparr>q_wg := q_wg q - 1\<rparr>) v (r\<lparr>qvm_timer := QHalted\<rparr>) else q
      | None \<Rightarrow> q)"

definition q_Stop :: "qemu \<Rightarrow> string \<Rightarrow> hv_error option \<times> qemu" where
  "q_Stop q i =
     (if q_closed q then (Some HvClosed, q)
      else case q_running q i of
        None \<Rightarrow> (Some (HvUnknownVM i), q)
      | Some v \<Rightarrow>
          (let q1 = q_stop_timer (q\<lparr>q_running := (q_running q)(i := None)\<rparr>) v
           in (None, q1\<lparr>stopping := stopping q1 @ [v]\<rparr>)))"

definition stop_terminate :: "qemu \<Rightarrow> ref \<Rightarrow> qemu option" where
  "stop_terminate q v =
     (if v \<in> set (stopping q)
      then (let q1 = terminate_vm q v in Some (q1\<lparr>stopping := remove1 v (stopping q1)\<rparr>)) else None)"

fun q_close_loop :: "string list \<Rightarrow> qemu \<Rightarrow> qemu" where
  "q_close_loop [] q = q"
| "q_close_loop (i # is) q =
     q_close_loop is
       (case q_running q i of
          Some v \<Rightarrow>
            (let q1 = q_stop_timer q v
             in q1\<lparr>closing := closing q1 @ [v], q_running := (q_running q1)(i := None)\<rparr>)
        | None \<Rightarrow> q)"

definition q_close_begin :: "qemu \<Rightarrow> string list \<Rightarrow> qemu" where
  "q_close_begin q is = (if q_closed q then q else q_close_loop is (q\<lparr>q_closed := True\<rparr>))"

definition close_terminate :: "qemu \<Rightarrow> qemu option" where
  "close_terminate q =
     (case closing q of
        v # vs \<Rightarrow> (let q1 = terminate_vm q v in Some (q1\<lparr>closing := vs\<rparr>))
      | [] \<Rightarrow> None)"

definition q_close_finish :: "qemu \<Rightarrow> qemu option" where
  "q_close_finish q =
     (if q_closed q \<and> closing q = [] \<and> q_wg q = 0 \<and> \<not> q_expired_closed q
      then Some (q\<lparr>q_expired_closed := True\<rparr>) else None)"

text \<open>\<open>clean\<close> is \<^verbatim>\<open>filepath.Clean\<close>.\<close>

definition GuestArtifacts :: "(string \<Rightarrow> string) \<Rightarrow> qemu \<Rightarrow> string \<times> string" where
  "GuestArtifacts clean q =
     (clean (KernelImage (q_cfg q)),
      if InitrdImage (q_cfg q) \<noteq> '''' then clean (InitrdImage (q_cfg q))
      else if RootfsImage (q_cfg q) \<noteq> '''' then clean (RootfsImage (q_cfg q)) else '''')"

subsection \<open>The machine\<close>

datatype q_event =
    QStart ref Spec
  | QContext ref
  | QSpawn ref bool
  | QPublish ref
  | QReady ref bool instant
  | QRelease ref
  | QFinish ref duration
  | QFires ref
  | QReapLock ref
  | QReapTerminate ref
  | QReapSend ref
  | QReceive
  | QStop string
  | QStopTerminate ref
  | QClose "string list"
  | QCloseTerminate
  | QCloseEnd

fun q_step :: "q_event \<Rightarrow> qemu \<Rightarrow> qemu option" where
  "q_step (QStart v s) q =
     (if q_vms q v \<noteq> None then None else Some (snd (q_reserve q v s (q_Running q))))"
| "q_step (QContext v) q = boot_context q v"
| "q_step (QSpawn v ok) q = boot_spawn q v ok"
| "q_step (QPublish v) q = boot_publish q v"
| "q_step (QReady v ok now) q = boot_ready q v ok now"
| "q_step (QRelease v) q = q_release q v"
| "q_step (QFinish v took) q = q_finish q v took"
| "q_step (QFires v) q = q_fires q v"
| "q_step (QReapLock v) q = q_reap_lock q v"
| "q_step (QReapTerminate v) q = q_reap_terminate q v"
| "q_step (QReapSend v) q = q_reap_send q v"
| "q_step QReceive q = map_option snd (q_Expired q)"
| "q_step (QStop i) q = Some (snd (q_Stop q i))"
| "q_step (QStopTerminate v) q = stop_terminate q v"
| "q_step (QClose is) q = (if iterates is (q_running q) then Some (q_close_begin q is) else None)"
| "q_step QCloseTerminate q = close_terminate q"
| "q_step QCloseEnd q = q_close_finish q"

end
