(* ===== verification/QemuProps.thy ===== *)
theory QemuProps
  imports Qemu HypervisorProps
begin

section \<open>Correctness of the QEMU hypervisor\<close>

text \<open>
  Two things are proved: the command line carries the identifier of a microVM without
  letting it change anything else, and no guest process outlives its slot. The second holds
  for callers that never use an identifier twice and stop a microVM only after its start has
  returned; two runs at the end show what happens otherwise.
\<close>

subsection \<open>The command line\<close>

text \<open>Splitting a kernel command line at its blanks, as the guest kernel does.\<close>

fun words :: "string \<Rightarrow> string \<Rightarrow> string list" where
  "words acc [] = [acc]"
| "words acc (c # cs) = (if c = CHR '' '' then acc # words [] cs else words (acc @ [c]) cs)"

lemma words_plain: "CHR '' '' \<notin> set s \<Longrightarrow> words acc s = [acc @ s]"
  by (induction s arbitrary: acc) auto

lemma words_append: "CHR '' '' \<notin> set s \<Longrightarrow> words acc (s @ t) = words (acc @ s) t"
  by (induction s arbitrary: acc) auto

lemma valid_id_no_blank: "spec_Validate s = None \<Longrightarrow> CHR '' '' \<notin> set (spec_ID s)"
  by (auto simp: spec_Validate_def bad_byte_None validIDChar_def less_eq_char_def
      split: if_splits option.splits)

text \<open>The kernel command line a guest is booted with has exactly the words of the template and
  one more, the identifier of a specification that passed validation: an identifier cannot
  add or replace a kernel parameter. It is the last argument, and no other argument depends
  on the identifier.\<close>

theorem kernel_command_line_is_fixed:
  assumes "spec_Validate s = None" and "InitrdImage c \<noteq> '''' \<or> RootfsImage c \<noteq> ''''"
  shows "words '''' (last (qemu_args arch c s)) =
      (if InitrdImage c \<noteq> ''''
       then [''console='' @ consoleDevice arch, ''loglevel=3'', ''vm_id='' @ spec_ID s]
       else [''console='' @ consoleDevice arch, ''root=/dev/vda'', ''ro'', ''loglevel=3'', ''vm_id='' @ spec_ID s]) \<and>
    butlast (qemu_args arch c s) = butlast (qemu_args arch c (s\<lparr>spec_ID := i\<rparr>))"
  using valid_id_no_blank [OF assms(1)] assms(2)
  by (auto simp: qemu_args_def consoleDevice_def Let_def words_append words_plain butlast_append)

theorem kernel_command_line_is_fixed_witness:
  "words '''' (last (qemu_args ''amd64''
     \<lparr>q_Slots = 2, Binary = '''', KernelImage = ''k'', InitrdImage = ''i'', RootfsImage = '''',
      q_MemMiB = 128, BootTimeout = 1, ReadyMarker = ''m'', Accel = ''tcg''\<rparr> (guest ''x'' 0))) =
     [''console=ttyS0'', ''loglevel=3'', ''vm_id=x'']"
  using kernel_command_line_is_fixed [OF guest_valid(1) [OF order_refl], where arch = "''amd64''" and c = "\<lparr>q_Slots = 2, Binary = '''',
      KernelImage = ''k'', InitrdImage = ''i'', RootfsImage = '''', q_MemMiB = 128, BootTimeout = 1,
      ReadyMarker = ''m'', Accel = ''tcg''\<rparr>"]
  by (simp add: consoleDevice_def)

subsection \<open>The invariant\<close>

fun q_active :: "q_timer \<Rightarrow> bool" where
  "q_active QArmed = True"
| "q_active QFired = True"
| "q_active (QReaping u) = True"
| "q_active QAnnouncing = True"
| "q_active _ = False"

fun starting :: "q_phase \<Rightarrow> bool" where
  "starting (QDone x) = False"
| "starting _ = True"

text \<open>What the phase of its start says of the process of a guest. \<open>owed\<close>: it is in the map, or
  somebody has taken it out and is about to terminate it.\<close>

fun phase_ok :: "bool \<Rightarrow> q_phase \<Rightarrow> qemuVM \<Rightarrow> bool" where
  "phase_ok owed QReserved r \<longleftrightarrow> \<not> has_cancel r \<and> \<not> has_cmd r \<and> process r = NoProcess"
| "phase_ok owed QCancelSet r \<longleftrightarrow> has_cancel r \<and> \<not> has_cmd r \<and> process r = NoProcess"
| "phase_ok owed QSpawned r \<longleftrightarrow> has_cancel r \<and> \<not> has_cmd r \<and> process r \<in> {Alive, Dying}"
| "phase_ok owed QWaiting r \<longleftrightarrow> has_cancel r \<and> has_cmd r \<and> process r \<noteq> NoProcess"
| "phase_ok owed (QBooted i) r \<longleftrightarrow> has_cancel r \<and> has_cmd r \<and> process r \<noteq> NoProcess"
| "phase_ok owed (QFailed e) r \<longleftrightarrow> process r \<noteq> Alive"
| "phase_ok owed (QDone (Inl e)) r \<longleftrightarrow> process r \<noteq> Alive"
| "phase_ok owed (QDone (Inr i)) r \<longleftrightarrow> has_cancel r \<and> has_cmd r \<and>
     (process r = Alive \<and> owed \<or> process r = Waited)"

text \<open>\<open>own\<close>, \<open>st\<close>, \<open>cl\<close>: the guest is in the map under its identifier, in the list of a \<^verbatim>\<open>Stop\<close>,
  in the list of \<^verbatim>\<open>Close\<close>.\<close>

definition vm_ok :: "bool \<Rightarrow> bool \<Rightarrow> bool \<Rightarrow> bool \<Rightarrow> ref \<Rightarrow> qemuVM \<Rightarrow> bool" where
  "vm_ok shut own st cl v r \<longleftrightarrow>
     phase_ok (own \<or> st \<or> cl \<or> qvm_timer r = QReaping v) (qvm_phase r) r \<and>
     (starting (qvm_phase r) \<longrightarrow> qvm_timer r = QNoTimer \<and> \<not> st \<and> (own \<or> shut)) \<and>
     (starting (qvm_phase r) \<and> \<not> shut \<longrightarrow> \<not> cl \<and>
        ((\<exists>e. qvm_phase r = QFailed e) \<or> \<not> cancelled r \<and> process r \<in> {NoProcess, Alive})) \<and>
     (qvm_timer r \<noteq> QNoTimer \<longrightarrow> (\<exists>i. qvm_phase r = QDone (Inr i))) \<and>
     (\<forall>u. qvm_timer r = QReaping u \<longrightarrow> u = v)"

text \<open>\<open>shut\<close> stands for the closed flag, which \<^verbatim>\<open>Close\<close> sets before it empties the map.\<close>

definition q_core :: "bool \<Rightarrow> qemu \<Rightarrow> bool" where
  "q_core shut q \<longleftrightarrow> finite (dom (q_running q)) \<and> finite (dom (q_vms q)) \<and>
     q_Running q \<le> q_Slots (q_cfg q) \<and> int (length (q_expired q)) \<le> q_Slots (q_cfg q) * 4 \<and>
     q_wg q = census (\<lambda>r. q_active (qvm_timer r)) (q_vms q) \<and>
     (\<forall>i v. q_running q i = Some v \<longrightarrow> (\<exists>r. q_vms q v = Some r \<and> spec_ID (qvm_spec r) = i)) \<and>
     set (stopping q) \<union> set (closing q) \<subseteq> dom (q_vms q) \<and>
     (\<forall>u v r s. q_vms q u = Some r \<and> q_vms q v = Some s \<and> spec_ID (qvm_spec r) = spec_ID (qvm_spec s) \<longrightarrow> u = v) \<and>
     (\<forall>v r. q_vms q v = Some r \<longrightarrow>
        vm_ok shut (q_running q (spec_ID (qvm_spec r)) = Some v) (v \<in> set (stopping q))
          (v \<in> set (closing q)) v r)"

definition q_inv :: "qemu \<Rightarrow> bool" where
  "q_inv q \<longleftrightarrow> q_core (q_closed q) q \<and>
     (q_closed q \<longrightarrow> q_running q = Map.empty) \<and> (\<not> q_closed q \<longrightarrow> closing q = []) \<and>
     (q_expired_closed q \<longrightarrow> q_closed q \<and> q_wg q = 0 \<and> closing q = [])"

lemma q_coreD:
  assumes "q_core shut q"
  shows "finite (dom (q_running q))" "finite (dom (q_vms q))" "q_Running q \<le> q_Slots (q_cfg q)"
    "int (length (q_expired q)) \<le> q_Slots (q_cfg q) * 4"
    "q_wg q = census (\<lambda>r. q_active (qvm_timer r)) (q_vms q)"
    "q_running q i = Some v \<Longrightarrow> \<exists>r. q_vms q v = Some r \<and> spec_ID (qvm_spec r) = i"
    "set (stopping q) \<union> set (closing q) \<subseteq> dom (q_vms q)"
    "q_vms q u = Some r' \<Longrightarrow> q_vms q v = Some s \<Longrightarrow> spec_ID (qvm_spec r') = spec_ID (qvm_spec s) \<Longrightarrow> u = v"
    "q_vms q v = Some r \<Longrightarrow> vm_ok shut (q_running q (spec_ID (qvm_spec r)) = Some v)
       (v \<in> set (stopping q)) (v \<in> set (closing q)) v r"
proof -
  note u = assms [unfolded q_core_def]
  show "finite (dom (q_running q))" "finite (dom (q_vms q))" "q_Running q \<le> q_Slots (q_cfg q)"
    "int (length (q_expired q)) \<le> q_Slots (q_cfg q) * 4"
    "q_wg q = census (\<lambda>r. q_active (qvm_timer r)) (q_vms q)"
    "set (stopping q) \<union> set (closing q) \<subseteq> dom (q_vms q)"
    using u by blast+
  show "q_running q i = Some v \<Longrightarrow> \<exists>r. q_vms q v = Some r \<and> spec_ID (qvm_spec r) = i" using u by blast
  show "q_vms q u = Some r' \<Longrightarrow> q_vms q v = Some s \<Longrightarrow> spec_ID (qvm_spec r') = spec_ID (qvm_spec s) \<Longrightarrow> u = v"
    using u by blast
  show "q_vms q v = Some r \<Longrightarrow> vm_ok shut (q_running q (spec_ID (qvm_spec r)) = Some v)
       (v \<in> set (stopping q)) (v \<in> set (closing q)) v r" using u by blast
qed

lemma q_invD:
  assumes "q_inv q"
  shows "q_core (q_closed q) q" "finite (dom (q_vms q))"
    "int (length (q_expired q)) \<le> q_Slots (q_cfg q) * 4"
    "q_wg q = census (\<lambda>r. q_active (qvm_timer r)) (q_vms q)"
    "q_closed q \<Longrightarrow> q_running q = Map.empty" "\<not> q_closed q \<Longrightarrow> closing q = []"
    "q_expired_closed q \<Longrightarrow> q_closed q \<and> q_wg q = 0 \<and> closing q = []"
    "q_running q i = Some v \<Longrightarrow> \<exists>r. q_vms q v = Some r \<and> spec_ID (qvm_spec r) = i"
    "q_vms q u = Some r' \<Longrightarrow> q_vms q v = Some s \<Longrightarrow> spec_ID (qvm_spec r') = spec_ID (qvm_spec s) \<Longrightarrow> u = v"
    "q_vms q v = Some r \<Longrightarrow> vm_ok (q_closed q) (q_running q (spec_ID (qvm_spec r)) = Some v)
       (v \<in> set (stopping q)) (v \<in> set (closing q)) v r"
proof -
  show core: "q_core (q_closed q) q" using assms by (simp add: q_inv_def)
  note C = q_coreD [OF core]
  show "finite (dom (q_vms q))" "int (length (q_expired q)) \<le> q_Slots (q_cfg q) * 4"
    "q_wg q = census (\<lambda>r. q_active (qvm_timer r)) (q_vms q)" by (rule C(2), rule C(4), rule C(5))
  show "q_closed q \<Longrightarrow> q_running q = Map.empty" "\<not> q_closed q \<Longrightarrow> closing q = []"
    "q_expired_closed q \<Longrightarrow> q_closed q \<and> q_wg q = 0 \<and> closing q = []" using assms by (simp_all add: q_inv_def)
  show "q_running q i = Some v \<Longrightarrow> \<exists>r. q_vms q v = Some r \<and> spec_ID (qvm_spec r) = i" by (rule C(6))
  show "q_vms q u = Some r' \<Longrightarrow> q_vms q v = Some s \<Longrightarrow> spec_ID (qvm_spec r') = spec_ID (qvm_spec s) \<Longrightarrow> u = v"
    by (rule C(8))
  show "q_vms q v = Some r \<Longrightarrow> vm_ok (q_closed q) (q_running q (spec_ID (qvm_spec r)) = Some v)
       (v \<in> set (stopping q)) (v \<in> set (closing q)) v r" by (rule C(9))
qed

lemma put_qvm_simps [simp]:
  "q_cfg (put_qvm q v r) = q_cfg q" "q_running (put_qvm q v r) = q_running q" "q_closed (put_qvm q v r) = q_closed q"
  "q_expired (put_qvm q v r) = q_expired q" "q_expired_closed (put_qvm q v r) = q_expired_closed q"
  "q_wg (put_qvm q v r) = q_wg q" "q_vms (put_qvm q v r) = (q_vms q)(v \<mapsto> r)"
  "stopping (put_qvm q v r) = stopping q" "closing (put_qvm q v r) = closing q"
  by (simp_all add: put_qvm_def)

lemma q_dead:
  assumes "q_inv q" "q_expired_closed q" "q_vms q v = Some r"
  shows "\<not> q_active (qvm_timer r)"
  using census_zero [OF q_invD(2) [OF assms(1)] _ assms(3), of "\<lambda>r. q_active (qvm_timer r)"]
    q_invD(4,7) [OF assms(1)] assms(2) by simp

text \<open>A step that changes one guest, and may free its slot or change its membership of the lists.\<close>

lemma q_core_put:
  assumes core: "q_core shut q" and r: "q_vms q v = Some r"
    and q': "q_cfg q' = q_cfg q" "q_vms q' = (q_vms q)(v \<mapsto> r')" "qvm_spec r' = qvm_spec r"
    and run: "q_running q' = q_running q \<or> q_running q' = (q_running q)(spec_ID (qvm_spec r) := None)"
    and lists: "\<And>u. u \<noteq> v \<Longrightarrow> u \<in> set (stopping q') \<longleftrightarrow> u \<in> set (stopping q)"
      "\<And>u. u \<noteq> v \<Longrightarrow> u \<in> set (closing q') \<longleftrightarrow> u \<in> set (closing q)"
    and ex: "int (length (q_expired q')) \<le> q_Slots (q_cfg q) * 4"
    and wg: "q_wg q' = q_wg q + of_bool (q_active (qvm_timer r')) - of_bool (q_active (qvm_timer r))"
    and ok: "vm_ok shut (q_running q' (spec_ID (qvm_spec r)) = Some v) (v \<in> set (stopping q'))
      (v \<in> set (closing q')) v r'"
  shows "q_core shut q'"
proof -
  note D = q_coreD [OF core]
  have sub: "q_running q' j = Some u \<Longrightarrow> q_running q j = Some u" for j u
    using run by (auto split: if_splits)
  have fin: "finite (dom (q_running q'))" using run D(1) by auto
  have "card (dom (q_running q')) \<le> card (dom (q_running q))"
    using sub D(1) by (intro card_mono) (auto simp: dom_def)
  then have 1: "q_Running q' \<le> q_Slots (q_cfg q')" using D(3) by (simp add: q_Running_def q'(1))
  have 2: "q_wg q' = census (\<lambda>r. q_active (qvm_timer r)) (q_vms q')"
    using census_put [OF D(2), of "\<lambda>r. q_active (qvm_timer r)" v r'] r wg D(5) by (simp add: q'(2))
  have 4: "\<exists>s. q_vms q' u = Some s \<and> spec_ID (qvm_spec s) = j" if "q_running q' j = Some u" for j u
    using D(6) [OF sub [OF that]] r by (auto simp: q'(2,3))
  have 5: "set (stopping q') \<union> set (closing q') \<subseteq> dom (q_vms q')"
    using lists(1,2) D(7) by (fastforce simp: q'(2))
  have 6: "u = x" if "q_vms q' u = Some s" "q_vms q' x = Some t" "spec_ID (qvm_spec s) = spec_ID (qvm_spec t)"
    for u x s t
  proof -
    have old: "\<exists>s0. q_vms q y = Some s0 \<and> spec_ID (qvm_spec s0) = spec_ID (qvm_spec s)"
      if "q_vms q' y = Some s" for y s
      using that r by (cases "y = v") (auto simp: q'(2) q'(3) [symmetric])
    from old [OF that(1)] old [OF that(2)] that(3) show ?thesis using D(8) by metis
  qed
  have 7: "vm_ok shut (q_running q' (spec_ID (qvm_spec s)) = Some u) (u \<in> set (stopping q'))
      (u \<in> set (closing q')) u s" if s: "q_vms q' u = Some s" for u s
  proof (cases "u = v")
    case True
    then have "s = r'" using s by (simp add: q'(2))
    then show ?thesis using ok True by (simp add: q'(3))
  next
    case False
    with s have s': "q_vms q u = Some s" by (simp add: q'(2))
    have "spec_ID (qvm_spec s) \<noteq> spec_ID (qvm_spec r)" using D(8) [OF s' r] False by blast
    then have "q_running q' (spec_ID (qvm_spec s)) = q_running q (spec_ID (qvm_spec s))"
      using run by auto
    then show ?thesis using D(9) [OF s'] lists [OF False] by simp
  qed
  show ?thesis
    unfolding q_core_def
  proof (intro conjI)
    show "finite (dom (q_vms q'))" using D(2) by (simp add: q'(2))
    show "int (length (q_expired q')) \<le> q_Slots (q_cfg q') * 4" using ex by (simp add: q'(1))
    show "\<forall>i v. q_running q' i = Some v \<longrightarrow> (\<exists>r. q_vms q' v = Some r \<and> spec_ID (qvm_spec r) = i)"
      using 4 by blast
    show "\<forall>u v r s. q_vms q' u = Some r \<and> q_vms q' v = Some s \<and>
      spec_ID (qvm_spec r) = spec_ID (qvm_spec s) \<longrightarrow> u = v" using 6 by blast
    show "\<forall>v r. q_vms q' v = Some r \<longrightarrow> vm_ok shut (q_running q' (spec_ID (qvm_spec r)) = Some v)
      (v \<in> set (stopping q')) (v \<in> set (closing q')) v r" using 7 by blast
  qed (fact fin 1 2 5)+
qed

lemma q_inv_put:
  assumes inv: "q_inv q" and r: "q_vms q v = Some r"
    and q': "q_cfg q' = q_cfg q" "q_closed q' = q_closed q" "q_expired_closed q' = q_expired_closed q"
      "q_vms q' = (q_vms q)(v \<mapsto> r')" "qvm_spec r' = qvm_spec r"
    and run: "q_running q' = q_running q \<or> q_running q' = (q_running q)(spec_ID (qvm_spec r) := None)"
    and lists: "\<And>u. u \<noteq> v \<Longrightarrow> u \<in> set (stopping q') \<longleftrightarrow> u \<in> set (stopping q)"
      "\<And>u. u \<noteq> v \<Longrightarrow> u \<in> set (closing q') \<longleftrightarrow> u \<in> set (closing q)"
      "closing q = [] \<Longrightarrow> closing q' = []"
    and ex: "int (length (q_expired q')) \<le> q_Slots (q_cfg q) * 4"
    and wg: "q_wg q' = q_wg q + of_bool (q_active (qvm_timer r')) - of_bool (q_active (qvm_timer r))"
    and dead: "q_expired_closed q \<Longrightarrow> \<not> q_active (qvm_timer r')"
    and ok: "vm_ok (q_closed q) (q_running q' (spec_ID (qvm_spec r)) = Some v) (v \<in> set (stopping q'))
      (v \<in> set (closing q')) v r'"
  shows "q_inv q'"
proof -
  note D = q_invD [OF inv]
  have "q_core (q_closed q') q'"
    unfolding q'(2) by (rule q_core_put [OF D(1) r q'(1,4,5) run lists(1,2) ex wg ok])
  moreover have "q_wg q' = 0" if "q_expired_closed q"
    using wg dead [OF that] q_dead [OF inv that r] D(7) [OF that] by simp
  moreover have "q_closed q \<Longrightarrow> q_running q' = Map.empty" using run D(5) by auto
  ultimately show ?thesis
    using D(6,7) lists(3) unfolding q_inv_def q'(2,3) by simp
qed

subsection \<open>The steps keep it\<close>

text \<open>A step that rewrites one guest and touches nothing else but counters.\<close>

lemma q_inv_put_qvm:
  assumes "q_inv q" and "q_vms q v = Some r" and "q_vms g = q_vms q" and "qvm_spec r' = qvm_spec r"
    and "q_cfg g = q_cfg q" "q_closed g = q_closed q" "q_expired_closed g = q_expired_closed q"
    and "q_running g = q_running q \<or> q_running g = (q_running q)(spec_ID (qvm_spec r) := None)"
    and "stopping g = stopping q" "closing g = closing q"
    and "int (length (q_expired g)) \<le> q_Slots (q_cfg q) * 4"
    and "q_wg g = q_wg q + of_bool (q_active (qvm_timer r')) - of_bool (q_active (qvm_timer r))"
    and "q_expired_closed q \<Longrightarrow> \<not> q_active (qvm_timer r')"
    and "vm_ok (q_closed q) (q_running g (spec_ID (qvm_spec r)) = Some v) (v \<in> set (stopping q))
      (v \<in> set (closing q)) v r'"
  shows "q_inv (put_qvm g v r')"
  by (rule q_inv_put [OF assms(1,2), of "put_qvm g v r'" r']) (use assms in simp_all)

text \<open>The part of Start before its second critical section.\<close>

lemma boot_step_inv:
  assumes inv: "q_inv q" and r: "q_vms q v = Some r" "starting (qvm_phase r)"
    and r': "qvm_spec r' = qvm_spec r" "qvm_timer r' = qvm_timer r"
    and ok: "vm_ok (q_closed q) (q_running q (spec_ID (qvm_spec r)) = Some v) (v \<in> set (stopping q))
      (v \<in> set (closing q)) v r'"
  shows "q_inv (put_qvm q v r')"
proof -
  have "qvm_timer r = QNoTimer" using q_invD(10) [OF inv r(1)] r(2) by (simp add: vm_ok_def)
  then show ?thesis
    by (intro q_inv_put_qvm [OF inv r(1)]) (use r' ok q_invD(3) [OF inv] in simp_all)
qed

lemma boot_context_inv:
  assumes inv: "q_inv q" and st: "boot_context q v = Some q'"
  shows "q_inv q'"
proof -
  from st obtain r where r: "q_vms q v = Some r" "qvm_phase r = QReserved"
    "q' = put_qvm q v (r\<lparr>has_cancel := True, qvm_phase := QCancelSet\<rparr>)"
    by (auto simp: boot_context_def split: bind_splits if_splits)
  from q_invD(10) [OF inv r(1)] show ?thesis
    unfolding r(3) using r(2) by (intro boot_step_inv [OF inv r(1)]) (simp_all add: vm_ok_def)
qed

lemma boot_error_inv:
  assumes inv: "q_inv q" and r: "q_vms q v = Some r" "starting (qvm_phase r)"
  shows "q_inv (boot_error q v r)"
  unfolding boot_error_def using q_invD(10) [OF inv r(1)] r(2)
  by (intro boot_step_inv [OF inv r]) (auto simp: vm_ok_def q_cancel_def)

lemma boot_spawn_inv:
  assumes inv: "q_inv q" and st: "boot_spawn q v ok = Some q'"
  shows "q_inv q'"
proof -
  from st obtain r where r: "q_vms q v = Some r" "qvm_phase r = QCancelSet"
    and q': "q' = put_qvm q v (r\<lparr>process := Alive, qvm_phase := QSpawned\<rparr>) \<and> \<not> cancelled r \<or> q' = boot_error q v r"
    by (auto simp: boot_spawn_def split: bind_splits if_splits)
  from q' show ?thesis
  proof (elim disjE conjE)
    assume "q' = put_qvm q v (r\<lparr>process := Alive, qvm_phase := QSpawned\<rparr>)" "\<not> cancelled r"
    then show ?thesis using q_invD(10) [OF inv r(1)] r(2)
      by (simp, intro boot_step_inv [OF inv r(1)]) (simp_all add: vm_ok_def)
  qed (use boot_error_inv [OF inv r(1)] r(2) in simp)
qed

lemma boot_publish_inv:
  assumes inv: "q_inv q" and st: "boot_publish q v = Some q'"
  shows "q_inv q'"
proof -
  from st obtain r where r: "q_vms q v = Some r" "qvm_phase r = QSpawned"
    "q' = put_qvm q v (r\<lparr>has_cmd := True, qvm_phase := QWaiting\<rparr>)"
    by (auto simp: boot_publish_def split: bind_splits if_splits)
  from q_invD(10) [OF inv r(1)] show ?thesis
    unfolding r(3) using r(2) by (intro boot_step_inv [OF inv r(1)]) (auto simp: vm_ok_def)
qed

lemma boot_ready_inv:
  assumes inv: "q_inv q" and st: "boot_ready q v ok now = Some q'"
  shows "q_inv q'"
proof -
  from st obtain r i where r: "q_vms q v = Some r" "qvm_phase r = QWaiting"
    and q': "q' = put_qvm q v (r\<lparr>qvm_phase := QBooted i\<rparr>) \<or> q' = boot_error q v r"
    by (auto simp: boot_ready_def Let_def split: bind_splits if_splits)
  from q' show ?thesis
  proof
    assume "q' = put_qvm q v (r\<lparr>qvm_phase := QBooted i\<rparr>)"
    then show ?thesis using q_invD(10) [OF inv r(1)] r(2)
      by (simp, intro boot_step_inv [OF inv r(1)]) (simp_all add: vm_ok_def)
  qed (use boot_error_inv [OF inv r(1)] r(2) in simp)
qed

lemma q_release_inv:
  assumes inv: "q_inv q" and st: "q_release q v = Some q'"
  shows "q_inv q'"
proof -
  from st obtain r e where r: "q_vms q v = Some r" "qvm_phase r = QFailed e"
    "q' = put_qvm (q\<lparr>q_running := (q_running q)(spec_ID (qvm_spec r) := None)\<rparr>) v
      (r\<lparr>qvm_phase := QDone (Inl e)\<rparr>)"
    by (auto simp: q_release_def split: bind_splits q_phase.splits)
  note ok = q_invD(10) [OF inv r(1)]
  have "qvm_timer r = QNoTimer" using ok r(2) by (simp add: vm_ok_def)
  then show ?thesis
    unfolding r(3) using ok r(2) q_invD(3) [OF inv]
    by (intro q_inv_put_qvm [OF inv r(1)]) (simp_all add: vm_ok_def)
qed

lemma q_finish_inv:
  assumes inv: "q_inv q" and st: "q_finish q v took = Some q'"
  shows "q_inv q'"
proof -
  from st obtain r i where r: "q_vms q v = Some r" "qvm_phase r = QBooted i"
    by (auto simp: q_finish_def split: bind_splits q_phase.splits)
  note ok = q_invD(10) [OF inv r(1)]
  have t: "qvm_timer r = QNoTimer" using ok r(2) by (simp add: vm_ok_def)
  let ?j = "i\<lparr>inst_BootLatency := took\<rparr>"
  consider (shut) "q_closed q" "q' = put_qvm q v ((q_cancel r)\<lparr>qvm_phase := QDone (Inl HvClosed)\<rparr>)"
    | (timed) "\<not> q_closed q"
      "q' = put_qvm (q\<lparr>q_wg := q_wg q + 1\<rparr>) v (r\<lparr>qvm_phase := QDone (Inr ?j), qvm_timer := QArmed\<rparr>)"
    | (untimed) "\<not> q_closed q" "q' = put_qvm q v (r\<lparr>qvm_phase := QDone (Inr ?j)\<rparr>)"
    using st r by (auto simp: q_finish_def Let_def split: if_splits)
  then show ?thesis
  proof cases
    case shut
    then show ?thesis using ok r(2) t q_invD(3) [OF inv]
      by (simp, intro q_inv_put_qvm [OF inv r(1)]) (auto simp: vm_ok_def q_cancel_def)
  next
    case timed
    then show ?thesis using ok r(2) t q_invD(3,7) [OF inv]
      by (simp, intro q_inv_put_qvm [OF inv r(1)]) (auto simp: vm_ok_def)
  next
    case untimed
    then show ?thesis using ok r(2) t q_invD(3) [OF inv]
      by (simp, intro q_inv_put_qvm [OF inv r(1)]) (auto simp: vm_ok_def)
  qed
qed

lemma q_fires_inv:
  assumes inv: "q_inv q" and st: "q_fires q v = Some q'"
  shows "q_inv q'"
proof -
  from st obtain r where r: "q_vms q v = Some r" "qvm_timer r = QArmed"
    "q' = put_qvm q v (r\<lparr>qvm_timer := QFired\<rparr>)"
    by (auto simp: q_fires_def split: bind_splits if_splits)
  note ok = q_invD(10) [OF inv r(1)]
  then obtain i where "qvm_phase r = QDone (Inr i)" using r(2) by (auto simp: vm_ok_def)
  then show ?thesis
    unfolding r(3) using ok r(2) q_dead [OF inv _ r(1)] q_invD(3) [OF inv]
    by (intro q_inv_put_qvm [OF inv r(1)]) (simp_all add: vm_ok_def)
qed

lemma q_reap_lock_inv:
  assumes inv: "q_inv q" and st: "q_reap_lock q v = Some q'"
  shows "q_inv q'"
proof -
  from st obtain r where r: "q_vms q v = Some r" "qvm_timer r = QFired"
    by (auto simp: q_reap_lock_def split: bind_splits if_splits)
  note ok = q_invD(10) [OF inv r(1)]
  then obtain i where i: "qvm_phase r = QDone (Inr i)" using r(2) by (auto simp: vm_ok_def)
  consider (over) "q' = put_qvm (q\<lparr>q_wg := q_wg q - 1\<rparr>) v (r\<lparr>qvm_timer := QOver\<rparr>)"
    | (own) u where "q_running q (spec_ID (qvm_spec r)) = Some u"
      "q' = put_qvm (q\<lparr>q_running := (q_running q)(spec_ID (qvm_spec r) := None)\<rparr>) v (r\<lparr>qvm_timer := QReaping u\<rparr>)"
    using st r by (auto simp: q_reap_lock_def split: if_splits option.splits)
  then show ?thesis
  proof cases
    case over
    then show ?thesis using ok r(2) i q_invD(3) [OF inv]
      by (simp, intro q_inv_put_qvm [OF inv r(1)]) (simp_all add: vm_ok_def)
  next
    case own
    from q_invD(8) [OF inv own(1)] obtain s where "q_vms q u = Some s" "spec_ID (qvm_spec s) = spec_ID (qvm_spec r)"
      by blast
    then have "u = v" using q_invD(9) [OF inv _ r(1)] by blast
    then show ?thesis unfolding own(2) using ok r(2) i q_dead [OF inv _ r(1)] q_invD(3) [OF inv]
      by (intro q_inv_put_qvm [OF inv r(1)]) (auto simp: vm_ok_def)
  qed
qed

lemma q_reap_send_inv:
  assumes inv: "q_inv q" and st: "q_reap_send q v = Some q'"
  shows "q_inv q'"
proof -
  from st obtain r where r: "q_vms q v = Some r" "qvm_timer r = QAnnouncing" "\<not> q_expired_closed q"
    by (auto simp: q_reap_send_def split: bind_splits if_splits)
  note ok = q_invD(10) [OF inv r(1)]
  then obtain i where "qvm_phase r = QDone (Inr i)" using r(2) by (auto simp: vm_ok_def)
  then have vm: "vm_ok (q_closed q) (q_running q (spec_ID (qvm_spec r)) = Some v) (v \<in> set (stopping q))
      (v \<in> set (closing q)) v (r\<lparr>qvm_timer := QOver\<rparr>)"
    using ok r(2) by (simp add: vm_ok_def)
  obtain xs where xs: "q' = put_qvm (q\<lparr>q_expired := xs, q_wg := q_wg q - 1\<rparr>) v (r\<lparr>qvm_timer := QOver\<rparr>)"
    "int (length xs) \<le> q_Slots (q_cfg q) * 4"
  proof (cases "int (length (q_expired q)) < q_Slots (q_cfg q) * 4")
    case True
    with st r show ?thesis
      by (intro that [of "q_expired q @ [spec_ID (qvm_spec r)]"]) (simp_all add: q_reap_send_def)
  next
    case False
    with st r q_invD(3) [OF inv] show ?thesis
      by (intro that [of "q_expired q"]) (simp_all add: q_reap_send_def)
  qed
  show ?thesis unfolding xs(1) using vm r(2) xs(2)
    by (intro q_inv_put_qvm [OF inv r(1)]) simp_all
qed

lemma q_terminate_sel [simp]:
  "qvm_spec (q_terminate r) = qvm_spec r" "qvm_phase (q_terminate r) = qvm_phase r"
  "qvm_timer (q_terminate r) = qvm_timer r"
  by (simp_all add: q_terminate_def q_cancel_def Let_def)

lemma terminate_phase_ok:
  "phase_ok owed p r \<Longrightarrow> phase_ok owed' p (q_terminate r)"
  by (cases "(owed, p, r)" rule: phase_ok.cases) (auto simp: q_terminate_def q_cancel_def Let_def)

lemma terminate_vm_ok:
  assumes "vm_ok shut own st cl v r" and "\<not> starting (qvm_phase r) \<or> shut"
    and "st' \<Longrightarrow> \<not> starting (qvm_phase r)"
  shows "vm_ok shut own st' cl' v (q_terminate r)"
  using assms terminate_phase_ok by (auto simp: vm_ok_def)

lemma stop_terminate_inv:
  assumes inv: "q_inv q" and st: "stop_terminate q v = Some q'"
  shows "q_inv q'"
proof -
  from st have v: "v \<in> set (stopping q)" by (auto simp: stop_terminate_def split: if_splits)
  then obtain r where r: "q_vms q v = Some r" using q_coreD(7) [OF q_invD(1) [OF inv]] by blast
  note ok = q_invD(10) [OF inv r]
  have ns: "\<not> starting (qvm_phase r)" using ok v by (auto simp: vm_ok_def)
  have q': "q' = (put_qvm q v (q_terminate r))\<lparr>stopping := remove1 v (stopping q)\<rparr>"
    using st v r by (simp add: stop_terminate_def terminate_vm_def)
  show ?thesis unfolding q'
    by (rule q_inv_put [OF inv r, of _ "q_terminate r"])
      (use ns ok terminate_vm_ok q_invD(3) [OF inv] q_dead [OF inv _ r] in auto)
qed

lemma close_terminate_inv:
  assumes inv: "q_inv q" and st: "close_terminate q = Some q'"
  shows "q_inv q'"
proof -
  from st obtain v vs where vs: "closing q = v # vs"
    by (auto simp: close_terminate_def split: list.splits)
  then obtain r where r: "q_vms q v = Some r" using q_coreD(7) [OF q_invD(1) [OF inv]] by auto
  have shut: "q_closed q" using q_invD(6) [OF inv] vs by auto
  note ok = q_invD(10) [OF inv r]
  have q': "q' = (put_qvm q v (q_terminate r))\<lparr>closing := vs\<rparr>"
    using st vs r by (simp add: close_terminate_def terminate_vm_def)
  show ?thesis unfolding q'
  proof (rule q_inv_put [OF inv r, of _ "q_terminate r"])
    show "vm_ok (q_closed q) (q_running ((put_qvm q v (q_terminate r))\<lparr>closing := vs\<rparr>) (spec_ID (qvm_spec r)) = Some v)
      (v \<in> set (stopping ((put_qvm q v (q_terminate r))\<lparr>closing := vs\<rparr>)))
      (v \<in> set (closing ((put_qvm q v (q_terminate r))\<lparr>closing := vs\<rparr>))) v (q_terminate r)"
      using ok shut by (simp, intro terminate_vm_ok) (auto simp: vm_ok_def)
  qed (use vs q_invD(3) [OF inv] q_dead [OF inv _ r] in auto)
qed

lemma q_reap_terminate_inv:
  assumes inv: "q_inv q" and st: "q_reap_terminate q v = Some q'"
  shows "q_inv q'"
proof -
  from st obtain r u where r: "q_vms q v = Some r" "qvm_timer r = QReaping u"
    by (auto simp: q_reap_terminate_def split: bind_splits q_timer.splits)
  note ok = q_invD(10) [OF inv r(1)]
  have u: "u = v" and i: "\<exists>i. qvm_phase r = QDone (Inr i)" using ok r(2) by (auto simp: vm_ok_def)
  have q': "q' = put_qvm q v ((q_terminate r)\<lparr>qvm_timer := QAnnouncing\<rparr>)"
    using st r u by (simp add: q_reap_terminate_def terminate_vm_def put_qvm_def)
  have "vm_ok (q_closed q) (q_running q (spec_ID (qvm_spec r)) = Some v) (v \<in> set (stopping q))
      (v \<in> set (closing q)) v ((q_terminate r)\<lparr>qvm_timer := QAnnouncing\<rparr>)"
    using ok i by (auto simp: vm_ok_def q_terminate_def q_cancel_def Let_def)
  then show ?thesis unfolding q'
    using q_dead [OF inv _ r(1)] r(2) q_invD(3) [OF inv] by (intro q_inv_put_qvm [OF inv r(1)]) auto
qed

text \<open>Stopping a timer, as \<^verbatim>\<open>Stop\<close> and \<^verbatim>\<open>Close\<close> do.\<close>

definition halt_timer :: "qemuVM \<Rightarrow> qemuVM" where
  "halt_timer r = (if qvm_timer r = QArmed then r\<lparr>qvm_timer := QHalted\<rparr> else r)"

lemma q_stop_timer_eq:
  assumes "q_vms q v = Some r"
  shows "q_stop_timer q v = (put_qvm q v (halt_timer r))\<lparr>q_wg := q_wg q +
    of_bool (q_active (qvm_timer (halt_timer r))) - of_bool (q_active (qvm_timer r))\<rparr>"
  using assms by (cases q) (auto simp: q_stop_timer_def halt_timer_def put_qvm_def fun_upd_idem)

lemma halt_timer_sel [simp]:
  "qvm_spec (halt_timer r) = qvm_spec r" "qvm_phase (halt_timer r) = qvm_phase r"
  "process (halt_timer r) = process r" "has_cmd (halt_timer r) = has_cmd r" "has_cancel (halt_timer r) = has_cancel r"
  "cancelled (halt_timer r) = cancelled r"
  "qvm_timer (halt_timer r) = QReaping u \<longleftrightarrow> qvm_timer r = QReaping u"
  "qvm_timer (halt_timer r) = QNoTimer \<longleftrightarrow> qvm_timer r = QNoTimer"
  by (simp_all add: halt_timer_def)

lemma phase_ok_cong:
  "phase_ok owed p r \<Longrightarrow> has_cancel r' = has_cancel r \<Longrightarrow> has_cmd r' = has_cmd r \<Longrightarrow>
   process r' = process r \<Longrightarrow> (owed \<Longrightarrow> owed') \<Longrightarrow> phase_ok owed' p r'"
  by (cases "(owed, p, r)" rule: phase_ok.cases) auto

lemma q_Stop_inv:
  assumes inv: "q_inv q"
    and careful: "\<And>v r. q_running q i = Some v \<Longrightarrow> q_vms q v = Some r \<Longrightarrow> \<not> starting (qvm_phase r)"
  shows "q_inv (snd (q_Stop q i))"
proof (cases "q_closed q \<or> q_running q i = None")
  case True
  then show ?thesis using inv by (auto simp: q_Stop_def)
next
  case False
  then obtain v where v: "q_running q i = Some v" and open_: "\<not> q_closed q" by auto
  from q_invD(8) [OF inv v] obtain r where r: "q_vms q v = Some r" "spec_ID (qvm_spec r) = i" by blast
  note ok = q_invD(10) [OF inv r(1)]
  have ns: "\<not> starting (qvm_phase r)" by (rule careful [OF v r(1)])
  let ?q = "(put_qvm (q\<lparr>q_running := (q_running q)(i := None)\<rparr>) v (halt_timer r))
    \<lparr>q_wg := q_wg q + of_bool (q_active (qvm_timer (halt_timer r))) - of_bool (q_active (qvm_timer r)),
     stopping := stopping q @ [v]\<rparr>"
  have q': "snd (q_Stop q i) = ?q"
    using v open_ r(1) by (simp add: q_Stop_def Let_def q_stop_timer_eq)
  have "vm_ok (q_closed q) False True (v \<in> set (closing q)) v (halt_timer r)"
    using ok ns phase_ok_cong [of _ "qvm_phase r" r "halt_timer r" True] by (auto simp: vm_ok_def)
  then show ?thesis unfolding q'
    using q_invD(3,7) [OF inv] open_ r(2)
    by (intro q_inv_put [OF inv r(1), of _ "halt_timer r"]) auto
qed

lemma vm_ok_shut: "vm_ok shut own st cl v r \<Longrightarrow> vm_ok True own st cl v r"
  by (auto simp: vm_ok_def)

lemma q_core_shut: "q_core shut q \<Longrightarrow> q_core True q"
  using vm_ok_shut unfolding q_core_def by blast

lemma q_close_loop_core:
  "q_core True q \<Longrightarrow> distinct is \<Longrightarrow> set is \<subseteq> dom (q_running q) \<Longrightarrow>
    q_core True (q_close_loop is q) \<and> q_cfg (q_close_loop is q) = q_cfg q \<and>
    q_expired_closed (q_close_loop is q) = q_expired_closed q \<and>
    dom (q_running (q_close_loop is q)) = dom (q_running q) - set is"
proof (induction "is" arbitrary: q)
  case (Cons i "is")
  from Cons.prems(3) obtain v where v: "q_running q i = Some v" by auto
  note core = Cons.prems(1)
  from q_coreD(6) [OF core v] obtain r where r: "q_vms q v = Some r" "spec_ID (qvm_spec r) = i" by blast
  note ok = q_coreD(9) [OF core r(1)]
  let ?q = "(put_qvm q v (halt_timer r))\<lparr>q_wg := q_wg q + of_bool (q_active (qvm_timer (halt_timer r))) -
    of_bool (q_active (qvm_timer r)), closing := closing q @ [v], q_running := (q_running q)(i := None)\<rparr>"
  have step: "q_close_loop (i # is) q = q_close_loop is ?q"
    using v r(1) by (simp add: Let_def q_stop_timer_eq)
  have "vm_ok True False (v \<in> set (stopping q)) True v (halt_timer r)"
    using ok phase_ok_cong [of _ "qvm_phase r" r "halt_timer r" True] by (auto simp: vm_ok_def)
  then have core': "q_core True ?q"
    using r(2) q_coreD(4) [OF core] by (intro q_core_put [OF core r(1), of _ "halt_timer r"]) auto
  have "set is \<subseteq> dom (q_running ?q)" "distinct is" using Cons.prems(2,3) by auto
  note IH = Cons.IH [OF core' this(2,1)]
  have "dom (q_running ?q) = dom (q_running q) - {i}" by simp
  then have "dom (q_running ?q) - set is = dom (q_running q) - set (i # is)" by auto
  then show ?case
    unfolding step using IH by (intro conjI) (simp_all only:, simp_all)
qed simp

lemma q_close_loop_closed: "q_close_loop is (q\<lparr>q_closed := b\<rparr>) = (q_close_loop is q)\<lparr>q_closed := b\<rparr>"
proof (induction "is" arbitrary: q)
  case (Cons i "is")
  have stop: "q_stop_timer (q\<lparr>q_closed := b\<rparr>) v = (q_stop_timer q v)\<lparr>q_closed := b\<rparr>" for v
    by (simp add: q_stop_timer_def put_qvm_def split: option.splits)
  have swap: "q1\<lparr>q_closed := b, closing := c, q_running := m\<rparr> = q1\<lparr>closing := c, q_running := m, q_closed := b\<rparr>"
    for q1 :: qemu and c m by simp
  show ?case
  proof (cases "q_running q i")
    case None
    then show ?thesis using Cons.IH [of q] by simp
  next
    case (Some v)
    then show ?thesis
      using Cons.IH [of "(q_stop_timer q v)\<lparr>closing := closing (q_stop_timer q v) @ [v],
        q_running := (q_running (q_stop_timer q v))(i := None)\<rparr>"]
      by (simp add: Let_def stop swap)
  qed
qed simp

lemma q_close_begin_inv:
  assumes inv: "q_inv q" and it: "iterates is (q_running q)"
  shows "q_inv (q_close_begin q is)"
proof (cases "q_closed q")
  case True
  then show ?thesis using inv by (simp add: q_close_begin_def)
next
  case False
  let ?q = "q_close_loop is q"
  have L: "q_core True ?q" "q_expired_closed ?q = q_expired_closed q" "dom (q_running ?q) = {}"
    using q_close_loop_core [OF q_core_shut [OF q_invD(1) [OF inv]], of "is"] it by (simp_all add: iterates_def)
  have "q_core True (?q\<lparr>q_closed := True\<rparr>)"
    using L(1) unfolding q_core_def q_Running_def by simp
  moreover have "q_running ?q = Map.empty" using L(3) by (simp only: dom_eq_empty_conv)
  ultimately show ?thesis
    using False q_invD(7) [OF inv] L(2) by (auto simp: q_close_begin_def q_close_loop_closed q_inv_def)
qed

lemma q_reserve_inv:
  assumes inv: "q_inv q" and new: "q_vms q v = None"
    and fresh: "\<And>u r. q_vms q u = Some r \<Longrightarrow> spec_ID (qvm_spec r) \<noteq> spec_ID s"
  shows "q_inv (snd (q_reserve q v s (q_Running q)))"
proof (cases "spec_Validate s = None \<and> \<not> q_closed q \<and> q_running q (spec_ID s) = None \<and>
    q_Running q < q_Slots (q_cfg q)")
  case False
  then have "snd (q_reserve q v s (q_Running q)) = q" by (auto simp: q_reserve_def split: option.splits)
  with inv show ?thesis by simp
next
  case True
  let ?r = "\<lparr>qvm_spec = s, qvm_phase = QReserved, has_cancel = False, cancelled = False,
    has_cmd = False, process = NoProcess, qvm_timer = QNoTimer\<rparr>"
  let ?q = "put_qvm (q\<lparr>q_running := (q_running q)(spec_ID s \<mapsto> v)\<rparr>) v ?r"
  have q': "snd (q_reserve q v s (q_Running q)) = ?q" using True by (simp add: q_reserve_def)
  note D = q_invD [OF inv] and C = q_coreD [OF q_invD(1) [OF inv]]
  have out: "v \<notin> set (stopping q)" "v \<notin> set (closing q)" using C(7) new by auto
  have other: "spec_ID (qvm_spec x) \<noteq> spec_ID s \<and> u \<noteq> v" if "q_vms q u = Some x" for u x
    using fresh [OF that] new that by auto
  have cen: "q_wg q = census (\<lambda>r. q_active (qvm_timer r)) ((q_vms q)(v \<mapsto> ?r))"
    using census_put [OF C(2), of "\<lambda>r. q_active (qvm_timer r)" v ?r] new C(5) by simp
  have run: "u \<noteq> v" if "q_running q j = Some u" for j u
    using C(6) [OF that] new by auto
  have "q_core (q_closed q) ?q"
    unfolding q_core_def
  proof (intro conjI)
    show "q_Running ?q \<le> q_Slots (q_cfg ?q)"
      using True C(1) by (simp add: q_Running_def card_insert_if domIff)
    show "\<forall>i u. q_running ?q i = Some u \<longrightarrow> (\<exists>r. q_vms ?q u = Some r \<and> spec_ID (qvm_spec r) = i)"
      using C(6) run by auto
    show "\<forall>u w x y. q_vms ?q u = Some x \<and> q_vms ?q w = Some y \<and> spec_ID (qvm_spec x) = spec_ID (qvm_spec y) \<longrightarrow> u = w"
      using C(8) fresh by (auto split: if_splits) (metis fresh)+
    show "\<forall>u x. q_vms ?q u = Some x \<longrightarrow> vm_ok (q_closed q) (q_running ?q (spec_ID (qvm_spec x)) = Some u)
        (u \<in> set (stopping ?q)) (u \<in> set (closing ?q)) u x"
      using C(9) other out by (auto simp: vm_ok_def split: if_splits)
  qed (use C(1,2,4,7) cen in auto)
  then show ?thesis unfolding q' using D(6,7) True by (auto simp: q_inv_def)
qed

text \<open>Callers that never reuse an identifier, and stop a microVM only after its start returned.\<close>

fun careful :: "q_event \<Rightarrow> qemu \<Rightarrow> bool" where
  "careful (QStart v s) q \<longleftrightarrow> (\<forall>u r. q_vms q u = Some r \<longrightarrow> spec_ID (qvm_spec r) \<noteq> spec_ID s)"
| "careful (QStop i) q \<longleftrightarrow>
     (\<forall>v r. q_running q i = Some v \<and> q_vms q v = Some r \<longrightarrow> \<not> starting (qvm_phase r))"
| "careful _ q \<longleftrightarrow> True"

definition careful_step :: "q_event \<Rightarrow> qemu \<Rightarrow> qemu option" where
  "careful_step e q = (if careful e q then q_step e q else None)"

lemma careful_step_inv:
  assumes inv: "q_inv q" and st: "careful_step e q = Some q'"
  shows "q_inv q'"
proof -
  have c: "careful e q" and s: "q_step e q = Some q'" using st by (auto simp: careful_step_def split: if_splits)
  show ?thesis
  proof (cases e)
    case (QStart v sp)
    then show ?thesis using s c q_reserve_inv [OF inv, of v sp] by (auto split: if_splits)
  next
    case QReceive
    with s obtain i "is" where "q_expired q = i # is" "q' = q\<lparr>q_expired := is\<rparr>"
      by (auto simp: q_Expired_def split: list.splits)
    moreover from this have "q_core (q_closed q) q'"
      using q_invD(1) [OF inv] unfolding q_core_def q_Running_def by simp
    ultimately show ?thesis using inv unfolding q_inv_def by simp
  next
    case (QStop i)
    then show ?thesis using s c q_Stop_inv [OF inv, of i] by auto
  next
    case (QClose "is")
    then show ?thesis using s q_close_begin_inv [OF inv] by (auto split: if_splits)
  next
    case QCloseEnd
    with s have "q_closed q" "closing q = []" "q_wg q = 0" "q' = q\<lparr>q_expired_closed := True\<rparr>"
      by (auto simp: q_close_finish_def split: if_splits)
    moreover from this have "q_core (q_closed q) q'"
      using q_invD(1) [OF inv] unfolding q_core_def q_Running_def by simp
    ultimately show ?thesis using inv unfolding q_inv_def by simp
  qed (use s boot_context_inv [OF inv] boot_spawn_inv [OF inv] boot_publish_inv [OF inv] boot_ready_inv [OF inv]
      q_release_inv [OF inv] q_finish_inv [OF inv] q_fires_inv [OF inv] q_reap_lock_inv [OF inv]
      q_reap_terminate_inv [OF inv] q_reap_send_inv [OF inv] stop_terminate_inv [OF inv]
      close_terminate_inv [OF inv] in simp_all)
qed

interpretation qm: machine careful_step q_inv
  by unfold_locales (rule careful_step_inv)

lemma NewQEMU_inv: "NewQEMU arch exists on_path cfg = Inr q \<Longrightarrow> q_inv q"
  by (auto simp: NewQEMU_def Let_def qemu_Validate_def hv_MinSlotsPerHost_def q_inv_def q_core_def
      q_Running_def split: option.splits if_splits)

subsection \<open>No guest outlives its slot\<close>

lemma alive_is_owed:
  assumes inv: "q_inv q" and r: "q_vms q v = Some r" "process r = Alive"
  shows "q_running q (spec_ID (qvm_spec r)) = Some v \<or> v \<in> set (stopping q) \<or> v \<in> set (closing q) \<or>
    qvm_timer r = QReaping v \<or> starting (qvm_phase r) \<and> q_closed q"
proof (cases "starting (qvm_phase r)")
  case True
  then show ?thesis using q_invD(10) [OF inv r(1)] by (auto simp: vm_ok_def)
next
  case False
  then obtain x where "qvm_phase r = QDone x" by (cases "qvm_phase r") auto
  then show ?thesis using q_invD(10) [OF inv r(1)] r(2) by (cases x) (auto simp: vm_ok_def)
qed

lemma closed_is_waited:
  assumes inv: "q_inv q" and c: "q_expired_closed q" "stopping q = []"
    and r: "q_vms q v = Some r" "qvm_phase r = QDone (Inr i)"
  shows "process r = Waited"
proof -
  from q_invD(7) [OF inv c(1)] have "q_closed q" "closing q = []" by simp_all
  moreover from this q_invD(5) [OF inv] have "q_running q = Map.empty" by simp
  moreover have "qvm_timer r \<noteq> QReaping v" using q_dead [OF inv c(1) r(1)] by auto
  ultimately show ?thesis using q_invD(10) [OF inv r(1)] r(2) c(2) by (auto simp: vm_ok_def)
qed

text \<open>C6. Whatever the interleaving of starts, expiries, stops and a close, by callers that never use
  an identifier twice and stop a microVM only once its start has returned: the hypervisor never
  has more guests than slots; a live process belongs to a guest that holds its slot, or that a
  stop, an expiry or the close has taken out and is about to terminate, or whose start the close
  overtook; and when the close has returned and no stop is under way, the process of every guest
  whose start succeeded has been terminated and waited for.\<close>

theorem no_guest_outlives_its_slot:
  assumes "NewQEMU arch exists on_path cfg = Inr q0" and "run careful_step es q0 = Some q"
    and "q_vms q v = Some r"
  shows "q_Running q \<le> q_Capacity q \<and>
    (process r = Alive \<longrightarrow>
       q_running q (spec_ID (qvm_spec r)) = Some v \<or> v \<in> set (stopping q) \<or> v \<in> set (closing q) \<or>
       qvm_timer r = QReaping v \<or> starting (qvm_phase r) \<and> q_closed q) \<and>
    (q_expired_closed q \<and> stopping q = [] \<and> qvm_phase r = QDone (Inr i) \<longrightarrow> process r = Waited)"
proof -
  have inv: "q_inv q" by (rule qm.run_good [OF NewQEMU_inv [OF assms(1)] assms(2)])
  show ?thesis
    using q_coreD(3) [OF q_invD(1) [OF inv]] alive_is_owed [OF inv assms(3)]
      closed_is_waited [OF inv _ _ assms(3)] by (auto simp: q_Capacity_def)
qed

definition demo_cfg :: QEMUConfig where
  "demo_cfg = \<lparr>q_Slots = 2, Binary = ''q'', KernelImage = ''k'', InitrdImage = ''i'', RootfsImage = '''',
     q_MemMiB = 128, BootTimeout = 90, ReadyMarker = ''m'', Accel = ''tcg''\<rparr>"

definition demo_qemu :: qemu where
  "demo_qemu = \<lparr>q_cfg = demo_cfg, q_running = Map.empty, q_closed = False, q_expired = [],
     q_expired_closed = False, q_wg = 0, q_vms = Map.empty, stopping = [], closing = []\<rparr>"

lemma demo_NewQEMU: "NewQEMU ''amd64'' (\<lambda>p. True) (\<lambda>b. True) demo_cfg = Inr demo_qemu"
  by (simp add: NewQEMU_def qemu_applyDefaults_def qemu_Validate_def demo_cfg_def demo_qemu_def
      hv_MinSlotsPerHost_def Let_def)

lemmas q_defs = demo_cfg_def guest_valid q_reserve_def q_Running_def put_qvm_def boot_context_def
  boot_spawn_def boot_error_def boot_publish_def boot_ready_def q_release_def q_finish_def
  q_fires_def q_reap_lock_def q_reap_terminate_def q_reap_send_def terminate_vm_def q_terminate_def
  q_cancel_def q_stop_timer_def q_Stop_def stop_terminate_def q_close_begin_def close_terminate_def
  q_close_finish_def Let_def

lemma iterates_single: "iterates [i] [i \<mapsto> v]"
  by (simp add: iterates_def)

definition "booting i ttl v = [QStart v (guest i ttl), QContext v, QSpawn v True, QPublish v, QReady v True 10, QFinish v 3]"

theorem no_guest_outlives_its_slot_witness:
  "\<exists>q r. run careful_step (booting ''x'' 0 0 @ [QClose [''x''], QCloseTerminate, QCloseEnd]) demo_qemu = Some q \<and>
     q_vms q 0 = Some r \<and> process r = Waited \<and> q_Running q \<le> q_Capacity q"
proof -
  let ?es = "booting ''x'' 0 0 @ [QClose [''x''], QCloseTerminate, QCloseEnd]"
  let ?r = "\<lparr>qvm_spec = guest ''x'' 0, qvm_phase = QDone (Inr \<lparr>inst_ID = ''x'', StartedAt = 10, inst_BootLatency = 3,
    ExpiresAt = None\<rparr>), has_cancel = True, cancelled = True, has_cmd = True, process = Waited, qvm_timer = QNoTimer\<rparr>"
  have "run careful_step ?es demo_qemu = Some (demo_qemu\<lparr>q_closed := True, q_expired_closed := True, q_vms := [0 \<mapsto> ?r]\<rparr>)"
    by (simp add: booting_def careful_step_def q_defs demo_qemu_def iterates_single)
  with no_guest_outlives_its_slot [OF demo_NewQEMU this, where v = 0 and r = ?r
      and i = "\<lparr>inst_ID = ''x'', StartedAt = 10, inst_BootLatency = 3, ExpiresAt = None\<rparr>"]
  show ?thesis by (simp add: demo_qemu_def)
qed

subsection \<open>Callers that stop a microVM while it boots\<close>

text \<open>A \<^verbatim>\<open>Stop\<close> that arrives between the reservation of \<^verbatim>\<open>x\<close> and the creation of its context
  reports success and terminates nothing: the boot goes on, \<^verbatim>\<open>Start\<close> reports success as well,
  and the process runs outside the map, so that a \<^verbatim>\<open>Close\<close> that returned leaves it alive.\<close>

lemma stop_during_boot_leaks_the_guest:
  "map_option (\<lambda>q. (q_expired_closed q, q_Running q, map_option process (q_vms q 0)))
     (run q_step ([QStart 0 (guest ''x'' 0), QStop ''x'', QStopTerminate 0, QContext 0, QSpawn 0 True,
        QPublish 0, QReady 0 True 10, QFinish 0 3] @ [QClose [], QCloseEnd]) demo_qemu) =
   Some (True, 0, Some Alive)"
  by (simp add: q_defs demo_qemu_def iterates_def)

text \<open>A boot that misses its deadline kills the process and never waits for it: the returned error
  leaves it unreaped, also after \<^verbatim>\<open>Close\<close>.\<close>

lemma failed_boot_is_never_waited_for:
  "map_option (\<lambda>q. (q_expired_closed q, map_option process (q_vms q 0)))
     (run q_step [QStart 0 (guest ''x'' 0), QContext 0, QSpawn 0 True, QPublish 0, QReady 0 False 10,
        QRelease 0, QClose [], QCloseEnd] demo_qemu) = Some (True, Some Dying)"
  by (simp add: q_defs demo_qemu_def iterates_def)

end
