(* ===== verification/Agent.thy ===== *)
theory Agent
  imports Http Qemu
begin

section \<open>The vmhostd agent (cmd/vmhostd/main.go)\<close>

text \<open>
  The process that runs in every vmhost pod: it serves the calls that start and stop
  microVMs on its hypervisor, and keeps itself registered with the placement API. The
  environment, the HTTP transport and the flag parser are arguments. As in the HTTP API, a
  handler is a function of the decoded request and of what the hypervisor answers, and yields
  the response with the calls it made to the metrics, in order.
\<close>

subsection \<open>Identity and configuration\<close>

text \<open>\<open>env\<close> is \<^verbatim>\<open>os.Getenv\<close>, empty for an unset variable; \<open>hostname\<close> the result of
  \<^verbatim>\<open>os.Hostname\<close>.\<close>

definition resolveHostID ::
  "(string \<Rightarrow> string) \<Rightarrow> string + string \<Rightarrow> string \<Rightarrow> string + string" where
  "resolveHostID env hostname flagValue =
     (if flagValue \<noteq> '''' then Inr flagValue
      else let pod = env ''POD_NAME'' in
        if pod \<noteq> '''' then Inr pod
        else case hostname of Inl e \<Rightarrow> Inl e | Inr name \<Rightarrow> Inr name)"

text \<open>\<open>split_port\<close> is the port of \<^verbatim>\<open>net.SplitHostPort\<close>, \<open>None\<close> for its error; \<open>join\<close> is
  \<^verbatim>\<open>net.JoinHostPort\<close>.\<close>

definition defaultAdvertise ::
  "(string \<Rightarrow> string option) \<Rightarrow> (string \<Rightarrow> string \<Rightarrow> string) \<Rightarrow> (string \<Rightarrow> string) \<Rightarrow> string \<Rightarrow> string \<Rightarrow> string" where
  "defaultAdvertise split_port join env hostID addr =
     (let port = (case split_port addr of None \<Rightarrow> ''9090'' | Some p \<Rightarrow> p);
          ip = env ''POD_IP''
      in if ip \<noteq> '''' then join ip port else join hostID port)"

record agent_options =
  o_addr :: string
  o_advertiseAddr :: string
  o_hostID :: string
  o_slots :: int
  o_placementAPI :: string
  o_heartbeatInterval :: duration
  o_hypervisorKind :: string
  o_bootLatency :: duration
  o_bootJitter :: duration
  o_qemuBinary :: string
  o_kernelImage :: string
  o_initrdImage :: string
  o_rootfsImage :: string
  o_guestMemMiB :: int

text \<open>What \<^verbatim>\<open>parseFlags\<close> yields for an empty command line.\<close>

definition default_agent_options :: agent_options where
  "default_agent_options =
     \<lparr>o_addr = '':9090'', o_advertiseAddr = '''', o_hostID = '''', o_slots = 8, o_placementAPI = '''',
      o_heartbeatInterval = 2 * second, o_hypervisorKind = ''fake'', o_bootLatency = DefaultBootLatency,
      o_bootJitter = DefaultBootJitter, o_qemuBinary = '''', o_kernelImage = '''', o_initrdImage = '''',
      o_rootfsImage = '''', o_guestMemMiB = 128\<rparr>"

datatype built = BuiltFake fake | BuiltQEMU qemu

datatype build_error = FakeError hv_error | QEMUError qemu_error | FirecrackerNeedsKVM | UnknownKind string

definition buildHypervisor ::
  "string \<Rightarrow> (string \<Rightarrow> bool) \<Rightarrow> (string \<Rightarrow> bool) \<Rightarrow> agent_options \<Rightarrow> build_error + built" where
  "buildHypervisor arch exists on_path opts =
     (if o_hypervisorKind opts = ''fake'' then
        (case NewFake \<lparr>Slots = o_slots opts, BootLatency = o_bootLatency opts, BootJitter = o_bootJitter opts,
                StopLatency = 0, FailureRate = 0\<rparr> of
           Inl e \<Rightarrow> Inl (FakeError e) | Inr f \<Rightarrow> Inr (BuiltFake f))
      else if o_hypervisorKind opts = ''qemu'' then
        (case NewQEMU arch exists on_path
                \<lparr>q_Slots = o_slots opts, Binary = o_qemuBinary opts, KernelImage = o_kernelImage opts,
                 InitrdImage = o_initrdImage opts, RootfsImage = o_rootfsImage opts,
                 q_MemMiB = o_guestMemMiB opts, BootTimeout = 0, ReadyMarker = '''', Accel = ''''\<rparr> of
           Inl e \<Rightarrow> Inl (QEMUError e) | Inr q \<Rightarrow> Inr (BuiltQEMU q))
      else if o_hypervisorKind opts = ''firecracker'' then Inl FirecrackerNeedsKVM
      else Inl (UnknownKind (o_hypervisorKind opts)))"

subsection \<open>Starting and stopping microVMs\<close>

record agent =
  ag_hostID :: string
  ag_kind :: string

record startVMRequest =
  sv_ID :: string
  sv_TTLMillis :: int

record startVMResponse =
  svr_ID :: string
  svr_Host :: string
  svr_BootLatencyUS :: int
  svr_Running :: int

datatype agent_body =
    NoContent
  | DecodeError
  | PlainError hv_error
  | StartedBody startVMResponse
  | AgentHealth string int int

record agent_response =
  ag_status :: int
  ag_body :: agent_body

datatype agent_metric = VMBootFailures string | VMBootLatency string duration | InflightVMs int

text \<open>The specification a request asks the hypervisor for: \<^verbatim>\<open>time.Duration(ms) * time.Millisecond\<close>
  wraps at 64 bits.\<close>

definition requested :: "startVMRequest \<Rightarrow> Spec" where
  "requested rq = \<lparr>spec_ID = sv_ID rq, spec_VCPUs = 1, spec_MemMiB = 1024,
     spec_TTL = wrap64 (sv_TTLMillis rq * millisecond)\<rparr>"

text \<open>The answer to the call of \<^verbatim>\<open>hypervisor.Start\<close>; \<open>n\<close> is what \<^verbatim>\<open>hypervisor.Running()\<close>
  returns after a success.\<close>

definition start_reply ::
  "agent \<Rightarrow> hv_error + Instance \<Rightarrow> int \<Rightarrow> agent_response \<times> agent_metric list" where
  "start_reply a res n =
     (case res of
        Inl e \<Rightarrow>
          (\<lparr>ag_status = (if e = HvNoCapacity then 409 else 500), ag_body = PlainError e\<rparr>,
           [VMBootFailures (ag_kind a)])
      | Inr inst \<Rightarrow>
          (\<lparr>ag_status = 201, ag_body = StartedBody
              \<lparr>svr_ID = inst_ID inst, svr_Host = ag_hostID a,
               svr_BootLatencyUS = Microseconds (inst_BootLatency inst), svr_Running = n\<rparr>\<rparr>,
           [VMBootLatency (ag_kind a) (inst_BootLatency inst), InflightVMs n]))"

text \<open>The whole handler over a hypervisor in state \<open>h\<close>: \<open>start\<close> is its \<^verbatim>\<open>Start\<close>, which may not
  return, \<open>count\<close> its \<^verbatim>\<open>Running\<close>.\<close>

definition handleStartVM ::
  "(Spec \<Rightarrow> 'h \<Rightarrow> ((hv_error + Instance) \<times> 'h) option) \<Rightarrow> ('h \<Rightarrow> int) \<Rightarrow> agent \<Rightarrow>
     startVMRequest body \<Rightarrow> 'h \<Rightarrow> (agent_response \<times> agent_metric list \<times> 'h) option" where
  "handleStartVM start count a b h =
     (case b of
        Decoded rq \<Rightarrow>
          do {
            (res, h1) \<leftarrow> start (requested rq) h;
            let (resp, ms) = start_reply a res (count h1);
            Some (resp, ms, h1)
          }
      | _ \<Rightarrow> Some (\<lparr>ag_status = 400, ag_body = DecodeError\<rparr>, [], h))"

text \<open>The answer to the call of \<^verbatim>\<open>hypervisor.Stop\<close>, with the same \<open>n\<close>.\<close>

definition stop_reply :: "hv_error option \<Rightarrow> int \<Rightarrow> agent_response \<times> agent_metric list" where
  "stop_reply res n =
     (case res of
        Some (HvUnknownVM x) \<Rightarrow> (\<lparr>ag_status = 404, ag_body = PlainError (HvUnknownVM x)\<rparr>, [])
      | Some e \<Rightarrow> (\<lparr>ag_status = 500, ag_body = PlainError e\<rparr>, [])
      | None \<Rightarrow> (\<lparr>ag_status = 204, ag_body = NoContent\<rparr>, [InflightVMs n]))"

definition handleStopVM ::
  "(string \<Rightarrow> 'h \<Rightarrow> (hv_error option \<times> 'h) option) \<Rightarrow> ('h \<Rightarrow> int) \<Rightarrow>
     string \<Rightarrow> 'h \<Rightarrow> (agent_response \<times> agent_metric list \<times> 'h) option" where
  "handleStopVM stop count i h =
     do {
       (res, h1) \<leftarrow> stop i h;
       let (resp, ms) = stop_reply res (count h1);
       Some (resp, ms, h1)
     }"

definition agent_handleHealthz :: "agent \<Rightarrow> int \<Rightarrow> int \<Rightarrow> agent_response" where
  "agent_handleHealthz a n cap =
     \<lparr>ag_status = 200, ag_body = AgentHealth (ag_hostID a) n cap\<rparr>"

subsection \<open>The client of the placement API\<close>

text \<open>\<open>'w\<close> is the state of the world behind the transport. \<open>parses\<close> tells whether
  \<^verbatim>\<open>http.NewRequestWithContext\<close> accepts a URL; \<open>exchange\<close> is \<^verbatim>\<open>http.Client.Do\<close>: an error, or
  the status of the response.\<close>

datatype payload = NoPayload | HostPayload RegisterHostRequest | VMPayload startVMRequest

record http_request =
  hr_method :: string
  hr_url :: string
  hr_body :: payload

record 'w http_lib =
  parses :: "string \<Rightarrow> bool"
  exchange :: "http_request \<Rightarrow> 'w \<Rightarrow> (string + int) \<times> 'w"

datatype client_error = BadURL string | TransportError string | UnexpectedStatus http_request int

definition client_do ::
  "'w http_lib \<Rightarrow> http_request \<Rightarrow> int list \<Rightarrow> 'w \<Rightarrow> client_error option \<times> 'w" where
  "client_do lib rq okStatuses w =
     (if \<not> parses lib (hr_url rq) then (Some (BadURL (hr_url rq)), w)
      else case exchange lib rq w of
        (Inl e, w1) \<Rightarrow> (Some (TransportError e), w1)
      | (Inr st, w1) \<Rightarrow>
          (if st \<in> set okStatuses then None else Some (UnexpectedStatus rq st), w1))"

definition client_register ::
  "'w http_lib \<Rightarrow> string \<Rightarrow> string \<Rightarrow> int \<Rightarrow> string \<Rightarrow> 'w \<Rightarrow> client_error option \<times> 'w" where
  "client_register lib base hostID slots advertise =
     client_do lib \<lparr>hr_method = ''POST'', hr_url = base @ ''/v1/hosts'',
       hr_body = HostPayload \<lparr>rh_ID = hostID, rh_Capacity = slots, rh_Address = advertise\<rparr>\<rparr> [201]"

definition client_heartbeat :: "'w http_lib \<Rightarrow> string \<Rightarrow> string \<Rightarrow> 'w \<Rightarrow> client_error option \<times> 'w" where
  "client_heartbeat lib base hostID =
     client_do lib \<lparr>hr_method = ''POST'', hr_url = base @ ''/v1/hosts/'' @ hostID @ ''/heartbeat'',
       hr_body = NoPayload\<rparr> [204]"

text \<open>The result of the next two is only logged.\<close>

definition client_releaseVM :: "'w http_lib \<Rightarrow> string \<Rightarrow> string \<Rightarrow> 'w \<Rightarrow> client_error option \<times> 'w" where
  "client_releaseVM lib base vmID =
     client_do lib \<lparr>hr_method = ''DELETE'', hr_url = base @ ''/v1/vms/'' @ vmID, hr_body = NoPayload\<rparr> [204, 404]"

definition client_deregister :: "'w http_lib \<Rightarrow> string \<Rightarrow> string \<Rightarrow> 'w \<Rightarrow> client_error option \<times> 'w" where
  "client_deregister lib base hostID =
     client_do lib \<lparr>hr_method = ''DELETE'', hr_url = base @ ''/v1/hosts/'' @ hostID, hr_body = NoPayload\<rparr> [204, 404]"

text \<open>One round of \<^verbatim>\<open>registerAndHeartbeat\<close>, up to its wait for the ticker.\<close>

definition agent_beat ::
  "'w http_lib \<Rightarrow> string \<Rightarrow> string \<Rightarrow> int \<Rightarrow> string \<Rightarrow> bool \<Rightarrow> 'w \<Rightarrow> bool \<times> 'w" where
  "agent_beat lib base hostID slots advertise registered w =
     (if \<not> registered then
        (case client_register lib base hostID slots advertise w of
           (Some e, w1) \<Rightarrow> (False, w1)
         | (None, w1) \<Rightarrow> (True, w1))
      else
        (case client_heartbeat lib base hostID w of
           (Some e, w1) \<Rightarrow> (False, w1)
         | (None, w1) \<Rightarrow> (True, w1)))"

text \<open>One round of \<^verbatim>\<open>watchExpiries\<close>: the microVM received from the channel is reported when the
  agent has a placement API.\<close>

definition watch_one ::
  "'w http_lib \<Rightarrow> string option \<Rightarrow> string \<Rightarrow> int \<Rightarrow> 'w \<Rightarrow> agent_metric list \<times> 'w" where
  "watch_one lib base i n w =
     ([InflightVMs n],
      case base of None \<Rightarrow> w | Some b \<Rightarrow> snd (client_releaseVM lib b i w))"

subsection \<open>The hypervisors behind the agent\<close>

text \<open>
  A call of \<^verbatim>\<open>Start\<close> or \<^verbatim>\<open>Stop\<close> from its first statement to its return, with no other call in
  between: the pieces of the event machines put together. The second component of the state
  numbers the guests made so far. What the environment decides is the first argument: for the
  fake the jitter, the simulated failure and the clock; for QEMU whether the spawn succeeds,
  whether the marker arrives in time, the clock and the time the boot took.
\<close>

definition fake_Start ::
  "int \<times> bool \<times> instant \<Rightarrow> Spec \<Rightarrow> fake \<times> ref \<Rightarrow> ((hv_error + Instance) \<times> (fake \<times> ref)) option" where
  "fake_Start env s h =
     (let (draw, fail, now) = env; (f, n) = h in
      case start_reserve f n s draw fail (Running f) of
        (Some e, f1) \<Rightarrow> Some (Inl e, (f1, n))
      | (None, f1) \<Rightarrow>
          do {
            f2 \<leftarrow> start_booted f1 n now;
            r \<leftarrow> vms f2 n;
            (case started r of StartDone x \<Rightarrow> Some (x, (f2, Suc n)) | Starting \<Rightarrow> None)
          })"

definition fake_stop :: "string \<Rightarrow> fake \<times> ref \<Rightarrow> (hv_error option \<times> (fake \<times> ref)) option" where
  "fake_stop i h = (let (f, n) = h; (res, f1) = fake_Stop f i in Some (res, (f1, n)))"

definition qemu_Start ::
  "bool \<times> bool \<times> instant \<times> duration \<Rightarrow> Spec \<Rightarrow> qemu \<times> ref \<Rightarrow> ((hv_error + Instance) \<times> (qemu \<times> ref)) option" where
  "qemu_Start env s h =
     (let (spawns, marker, now, took) = env; (q, n) = h in
      case q_reserve q n s (q_Running q) of
        (Some e, q1) \<Rightarrow> Some (Inl e, (q1, n))
      | (None, q1) \<Rightarrow>
          do {
            q2 \<leftarrow> boot_context q1 n;
            q3 \<leftarrow> boot_spawn q2 n spawns;
            q4 \<leftarrow> (if spawns then Option.bind (boot_publish q3 n) (\<lambda>q. boot_ready q n marker now) else Some q3);
            q5 \<leftarrow> (if spawns \<and> marker then q_finish q4 n took else q_release q4 n);
            r \<leftarrow> q_vms q5 n;
            (case qvm_phase r of QDone x \<Rightarrow> Some (x, (q5, Suc n)) | _ \<Rightarrow> None)
          })"

definition qemu_stop :: "string \<Rightarrow> qemu \<times> ref \<Rightarrow> (hv_error option \<times> (qemu \<times> ref)) option" where
  "qemu_stop i h =
     (let (q, n) = h; (res, q1) = q_Stop q i in
      case (res, q_running q i) of
        (None, Some v) \<Rightarrow> map_option (\<lambda>q2. (None, (q2, n))) (stop_terminate q1 v)
      | _ \<Rightarrow> Some (res, (q1, n)))"

subsection \<open>The process\<close>

text \<open>\<^verbatim>\<open>strings.TrimRight(u, "/")\<close>.\<close>

definition trim_slashes :: "string \<Rightarrow> string" where
  "trim_slashes u = rev (dropWhile (\<lambda>c. c = CHR ''/'') (rev u))"

record agent_process =
  p_agent :: agent
  p_hypervisor :: built
  p_client :: "string option"
  p_advertise :: string

datatype agent_error = AgentHostID string | AgentHypervisor build_error

text \<open>
  \<^verbatim>\<open>run\<close> up to the point where it serves: the agent, its hypervisor, and, unless it runs
  standalone, the base URL of its client and the address it advertises. \<open>None\<close> is the ticker of
  the heartbeat loop, which panics unless its interval is positive.
\<close>

definition agent_start ::
  "(string \<Rightarrow> string) \<Rightarrow> string + string \<Rightarrow> (string \<Rightarrow> string option) \<Rightarrow> (string \<Rightarrow> string \<Rightarrow> string) \<Rightarrow>
     string \<Rightarrow> (string \<Rightarrow> bool) \<Rightarrow> (string \<Rightarrow> bool) \<Rightarrow> agent_options \<Rightarrow> (agent_error + agent_process) option"
where
  "agent_start env hostname split_port join arch present on_path opts =
     (case resolveHostID env hostname (o_hostID opts) of
        Inl e \<Rightarrow> Some (Inl (AgentHostID e))
      | Inr hostID \<Rightarrow>
          case buildHypervisor arch present on_path opts of
            Inl e \<Rightarrow> Some (Inl (AgentHypervisor e))
          | Inr hv \<Rightarrow>
              let a = \<lparr>ag_hostID = hostID, ag_kind = o_hypervisorKind opts\<rparr> in
              if o_placementAPI opts = '''' then
                Some (Inr \<lparr>p_agent = a, p_hypervisor = hv, p_client = None, p_advertise = ''''\<rparr>)
              else
                let base = trim_slashes (o_placementAPI opts);
                    advertise = (if o_advertiseAddr opts = ''''
                                 then defaultAdvertise split_port join env hostID (o_addr opts)
                                 else o_advertiseAddr opts)
                in if o_heartbeatInterval opts \<le> 0 then None
                   else Some (Inr \<lparr>p_agent = a, p_hypervisor = hv, p_client = Some base, p_advertise = advertise\<rparr>))"

text \<open>The expiries of a run, each with the number of microVMs running when it is handled.\<close>

fun watch_loop ::
  "'w http_lib \<Rightarrow> string option \<Rightarrow> (string \<times> int) list \<Rightarrow> 'w \<Rightarrow> agent_metric list \<times> 'w" where
  "watch_loop lib base [] w = ([], w)"
| "watch_loop lib base ((i, n) # es) w =
     (let (ms, w1) = watch_one lib base i n w; (ms', w2) = watch_loop lib base es w1 in (ms @ ms', w2))"

text \<open>The shutdown, once the context is cancelled.\<close>

definition agent_stop :: "'w http_lib \<Rightarrow> agent_process \<Rightarrow> 'w \<Rightarrow> 'w" where
  "agent_stop lib p w =
     (case p_client p of
        None \<Rightarrow> w
      | Some base \<Rightarrow> snd (client_deregister lib base (ag_hostID (p_agent p)) w))"

end
