(* ===== verification/AgentRun.thy ===== *)
theory AgentRun
  imports Agent
begin

section \<open>The whole vmhostd process (cmd/vmhostd/main.go)\<close>

text \<open>
  What \<^verbatim>\<open>run\<close> of the agent starts, running together: the handlers that start and stop microVMs, the
  goroutines of the hypervisor, the watcher of expiries, the loop that registers and heartbeats,
  and \<^verbatim>\<open>run\<close> itself with its signal, its deregistration, its shutdown and the closing of the
  hypervisor. The world behind the transport has the type \<open>'w\<close>; what others do to it is an
  argument of the machine. A step is the code between two points where another goroutine can
  interleave, and an exchange with the placement API is one step at the instant it is served.
\<close>

subsection \<open>The hypervisor behind its interface\<close>

fun hv_Running :: "built \<Rightarrow> int" where
  "hv_Running (BuiltFake f) = Running f"
| "hv_Running (BuiltQEMU q) = q_Running q"

fun hv_fresh :: "built \<Rightarrow> ref \<Rightarrow> bool" where
  "hv_fresh (BuiltFake f) v = (vms f v = None)"
| "hv_fresh (BuiltQEMU q) v = (q_vms q v = None)"

text \<open>The beginning of \<^verbatim>\<open>Start\<close>, and what it has returned, once it has.\<close>

fun hv_reserve :: "built \<Rightarrow> ref \<Rightarrow> Spec \<Rightarrow> int \<Rightarrow> bool \<Rightarrow> hv_error option \<times> built" where
  "hv_reserve (BuiltFake f) v s draw fail =
     (let (e, f1) = start_reserve f v s draw fail (Running f) in (e, BuiltFake f1))"
| "hv_reserve (BuiltQEMU q) v s draw fail =
     (let (e, q1) = q_reserve q v s (q_Running q) in (e, BuiltQEMU q1))"

fun hv_started :: "built \<Rightarrow> ref \<Rightarrow> (hv_error + Instance) option" where
  "hv_started (BuiltFake f) v =
     do { r \<leftarrow> vms f v; (case started r of StartDone x \<Rightarrow> Some x | Starting \<Rightarrow> None) }"
| "hv_started (BuiltQEMU q) v =
     do { r \<leftarrow> q_vms q v; (case qvm_phase r of QDone x \<Rightarrow> Some x | _ \<Rightarrow> None) }"

text \<open>A \<^verbatim>\<open>Stop\<close> returns at once or has a guest to terminate first.\<close>

fun hv_Stop :: "built \<Rightarrow> string \<Rightarrow> (ref + hv_error option) \<times> built" where
  "hv_Stop (BuiltFake f) i = (let (res, f1) = fake_Stop f i in (Inr res, BuiltFake f1))"
| "hv_Stop (BuiltQEMU q) i =
     (let (res, q1) = q_Stop q i
      in (case (res, q_running q i) of (None, Some v) \<Rightarrow> Inl v | _ \<Rightarrow> Inr res, BuiltQEMU q1))"

fun hv_terminate :: "built \<Rightarrow> ref \<Rightarrow> built option" where
  "hv_terminate (BuiltFake f) v = None"
| "hv_terminate (BuiltQEMU q) v = map_option BuiltQEMU (stop_terminate q v)"

text \<open>The receive from \<^verbatim>\<open>Expired()\<close>: an identifier, or \<open>None\<close> once the channel is closed and empty.\<close>

fun hv_receive :: "built \<Rightarrow> (string option \<times> built) option" where
  "hv_receive (BuiltFake f) =
     (case expired_receive f of
        Some (i, f1) \<Rightarrow> Some (Some i, BuiltFake f1)
      | None \<Rightarrow> if expired_closed f then Some (None, BuiltFake f) else None)"
| "hv_receive (BuiltQEMU q) =
     (case q_Expired q of
        Some (i, q1) \<Rightarrow> Some (Some i, BuiltQEMU q1)
      | None \<Rightarrow> if q_expired_closed q then Some (None, BuiltQEMU q) else None)"

text \<open>\<^verbatim>\<open>Close\<close>: its critical section, with the iteration order of the map; a termination; its end.\<close>

fun hv_close :: "built \<Rightarrow> string list \<Rightarrow> built option" where
  "hv_close (BuiltFake f) is = map_option BuiltFake (hv_step (HvClose is) f)"
| "hv_close (BuiltQEMU q) is = map_option BuiltQEMU (q_step (QClose is) q)"

fun hv_close_terminate :: "built \<Rightarrow> built option" where
  "hv_close_terminate (BuiltFake f) = None"
| "hv_close_terminate (BuiltQEMU q) = map_option BuiltQEMU (close_terminate q)"

fun hv_close_finish :: "built \<Rightarrow> built option" where
  "hv_close_finish (BuiltFake f) = map_option BuiltFake (close_finish f)"
| "hv_close_finish (BuiltQEMU q) = map_option BuiltQEMU (q_close_finish q)"

text \<open>The steps the hypervisor takes inside its calls of \<^verbatim>\<open>Start\<close> and on its timers.\<close>

fun inside_fake :: "hv_event \<Rightarrow> bool" where
  "inside_fake (HvCancelled v) = True"
| "inside_fake (HvBooted v now) = True"
| "inside_fake (HvFires v) = True"
| "inside_fake (HvReapLock v) = True"
| "inside_fake (HvReapSend v) = True"
| "inside_fake _ = False"

fun inside_qemu :: "q_event \<Rightarrow> bool" where
  "inside_qemu (QContext v) = True"
| "inside_qemu (QSpawn v ok) = True"
| "inside_qemu (QPublish v) = True"
| "inside_qemu (QReady v ok now) = True"
| "inside_qemu (QRelease v) = True"
| "inside_qemu (QFinish v took) = True"
| "inside_qemu (QFires v) = True"
| "inside_qemu (QReapLock v) = True"
| "inside_qemu (QReapTerminate v) = True"
| "inside_qemu (QReapSend v) = True"
| "inside_qemu _ = False"

datatype hv_move = FakeMoves hv_event | QemuMoves q_event

fun hv_moves :: "hv_move \<Rightarrow> built \<Rightarrow> built option" where
  "hv_moves (FakeMoves e) (BuiltFake f) = (if inside_fake e then map_option BuiltFake (hv_step e f) else None)"
| "hv_moves (QemuMoves e) (BuiltQEMU q) = (if inside_qemu e then map_option BuiltQEMU (q_step e q) else None)"
| "hv_moves _ _ = None"

subsection \<open>State\<close>

text \<open>Where a handler is: in \<^verbatim>\<open>Start\<close>; back from it; past \<^verbatim>\<open>Running\<close>, with its metrics and its reply to
  write; in \<^verbatim>\<open>Stop\<close>; back from it; returned.\<close>

datatype vm_call =
    InStart ref
  | StartReturned "hv_error + Instance"
  | StartCounted Instance int
  | InStop ref
  | StopReturned "hv_error option"
  | StopCounted int
  | Replied agent_response

text \<open>The requests to the placement API.\<close>

datatype api_call = AskRegister | AskHeartbeat | AskRelease string | AskDeregister

text \<open>The loop of \<^verbatim>\<open>registerAndHeartbeat\<close> with its flag: about to send, waiting for the answer, in its
  \<^verbatim>\<open>select\<close>; the watcher: in its \<^verbatim>\<open>select\<close>, or with an expiry to count, to publish, to report.\<close>

datatype beating = NoBeat | BtDue bool | BtSent bool | BtWaiting bool | BtReturned

datatype watching = WtIdle | WtReceived string | WtCounted string int | WtReporting string | WtReturned

datatype agent_run_error = AgentServerError string | AgentShutdownError string

datatype agent_phase =
    AgServing
  | AgDeregistering
  | AgShuttingDown
  | AgReleasingSignals "agent_run_error option"
  | AgClosing "agent_run_error option"
  | AgTerminating "agent_run_error option"
  | AgReturned "agent_run_error option"

fun agent_exit :: "agent_phase \<Rightarrow> int option" where
  "agent_exit (AgReturned None) = Some 0"
| "agent_exit (AgReturned (Some e)) = Some 1"
| "agent_exit _ = None"

text \<open>\<open>vh_stray\<close> holds the requests whose client has given up and which the API may still serve.\<close>

record 'w vmhostd =
  vh_proc :: agent_process
  vh_slots :: int
  vh_hv :: built
  vh_calls :: "nat \<rightharpoonup> vm_call"
  vh_handlers :: "nat list"
  vh_metrics :: "agent_metric list"
  vh_beat :: beating
  vh_watch :: watching
  vh_stray :: "api_call list"
  vh_cancelled :: bool
  vh_errs :: "string option"
  vh_drained :: bool
  vh_main :: agent_phase
  vh_world :: 'w

definition vmhostd_of :: "agent_options \<Rightarrow> agent_process \<Rightarrow> 'w \<Rightarrow> 'w vmhostd" where
  "vmhostd_of opts p w =
     \<lparr>vh_proc = p, vh_slots = o_slots opts, vh_hv = p_hypervisor p, vh_calls = Map.empty, vh_handlers = [],
      vh_metrics = [], vh_beat = (if p_client p = None then NoBeat else BtDue False), vh_watch = WtIdle,
      vh_stray = [], vh_cancelled = False, vh_errs = None, vh_drained = False, vh_main = AgServing, vh_world = w\<rparr>"

definition put_call :: "nat \<Rightarrow> vm_call \<Rightarrow> 'w vmhostd \<Rightarrow> 'w vmhostd" where
  "put_call k c p = p\<lparr>vh_calls := (vh_calls p)(k \<mapsto> c)\<rparr>"

subsection \<open>The handlers\<close>

definition accepts :: "nat \<Rightarrow> 'w vmhostd \<Rightarrow> bool" where
  "accepts k p \<longleftrightarrow> vh_calls p k = None \<and> \<not> vh_drained p"

definition start_begins ::
  "nat \<Rightarrow> ref \<Rightarrow> startVMRequest body \<Rightarrow> int \<Rightarrow> bool \<Rightarrow> 'w vmhostd \<Rightarrow> 'w vmhostd option" where
  "start_begins k v b draw fail p =
     (if \<not> accepts k p \<or> \<not> hv_fresh (vh_hv p) v then None
      else
        let (c, hv) =
          (case b of
             Decoded rq \<Rightarrow>
               (case hv_reserve (vh_hv p) v (requested rq) draw fail of
                  (Some e, hv) \<Rightarrow> (StartReturned (Inl e), hv)
                | (None, hv) \<Rightarrow> (InStart v, hv))
           | _ \<Rightarrow> (Replied \<lparr>ag_status = 400, ag_body = DecodeError\<rparr>, vh_hv p))
        in Some (put_call k c (p\<lparr>vh_hv := hv, vh_handlers := k # vh_handlers p\<rparr>)))"

definition stop_begins :: "nat \<Rightarrow> string \<Rightarrow> 'w vmhostd \<Rightarrow> 'w vmhostd option" where
  "stop_begins k i p =
     (if \<not> accepts k p then None
      else
        let (res, hv) = hv_Stop (vh_hv p) i;
            c = (case res of Inl v \<Rightarrow> InStop v | Inr e \<Rightarrow> StopReturned e)
        in Some (put_call k c (p\<lparr>vh_hv := hv, vh_handlers := k # vh_handlers p\<rparr>)))"

text \<open>A handler goes on: its call of the hypervisor returns; it reads \<^verbatim>\<open>Running\<close>, or after an error
  replies; it updates the metrics and replies.\<close>

definition reply :: "nat \<Rightarrow> agent_response \<times> agent_metric list \<Rightarrow> 'w vmhostd \<Rightarrow> 'w vmhostd" where
  "reply k rm p = put_call k (Replied (fst rm)) (p\<lparr>vh_metrics := vh_metrics p @ snd rm\<rparr>)"

definition call_moves :: "nat \<Rightarrow> 'w vmhostd \<Rightarrow> 'w vmhostd option" where
  "call_moves k p =
     (let a = p_agent (vh_proc p); n = hv_Running (vh_hv p) in
      case vh_calls p k of
        Some (InStart v) \<Rightarrow> map_option (\<lambda>x. put_call k (StartReturned x) p) (hv_started (vh_hv p) v)
      | Some (StartReturned (Inl e)) \<Rightarrow> Some (reply k (start_reply a (Inl e) n) p)
      | Some (StartReturned (Inr inst)) \<Rightarrow> Some (put_call k (StartCounted inst n) p)
      | Some (StartCounted inst m) \<Rightarrow> Some (reply k (start_reply a (Inr inst) m) p)
      | Some (InStop v) \<Rightarrow>
          map_option (\<lambda>hv. put_call k (StopReturned None) (p\<lparr>vh_hv := hv\<rparr>)) (hv_terminate (vh_hv p) v)
      | Some (StopReturned None) \<Rightarrow> Some (put_call k (StopCounted n) p)
      | Some (StopReturned (Some e)) \<Rightarrow> Some (reply k (stop_reply (Some e) n) p)
      | Some (StopCounted m) \<Rightarrow> Some (reply k (stop_reply None m) p)
      | _ \<Rightarrow> None)"

subsection \<open>The requests to the placement API\<close>

definition perform :: "'w http_lib \<Rightarrow> 'w vmhostd \<Rightarrow> string \<Rightarrow> api_call \<Rightarrow> client_error option \<times> 'w" where
  "perform lib p base c =
     (let hostID = ag_hostID (p_agent (vh_proc p)); w = vh_world p in
      case c of
        AskRegister \<Rightarrow> client_register lib base hostID (vh_slots p) (p_advertise (vh_proc p)) w
      | AskHeartbeat \<Rightarrow> client_heartbeat lib base hostID w
      | AskRelease i \<Rightarrow> client_releaseVM lib base i w
      | AskDeregister \<Rightarrow> client_deregister lib base hostID w)"

text \<open>A request whose client has given up is served after all.\<close>

definition stray_served :: "'w http_lib \<Rightarrow> api_call \<Rightarrow> 'w vmhostd \<Rightarrow> 'w vmhostd option" where
  "stray_served lib c p =
     do {
       base \<leftarrow> p_client (vh_proc p);
       (if c \<in> set (vh_stray p)
        then Some (p\<lparr>vh_stray := remove1 c (vh_stray p), vh_world := snd (perform lib p base c)\<rparr>) else None)
     }"

subsection \<open>The watcher of expiries\<close>

definition watch_receives :: "'w vmhostd \<Rightarrow> 'w vmhostd option" where
  "watch_receives p =
     (if vh_watch p \<noteq> WtIdle then None
      else
        do {
          (x, hv) \<leftarrow> hv_receive (vh_hv p);
          Some (p\<lparr>vh_hv := hv, vh_watch := (case x of Some i \<Rightarrow> WtReceived i | None \<Rightarrow> WtReturned)\<rparr>)
        })"

text \<open>It reads \<^verbatim>\<open>Running\<close>, sets the gauge and, unless the agent runs standalone, sends its report. Once
  the context is cancelled, it sends none any more and gives up the one it waits for.\<close>

definition watch_moves :: "'w vmhostd \<Rightarrow> 'w vmhostd option" where
  "watch_moves p =
     (case vh_watch p of
        WtReceived i \<Rightarrow> Some (p\<lparr>vh_watch := WtCounted i (hv_Running (vh_hv p))\<rparr>)
      | WtCounted i n \<Rightarrow>
          Some (p\<lparr>vh_metrics := vh_metrics p @ [InflightVMs n],
            vh_watch := (if p_client (vh_proc p) = None \<or> vh_cancelled p then WtIdle else WtReporting i)\<rparr>)
      | _ \<Rightarrow> None)"

definition watch_answered :: "'w http_lib \<Rightarrow> 'w vmhostd \<Rightarrow> 'w vmhostd option" where
  "watch_answered lib p =
     (case (vh_watch p, p_client (vh_proc p)) of
        (WtReporting i, Some base) \<Rightarrow>
          Some (p\<lparr>vh_world := snd (perform lib p base (AskRelease i)), vh_watch := WtIdle\<rparr>)
      | _ \<Rightarrow> None)"

definition watch_aborted :: "'w vmhostd \<Rightarrow> 'w vmhostd option" where
  "watch_aborted p =
     (case vh_watch p of
        WtReporting i \<Rightarrow>
          if vh_cancelled p then Some (p\<lparr>vh_stray := AskRelease i # vh_stray p, vh_watch := WtIdle\<rparr>) else None
      | _ \<Rightarrow> None)"

definition watch_leaves :: "'w vmhostd \<Rightarrow> 'w vmhostd option" where
  "watch_leaves p = (if vh_watch p = WtIdle \<and> vh_cancelled p then Some (p\<lparr>vh_watch := WtReturned\<rparr>) else None)"

subsection \<open>The loop that registers and heartbeats\<close>

definition beat_call :: "bool \<Rightarrow> api_call" where
  "beat_call registered = (if registered then AskHeartbeat else AskRegister)"

text \<open>With a cancelled context the client refuses to send; a request under way is given up.\<close>

definition beat_sends :: "'w vmhostd \<Rightarrow> 'w vmhostd option" where
  "beat_sends p =
     (case vh_beat p of
        BtDue r \<Rightarrow> Some (p\<lparr>vh_beat := (if vh_cancelled p then BtWaiting False else BtSent r)\<rparr>)
      | _ \<Rightarrow> None)"

definition beat_answered :: "'w http_lib \<Rightarrow> 'w vmhostd \<Rightarrow> 'w vmhostd option" where
  "beat_answered lib p =
     (case (vh_beat p, p_client (vh_proc p)) of
        (BtSent r, Some base) \<Rightarrow>
          let (err, w) = perform lib p base (beat_call r)
          in Some (p\<lparr>vh_world := w, vh_beat := BtWaiting (err = None)\<rparr>)
      | _ \<Rightarrow> None)"

definition beat_aborted :: "'w vmhostd \<Rightarrow> 'w vmhostd option" where
  "beat_aborted p =
     (case vh_beat p of
        BtSent r \<Rightarrow>
          if vh_cancelled p then Some (p\<lparr>vh_stray := beat_call r # vh_stray p, vh_beat := BtWaiting False\<rparr>) else None
      | _ \<Rightarrow> None)"

definition beat_ticks :: "'w vmhostd \<Rightarrow> 'w vmhostd option" where
  "beat_ticks p = (case vh_beat p of BtWaiting r \<Rightarrow> Some (p\<lparr>vh_beat := BtDue r\<rparr>) | _ \<Rightarrow> None)"

definition beat_leaves :: "'w vmhostd \<Rightarrow> 'w vmhostd option" where
  "beat_leaves p =
     (case vh_beat p of
        BtWaiting r \<Rightarrow> if vh_cancelled p then Some (p\<lparr>vh_beat := BtReturned\<rparr>) else None
      | _ \<Rightarrow> None)"

subsection \<open>run\<close>

definition vh_listener_fails :: "string \<Rightarrow> 'w vmhostd \<Rightarrow> 'w vmhostd option" where
  "vh_listener_fails e p =
     (if vh_main p = AgServing \<and> vh_errs p = None then Some (p\<lparr>vh_errs := Some e\<rparr>) else None)"

definition vh_select_error :: "'w vmhostd \<Rightarrow> 'w vmhostd option" where
  "vh_select_error p =
     (case (vh_main p, vh_errs p) of
        (AgServing, Some e) \<Rightarrow>
          Some (p\<lparr>vh_errs := None, vh_main := AgReleasingSignals (Some (AgentServerError e))\<rparr>)
      | _ \<Rightarrow> None)"

definition vh_select_cancelled :: "'w vmhostd \<Rightarrow> 'w vmhostd option" where
  "vh_select_cancelled p =
     (if vh_main p = AgServing \<and> vh_cancelled p
      then Some (p\<lparr>vh_main := (if p_client (vh_proc p) = None then AgShuttingDown else AgDeregistering)\<rparr>)
      else None)"

text \<open>The deregistration is answered, or its own deadline passes.\<close>

definition vh_deregisters :: "'w http_lib \<Rightarrow> 'w vmhostd \<Rightarrow> 'w vmhostd option" where
  "vh_deregisters lib p =
     (case (vh_main p, p_client (vh_proc p)) of
        (AgDeregistering, Some base) \<Rightarrow>
          Some (p\<lparr>vh_world := snd (perform lib p base AskDeregister), vh_main := AgShuttingDown\<rparr>)
      | _ \<Rightarrow> None)"

definition vh_gives_up :: "'w vmhostd \<Rightarrow> 'w vmhostd option" where
  "vh_gives_up p =
     (if vh_main p = AgDeregistering
      then Some (p\<lparr>vh_stray := AskDeregister # vh_stray p, vh_main := AgShuttingDown\<rparr>) else None)"

definition call_done :: "'w vmhostd \<Rightarrow> nat \<Rightarrow> bool" where
  "call_done p k = (case vh_calls p k of Some (Replied r) \<Rightarrow> True | None \<Rightarrow> True | _ \<Rightarrow> False)"

definition vh_shutdown :: "string option \<Rightarrow> 'w vmhostd \<Rightarrow> 'w vmhostd option" where
  "vh_shutdown res p =
     (if vh_main p \<noteq> AgShuttingDown then None
      else case res of
        Some e \<Rightarrow> Some (p\<lparr>vh_main := AgReleasingSignals (Some (AgentShutdownError e))\<rparr>)
      | None \<Rightarrow>
          if list_all (call_done p) (vh_handlers p)
          then Some (p\<lparr>vh_drained := True, vh_main := AgReleasingSignals None\<rparr>) else None)"

text \<open>The deferred calls: \<^verbatim>\<open>stop\<close>, then \<^verbatim>\<open>hv.Close\<close>, which visits the running microVMs in the order \<open>is\<close>.\<close>

definition vh_defers :: "string list \<Rightarrow> 'w vmhostd \<Rightarrow> 'w vmhostd option" where
  "vh_defers is p =
     (case vh_main p of
        AgReleasingSignals res \<Rightarrow> Some (p\<lparr>vh_cancelled := True, vh_main := AgClosing res\<rparr>)
      | AgClosing res \<Rightarrow> map_option (\<lambda>hv. p\<lparr>vh_hv := hv, vh_main := AgTerminating res\<rparr>) (hv_close (vh_hv p) is)
      | _ \<Rightarrow> None)"

definition vh_terminates :: "'w vmhostd \<Rightarrow> 'w vmhostd option" where
  "vh_terminates p =
     (case vh_main p of
        AgTerminating res \<Rightarrow> map_option (\<lambda>hv. p\<lparr>vh_hv := hv\<rparr>) (hv_close_terminate (vh_hv p))
      | _ \<Rightarrow> None)"

definition vh_closed :: "'w vmhostd \<Rightarrow> 'w vmhostd option" where
  "vh_closed p =
     (case vh_main p of
        AgTerminating res \<Rightarrow> map_option (\<lambda>hv. p\<lparr>vh_hv := hv, vh_main := AgReturned res\<rparr>) (hv_close_finish (vh_hv p))
      | _ \<Rightarrow> None)"

subsection \<open>The machine\<close>

datatype ('c, 'w) vh_event =
    VStart nat ref "startVMRequest body" int bool
  | VStop nat string
  | VCall nat
  | VInside hv_move
  | VStray "'w http_lib" api_call
  | VReceive
  | VWatch
  | VReport "'w http_lib"
  | VReportAborted
  | VWatchLeaves
  | VSend
  | VBeat "'w http_lib"
  | VBeatAborted
  | VTick
  | VBeatLeaves
  | VSignal
  | VListenerFails string
  | VSelectError
  | VSelectCancelled
  | VDeregister "'w http_lib"
  | VGiveUp
  | VShutdown "string option"
  | VDefer "string list"
  | VTerminate
  | VClosed
  | VWorld 'c

fun vh_move :: "('c \<Rightarrow> 'w \<Rightarrow> 'w option) \<Rightarrow> ('c, 'w) vh_event \<Rightarrow> 'w vmhostd \<Rightarrow> 'w vmhostd option" where
  "vh_move others (VStart k v b draw fail) p = start_begins k v b draw fail p"
| "vh_move others (VStop k i) p = stop_begins k i p"
| "vh_move others (VCall k) p = call_moves k p"
| "vh_move others (VInside m) p = map_option (\<lambda>hv. p\<lparr>vh_hv := hv\<rparr>) (hv_moves m (vh_hv p))"
| "vh_move others (VStray lib c) p = stray_served lib c p"
| "vh_move others VReceive p = watch_receives p"
| "vh_move others VWatch p = watch_moves p"
| "vh_move others (VReport lib) p = watch_answered lib p"
| "vh_move others VReportAborted p = watch_aborted p"
| "vh_move others VWatchLeaves p = watch_leaves p"
| "vh_move others VSend p = beat_sends p"
| "vh_move others (VBeat lib) p = beat_answered lib p"
| "vh_move others VBeatAborted p = beat_aborted p"
| "vh_move others VTick p = beat_ticks p"
| "vh_move others VBeatLeaves p = beat_leaves p"
| "vh_move others VSignal p = Some (p\<lparr>vh_cancelled := True\<rparr>)"
| "vh_move others (VListenerFails e) p = vh_listener_fails e p"
| "vh_move others VSelectError p = vh_select_error p"
| "vh_move others VSelectCancelled p = vh_select_cancelled p"
| "vh_move others (VDeregister lib) p = vh_deregisters lib p"
| "vh_move others VGiveUp p = vh_gives_up p"
| "vh_move others (VShutdown res) p = vh_shutdown res p"
| "vh_move others (VDefer is) p = vh_defers is p"
| "vh_move others VTerminate p = vh_terminates p"
| "vh_move others VClosed p = vh_closed p"
| "vh_move others (VWorld c) p = map_option (\<lambda>w. p\<lparr>vh_world := w\<rparr>) (others c (vh_world p))"

text \<open>Once \<^verbatim>\<open>main\<close> has returned nothing of the process runs; what it sent may still arrive.\<close>

definition vh_step :: "('c \<Rightarrow> 'w \<Rightarrow> 'w option) \<Rightarrow> ('c, 'w) vh_event \<Rightarrow> 'w vmhostd \<Rightarrow> 'w vmhostd option" where
  "vh_step others e p =
     (if agent_exit (vh_main p) = None \<or> (case e of VStray lib c \<Rightarrow> True | VWorld c \<Rightarrow> True | _ \<Rightarrow> False)
      then vh_move others e p else None)"

end
