(* ===== verification/Api.thy ===== *)
theory Api
  imports Agent Autoscale
begin

section \<open>The placement-api process (cmd/placement-api)\<close>

text \<open>
  What the process adds to its components: the booter that starts guests through the agent of
  the chosen host, the exporter that feeds the autoscaler and publishes the gauges, and the
  routes of the HTTP API, here put in front of the host registry so that an agent can talk to
  them. Flags, signals and the servers' sockets are not modelled.
\<close>

subsection \<open>The booter (booter.go)\<close>

record httpBooter =
  resolver :: "host_id \<Rightarrow> string option"
  client_Timeout :: duration
  MaxIdleConns :: int
  MaxIdleConnsPerHost :: int
  IdleConnTimeout :: duration

definition newHTTPBooter :: "(host_id \<Rightarrow> string option) \<Rightarrow> duration \<Rightarrow> int \<Rightarrow> httpBooter" where
  "newHTTPBooter res timeout maxConns =
     \<lparr>resolver = res, client_Timeout = timeout, MaxIdleConns = maxConns, MaxIdleConnsPerHost = 16,
      IdleConnTimeout = 90 * second\<rparr>"

datatype booter_error =
    NoAddressKnown host_id
  | BootBadURL string
  | BootTransport string
  | AgentReturned string int

definition httpBooter_Boot ::
  "httpBooter \<Rightarrow> 'w http_lib \<Rightarrow> host_id \<Rightarrow> string \<Rightarrow> duration \<Rightarrow> 'w \<Rightarrow> booter_error option \<times> 'w" where
  "httpBooter_Boot b lib hst vmID ttl w =
     (case resolver b hst of
        None \<Rightarrow> (Some (NoAddressKnown hst), w)
      | Some addr \<Rightarrow>
          let rq = \<lparr>hr_method = ''POST'', hr_url = ''http://'' @ addr @ ''/vms'',
                hr_body = VMPayload \<lparr>sv_ID = vmID, sv_TTLMillis = Milliseconds ttl\<rparr>\<rparr>
          in if \<not> parses lib (hr_url rq) then (Some (BootBadURL (hr_url rq)), w)
             else case exchange lib rq w of
               (Inl e, w1) \<Rightarrow> (Some (BootTransport e), w1)
             | (Inr st, w1) \<Rightarrow> (if st \<noteq> 201 then Some (AgentReturned addr st) else None, w1))"

subsection \<open>The exporter (main.go)\<close>

text \<open>The gauges of internal/metrics/metrics.go a step sets.\<close>

record gauges =
  g_DesiredVMhostReplicas :: int
  g_InflightVMs :: int
  g_QueueDepth :: int
  g_ReadyVMhosts :: int
  g_PendingVMhosts :: int
  g_DrainingVMhosts :: int
  g_IdleVMhosts :: int
  g_UnderfilledVMhosts :: int
  g_SlotsTotal :: int
  g_SlotsUsed :: int

record signalExporter =
  e_scaler :: autoscaler
  e_interval :: duration
  lastOffered :: u64

text \<open>The sample of one step: the difference of the counters wraps at 64 bits.\<close>

definition exporter_sample :: "instant \<Rightarrow> p_stats \<Rightarrow> Stats \<Rightarrow> signalExporter \<Rightarrow> Sample \<times> signalExporter" where
  "exporter_sample now svcStats fleet e =
     (let offered = ps_Accepted svcStats;
          delta = offered - lastOffered e;
          e1 = e\<lparr>lastOffered := offered\<rparr>;
          rate = real (unat delta) / seconds (e_interval e1)
      in (\<lparr>At = now, ArrivalRate = rate, InflightVMs = st_InflightVMs fleet\<rparr>, e1))"

definition exporter_step ::
  "(real \<Rightarrow> int) \<Rightarrow> instant \<Rightarrow> p_stats \<Rightarrow> Stats \<Rightarrow> signalExporter \<Rightarrow> gauges \<times> signalExporter" where
  "exporter_step oob now svcStats fleet e =
     (let (sample, e1) = exporter_sample now svcStats fleet e;
          (decision, scaler) = Decide oob (e_scaler e1) sample
      in (\<lparr>g_DesiredVMhostReplicas = Replicas decision,
           g_InflightVMs = st_InflightVMs fleet,
           g_QueueDepth = ps_CurrentQueueLen svcStats,
           g_ReadyVMhosts = st_ReadyHosts fleet,
           g_PendingVMhosts = st_Hosts fleet - st_ReadyHosts fleet - st_DrainingHosts fleet,
           g_DrainingVMhosts = st_DrainingHosts fleet,
           g_IdleVMhosts = st_IdleHosts fleet,
           g_UnderfilledVMhosts = st_UnderfilledHosts fleet,
           g_SlotsTotal = st_Capacity fleet,
           g_SlotsUsed = st_Used fleet\<rparr>,
          e1\<lparr>e_scaler := scaler\<rparr>))"

datatype log_level = LevelDebug | LevelInfo | LevelWarn | LevelError

definition newLogger :: "string \<Rightarrow> log_level" where
  "newLogger level =
     (if level = ''debug'' then LevelDebug
      else if level = ''warn'' then LevelWarn
      else if level = ''error'' then LevelError
      else LevelInfo)"

subsection \<open>The routes (internal/httpapi/server.go)\<close>

datatype route =
    CreateVMRoute
  | DeleteVMRoute string
  | ListHostsRoute
  | HealthzRoute
  | ReadyzRoute
  | RegisterHostRoute
  | HeartbeatHostRoute string
  | DeregisterHostRoute string
  | MetricsRoute

text \<open>
  The request multiplexer over the segments of a path that needs no cleaning or unescaping:
  a wildcard is one non-empty segment, and a GET pattern also serves HEAD. \<open>None\<close> is its own
  404 or 405. \<open>has_hosts\<close> and \<open>has_reg\<close> tell whether the server has a host registry and a
  metrics registry.
\<close>

definition Routes :: "bool \<Rightarrow> bool \<Rightarrow> string \<Rightarrow> string list \<Rightarrow> route option" where
  "Routes has_hosts has_reg meth path =
     (let get = (meth = ''GET'' \<or> meth = ''HEAD'') in
      case path of
        [a] \<Rightarrow>
          if get \<and> a = ''healthz'' then Some HealthzRoute
          else if get \<and> a = ''readyz'' then Some ReadyzRoute
          else if has_reg \<and> get \<and> a = ''metrics'' then Some MetricsRoute else None
      | [a, b] \<Rightarrow>
          if a \<noteq> ''v1'' then None
          else if meth = ''POST'' \<and> b = ''vms'' then Some CreateVMRoute
          else if get \<and> b = ''hosts'' then Some ListHostsRoute
          else if has_hosts \<and> meth = ''POST'' \<and> b = ''hosts'' then Some RegisterHostRoute else None
      | [a, b, i] \<Rightarrow>
          if a \<noteq> ''v1'' \<or> meth \<noteq> ''DELETE'' \<or> i = '''' then None
          else if b = ''vms'' then Some (DeleteVMRoute i)
          else if has_hosts \<and> b = ''hosts'' then Some (DeregisterHostRoute i) else None
      | [a, b, i, c] \<Rightarrow>
          if has_hosts \<and> a = ''v1'' \<and> b = ''hosts'' \<and> c = ''heartbeat'' \<and> meth = ''POST'' \<and> i \<noteq> ''''
          then Some (HeartbeatHostRoute i) else None
      | _ \<Rightarrow> None)"

text \<open>The segments of a path, after its leading slash.\<close>

fun segments :: "string \<Rightarrow> string \<Rightarrow> string list" where
  "segments acc [] = [acc]"
| "segments acc (c # cs) = (if c = CHR ''/'' then acc # segments [] cs else segments (acc @ [c]) cs)"

definition path_segments :: "string \<Rightarrow> string list" where
  "path_segments p = (case p of c # cs \<Rightarrow> (if c = CHR ''/'' then segments [] cs else []) | [] \<Rightarrow> [])"

text \<open>
  The API as the agents reach it: the world is the registry with its scheduler, the instant
  is the registry's clock during the request. A handler that panics closes the connection.
  Creating a microVM goes to the placement service: what that does is the argument \<open>create\<close>.
\<close>

definition serve ::
  "(world \<Rightarrow> (string + int) \<times> world) \<Rightarrow> instant \<Rightarrow> route \<Rightarrow> payload \<Rightarrow> world \<Rightarrow> (string + int) \<times> world" where
  "serve create now rt b w =
     (case rt of
        RegisterHostRoute \<Rightarrow>
          (case b of
             HostPayload r \<Rightarrow>
               (case Register w now (rh_ID r) (rh_Capacity r) (rh_Address r) of
                  None \<Rightarrow> (Inl ''EOF'', w)
                | Some (res, w1) \<Rightarrow> (Inr (status (handleRegisterHost (\<lambda>i c a. res) (Decoded r))), w1))
           | _ \<Rightarrow> (Inr (status (handleRegisterHost (\<lambda>i c a. Inr ()) Undecodable)), w))
      | HeartbeatHostRoute i \<Rightarrow>
          (let (res, w1) = Heartbeat w now i in (Inr (status (handleHeartbeatHost (\<lambda>i. res) i)), w1))
      | DeregisterHostRoute i \<Rightarrow>
          (case Deregister w now i of
             None \<Rightarrow> (Inl ''EOF'', w)
           | Some (res, w1) \<Rightarrow> (Inr (status (handleDeregisterHost (\<lambda>i. res) i)), w1))
      | DeleteVMRoute i \<Rightarrow>
          (case Release (sched w) i of
             None \<Rightarrow> (Inl ''EOF'', w)
           | Some (res, s1) \<Rightarrow> (Inr (status (handleDeleteVM (\<lambda>i. res) i)), w\<lparr>sched := s1\<rparr>))
      | ListHostsRoute \<Rightarrow> (Inr 200, w)
      | HealthzRoute \<Rightarrow> (Inr 200, w)
      | ReadyzRoute \<Rightarrow> (Inr 200, w)
      | MetricsRoute \<Rightarrow> (Inr 200, w)
      | CreateVMRoute \<Rightarrow> create w)"

text \<open>
  The server, as far as its routes depend on it: whether it has a metrics registry, given to
  \<^verbatim>\<open>New\<close>, and a host registry, given to \<^verbatim>\<open>WithHostRegistry\<close>. \<^verbatim>\<open>main\<close> builds it with both. The components
  behind its handlers are the world.
\<close>

record server =
  srv_hosts :: bool
  srv_reg :: bool

definition server_New :: "bool \<Rightarrow> server" where
  "server_New metrics_reg = \<lparr>srv_hosts = False, srv_reg = metrics_reg\<rparr>"

definition WithHostRegistry :: "server \<Rightarrow> server" where
  "WithHostRegistry s = s\<lparr>srv_hosts := True\<rparr>"

definition api_server :: server where
  "api_server = WithHostRegistry (server_New True)"

lemma api_server_sel [simp]: "srv_hosts api_server" "srv_reg api_server"
  by (simp_all add: api_server_def WithHostRegistry_def server_New_def)

definition placement_api ::
  "(world \<Rightarrow> (string + int) \<times> world) \<Rightarrow> string \<Rightarrow> instant \<Rightarrow> world http_lib" where
  "placement_api create base now =
     \<lparr>parses = (\<lambda>url. True),
      exchange = (\<lambda>rq w.
        if take (length base) (hr_url rq) \<noteq> base then (Inl ''no such host'', w)
        else case Routes (srv_hosts api_server) (srv_reg api_server) (hr_method rq)
            (path_segments (drop (length base) (hr_url rq))) of
          None \<Rightarrow> (Inr 404, w)
        | Some rt \<Rightarrow> serve create now rt (hr_body rq) w)\<rparr>"

text \<open>An agent as the booter reaches it at the address \<open>addr\<close>; a hypervisor that does not return
  leaves the client to its timeout.\<close>

definition agent_api ::
  "string \<Rightarrow> (Spec \<Rightarrow> 'h \<Rightarrow> ((hv_error + Instance) \<times> 'h) option) \<Rightarrow> ('h \<Rightarrow> int) \<Rightarrow> agent \<Rightarrow> 'h http_lib" where
  "agent_api addr start count a =
     \<lparr>parses = (\<lambda>url. True),
      exchange = (\<lambda>rq h.
        if hr_method rq \<noteq> ''POST'' \<or> hr_url rq \<noteq> ''http://'' @ addr @ ''/vms'' then (Inr 404, h)
        else
          let b = (case hr_body rq of VMPayload v \<Rightarrow> Decoded v | NoPayload \<Rightarrow> NoBody | HostPayload r \<Rightarrow> Undecodable)
          in case handleStartVM start count a b h of
               None \<Rightarrow> (Inl ''timeout'', h)
             | Some (resp, ms, h1) \<Rightarrow> (Inr (ag_status resp), h1))\<rparr>"

subsection \<open>Starting the process (main.go)\<close>

record api_options =
  ao_addr :: string
  ao_slotsPerHost :: int
  ao_targetUtilisation :: real
  ao_meanTTL :: duration
  ao_provisionLatency :: duration
  ao_scaleDownWindow :: duration
  ao_slopeWindow :: duration
  ao_minReplicas :: int
  ao_maxReplicas :: int
  ao_queueDepth :: int
  ao_admissionDeadline :: duration
  ao_sampleInterval :: duration
  ao_heartbeatTimeout :: duration
  ao_bootTimeout :: duration
  ao_maxConns :: int
  ao_logLevel :: string

text \<open>What \<^verbatim>\<open>parseFlags\<close> yields for an empty command line.\<close>

definition default_api_options :: api_options where
  "default_api_options =
     \<lparr>ao_addr = '':8080'', ao_slotsPerHost = 8, ao_targetUtilisation = 8 / 10, ao_meanTTL = 500 * millisecond,
      ao_provisionLatency = 20 * second, ao_scaleDownWindow = 30 * second, ao_slopeWindow = DefaultSlopeWindow,
      ao_minReplicas = 2, ao_maxReplicas = 200, ao_queueDepth = DefaultQueueDepth,
      ao_admissionDeadline = DefaultAdmissionDeadline, ao_sampleInterval = second,
      ao_heartbeatTimeout = DefaultHeartbeatTimeout, ao_bootTimeout = second, ao_maxConns = 512,
      ao_logLevel = ''info''\<rparr>"

datatype api_error = ApiPlacement p_error | ApiAutoscaler as_error | ApiRegistry reg_error

record api_process =
  ap_svc :: service
  ap_world :: world
  ap_exporter :: signalExporter
  ap_WriteTimeout :: duration

text \<open>
  \<^verbatim>\<open>run\<close> up to the point where it serves: the components built from the options and started.
  The scheduler is the one object the service and the registry share. \<open>None\<close> is a crash: the
  second start of a service, or the ticker of the exporter, which panics unless its interval is
  positive.
\<close>

definition api_run :: "api_options \<Rightarrow> (api_error + api_process) option" where
  "api_run opts =
     (let s = New BestFit in
      case svc_New (Some s) \<lparr>QueueDepth = ao_queueDepth opts,
             AdmissionDeadline = ao_admissionDeadline opts, RetryInterval = 0\<rparr> of
        Inl e \<Rightarrow> Some (Inl (ApiPlacement e))
      | Inr svc \<Rightarrow>
          case as_New \<lparr>SlotsPerHost = ao_slotsPerHost opts, TargetUtilisation = ao_targetUtilisation opts,
                 MeanTTL = ao_meanTTL opts, ProvisionLatency = ao_provisionLatency opts,
                 ScaleDownStabilization = ao_scaleDownWindow opts, MinReplicas = ao_minReplicas opts,
                 MaxReplicas = ao_maxReplicas opts, SlopeWindow = ao_slopeWindow opts\<rparr> of
            Inl e \<Rightarrow> Some (Inl (ApiAutoscaler e))
          | Inr scaler \<Rightarrow>
              case reg_New (Some s) True \<lparr>HeartbeatTimeout = ao_heartbeatTimeout opts, SweepInterval = 0\<rparr> of
                Inl e \<Rightarrow> Some (Inl (ApiRegistry e))
              | Inr w \<Rightarrow>
                  do {
                    svc1 \<leftarrow> svc_Start (WithBooter svc);
                    (if ao_sampleInterval opts \<le> 0 then None
                     else Some (Inr \<lparr>ap_svc = svc1, ap_world = w,
                       ap_exporter = \<lparr>e_scaler = scaler, e_interval = ao_sampleInterval opts, lastOffered = 0\<rparr>,
                       ap_WriteTimeout = wrap64 (ao_admissionDeadline opts + 10 * second)\<rparr>))
                  })"

end
