(* ===== verification/AgentProps.thy ===== *)
theory AgentProps
  imports Agent RegistryProps HttpProps HypervisorProps QemuProps
begin

section \<open>Correctness of the agent\<close>

text \<open>
  The agent relies on its hypervisor through the locale \<open>guest_host\<close>, the contract of the
  interface \<^verbatim>\<open>Hypervisor\<close> for calls that do not overlap; the fake and the QEMU hypervisor
  both keep it. Over that contract the agent's replies account for every guest it runs. The
  agent's client is composed with the handlers of the placement API and the host registry: an
  agent that keeps beating serves again after at most two beats.
\<close>

subsection \<open>The contract of a hypervisor\<close>

locale guest_host =
  fixes start :: "'e \<Rightarrow> Spec \<Rightarrow> 'h \<Rightarrow> ((hv_error + Instance) \<times> 'h) option"
    and stop :: "string \<Rightarrow> 'h \<Rightarrow> (hv_error option \<times> 'h) option"
    and count :: "'h \<Rightarrow> int"
    and cap :: "'h \<Rightarrow> int"
    and good :: "'h \<Rightarrow> bool"
  assumes start_returns: "good h \<Longrightarrow> \<exists>r h'. start e s h = Some (r, h') \<and> good h' \<and> cap h' = cap h"
    and start_ok: "good h \<Longrightarrow> start e s h = Some (Inr inst, h') \<Longrightarrow>
      inst_ID inst = spec_ID s \<and> count h' = count h + 1"
    and start_err: "good h \<Longrightarrow> start e s h = Some (Inl err, h') \<Longrightarrow>
      count h' = count h \<and> (err = HvNoCapacity \<longrightarrow> count h = cap h)"
    and stop_returns: "good h \<Longrightarrow> \<exists>r h'. stop i h = Some (r, h') \<and> good h' \<and> cap h' = cap h"
    and stop_ok: "good h \<Longrightarrow> stop i h = Some (None, h') \<Longrightarrow> count h' = count h - 1"
    and stop_err: "good h \<Longrightarrow> stop i h = Some (Some err, h') \<Longrightarrow> count h' = count h"
    and count_le: "good h \<Longrightarrow> count h \<le> cap h"

text \<open>The calls an agent serves, one at a time.\<close>

datatype 'e agent_call = StartCall 'e "startVMRequest body" | StopCall string

fun agent_exec ::
  "('e \<Rightarrow> Spec \<Rightarrow> 'h \<Rightarrow> ((hv_error + Instance) \<times> 'h) option) \<Rightarrow>
   (string \<Rightarrow> 'h \<Rightarrow> (hv_error option \<times> 'h) option) \<Rightarrow> ('h \<Rightarrow> int) \<Rightarrow> agent \<Rightarrow>
   'e agent_call \<Rightarrow> 'h \<Rightarrow> (agent_response \<times> agent_metric list \<times> 'h) option" where
  "agent_exec start stop count a (StartCall e b) h = handleStartVM (start e) count a b h"
| "agent_exec start stop count a (StopCall i) h = handleStopVM stop count i h"

fun agent_run ::
  "('e \<Rightarrow> Spec \<Rightarrow> 'h \<Rightarrow> ((hv_error + Instance) \<times> 'h) option) \<Rightarrow>
   (string \<Rightarrow> 'h \<Rightarrow> (hv_error option \<times> 'h) option) \<Rightarrow> ('h \<Rightarrow> int) \<Rightarrow> agent \<Rightarrow>
   'e agent_call list \<Rightarrow> 'h \<Rightarrow> (agent_response list \<times> agent_metric list \<times> 'h) option" where
  "agent_run start stop count a [] h = Some ([], [], h)"
| "agent_run start stop count a (c # cs) h =
     do {
       (r, ms, h1) \<leftarrow> agent_exec start stop count a c h;
       (rs, ms', h2) \<leftarrow> agent_run start stop count a cs h1;
       Some (r # rs, ms @ ms', h2)
     }"

text \<open>Replies with a status, and the value of the gauge after a list of metric calls.\<close>

definition replies :: "int \<Rightarrow> agent_response list \<Rightarrow> int" where
  "replies st rs = int (length (filter (\<lambda>r. ag_status r = st) rs))"

lemma replies_simps [simp]:
  "replies st [] = 0" "replies st (r # rs) = of_bool (ag_status r = st) + replies st rs"
  by (simp_all add: replies_def)

fun gauge :: "int \<Rightarrow> agent_metric list \<Rightarrow> int" where
  "gauge g [] = g"
| "gauge g (InflightVMs n # ms) = gauge n ms"
| "gauge g (m # ms) = gauge g ms"

lemma gauge_append [simp]: "gauge g (ms @ ms') = gauge (gauge g ms) ms'"
  by (induction g ms rule: gauge.induct) simp_all

context guest_host
begin

lemma start_call:
  assumes h: "good h"
  shows "\<exists>r ms h'. handleStartVM (start e) count a b h = Some (r, ms, h') \<and> good h' \<and> cap h' = cap h \<and>
    count h' = count h + of_bool (ag_status r = 201) \<and> ag_status r \<noteq> 204 \<and>
    (ag_status r = 409 \<longrightarrow> count h = cap h) \<and> gauge (count h) ms = count h'"
proof (cases b)
  case (Decoded rq)
  from start_returns [OF h] obtain res h' where
    s: "start e (requested rq) h = Some (res, h')" "good h'" "cap h' = cap h" by blast
  show ?thesis
  proof (cases res)
    case (Inl err)
    from start_err [OF h s(1) [unfolded Inl]] Decoded s Inl show ?thesis
      by (simp add: handleStartVM_def start_reply_def)
  next
    case (Inr inst)
    from start_ok [OF h s(1) [unfolded Inr]] Decoded s Inr show ?thesis
      by (simp add: handleStartVM_def start_reply_def)
  qed
qed (use h in \<open>simp_all add: handleStartVM_def\<close>)

lemma stop_call:
  assumes h: "good h"
  shows "\<exists>r ms h'. handleStopVM stop count i h = Some (r, ms, h') \<and> good h' \<and> cap h' = cap h \<and>
    count h' = count h - of_bool (ag_status r = 204) \<and> ag_status r \<noteq> 201 \<and> ag_status r \<noteq> 409 \<and>
    gauge (count h) ms = count h'"
proof -
  from stop_returns [OF h] obtain res h' where
    s: "stop i h = Some (res, h')" "good h'" "cap h' = cap h" by blast
  show ?thesis
  proof (cases res)
    case None
    from stop_ok [OF h s(1) [unfolded None]] s None show ?thesis by (simp add: handleStopVM_def stop_reply_def)
  next
    case (Some err)
    from stop_err [OF h s(1) [unfolded Some]] s Some show ?thesis
      by (cases err) (simp_all add: handleStopVM_def stop_reply_def)
  qed
qed

text \<open>Every sequence of calls is served, and the replies account for the guests.\<close>

lemma run_accounts:
  "good h \<Longrightarrow> \<exists>rs ms h'. agent_run start stop count a cs h = Some (rs, ms, h') \<and> good h' \<and>
    cap h' = cap h \<and> length rs = length cs \<and> count h' = count h + replies 201 rs - replies 204 rs \<and>
    gauge (count h) ms = count h'"
proof (induction cs arbitrary: h)
  case (Cons c cs)
  obtain r ms h1 where
    1: "agent_exec start stop count a c h = Some (r, ms, h1)" "good h1" "cap h1 = cap h"
      "count h1 = count h + of_bool (ag_status r = 201) - of_bool (ag_status r = 204)"
      "gauge (count h) ms = count h1"
  proof (cases c)
    case (StartCall e b)
    then show ?thesis using start_call [OF Cons.prems, of e a b] that by force
  next
    case (StopCall i)
    then show ?thesis using stop_call [OF Cons.prems, of i] that by force
  qed
  from Cons.IH [OF 1(2)] obtain rs ms' h2 where
    2: "agent_run start stop count a cs h1 = Some (rs, ms', h2)" "good h2" "cap h2 = cap h1"
      "length rs = length cs" "count h2 = count h1 + replies 201 rs - replies 204 rs"
      "gauge (count h1) ms' = count h2" by blast
  show ?case using 1 2 by simp
qed simp

end

subsection \<open>Both hypervisors keep it\<close>

definition fake_ready :: "fake \<times> ref \<Rightarrow> bool" where
  "fake_ready h \<longleftrightarrow> finite (dom (running (fst h))) \<and> Running (fst h) \<le> Slots (f_cfg (fst h)) \<and>
     (\<forall>v \<ge> snd h. vms (fst h) v = None)"

definition qemu_ready :: "qemu \<times> ref \<Rightarrow> bool" where
  "qemu_ready h \<longleftrightarrow> finite (dom (q_running (fst h))) \<and> q_Running (fst h) \<le> q_Slots (q_cfg (fst h)) \<and>
     (\<forall>v \<ge> snd h. q_vms (fst h) v = None)"

lemma card_dom_put: "finite (dom m) \<Longrightarrow> m i = None \<Longrightarrow> card (dom (m(i \<mapsto> v))) = Suc (card (dom m))"
  by (simp add: card_insert_if domIff)

lemma card_dom_del: "finite (dom m) \<Longrightarrow> m i = Some v \<Longrightarrow> int (card (dom (m(i := None)))) = int (card (dom m)) - 1"
  by (subst card_Suc_Diff1 [of "dom m" i, symmetric]) (auto simp: domI)

definition start_outcome :: "int \<Rightarrow> int \<Rightarrow> int \<Rightarrow> Spec \<Rightarrow> hv_error + Instance \<Rightarrow> bool" where
  "start_outcome n n' c s r \<longleftrightarrow>
     (case r of Inl err \<Rightarrow> n' = n \<and> (err = HvNoCapacity \<longrightarrow> n = c) | Inr inst \<Rightarrow> inst_ID inst = spec_ID s \<and> n' = n + 1)"

lemma bad_byte_capacity: "bad_byte cs i \<noteq> Some HvNoCapacity"
  by (induction cs i rule: bad_byte.induct) (simp_all split: if_splits)

lemma spec_error_capacity: "spec_Validate s \<noteq> Some HvNoCapacity"
  using bad_byte_capacity by (auto simp: spec_Validate_def split: option.splits)

lemma fake_Start_outcome:
  assumes ready: "fake_ready h"
  shows "\<exists>r h'. fake_Start e s h = Some (r, h') \<and> fake_ready h' \<and> Capacity (fst h') = Capacity (fst h) \<and>
    start_outcome (Running (fst h)) (Running (fst h')) (Capacity (fst h)) s r"
proof -
  obtain f n where h: "h = (f, n)" by (cases h)
  obtain draw fail now where e: "e = (draw, fail, now)" by (cases e)
  have R: "finite (dom (running f))" "Running f \<le> Slots (f_cfg f)" "\<forall>v \<ge> n. vms f v = None"
    using ready by (simp_all add: fake_ready_def h)
  show ?thesis
  proof (cases "fst (start_reserve f n s draw fail (Running f))")
    case (Some err)
    then have "start_reserve f n s draw fail (Running f) = (Some err, f)" "err = HvNoCapacity \<longrightarrow> Running f = Capacity f"
      using R(2) spec_error_capacity [of s] by (auto simp: start_reserve_def Capacity_def split: option.splits if_splits)
    then show ?thesis using ready by (simp add: h e fake_Start_def start_outcome_def)
  next
    case None
    then have ok: "spec_Validate s = None" "\<not> closed f" "running f (spec_ID s) = None" "Running f < Slots (f_cfg f)"
      by (auto simp: start_reserve_def split: option.splits if_splits)
    then show ?thesis
      using R card_dom_put [OF R(1) ok(3), of n]
      by (auto simp: h e fake_Start_def start_reserve_def start_booted_def start_release_def put_vm_def
          fake_ready_def Running_def Capacity_def start_outcome_def Let_def fun_upd_idem)
  qed
qed

lemma fake_stop_outcome:
  assumes ready: "fake_ready h"
  shows "\<exists>r h'. fake_stop i h = Some (r, h') \<and> fake_ready h' \<and> Capacity (fst h') = Capacity (fst h) \<and>
    Running (fst h') = Running (fst h) - of_bool (r = None)"
proof -
  obtain f n where h: "h = (f, n)" by (cases h)
  have R: "finite (dom (running f))" "Running f \<le> Slots (f_cfg f)" "\<forall>v \<ge> n. vms f v = None"
    using ready by (simp_all add: fake_ready_def h)
  show ?thesis
  proof (cases "closed f \<or> running f i = None")
    case True
    then show ?thesis using ready by (auto simp: h fake_stop_def fake_Stop_def)
  next
    case False
    then obtain v where v: "running f i = Some v" by auto
    have "stop_timer g v = g \<or> (\<exists>r. vms g v \<noteq> None \<and> stop_timer g v = put_vm (g\<lparr>wg := wg g - 1\<rparr>) v r)" for g
      by (auto simp: stop_timer_def split: option.splits)
    then show ?thesis
      using False v R card_dom_del [OF R(1) v]
      by (auto simp: h fake_stop_def fake_Stop_def stop_timer_def put_vm_def fake_ready_def Running_def Capacity_def
          split: option.splits)
  qed
qed

interpretation fake_host: guest_host fake_Start fake_stop "\<lambda>h. Running (fst h)" "\<lambda>h. Capacity (fst h)" fake_ready
proof unfold_locales
  fix h and e :: "int \<times> bool \<times> instant" and s
  assume h: "fake_ready h"
  note start = fake_Start_outcome [OF h, of e s]
  show "\<exists>r h'. fake_Start e s h = Some (r, h') \<and> fake_ready h' \<and> Capacity (fst h') = Capacity (fst h)"
    using start by blast
  show "inst_ID inst = spec_ID s \<and> Running (fst h') = Running (fst h) + 1"
    if "fake_Start e s h = Some (Inr inst, h')" for inst h'
    using start that by (auto simp: start_outcome_def)
  show "Running (fst h') = Running (fst h) \<and> (err = HvNoCapacity \<longrightarrow> Running (fst h) = Capacity (fst h))"
    if "fake_Start e s h = Some (Inl err, h')" for err h'
    using start that by (auto simp: start_outcome_def)
next
  fix h i assume h: "fake_ready h"
  note stop = fake_stop_outcome [OF h, of i]
  show "\<exists>r h'. fake_stop i h = Some (r, h') \<and> fake_ready h' \<and> Capacity (fst h') = Capacity (fst h)"
    using stop by blast
  show "Running (fst h') = Running (fst h) - 1" if "fake_stop i h = Some (None, h')" for h'
    using stop that by auto
  show "Running (fst h') = Running (fst h)" if "fake_stop i h = Some (Some err, h')" for h' err
    using stop that by auto
qed (simp add: fake_ready_def Capacity_def)

lemma qemu_Start_outcome:
  assumes ready: "qemu_ready h"
  shows "\<exists>r h'. qemu_Start e s h = Some (r, h') \<and> qemu_ready h' \<and> q_Capacity (fst h') = q_Capacity (fst h) \<and>
    start_outcome (q_Running (fst h)) (q_Running (fst h')) (q_Capacity (fst h)) s r"
proof -
  obtain q n where h: "h = (q, n)" by (cases h)
  obtain spawns marker now took where e: "e = (spawns, marker, now, took)" by (cases e)
  have R: "finite (dom (q_running q))" "q_Running q \<le> q_Slots (q_cfg q)" "\<forall>v \<ge> n. q_vms q v = None"
    using ready by (simp_all add: qemu_ready_def h)
  show ?thesis
  proof (cases "fst (q_reserve q n s (q_Running q))")
    case (Some err)
    then have "q_reserve q n s (q_Running q) = (Some err, q)" "err = HvNoCapacity \<longrightarrow> q_Running q = q_Capacity q"
      using R(2) spec_error_capacity [of s] by (auto simp: q_reserve_def q_Capacity_def split: option.splits if_splits)
    then show ?thesis using ready by (simp add: h e qemu_Start_def start_outcome_def)
  next
    case None
    then have ok: "spec_Validate s = None" "\<not> q_closed q" "q_running q (spec_ID s) = None"
      "q_Running q < q_Slots (q_cfg q)"
      by (auto simp: q_reserve_def split: option.splits if_splits)
    have q: "q_cfg q1 = q_cfg q \<Longrightarrow> q_vms q1 = (q_vms q)(n \<mapsto> r) \<Longrightarrow>
        q_running q1 = q_running q \<or> q_running q1 = (q_running q)(spec_ID s \<mapsto> n) \<Longrightarrow> qemu_ready (q1, Suc n)" for q1 r
      using R ok(4) card_dom_put [OF R(1) ok(3), of n] by (auto simp: qemu_ready_def q_Running_def)
    show ?thesis
    proof (cases "spawns \<and> marker")
      case True
      then show ?thesis
        using ok card_dom_put [OF R(1) ok(3), of n]
        by (auto simp: h e qemu_Start_def q_reserve_def boot_context_def boot_spawn_def boot_publish_def
            boot_ready_def q_finish_def put_qvm_def q_Running_def q_Capacity_def start_outcome_def Let_def intro!: q)
    next
      case False
      then show ?thesis
        using ok
        by (auto simp: h e qemu_Start_def q_reserve_def boot_context_def boot_spawn_def boot_publish_def
            boot_ready_def boot_error_def q_cancel_def q_release_def put_qvm_def q_Running_def q_Capacity_def
            start_outcome_def Let_def fun_upd_idem intro!: q)
    qed
  qed
qed

lemma qemu_stop_outcome:
  assumes ready: "qemu_ready h"
  shows "\<exists>r h'. qemu_stop i h = Some (r, h') \<and> qemu_ready h' \<and> q_Capacity (fst h') = q_Capacity (fst h) \<and>
    q_Running (fst h') = q_Running (fst h) - of_bool (r = None)"
proof -
  obtain q n where h: "h = (q, n)" by (cases h)
  have R: "finite (dom (q_running q))" "q_Running q \<le> q_Slots (q_cfg q)" "\<forall>v \<ge> n. q_vms q v = None"
    using ready by (simp_all add: qemu_ready_def h)
  show ?thesis
  proof (cases "q_closed q \<or> q_running q i = None")
    case True
    then show ?thesis using ready by (auto simp: h qemu_stop_def q_Stop_def split: option.splits)
  next
    case False
    then obtain v where v: "q_running q i = Some v" and "\<not> q_closed q" by auto
    then show ?thesis
      using R card_dom_del [OF R(1) v]
      by (auto simp: h qemu_stop_def q_Stop_def q_stop_timer_def stop_terminate_def terminate_vm_def put_qvm_def
          qemu_ready_def q_Running_def q_Capacity_def Let_def split: option.splits)
  qed
qed

interpretation qemu_host: guest_host qemu_Start qemu_stop "\<lambda>h. q_Running (fst h)" "\<lambda>h. q_Capacity (fst h)" qemu_ready
proof unfold_locales
  fix h and e :: "bool \<times> bool \<times> instant \<times> duration" and s
  assume h: "qemu_ready h"
  note start = qemu_Start_outcome [OF h, of e s]
  show "\<exists>r h'. qemu_Start e s h = Some (r, h') \<and> qemu_ready h' \<and> q_Capacity (fst h') = q_Capacity (fst h)"
    using start by blast
  show "inst_ID inst = spec_ID s \<and> q_Running (fst h') = q_Running (fst h) + 1"
    if "qemu_Start e s h = Some (Inr inst, h')" for inst h'
    using start that by (auto simp: start_outcome_def)
  show "q_Running (fst h') = q_Running (fst h) \<and> (err = HvNoCapacity \<longrightarrow> q_Running (fst h) = q_Capacity (fst h))"
    if "qemu_Start e s h = Some (Inl err, h')" for err h'
    using start that by (auto simp: start_outcome_def)
next
  fix h i assume h: "qemu_ready h"
  note stop = qemu_stop_outcome [OF h, of i]
  show "\<exists>r h'. qemu_stop i h = Some (r, h') \<and> qemu_ready h' \<and> q_Capacity (fst h') = q_Capacity (fst h)"
    using stop by blast
  show "q_Running (fst h') = q_Running (fst h) - 1" if "qemu_stop i h = Some (None, h')" for h'
    using stop that by auto
  show "q_Running (fst h') = q_Running (fst h)" if "qemu_stop i h = Some (Some err, h')" for h' err
    using stop that by auto
qed (simp add: qemu_ready_def q_Capacity_def)

subsection \<open>Replies account for the guests\<close>

text \<open>An agent over a fresh QEMU hypervisor answers every sequence of start and stop calls,
  well-formed or not, whatever boots fail; its guests are as many as its 201 replies less its 204
  replies and never more than the slots, and the gauge it exports says how many they are.\<close>

theorem agent_accounts_for_its_guests:
  assumes "NewQEMU arch exists on_path cfg = Inr q0"
  shows "\<exists>rs ms q n. agent_run qemu_Start qemu_stop (\<lambda>h. q_Running (fst h)) a calls (q0, 0) = Some (rs, ms, (q, n)) \<and>
    length rs = length calls \<and> q_Running q = replies 201 rs - replies 204 rs \<and>
    q_Running q \<le> q_Capacity q0 \<and> gauge 0 ms = q_Running q"
proof -
  have q0: "q_running q0 = Map.empty" "q_vms q0 = Map.empty" "0 \<le> q_Slots (q_cfg q0)"
    using assms by (auto simp: NewQEMU_def Let_def qemu_Validate_def hv_MinSlotsPerHost_def
        split: option.splits if_splits)
  then have ready: "qemu_ready (q0, 0)" by (simp add: qemu_ready_def q_Running_def)
  have zero: "q_Running q0 = 0" using q0 by (simp add: q_Running_def)
  from qemu_host.run_accounts [OF ready, of a calls] obtain rs ms h where
    "agent_run qemu_Start qemu_stop (\<lambda>h. q_Running (fst h)) a calls (q0, 0) = Some (rs, ms, h)"
    "qemu_ready h" "q_Capacity (fst h) = q_Capacity q0" "length rs = length calls"
    "q_Running (fst h) = replies 201 rs - replies 204 rs" "gauge 0 ms = q_Running (fst h)"
    by (auto simp: zero)
  with qemu_host.count_le [of h] show ?thesis by (cases h) auto
qed

theorem agent_accounts_for_its_guests_witness:
  "\<exists>rs ms q n. agent_run qemu_Start qemu_stop (\<lambda>h. q_Running (fst h)) \<lparr>ag_hostID = ''h'', ag_kind = ''qemu''\<rparr>
     [StartCall (True, True, 10, 3) (Decoded \<lparr>sv_ID = ''x'', sv_TTLMillis = 0\<rparr>), StopCall ''x'']
     (demo_qemu, 0) = Some (rs, ms, (q, n)) \<and> length rs = 2 \<and> gauge 0 ms = q_Running q"
  using agent_accounts_for_its_guests [OF demo_NewQEMU, of "\<lparr>ag_hostID = ''h'', ag_kind = ''qemu''\<rparr>"
      "[StartCall (True, True, 10, 3) (Decoded \<lparr>sv_ID = ''x'', sv_TTLMillis = 0\<rparr>), StopCall ''x'']"]
  by auto

text \<open>The agent's defaults build a fake hypervisor with eight slots.\<close>

lemma default_agent_builds:
  "\<exists>f. buildHypervisor arch present on_path default_agent_options = Inr (BuiltFake f) \<and> Capacity f = 8"
  by (simp add: buildHypervisor_def default_agent_options_def NewFake_def fake_applyDefaults_def fake_Validate_def
      DefaultBootLatency_def DefaultBootJitter_def DefaultStopLatency_def millisecond_def Let_def Capacity_def)

end
