(* ===== verification/ApiProps.thy ===== *)
theory ApiProps
  imports Api AgentProps AutoscaleProps
begin

section \<open>The parts of the system together\<close>

text \<open>
  Three compositions: an agent, the routes and handlers of the API, and the host registry; the
  validation of a request, the booter and the agent's handler; the counters of the placement
  service and the exporter.
\<close>

subsection \<open>An agent and the registry\<close>

lemma segments_plain: "CHR ''/'' \<notin> set s \<Longrightarrow> segments acc s = [acc @ s]"
  by (induction s arbitrary: acc) auto

lemma segments_append: "CHR ''/'' \<notin> set s \<Longrightarrow> segments acc (s @ t) = segments (acc @ s) t"
  by (induction s arbitrary: acc) auto

text \<open>Identifiers that a path carries unchanged: those of \<^verbatim>\<open>hypervisor.Spec.Validate\<close>.\<close>

definition plain_id :: "string \<Rightarrow> bool" where
  "plain_id i \<longleftrightarrow> i \<noteq> '''' \<and> (\<forall>c\<in>set i. validIDChar c) \<and> hd i \<noteq> CHR ''.''"

lemma plain_id_slash: "plain_id i \<Longrightarrow> CHR ''/'' \<notin> set i"
  by (auto simp: plain_id_def validIDChar_def less_eq_char_def)

lemma register_exchange:
  assumes i: "plain_id i" and inv: "world_inv w" and cap: "MinSlotsPerHost \<le> slots"
  shows "\<exists>w'. client_register (placement_api create base now) base i slots adv w = (None, w') \<and>
    Register w now i slots adv = Some (Inr (), w')"
proof -
  have "i \<noteq> ''''" using i by (simp add: plain_id_def)
  then obtain w' where "Register w now i slots adv = Some (Inr (), w')"
    using Register_known [of i w now slots adv] Register_new [OF inv _ _ cap, of i now adv]
    by (cases "lastSeen (reg w) i") auto
  then show ?thesis
    by (simp add: client_register_def client_do_def placement_api_def path_segments_def Routes_def
        serve_def handleRegisterHost_def writeJSON_def)
qed

lemma heartbeat_exchange:
  assumes i: "plain_id i"
  shows "client_heartbeat (placement_api create base now) base i w =
    (if lastSeen (reg w) i = None then
       (Some (UnexpectedStatus \<lparr>hr_method = ''POST'', hr_url = base @ ''/v1/hosts/'' @ i @ ''/heartbeat'',
          hr_body = NoPayload\<rparr> 404), w)
     else (None, w\<lparr>reg := (reg w)\<lparr>lastSeen := (lastSeen (reg w))(i \<mapsto> now)\<rparr>\<rparr>))"
proof -
  have "i \<noteq> ''''" using i by (simp add: plain_id_def)
  then show ?thesis
    by (auto simp: client_heartbeat_def client_do_def placement_api_def path_segments_def Routes_def
        segments_append [OF plain_id_slash [OF i]] serve_def Heartbeat_def handleHeartbeatHost_def
        writeError_def writeJSON_def split: option.splits)
qed

text \<open>What the other calls may do between two beats of host \<open>i\<close>, the last of them at \<open>t\<close>: nobody
  else deregisters it, and no sweep is later than the timeout after the beat.\<close>

fun spares :: "host_id \<Rightarrow> instant \<Rightarrow> duration \<Rightarrow> wcall \<Rightarrow> bool" where
  "spares i t timeout (WRegister now j c a) \<longleftrightarrow> (j = i \<longrightarrow> t \<le> now)"
| "spares i t timeout (WHeartbeat now j) \<longleftrightarrow> (j = i \<longrightarrow> t \<le> now)"
| "spares i t timeout (WDeregister now j) \<longleftrightarrow> j \<noteq> i"
| "spares i t timeout (WSweep now now' os) \<longleftrightarrow> time_sub now t \<le> timeout"
| "spares i t timeout _ \<longleftrightarrow> True"

definition timeout_of :: "world \<Rightarrow> duration" where
  "timeout_of w = HeartbeatTimeout (reg_cfg (reg w))"

definition seen_since :: "host_id \<Rightarrow> instant \<Rightarrow> world \<Rightarrow> bool" where
  "seen_since i t w \<longleftrightarrow> (\<exists>s \<ge> t. lastSeen (reg w) i = Some s)"

lemma time_sub_anti: "t \<le> s \<Longrightarrow> time_sub now s \<le> time_sub now t"
  by (auto simp: time_sub_def)

lemma forget_loop_cfg [simp]: "reg_cfg (forget_loop is r) = reg_cfg r"
  by (induction "is" arbitrary: r) simp_all

lemma drain_loop_cfg: "drain_loop now is w = Some w' \<Longrightarrow> reg_cfg (reg w') = reg_cfg (reg w)"
  by (induction "is" arbitrary: w) (auto simp: Let_def split: bind_splits option.splits)

lemma reap_one_cfg: "reap_one now ord h w = Some w' \<Longrightarrow> reg_cfg (reg w') = reg_cfg (reg w)"
  by (auto simp: reap_one_def Let_def split: bind_splits option.splits if_splits sum.splits)

lemma reap_loop_cfg: "reap_loop now ord hs w = Some w' \<Longrightarrow> reg_cfg (reg w') = reg_cfg (reg w)"
  by (induction hs arbitrary: w) (auto split: bind_splits dest: reap_one_cfg)

lemma Register_cfg: "Register w now i c a = Some (r, w') \<Longrightarrow> reg_cfg (reg w') = reg_cfg (reg w)"
  by (auto simp: Register_def Let_def split: if_splits prod.splits option.splits sum.splits bind_splits)

lemma world_exec_timeout: "world_exec w c = Some w' \<Longrightarrow> timeout_of w' = timeout_of w"
  by (cases c)
    (auto simp: timeout_of_def Heartbeat_def Deregister_def Sweep_def reapEmptyDrainingHosts_def Let_def
      split: option.splits if_splits bind_splits prod.splits dest!: Register_cfg drain_loop_cfg reap_loop_cfg)

lemma Register_other:
  "Register w now j c a = Some (r, w') \<Longrightarrow> i \<noteq> j \<Longrightarrow> lastSeen (reg w') i = lastSeen (reg w) i"
  by (auto simp: Register_def Let_def split: if_splits prod.splits option.splits sum.splits bind_splits)

lemma world_exec_seen:
  assumes inv: "world_inv w" and seen: "seen_since i t w" and ok: "wcall_ok c" "spares i t (timeout_of w) c"
    and run: "world_exec w c = Some w'"
  shows "seen_since i t w'"
proof -
  from seen obtain s where s: "t \<le> s" "lastSeen (reg w) i = Some s" by (auto simp: seen_since_def)
  show ?thesis
  proof (cases c)
    case (WRegister now j cp a)
    from run obtain r where r: "Register w now j cp a = Some (r, w')" by (auto simp: WRegister)
    show ?thesis
    proof (cases "j = i \<and> i \<noteq> ''''")
      case True
      then have "i \<noteq> ''''" by simp
      from True r Register_known [OF this, of w now cp a] s ok(2) show ?thesis
        by (auto simp: WRegister seen_since_def)
    next
      case False
      then have "lastSeen (reg w') i = lastSeen (reg w) i"
        using r Register_other [OF r] by (cases "j = i") (auto simp: Register_def)
      with seen show ?thesis by (simp add: seen_since_def)
    qed
  next
    case (WHeartbeat now j)
    with run s ok(2) show ?thesis by (auto simp: Heartbeat_def seen_since_def split: option.splits)
  next
    case (WDeregister now j)
    with run seen ok(2) show ?thesis
      by (auto simp: Deregister_def seen_since_def Let_def split: if_splits bind_splits)
  next
    case (WSweep now now' os)
    from run obtain n where n: "Sweep now now' os w = Some (n, w')" by (auto simp: WSweep)
    have "orders_ok os" using ok(1) by (simp add: WSweep)
    from Sweep_effect(2) [OF inv this n, of i] time_sub_anti [OF s(1), of now] ok(2) s show ?thesis
      by (auto simp: WSweep is_expired_def seen_since_def timeout_of_def)
  next
    case (WPlace v)
    with run seen show ?thesis by (auto simp: seen_since_def)
  next
    case (WRelease v)
    with run seen show ?thesis by (auto simp: seen_since_def)
  qed
qed

lemma world_run_seen:
  "world_inv w \<Longrightarrow> seen_since i t w \<Longrightarrow> list_all wcall_ok cs \<Longrightarrow> list_all (spares i t (timeout_of w)) cs \<Longrightarrow>
   world_run w cs = Some w' \<Longrightarrow> world_inv w' \<and> seen_since i t w' \<and> timeout_of w' = timeout_of w"
proof (induction cs arbitrary: w)
  case (Cons c cs)
  from Cons.prems(5) obtain w1 where w1: "world_exec w c = Some w1" "world_run w1 cs = Some w'"
    by (auto split: bind_splits)
  have "world_inv w1" using world_exec_inv [OF Cons.prems(1), of c] Cons.prems(3) w1(1) by auto
  moreover have "seen_since i t w1" using world_exec_seen [OF Cons.prems(1,2) _ _ w1(1)] Cons.prems(3,4) by simp
  ultimately show ?case
    using Cons.IH [of w1] Cons.prems(3,4) w1(2) world_exec_timeout [OF w1(1)] by simp
qed simp

lemma world_run_inv:
  "world_inv w \<Longrightarrow> list_all wcall_ok cs \<Longrightarrow> world_run w cs = Some w' \<Longrightarrow> world_inv w' \<and> timeout_of w' = timeout_of w"
proof (induction cs arbitrary: w)
  case (Cons c cs)
  from Cons.prems(3) obtain w1 where w1: "world_exec w c = Some w1" "world_run w1 cs = Some w'"
    by (auto split: bind_splits)
  have "world_inv w1" using world_exec_inv [OF Cons.prems(1), of c] Cons.prems(2) w1(1) by auto
  then show ?case using Cons.IH [of w1] Cons.prems(2) w1(2) world_exec_timeout [OF w1(1)] by simp
qed simp

text \<open>One beat: it ends registered and seen, or unregistered with the host unknown.\<close>

lemma agent_beat_effect:
  assumes i: "plain_id i" and inv: "world_inv w" and cap: "MinSlotsPerHost \<le> slots"
    and b: "agent_beat (placement_api create base t) base i slots adv r w = (r', w')"
  shows "world_inv w' \<and> timeout_of w' = timeout_of w \<and>
    (r' \<longrightarrow> seen_since i t w') \<and> (\<not> r \<or> lastSeen (reg w) i \<noteq> None \<longrightarrow> r')"
proof (cases r)
  case True
  show ?thesis
  proof (cases "lastSeen (reg w) i = None")
    case None: True
    with True b inv show ?thesis
      by (auto simp: agent_beat_def heartbeat_exchange [OF i])
  next
    case False
    with True b have "r'" "w' = w\<lparr>reg := (reg w)\<lparr>lastSeen := (lastSeen (reg w))(i \<mapsto> t)\<rparr>\<rparr>"
      by (auto simp: agent_beat_def heartbeat_exchange [OF i])
    moreover from this False have "w' = snd (Heartbeat w t i)" by (auto simp: Heartbeat_def)
    ultimately show ?thesis
      using Heartbeat_inv [OF inv, of t i] by (auto simp: seen_since_def timeout_of_def)
  qed
next
  case False
  from register_exchange [OF i inv cap, of create base t adv] False b have
    r: "r'" "Register w t i slots adv = Some (Inr (), w')" by (auto simp: agent_beat_def)
  have "i \<noteq> ''''" using i by (simp add: plain_id_def)
  then have "lastSeen (reg w') i = Some t"
    using r(2) Register_known [of i w t slots adv] Register_new [OF inv _ _ cap, of i t adv]
    by (cases "lastSeen (reg w) i") (auto simp: registered_def)
  then show ?thesis
    using r Register_inv [OF inv, of t i slots adv] Register_cfg [OF r(2)]
    by (auto simp: seen_since_def timeout_of_def)
qed

text \<open>The rounds of an agent: a beat at \<open>t\<close>, then other calls to the registry and the scheduler.\<close>

fun agent_rounds ::
  "(world \<Rightarrow> (string + int) \<times> world) \<Rightarrow> string \<Rightarrow> host_id \<Rightarrow> int \<Rightarrow> string \<Rightarrow>
     (instant \<times> wcall list) list \<Rightarrow> bool \<times> world \<Rightarrow> (bool \<times> world) option" where
  "agent_rounds create base i slots adv [] s = Some s"
| "agent_rounds create base i slots adv ((t, cs) # rs) s =
     (let (r, w) = agent_beat (placement_api create base t) base i slots adv (fst s) (snd s) in
      Option.bind (world_run w cs) (\<lambda>w'. agent_rounds create base i slots adv rs (r, w')))"

lemma world_run_total: "world_inv w \<Longrightarrow> list_all wcall_ok cs \<Longrightarrow> \<exists>w'. world_run w cs = Some w'"
proof (induction cs arbitrary: w)
  case (Cons c cs)
  then show ?case using world_exec_inv [OF Cons.prems(1), of c] by auto
qed simp

definition round_ok :: "host_id \<Rightarrow> duration \<Rightarrow> instant \<times> wcall list \<Rightarrow> bool" where
  "round_ok i timeout rd \<longleftrightarrow> list_all wcall_ok (snd rd) \<and> list_all (spares i (fst rd) timeout) (snd rd)"

lemma agent_round_effect:
  assumes i: "plain_id i" and cap: "MinSlotsPerHost \<le> slots"
    and inv: "world_inv w" and ok: "round_ok i (timeout_of w) (t, cs)"
  shows "\<exists>r' w1 w'. agent_beat (placement_api create base t) base i slots adv r w = (r', w1) \<and>
    world_run w1 cs = Some w' \<and> world_inv w' \<and> timeout_of w' = timeout_of w \<and>
    (r' \<longrightarrow> seen_since i t w') \<and> (\<not> r \<or> lastSeen (reg w) i \<noteq> None \<longrightarrow> r')"
proof -
  obtain r' w1 where b: "agent_beat (placement_api create base t) base i slots adv r w = (r', w1)"
    by (cases "agent_beat (placement_api create base t) base i slots adv r w")
  note e = agent_beat_effect [OF i inv cap b]
  from ok have cs: "list_all wcall_ok cs" "list_all (spares i t (timeout_of w1)) cs"
    using e by (simp_all add: round_ok_def)
  from world_run_total [OF _ cs(1), of w1] e obtain w' where w': "world_run w1 cs = Some w'" by blast
  then show ?thesis
    using b e world_run_inv [OF _ cs(1) w'] world_run_seen [OF _ _ cs w'] by (cases r') auto
qed

lemma agent_rounds_known:
  assumes i: "plain_id i" and cap: "MinSlotsPerHost \<le> slots"
  shows "world_inv w \<Longrightarrow> (r \<longrightarrow> lastSeen (reg w) i \<noteq> None) \<Longrightarrow> rs \<noteq> [] \<Longrightarrow>
    list_all (round_ok i (timeout_of w)) rs \<Longrightarrow>
    \<exists>w'. agent_rounds create base i slots adv rs (r, w) = Some (True, w') \<and> world_inv w' \<and>
      seen_since i (fst (last rs)) w'"
proof (induction rs arbitrary: r w)
  case (Cons x rs)
  obtain t cs where x: "x = (t, cs)" by (cases x)
  have "round_ok i (timeout_of w) (t, cs)" using Cons.prems(4) x by simp
  from agent_round_effect [OF i cap Cons.prems(1) this, where create = create and base = base and adv = adv and r = r]
  obtain r' w1 w2 where e: "agent_beat (placement_api create base t) base i slots adv r w = (r', w1)"
    "world_run w1 cs = Some w2" "world_inv w2" "timeout_of w2 = timeout_of w"
    "r' \<longrightarrow> seen_since i t w2" "\<not> r \<or> lastSeen (reg w) i \<noteq> None \<longrightarrow> r'" by blast
  from e(6) Cons.prems(2) have r': r' by blast
  show ?case
  proof (cases rs)
    case Nil
    then show ?thesis using e r' x by simp
  next
    case (Cons y ys)
    have "lastSeen (reg w2) i \<noteq> None" using e(5) r' by (auto simp: seen_since_def)
    with Cons.IH [OF e(3), of True] Cons.prems(4) e r' x Cons show ?thesis by simp
  qed
qed simp



text \<open>The capacity of the hypervisor an agent built.\<close>

fun built_Capacity :: "built \<Rightarrow> int" where
  "built_Capacity (BuiltFake f) = Capacity f"
| "built_Capacity (BuiltQEMU q) = q_Capacity q"

lemma NewFake_capacity:
  assumes "NewFake cfg = Inr f"
  shows "Capacity f = Slots cfg \<and> MinSlotsPerHost \<le> Slots cfg"
proof -
  have s: "Slots (fake_applyDefaults cfg) = Slots cfg" by (simp add: fake_applyDefaults_def Let_def)
  show ?thesis
    using assms s by (auto simp: NewFake_def Let_def Capacity_def fake_Validate_def MinSlotsPerHost_def
        split: option.splits if_splits)
qed

lemma NewQEMU_capacity:
  assumes "NewQEMU arch present on_path cfg = Inr q"
  shows "q_Capacity q = q_Slots cfg \<and> MinSlotsPerHost \<le> q_Slots cfg"
proof -
  have s: "q_Slots (qemu_applyDefaults arch present cfg) = q_Slots cfg" by (simp add: qemu_applyDefaults_def Let_def)
  show ?thesis
    using assms s by (auto simp: NewQEMU_def Let_def q_Capacity_def qemu_Validate_def hv_MinSlotsPerHost_def
        MinSlotsPerHost_def split: option.splits if_splits)
qed

lemma buildHypervisor_capacity:
  assumes "buildHypervisor arch present on_path opts = Inr hv"
  shows "built_Capacity hv = o_slots opts \<and> MinSlotsPerHost \<le> o_slots opts"
  using assms unfolding buildHypervisor_def
  by (auto split: if_splits sum.splits dest!: NewFake_capacity NewQEMU_capacity)

lemma agent_start_fields:
  assumes "agent_start env hostname split_port join arch present on_path opts = Some (Inr p)"
  shows "built_Capacity (p_hypervisor p) = o_slots opts" "MinSlotsPerHost \<le> o_slots opts"
  using assms buildHypervisor_capacity [of arch present on_path opts]
  by (auto simp: agent_start_def Let_def split: sum.splits if_splits)

lemma deregister_exchange:
  assumes i: "plain_id i" and d: "Deregister w now i = Some (Inr (), w')"
  shows "client_deregister (placement_api create base now) base i w = (None, w')"
proof -
  have "i \<noteq> ''''" using i by (simp add: plain_id_def)
  then show ?thesis
    by (simp add: client_deregister_def client_do_def placement_api_def path_segments_def Routes_def
        segments_plain [OF plain_id_slash [OF i]] serve_def handleDeregisterHost_def d writeJSON_def)
qed


definition demo_agent_options :: agent_options where
  "demo_agent_options = default_agent_options\<lparr>o_hostID := ''a'', o_placementAPI := ''http://api/'', o_advertiseAddr := ''a:1''\<rparr>"

lemma demo_agent_starts:
  "\<exists>p. agent_start (\<lambda>x. '''') (Inl '''') (\<lambda>x. None) (@) ''amd64'' (\<lambda>x. False) (\<lambda>x. False) demo_agent_options = Some (Inr p) \<and>
     p_client p = Some ''http://api'' \<and> ag_hostID (p_agent p) = ''a'' \<and> p_advertise p = ''a:1'' \<and>
     built_Capacity (p_hypervisor p) = 8"
  by (simp add: agent_start_def resolveHostID_def buildHypervisor_def demo_agent_options_def default_agent_options_def
      NewFake_def fake_applyDefaults_def fake_Validate_def DefaultBootLatency_def DefaultBootJitter_def
      DefaultStopLatency_def millisecond_def second_def Let_def Capacity_def trim_slashes_def)


subsection \<open>A request's lifetime\<close>

lemma validated_lifetime:
  assumes "validate r = Inr ttl" and "TTLMillis r \<le> 9223372036854"
  shows "0 < ttl \<and> ttl \<le> MaxTTL \<and> wrap64 (Milliseconds ttl * millisecond) = ttl"
proof -
  have fits: "fits64 (n * 1000000)" if "0 < n" "n \<le> 9223372036854" for n :: int
    using that by (simp add: fits64_def)
  have "Milliseconds DefaultTTL * millisecond = DefaultTTL" "fits64 DefaultTTL"
    using Milliseconds_exact [of 500] by (simp_all add: MaxTTL_ns fits64_def)
  then show ?thesis
    using assms fits [of "TTLMillis r"] Milliseconds_exact [of "TTLMillis r"]
    by (auto simp: validate_def Let_def MaxTTL_ns split: if_splits)
qed

text \<open>C37. A microVM gets exactly the lifetime its request asked for: when the API has accepted a
  request whose milliseconds do not overflow, booting it on a host with a known address starts
  on that host's hypervisor a guest with the identifier of the request and the validated
  lifetime to the nanosecond, which is positive and at most five minutes; the boot succeeds
  exactly when the hypervisor starts the guest, and its failure says whether the host was full.\<close>

theorem boot_starts_the_requested_guest:
  assumes "validate r = Inr ttl" and "TTLMillis r \<le> 9223372036854" and "resolver b hst = Some addr"
  shows "0 < ttl \<and> ttl \<le> MaxTTL \<and>
    httpBooter_Boot b (agent_api addr start count a) hst i ttl h =
      (case start \<lparr>spec_ID = i, spec_VCPUs = FixedVCPUs, spec_MemMiB = FixedMemMiB, spec_TTL = ttl\<rparr> h of
         None \<Rightarrow> (Some (BootTransport ''timeout''), h)
       | Some (Inl e, h') \<Rightarrow> (Some (AgentReturned addr (if e = HvNoCapacity then 409 else 500)), h')
       | Some (Inr inst, h') \<Rightarrow> (None, h'))"
  using validated_lifetime [OF assms(1,2)] assms(3)
  by (auto simp: httpBooter_Boot_def agent_api_def handleStartVM_def requested_def start_reply_def
      FixedVCPUs_def FixedMemMiB_def Let_def split: option.splits sum.splits)

theorem boot_starts_the_requested_guest_witness:
  "fst (httpBooter_Boot (newHTTPBooter [''a'' \<mapsto> ''a:1''] 1000 512)
     (agent_api ''a:1'' (\<lambda>s h. Some (Inl HvNoCapacity, h)) (\<lambda>h. 2) \<lparr>ag_hostID = ''a'', ag_kind = ''fake''\<rparr>)
     ''a'' ''v'' 1500000000 (0::nat)) = Some (AgentReturned ''a:1'' 409)"
proof -
  have v: "validate \<lparr>VCPUs = 1, MemoryMiB = 1024, TTLMillis = 1500, req_ID = ''v''\<rparr> = Inr 1500000000"
    by (simp add: validate_def FixedVCPUs_def FixedMemMiB_def MaxTTL_ns fits64_def)
  show ?thesis
    using boot_starts_the_requested_guest [OF v, where b = "newHTTPBooter [''a'' \<mapsto> ''a:1''] 1000 512" and hst = "''a''"
        and addr = "''a:1''" and start = "\<lambda>s h. Some (Inl HvNoCapacity, h)" and count = "\<lambda>h. 2"
        and a = "\<lparr>ag_hostID = ''a'', ag_kind = ''fake''\<rparr>" and i = "''v''" and h = "0::nat"]
    by (simp add: newHTTPBooter_def)
qed

subsection \<open>The exporter\<close>

text \<open>The rates of the samples the exporter hands to the autoscaler, over a list of ticks.\<close>

fun exporter_rates ::
  "(real \<Rightarrow> int) \<Rightarrow> (instant \<times> p_stats \<times> Stats) list \<Rightarrow> signalExporter \<Rightarrow> real list" where
  "exporter_rates oob [] e = []"
| "exporter_rates oob ((now, ps, fleet) # ticks) e =
     ArrivalRate (fst (exporter_sample now ps fleet e)) #
       exporter_rates oob ticks (snd (exporter_step oob now ps fleet e))"

text \<open>Numbers of accepted requests that grow by less than \<open>2 ^ 64\<close> from tick to tick.\<close>

fun climbs :: "nat \<Rightarrow> nat list \<Rightarrow> bool" where
  "climbs n [] = True"
| "climbs n (k # ks) \<longleftrightarrow> n \<le> k \<and> k - n < 2 ^ 64 \<and> climbs k ks"

lemma exporter_step_sel:
  "e_interval (snd (exporter_step oob now ps fleet e)) = e_interval e"
  "lastOffered (snd (exporter_step oob now ps fleet e)) = ps_Accepted ps"
  by (simp_all add: exporter_step_def exporter_sample_def Let_def split: prod.splits)

lemma unat_diff_of_nat: "n \<le> k \<Longrightarrow> k - n < 2 ^ 64 \<Longrightarrow> unat (of_nat k - of_nat n :: u64) = k - n"
proof -
  assume n: "n \<le> k" "k - n < 2 ^ 64"
  have "(of_nat k - of_nat n :: u64) = of_nat (k - n)" using n(1) by (simp only: of_nat_diff)
  then have "unat (of_nat k - of_nat n :: u64) = unat (of_nat (k - n) :: u64)" by (rule arg_cong)
  also have "\<dots> = k - n" using n(2) by (simp only: unat_of_nat) simp
  finally show ?thesis .
qed

text \<open>C38. The autoscaler sees every arrival once: over any number of ticks the rates it is given,
  multiplied by the sampling interval, add up to the number of requests accepted meanwhile, also
  when the 64-bit counter wraps, provided fewer than \<open>2 ^ 64\<close> arrive between two ticks.\<close>

theorem exporter_counts_every_arrival:
  assumes "0 < e_interval e" and "lastOffered e = of_nat n" and "climbs n ns"
    and "map (\<lambda>t. ps_Accepted (fst (snd t))) ticks = map of_nat ns"
  shows "sum_list (map (\<lambda>r. r * seconds (e_interval e)) (exporter_rates oob ticks e)) =
    real (last (n # ns)) - real n"
  using assms
proof (induction ticks arbitrary: n ns e)
  case (Cons tk ticks)
  obtain now ps fleet where tk: "tk = (now, ps, fleet)" by (cases tk)
  from Cons.prems(4) obtain k ks where ns: "ns = k # ks" "ps_Accepted ps = of_nat k"
    "map (\<lambda>t. ps_Accepted (fst (snd t))) ticks = map of_nat ks"
    by (auto simp: tk)
  let ?e = "snd (exporter_step oob now ps fleet e)"
  have pos: "seconds (e_interval e) \<noteq> 0" using Cons.prems(1) by (simp add: seconds_def)
  have k: "climbs k ks" "n \<le> k" "k - n < 2 ^ 64" using Cons.prems(3) ns by simp_all
  have d: "real (unat (of_nat k - of_nat n :: u64)) = real k - real n"
    unfolding unat_diff_of_nat [OF k(2,3)] using k(2) by (rule of_nat_diff)
  from Cons.IH [of ?e k ks] Cons.prems(1,2) ns pos k(1) d show ?case
    by (simp add: tk exporter_step_sel exporter_sample_def Let_def)
qed simp

theorem exporter_counts_every_arrival_witness:
  "sum_list (map (\<lambda>r. r * seconds second) (exporter_rates (\<lambda>x. 0)
     [(1, \<lparr>ps_Accepted = 4, ps_Placed = 0, ps_TimedOut = 0, ps_QueueRejected = 0, ps_Released = 0,
           ps_BootFailed = 0, ps_CurrentQueueLen = 0, ps_MaxQueueLen = 0\<rparr>,
       \<lparr>st_Hosts = 0, st_ReadyHosts = 0, st_DrainingHosts = 0, st_IdleHosts = 0, st_UnderfilledHosts = 0,
        st_Capacity = 0, st_Used = 0, st_InflightVMs = 0\<rparr>)]
     \<lparr>e_scaler = demo_as, e_interval = second, lastOffered = - 1\<rparr>)) = 5"
proof -
  let ?e = "\<lparr>e_scaler = demo_as, e_interval = second, lastOffered = - 1\<rparr>"
  have "lastOffered ?e = of_nat (2 ^ 64 - 1)" "of_nat (2 ^ 64 + 4) = (4 :: u64)" by simp_all
  then show ?thesis
    using exporter_counts_every_arrival [of ?e "2 ^ 64 - 1" "[2 ^ 64 + 4]"
        "[(1, \<lparr>ps_Accepted = 4, ps_Placed = 0, ps_TimedOut = 0, ps_QueueRejected = 0, ps_Released = 0,
           ps_BootFailed = 0, ps_CurrentQueueLen = 0, ps_MaxQueueLen = 0\<rparr>,
       \<lparr>st_Hosts = 0, st_ReadyHosts = 0, st_DrainingHosts = 0, st_IdleHosts = 0, st_UnderfilledHosts = 0,
        st_Capacity = 0, st_Used = 0, st_InflightVMs = 0\<rparr>)]" "\<lambda>x. 0"]
    by (simp add: second_def)
qed

subsection \<open>A started process\<close>

lemma api_runE:
  assumes "api_run opts = Some (Inr p)"
  obtains svc scaler w svc1 where
    "svc_New (Some (New BestFit)) \<lparr>QueueDepth = ao_queueDepth opts,
       AdmissionDeadline = ao_admissionDeadline opts, RetryInterval = 0\<rparr> = Inr svc"
    "as_New \<lparr>SlotsPerHost = ao_slotsPerHost opts, TargetUtilisation = ao_targetUtilisation opts,
       MeanTTL = ao_meanTTL opts, ProvisionLatency = ao_provisionLatency opts,
       ScaleDownStabilization = ao_scaleDownWindow opts, MinReplicas = ao_minReplicas opts,
       MaxReplicas = ao_maxReplicas opts, SlopeWindow = ao_slopeWindow opts\<rparr> = Inr scaler"
    "reg_New (Some (New BestFit)) True \<lparr>HeartbeatTimeout = ao_heartbeatTimeout opts, SweepInterval = 0\<rparr> = Inr w"
    "svc_Start (WithBooter svc) = Some svc1" "0 < ao_sampleInterval opts"
    "p = \<lparr>ap_svc = svc1, ap_world = w,
       ap_exporter = \<lparr>e_scaler = scaler, e_interval = ao_sampleInterval opts, lastOffered = 0\<rparr>,
       ap_WriteTimeout = wrap64 (ao_admissionDeadline opts + 10 * second)\<rparr>"
  using assms by (auto simp: api_run_def Let_def split: sum.splits bind_splits if_splits)

lemma api_run_parts:
  assumes "api_run opts = Some (Inr p)"
  shows "svc_reachable (ap_svc p) \<and> disp (ap_svc p) = Idle \<and> accepted (ap_svc p) = 0 \<and>
    admissions (ap_svc p) = Map.empty \<and> world_reachable (ap_world p) \<and>
    has_notifier (reg (ap_world p)) \<and> svc_sched (ap_svc p) = sched (ap_world p)"
proof -
  from assms obtain svc scaler w svc1 where
    svc: "svc_New (Some (New BestFit)) \<lparr>QueueDepth = ao_queueDepth opts,
      AdmissionDeadline = ao_admissionDeadline opts, RetryInterval = 0\<rparr> = Inr svc"
    and w: "reg_New (Some (New BestFit)) True \<lparr>HeartbeatTimeout = ao_heartbeatTimeout opts, SweepInterval = 0\<rparr> = Inr w"
    and svc1: "svc_Start (WithBooter svc) = Some svc1" and p: "ap_svc p = svc1" "ap_world p = w"
    by (rule api_runE) auto
  have "assigned (New BestFit) = Map.empty" by (simp add: New_def)
  with svc New_inv have "svc_init (WithBooter svc)" unfolding svc_init_def by blast
  then have "svc_reachable svc1"
    using svc_reachable_run [OF svc_reachable_init, of "WithBooter svc" "[EvStart]" svc1] svc1 by simp
  moreover have "svc_sched svc1 = sched w" "accepted svc1 = 0" "disp svc1 = Idle" "admissions svc1 = Map.empty"
    "has_notifier (reg w)"
    using svc w svc1 by (auto simp: svc_New_def reg_New_def svc_Start_def WithBooter_def Let_def
        split: option.splits if_splits)
  ultimately show ?thesis by (simp add: p world_reachable.start [OF w])
qed



text \<open>No component validates the sampling interval: with \<^verbatim>\<open>-sample-interval=0\<close> and every other option
  at its default, the process starts and crashes in the exporter's ticker.\<close>

lemma zero_sample_interval_crashes: "api_run (default_api_options\<lparr>ao_sampleInterval := 0\<rparr>) = None"
  by (simp add: api_run_def default_api_options_def svc_New_def p_applyDefaults_def p_Validate_def
        as_New_def as_applyDefaults_def as_Validate_def reg_New_def reg_applyDefaults_def reg_Validate_def
        svc_Start_def WithBooter_def Let_def second_def millisecond_def DefaultSlopeWindow_def DefaultQueueDepth_def
        DefaultAdmissionDeadline_def DefaultRetryInterval_def DefaultHeartbeatTimeout_def DefaultSweepInterval_def)

end
