(* ===== verification/AgentRunProps.thy ===== *)
theory AgentRunProps
  imports AgentRun ApiProps
begin

section \<open>Correctness of the vmhostd process\<close>

text \<open>
  The hypervisor keeps its own invariant under everything the process does, every boot and every
  termination under way belongs to a handler, and a shutdown without an error has seen all of them
  return. From this: what an exit status of zero says of the guests. Then the process is put
  before the routes and the registry of the placement API: a departed agent stays out, and a
  microVM whose lifetime ends frees its slot.
\<close>

subsection \<open>The hypervisor inside the process\<close>

fun hv_starting :: "built \<Rightarrow> ref \<Rightarrow> bool" where
  "hv_starting (BuiltFake f) v \<longleftrightarrow> (\<exists>r. vms f v = Some r \<and> started r = Starting)"
| "hv_starting (BuiltQEMU q) v \<longleftrightarrow> (\<exists>r. q_vms q v = Some r \<and> starting (qvm_phase r))"

fun hv_stopping :: "built \<Rightarrow> ref list" where
  "hv_stopping (BuiltFake f) = []"
| "hv_stopping (BuiltQEMU q) = stopping q"

fun hv_shut :: "built \<Rightarrow> bool" where
  "hv_shut (BuiltFake f) = expired_closed f"
| "hv_shut (BuiltQEMU q) = q_expired_closed q"

fun hv_good :: "built \<Rightarrow> bool" where
  "hv_good (BuiltFake f) = hv_inv f"
| "hv_good (BuiltQEMU q) \<longleftrightarrow> q_inv q \<and> distinct (stopping q) \<and>
     (\<forall>i v. q_running q i = Some v \<longrightarrow> v \<notin> set (stopping q))"

text \<open>What a step of the hypervisor on its own leaves.\<close>

definition hv_frame :: "built \<Rightarrow> built \<Rightarrow> bool" where
  "hv_frame hv hv' \<longleftrightarrow> hv_good hv' \<and> built_Capacity hv' = built_Capacity hv \<and>
     (\<forall>v. hv_starting hv' v \<longrightarrow> hv_starting hv v) \<and> set (hv_stopping hv') \<subseteq> set (hv_stopping hv) \<and>
     (hv_shut hv \<longrightarrow> hv_shut hv')"

lemma hv_frameD:
  assumes "hv_frame hv hv'"
  shows "hv_good hv'" "built_Capacity hv' = built_Capacity hv" "hv_starting hv' v \<Longrightarrow> hv_starting hv v"
    "v \<in> set (hv_stopping hv') \<Longrightarrow> v \<in> set (hv_stopping hv)" "hv_shut hv \<Longrightarrow> hv_shut hv'"
  using assms by (auto simp: hv_frame_def)

lemma hv_frame_refl: "hv_good hv \<Longrightarrow> hv_frame hv hv"
  by (simp add: hv_frame_def)

lemmas fake_defs = start_cancelled_def start_release_def start_booted_def timer_fires_def reap_lock_def reap_send_def Let_def

lemma inside_fake_frame:
  assumes "hv_step e f = Some f'" and "inside_fake e"
  shows "f_cfg f' = f_cfg f" "expired_closed f' = expired_closed f"
    "hv_starting (BuiltFake f') v \<Longrightarrow> hv_starting (BuiltFake f) v"
  using assms by (cases e; auto simp: fake_defs split: option.splits if_splits)+

lemmas qemu_defs = boot_context_def boot_spawn_def boot_error_def boot_publish_def boot_ready_def q_release_def
  q_finish_def q_fires_def q_reap_lock_def q_reap_terminate_def q_reap_send_def terminate_vm_def q_cancel_def Let_def

lemma inside_qemu_frame:
  assumes "q_step e q = Some q'" and "inside_qemu e"
  shows "q_cfg q' = q_cfg q" "q_expired_closed q' = q_expired_closed q" "stopping q' = stopping q"
    "q_running q' i = Some u \<Longrightarrow> q_running q i = Some u"
    "hv_starting (BuiltQEMU q') v \<Longrightarrow> hv_starting (BuiltQEMU q) v"
  using assms
  by (cases e; auto simp: qemu_defs split: option.splits if_splits bind_splits q_phase.splits q_timer.splits)+

lemma hv_moves_frame:
  assumes good: "hv_good hv" and m: "hv_moves m hv = Some hv'"
  shows "hv_frame hv hv'"
proof (cases m)
  case (FakeMoves e)
  with m obtain f f' where f: "hv = BuiltFake f" "hv' = BuiltFake f'" "inside_fake e" "hv_step e f = Some f'"
    by (cases hv) (auto split: if_splits)
  from inside_fake_frame [OF f(4,3)] hv_step_inv [OF _ f(4)] good show ?thesis
    by (auto simp: f(1,2) hv_frame_def Capacity_def simp del: hv_starting.simps)
next
  case (QemuMoves e)
  with m obtain q q' where q: "hv = BuiltQEMU q" "hv' = BuiltQEMU q'" "inside_qemu e" "q_step e q = Some q'"
    by (cases hv) (auto split: if_splits)
  have "careful e q" using q(3) by (cases e) auto
  then have "careful_step e q = Some q'" by (simp add: careful_step_def q(4))
  note F = inside_qemu_frame [OF q(4,3)]
  have "v \<notin> set (stopping q)" if "q_running q' i = Some v" for i v using F(4) [OF that] good by (auto simp: q(1))
  with careful_step_inv [OF _ \<open>careful_step e q = Some q'\<close>] F(1,2,3,5) good show ?thesis
    by (auto simp: q(1,2) hv_frame_def q_Capacity_def simp del: hv_starting.simps)
qed

text \<open>The rules of \<open>careful\<close>, for the calls of the handlers.\<close>

fun hv_careful_start :: "built \<Rightarrow> ref \<Rightarrow> Spec \<Rightarrow> bool" where
  "hv_careful_start (BuiltFake f) v s = True"
| "hv_careful_start (BuiltQEMU q) v s = careful (QStart v s) q"

fun hv_careful_stop :: "built \<Rightarrow> string \<Rightarrow> bool" where
  "hv_careful_stop (BuiltFake f) i = True"
| "hv_careful_stop (BuiltQEMU q) i = careful (QStop i) q"

lemma hv_reserve_good:
  assumes good: "hv_good hv" and new: "hv_fresh hv v" "hv_careful_start hv v s"
    and r: "hv_reserve hv v s draw fail = (e, hv')"
  shows "hv_good hv' \<and> built_Capacity hv' = built_Capacity hv \<and> hv_stopping hv' = hv_stopping hv \<and> hv_shut hv' = hv_shut hv \<and>
    (hv_starting hv' u \<longrightarrow> hv_starting hv u \<or> e = None \<and> u = v)"
proof (cases hv)
  case (BuiltFake f)
  with good new have f: "hv_inv f" "vms f v = None" by auto
  with r BuiltFake start_reserve_inv [OF f, of s draw fail]
  show ?thesis
    by (auto simp: start_reserve_def put_vm_def Capacity_def split: option.splits if_splits prod.splits)
next
  case (BuiltQEMU q)
  with good new have q: "q_inv q" "q_vms q v = None" "\<forall>u r. q_vms q u = Some r \<longrightarrow> spec_ID (qvm_spec r) \<noteq> spec_ID s" by auto
  have "v \<notin> set (stopping q)" using q_coreD(7) [OF q_invD(1) [OF q(1)]] q(2) by auto
  with r BuiltQEMU good q_reserve_inv [OF q(1,2), of s]  q(3)
  show ?thesis
    by (auto simp: q_reserve_def put_qvm_def q_Capacity_def split: option.splits if_splits prod.splits)
qed

lemma stop_timer_frame [simp]:
  "f_cfg (stop_timer f v) = f_cfg f" "expired_closed (stop_timer f v) = expired_closed f"
  "hv_starting (BuiltFake ((stop_timer f v)\<lparr>running := m\<rparr>)) u \<longleftrightarrow> hv_starting (BuiltFake f) u"
  by (auto simp: stop_timer_def put_vm_def split: option.splits)

lemma q_stop_timer_frame [simp]:
  "q_cfg (q_stop_timer q v) = q_cfg q" "q_expired_closed (q_stop_timer q v) = q_expired_closed q"
  "stopping (q_stop_timer q v) = stopping q" "q_running (q_stop_timer q v) = q_running q"
  "hv_starting (BuiltQEMU (q_stop_timer q v)) u \<longleftrightarrow> hv_starting (BuiltQEMU q) u"
  by (auto simp: q_stop_timer_def put_qvm_def split: option.splits)

lemma hv_starting_cong: "q_vms q' = q_vms q \<Longrightarrow> hv_starting (BuiltQEMU q') = hv_starting (BuiltQEMU q)"
  by (rule ext) simp

lemma hv_Stop_good:
  assumes good: "hv_good hv" and careful: "hv_careful_stop hv i" and st: "hv_Stop hv i = (res, hv')"
  shows "hv_good hv' \<and> built_Capacity hv' = built_Capacity hv \<and> hv_shut hv' = hv_shut hv \<and>
    (hv_starting hv' u \<longrightarrow> hv_starting hv u) \<and>
    hv_stopping hv' = hv_stopping hv @ (case res of Inl v \<Rightarrow> [v] | Inr e \<Rightarrow> [])"
proof (cases hv)
  case (BuiltFake f)
  with st obtain f' where f': "hv' = BuiltFake f'" "f' = snd (fake_Stop f i)" "\<exists>e. res = Inr e"
    by (auto split: prod.splits)
  have "hv_step (HvStop i) f = Some f'" by (simp add: f'(2))
  from hv_step_inv [OF _ this] good f' show ?thesis
    by (auto simp: BuiltFake fake_Stop_def Capacity_def stop_timer_def put_vm_def split: option.splits)
next
  case (BuiltQEMU q)
  with good have q: "q_inv q" "distinct (stopping q)" "\<And>j v. q_running q j = Some v \<Longrightarrow> v \<notin> set (stopping q)" by auto
  show ?thesis
  proof (cases "q_closed q \<or> q_running q i = None")
    case True
    then have "\<exists>e. q_Stop q i = (Some e, q)" by (auto simp: q_Stop_def)
    then have "hv' = hv \<and> (\<exists>e. res = Inr e)" using st by (auto simp: BuiltQEMU)
    with good show ?thesis by auto
  next
    case False
    then obtain v where v: "q_running q i = Some v" "\<not> q_closed q" by auto
    let ?q = "(q_stop_timer (q\<lparr>q_running := (q_running q)(i := None)\<rparr>) v)"
    have r: "res = Inl v" "hv' = BuiltQEMU (?q\<lparr>stopping := stopping q @ [v]\<rparr>)"
      using st v by (auto simp: BuiltQEMU q_Stop_def Let_def)
    have "q_inv (snd (q_Stop q i))" using careful by (intro q_Stop_inv [OF q(1)]) (simp add: BuiltQEMU)
    then have inv: "q_inv (?q\<lparr>stopping := stopping q @ [v]\<rparr>)" using v by (simp add: q_Stop_def Let_def)
    have "u \<noteq> v" if "j \<noteq> i" "q_running q j = Some u" for j u
      using q_invD(8) [OF q(1) that(2)] q_invD(8) [OF q(1) v(1)] that(1) by auto
    moreover have "hv_starting hv' = hv_starting (BuiltQEMU ?q)" unfolding r(2) by (rule hv_starting_cong) simp
    moreover have "hv_starting (BuiltQEMU (q\<lparr>q_running := (q_running q)(i := None)\<rparr>)) = hv_starting hv"
      unfolding BuiltQEMU by (rule hv_starting_cong) simp
    ultimately show ?thesis using inv q(2,3) v(1)
      by (auto simp: r BuiltQEMU q_Capacity_def simp del: hv_starting.simps split: if_splits)
  qed
qed

lemma hv_terminate_good:
  assumes good: "hv_good hv" and st: "hv_terminate hv v = Some hv'"
  shows "hv_good hv' \<and> built_Capacity hv' = built_Capacity hv \<and> hv_shut hv' = hv_shut hv \<and>
    (hv_starting hv' u \<longrightarrow> hv_starting hv u) \<and> set (hv_stopping hv') = set (hv_stopping hv) - {v}"
proof -
  from st obtain q q' where q: "hv = BuiltQEMU q" "hv' = BuiltQEMU q'" "stop_terminate q v = Some q'"
    by (cases hv) auto
  then have s: "q_vms q' = q_vms (terminate_vm q v)" "stopping q' = remove1 v (stopping q)" "q_cfg q' = q_cfg q"
    "q_running q' = q_running q" "q_expired_closed q' = q_expired_closed q"
    by (auto simp: stop_terminate_def terminate_vm_def Let_def split: if_splits option.splits)
  have "hv_starting hv' u \<longrightarrow> hv_starting hv u"
    by (auto simp: q s(1) terminate_vm_def split: option.splits if_splits)
  moreover have "hv_good hv'" using good stop_terminate_inv [OF _ q(3)] by (auto simp: q(1,2) s)
  ultimately show ?thesis using good by (auto simp: q(1,2) s q_Capacity_def simp del: hv_starting.simps)
qed

lemma hv_receive_frame:
  assumes good: "hv_good hv" and r: "hv_receive hv = Some (x, hv')"
  shows "hv_frame hv hv'"
proof (cases hv)
  case (BuiltFake f)
  show ?thesis
  proof (cases "expired_receive f")
    case (Some y)
    then obtain j f1 where y: "expired_receive f = Some (j, f1)" by (cases y) auto
    then have "hv_step HvReceive f = Some f1" by simp
    from hv_step_inv [OF _ this] good r y show ?thesis
      by (auto simp: BuiltFake hv_frame_def Capacity_def expired_receive_def split: list.splits)
  qed (use good r in \<open>auto simp: BuiltFake hv_frame_refl split: if_splits\<close>)
next
  case (BuiltQEMU q)
  show ?thesis
  proof (cases "q_Expired q")
    case (Some y)
    then obtain j q1 where y: "q_Expired q = Some (j, q1)" by (cases y) auto
    then have "careful_step QReceive q = Some q1" by (simp add: careful_step_def)
    from careful_step_inv [OF _ this] good r y show ?thesis
      by (auto simp: BuiltQEMU hv_frame_def q_Capacity_def q_Expired_def split: list.splits)
  qed (use good r in \<open>auto simp: BuiltQEMU hv_frame_refl split: if_splits\<close>)
qed

lemma close_loop_frame:
  "f_cfg (close_loop is f) = f_cfg f \<and> expired_closed (close_loop is f) = expired_closed f \<and>
   (hv_starting (BuiltFake (close_loop is f)) v \<longrightarrow> hv_starting (BuiltFake f) v)"
proof (induction "is" arbitrary: f)
  case (Cons i "is")
  show ?case
  proof (cases "running f i")
    case (Some w)
    let ?f = "(stop_timer f w)\<lparr>running := (running (stop_timer f w))(i := None)\<rparr>"
    have "close_loop (i # is) f = close_loop is ?f" using Some by (simp add: Let_def)
    then show ?thesis using Cons.IH [of ?f] by (simp del: hv_starting.simps)
  qed (use Cons.IH [of f] in \<open>simp del: hv_starting.simps\<close>)
qed simp

lemma q_close_loop_frame:
  "q_cfg (q_close_loop is q) = q_cfg q \<and> q_expired_closed (q_close_loop is q) = q_expired_closed q \<and>
   stopping (q_close_loop is q) = stopping q \<and> (q_running (q_close_loop is q) i = Some u \<longrightarrow> q_running q i = Some u) \<and>
   (hv_starting (BuiltQEMU (q_close_loop is q)) v \<longrightarrow> hv_starting (BuiltQEMU q) v)"
proof (induction "is" arbitrary: q)
  case (Cons j "is")
  show ?case
  proof (cases "q_running q j")
    case (Some w)
    let ?t = "q_stop_timer q w"
    let ?q = "?t\<lparr>closing := closing ?t @ [w], q_running := (q_running ?t)(j := None)\<rparr>"
    have "q_close_loop (j # is) q = q_close_loop is ?q" using Some by (simp add: Let_def)
    moreover have "hv_starting (BuiltQEMU ?q) = hv_starting (BuiltQEMU ?t)" by (rule hv_starting_cong) simp
    ultimately show ?thesis using Cons.IH [of ?q] by (auto simp del: hv_starting.simps split: if_splits)
  qed (use Cons.IH [of q] in \<open>simp del: hv_starting.simps\<close>)
qed simp

lemma hv_close_frame:
  assumes good: "hv_good hv" and c: "hv_close hv is = Some hv'"
  shows "hv_frame hv hv'"
proof (cases hv)
  case (BuiltFake f)
  with c obtain f' where f': "hv' = BuiltFake f'" "hv_step (HvClose is) f = Some f'" by auto
  then have e: "f' = close_begin f is" by (auto split: if_splits)
  have "f_cfg f' = f_cfg f \<and> expired_closed f' = expired_closed f \<and>
      (\<forall>v. hv_starting (BuiltFake f') v \<longrightarrow> hv_starting (BuiltFake f) v)"
    using close_loop_frame [of "is" "f\<lparr>closed := True\<rparr>"] by (auto simp: e close_begin_def)
  then show ?thesis using hv_step_inv [OF _ f'(2)] good
    by (auto simp: BuiltFake f'(1) hv_frame_def Capacity_def simp del: hv_starting.simps)
next
  case (BuiltQEMU q)
  with c obtain q' where q': "hv' = BuiltQEMU q'" "q_step (QClose is) q = Some q'" by auto
  then have e: "q' = q_close_begin q is" by (auto split: if_splits)
  have s: "careful_step (QClose is) q = Some q'" using q'(2) by (simp add: careful_step_def)
  note L = q_close_loop_frame [of "is" "q\<lparr>q_closed := True\<rparr>"]
  have "q_cfg q' = q_cfg q \<and> q_expired_closed q' = q_expired_closed q \<and> stopping q' = stopping q \<and>
      (\<forall>i u. q_running q' i = Some u \<longrightarrow> q_running q i = Some u) \<and>
      (\<forall>v. hv_starting (BuiltQEMU q') v \<longrightarrow> hv_starting (BuiltQEMU q) v)"
    using L hv_starting_cong [of "q\<lparr>q_closed := True\<rparr>" q]
    by (auto simp: e q_close_begin_def simp del: hv_starting.simps)
  then show ?thesis using careful_step_inv [OF _ s] good
    by (auto simp: BuiltQEMU q'(1) hv_frame_def q_Capacity_def simp del: hv_starting.simps)
qed

lemma hv_close_terminate_frame:
  assumes good: "hv_good hv" and c: "hv_close_terminate hv = Some hv'"
  shows "hv_frame hv hv'"
proof -
  from c obtain q q' where q: "hv = BuiltQEMU q" "hv' = BuiltQEMU q'" "close_terminate q = Some q'" by (cases hv) auto
  then obtain v vs where v: "closing q = v # vs" by (auto simp: close_terminate_def split: list.splits)
  have s: "q_vms q' = q_vms (terminate_vm q v)" "stopping q' = stopping q" "q_cfg q' = q_cfg q"
    "q_running q' = q_running q" "q_expired_closed q' = q_expired_closed q"
    using q(3) v by (auto simp: close_terminate_def terminate_vm_def Let_def split: option.splits)
  have "hv_starting hv' u \<longrightarrow> hv_starting hv u" for u
    by (auto simp: q s(1) terminate_vm_def split: option.splits if_splits)
  then show ?thesis using good close_terminate_inv [OF _ q(3)]
    by (auto simp: q(1,2) s hv_frame_def q_Capacity_def simp del: hv_starting.simps)
qed

lemma hv_close_finish_frame:
  assumes good: "hv_good hv" and c: "hv_close_finish hv = Some hv'"
  shows "hv_frame hv hv' \<and> hv_shut hv'"
proof (cases hv)
  case (BuiltFake f)
  with c obtain f' where f': "hv' = BuiltFake f'" "hv_step HvCloseEnd f = Some f'" by auto
  from hv_step_inv [OF _ this(2)] f' good show ?thesis
    by (auto simp: BuiltFake hv_frame_def Capacity_def close_finish_def split: if_splits)
next
  case (BuiltQEMU q)
  with c obtain q' where q': "hv' = BuiltQEMU q'" "q_step QCloseEnd q = Some q'" by auto
  then have "careful_step QCloseEnd q = Some q'" by (simp add: careful_step_def)
  from careful_step_inv [OF _ this] q' good show ?thesis
    by (auto simp: BuiltQEMU hv_frame_def q_Capacity_def q_close_finish_def split: if_splits)
qed

text \<open>The definitions of the goroutines, by who they belong to, and the case splits they need.\<close>

lemmas call_defs = start_begins_def stop_begins_def call_moves_def put_call_def reply_def Let_def

lemmas watch_defs = watch_receives_def watch_moves_def watch_answered_def watch_aborted_def watch_leaves_def

lemmas beat_defs = beat_sends_def beat_answered_def beat_aborted_def beat_ticks_def beat_leaves_def

lemmas run_defs = vh_listener_fails_def vh_select_error_def vh_select_cancelled_def vh_deregisters_def vh_gives_up_def
  vh_shutdown_def vh_defers_def vh_terminates_def vh_closed_def

lemmas vh_splits = if_splits prod.splits option.splits bind_splits vm_call.splits sum.splits watching.splits
  beating.splits agent_phase.splits

subsection \<open>The invariant of the process\<close>

text \<open>The phases on the way of a shutdown without an error.\<close>

fun clean_way :: "agent_phase \<Rightarrow> bool" where
  "clean_way (AgReleasingSignals res) = (res = None)"
| "clean_way (AgClosing res) = (res = None)"
| "clean_way (AgTerminating res) = (res = None)"
| "clean_way (AgReturned res) = (res = None)"
| "clean_way _ = False"

definition vh_inv :: "'w vmhostd \<Rightarrow> bool" where
  "vh_inv p \<longleftrightarrow> hv_good (vh_hv p) \<and> built_Capacity (vh_hv p) = vh_slots p \<and>
     (\<forall>v. hv_starting (vh_hv p) v \<longrightarrow> (\<exists>k. vh_calls p k = Some (InStart v))) \<and>
     (\<forall>v\<in>set (hv_stopping (vh_hv p)). \<exists>k. vh_calls p k = Some (InStop v)) \<and>
     dom (vh_calls p) \<subseteq> set (vh_handlers p) \<and>
     (vh_drained p \<longrightarrow> (\<forall>k. call_done p k)) \<and>
     (clean_way (vh_main p) \<longrightarrow> vh_drained p) \<and>
     (\<forall>res. vh_main p = AgReturned res \<longrightarrow> hv_shut (vh_hv p))"

lemma vh_invD:
  assumes "vh_inv p"
  shows "hv_good (vh_hv p)" "built_Capacity (vh_hv p) = vh_slots p"
    "hv_starting (vh_hv p) v \<Longrightarrow> \<exists>k. vh_calls p k = Some (InStart v)"
    "v \<in> set (hv_stopping (vh_hv p)) \<Longrightarrow> \<exists>k. vh_calls p k = Some (InStop v)"
    "dom (vh_calls p) \<subseteq> set (vh_handlers p)" "vh_drained p \<Longrightarrow> call_done p k"
    "clean_way (vh_main p) \<Longrightarrow> vh_drained p" "vh_main p = AgReturned res \<Longrightarrow> hv_shut (vh_hv p)"
  using assms by (simp_all add: vh_inv_def)

text \<open>A step of the hypervisor on its own, or of a goroutine that leaves the handlers alone.\<close>

lemma vh_inv_frame:
  assumes inv: "vh_inv p" and hv: "hv_frame (vh_hv p) (vh_hv p')"
    and same: "vh_slots p' = vh_slots p" "vh_calls p' = vh_calls p" "vh_handlers p' = vh_handlers p"
    and drained: "vh_drained p' \<Longrightarrow> \<not> vh_drained p \<Longrightarrow> list_all (call_done p) (vh_handlers p)"
    and main: "clean_way (vh_main p') \<Longrightarrow> vh_drained p'" "\<And>res. vh_main p' = AgReturned res \<Longrightarrow> hv_shut (vh_hv p')"
  shows "vh_inv p'"
proof -
  note D = vh_invD [OF inv] and F = hv_frameD [OF hv]
  have settled: "call_done p k" if "vh_drained p'" for k
  proof (cases "vh_drained p \<or> k \<notin> set (vh_handlers p)")
    case True
    then show ?thesis
    proof
      assume "k \<notin> set (vh_handlers p)"
      then have "vh_calls p k = None" using D(5) by auto
      then show ?thesis by (simp add: call_done_def)
    qed (rule D(6))
  next
    case False
    with drained [OF that] show ?thesis by (simp add: list_all_iff)
  qed
  have "call_done p' = call_done p" by (rule ext) (simp add: call_done_def same)
  then show ?thesis unfolding vh_inv_def same using F(1,2) D(2,3,4,5) F(3,4) main settled
    by (intro conjI allI impI ballI) simp_all
qed

text \<open>A step of one handler.\<close>

lemma vh_inv_call:
  assumes inv: "vh_inv p" and hv: "hv_good (vh_hv p')" "built_Capacity (vh_hv p') = vh_slots p"
      "hv_shut (vh_hv p) \<longrightarrow> hv_shut (vh_hv p')"
    and start: "\<And>v. hv_starting (vh_hv p') v \<Longrightarrow> c = InStart v \<or> hv_starting (vh_hv p) v \<and> vh_calls p k \<noteq> Some (InStart v)"
    and stop: "\<And>v. v \<in> set (hv_stopping (vh_hv p')) \<Longrightarrow>
      c = InStop v \<or> v \<in> set (hv_stopping (vh_hv p)) \<and> vh_calls p k \<noteq> Some (InStop v)"
    and call: "vh_calls p' = (vh_calls p)(k \<mapsto> c)" "insert k (set (vh_handlers p)) \<subseteq> set (vh_handlers p')"
    and same: "vh_slots p' = vh_slots p" "vh_drained p' = vh_drained p" "vh_main p' = vh_main p"
    and busy: "\<not> vh_drained p"
  shows "vh_inv p'"
proof -
  note D = vh_invD [OF inv]
  have some: "\<exists>j. vh_calls p' j = Some d" if "c = d \<or> (\<exists>j. vh_calls p j = Some d) \<and> vh_calls p k \<noteq> Some d" for d
    using that unfolding call(1) by (metis fun_upd_apply)
  have "\<exists>j. vh_calls p' j = Some (InStart v)" if "hv_starting (vh_hv p') v" for v
    using start [OF that] D(3) [of v] by (intro some) auto
  moreover have "\<exists>j. vh_calls p' j = Some (InStop v)" if "v \<in> set (hv_stopping (vh_hv p'))" for v
    using stop [OF that] D(4) [of v] by (intro some) auto
  moreover have "dom (vh_calls p') \<subseteq> set (vh_handlers p')" using D(5) call by auto
  ultimately show ?thesis unfolding vh_inv_def using hv D(7,8) busy by (auto simp: same)
qed

lemma start_begins_inv:
  assumes inv: "vh_inv p" and st: "start_begins k v b draw fail p = Some p'"
    and careful: "\<And>rq. b = Decoded rq \<Longrightarrow> hv_careful_start (vh_hv p) v (requested rq)"
  shows "vh_inv p'"
proof -
  note D = vh_invD [OF inv]
  from st have a: "accepts k p" "hv_fresh (vh_hv p) v" by (auto simp: start_begins_def split: if_splits)
  then have k: "vh_calls p k = None" "\<not> vh_drained p" by (auto simp: accepts_def)
  show ?thesis
  proof (cases "\<exists>rq. b = Decoded rq")
    case True
    then obtain rq where b: "b = Decoded rq" ..
    obtain e hv where r: "hv_reserve (vh_hv p) v (requested rq) draw fail = (e, hv)"
      by (cases "hv_reserve (vh_hv p) v (requested rq) draw fail")
    note R = hv_reserve_good [OF D(1) a(2) careful [OF b] r]
    from st b r a have "p' = put_call k (case e of Some x \<Rightarrow> StartReturned (Inl x) | None \<Rightarrow> InStart v)
        (p\<lparr>vh_hv := hv, vh_handlers := k # vh_handlers p\<rparr>)"
      by (auto simp: start_begins_def split: option.splits)
    moreover have "\<forall>u. hv_starting hv u \<longrightarrow> hv_starting (vh_hv p) u \<or> e = None \<and> u = v" using R by blast
    ultimately show ?thesis using R [of v] D(2) k
      by (intro vh_inv_call [OF inv, where k = k and c = "case e of Some x \<Rightarrow> StartReturned (Inl x) | None \<Rightarrow> InStart v"])
        (auto simp: put_call_def)
  next
    case False
    with st a have "p' = put_call k (Replied \<lparr>ag_status = 400, ag_body = DecodeError\<rparr>) (p\<lparr>vh_handlers := k # vh_handlers p\<rparr>)"
      by (cases b) (auto simp: start_begins_def)
    then show ?thesis using D k
      by (intro vh_inv_call [OF inv, where k = k and c = "Replied \<lparr>ag_status = 400, ag_body = DecodeError\<rparr>"])
        (auto simp: put_call_def)
  qed
qed

lemma stop_begins_inv:
  assumes inv: "vh_inv p" and st: "stop_begins k i p = Some p'" and careful: "hv_careful_stop (vh_hv p) i"
  shows "vh_inv p'"
proof -
  note D = vh_invD [OF inv]
  obtain res hv where r: "hv_Stop (vh_hv p) i = (res, hv)" by (cases "hv_Stop (vh_hv p) i")
  let ?c = "case res of Inl v \<Rightarrow> InStop v | Inr e \<Rightarrow> StopReturned e"
  from st have k: "vh_calls p k = None" "\<not> vh_drained p"
    and p': "p' = put_call k ?c (p\<lparr>vh_hv := hv, vh_handlers := k # vh_handlers p\<rparr>)"
    using r by (auto simp: stop_begins_def accepts_def split: if_splits)
  note R = hv_Stop_good [OF D(1) careful r]
  show ?thesis using R D(2) k
    by (intro vh_inv_call [OF inv, where k = k and c = ?c]) (auto simp: put_call_def p' split: sum.splits)
qed

lemma hv_started_starting: "hv_started hv v = Some x \<Longrightarrow> \<not> hv_starting hv v"
  by (cases hv) (auto split: bind_splits start_phase.splits q_phase.splits)

lemma call_moves_inv:
  assumes inv: "vh_inv p" and st: "call_moves k p = Some p'"
  shows "vh_inv p'"
proof -
  note D = vh_invD [OF inv]
  from st obtain c0 where c0: "vh_calls p k = Some c0" "\<And>r. c0 \<noteq> Replied r"
    by (auto simp: call_moves_def Let_def split: option.splits vm_call.splits)
  have "\<not> call_done p k"
  proof (cases c0)
    case (Replied r)
    with c0(2) show ?thesis by blast
  qed (simp_all add: call_done_def c0(1))
  with D(6) [of k] have busy: "\<not> vh_drained p" by blast
  have k: "insert k (set (vh_handlers p)) \<subseteq> set (vh_handlers p)" using D(5) c0(1) by auto
  have quiet: "vh_inv (put_call k c (p\<lparr>vh_metrics := ms\<rparr>))" if "\<And>v. c0 \<noteq> InStop v"
    "\<And>v. c0 = InStart v \<Longrightarrow> \<not> hv_starting (vh_hv p) v" for c ms
    by (rule vh_inv_call [OF inv, where k = k and c = c]) (use D k c0 that busy in \<open>auto simp: put_call_def\<close>)
  have same: "p\<lparr>vh_metrics := vh_metrics p\<rparr> = p" by simp
  show ?thesis
  proof (cases c0)
    case (InStart v)
    with st c0 obtain x where "hv_started (vh_hv p) v = Some x" "p' = put_call k (StartReturned x) p"
      by (auto simp: call_moves_def Let_def)
    with hv_started_starting [of "vh_hv p" v] quiet [of "StartReturned x" "vh_metrics p"] InStart show ?thesis
      by (simp add: same)
  next
    case (InStop v)
    with st c0 obtain hv where hv: "hv_terminate (vh_hv p) v = Some hv" "p' = put_call k (StopReturned None) (p\<lparr>vh_hv := hv\<rparr>)"
      by (auto simp: call_moves_def Let_def)
    note T = hv_terminate_good [OF D(1) hv(1)]
    have "\<forall>u. hv_starting hv u \<longrightarrow> hv_starting (vh_hv p) u" using T by blast
    with T [of v] show ?thesis using D(2) k c0(1) busy InStop
      by (intro vh_inv_call [OF inv, where k = k and c = "StopReturned None"]) (auto simp: hv(2) put_call_def)
  qed (use st c0 quiet [of _ "vh_metrics p"] quiet in
    \<open>auto simp: call_moves_def Let_def reply_def same split: sum.splits option.splits\<close>)
qed

text \<open>The process, with callers that keep the rules of \<open>careful\<close> where the guests are QEMU's.\<close>

fun vh_careful :: "('c, 'w) vh_event \<Rightarrow> 'w vmhostd \<Rightarrow> bool" where
  "vh_careful (VStart k v (Decoded rq) draw fail) p \<longleftrightarrow> hv_careful_start (vh_hv p) v (requested rq)"
| "vh_careful (VStop k i) p \<longleftrightarrow> hv_careful_stop (vh_hv p) i"
| "vh_careful _ p \<longleftrightarrow> True"

definition vh_careful_step :: "('c \<Rightarrow> 'w \<Rightarrow> 'w option) \<Rightarrow> ('c, 'w) vh_event \<Rightarrow> 'w vmhostd \<Rightarrow> 'w vmhostd option" where
  "vh_careful_step others e p = (if vh_careful e p then vh_step others e p else None)"

text \<open>What the watcher, the beating loop, the listener and the network leave alone.\<close>

lemma vh_inv_aside:
  assumes "vh_inv p" and "vh_hv p' = vh_hv p" "vh_slots p' = vh_slots p" "vh_calls p' = vh_calls p"
    "vh_handlers p' = vh_handlers p" "vh_drained p' = vh_drained p" "vh_main p' = vh_main p"
  shows "vh_inv p'"
proof (rule vh_inv_frame [OF assms(1)])
  show "hv_shut (vh_hv p')" if "vh_main p' = AgReturned res" for res
    using vh_invD(8) [OF assms(1), of res] assms that by simp
qed (use assms vh_invD(1,7) [OF assms(1)] in \<open>simp_all add: hv_frame_refl\<close>)

lemma vh_inv_aside_main:
  assumes "vh_inv p" and "vh_hv p' = vh_hv p" "vh_slots p' = vh_slots p" "vh_calls p' = vh_calls p"
    "vh_handlers p' = vh_handlers p" "vh_drained p' = vh_drained p" "clean_way (vh_main p') \<Longrightarrow> clean_way (vh_main p)"
    "\<And>res. vh_main p' \<noteq> AgReturned res"
  shows "vh_inv p'"
  using assms vh_invD(1,7) [OF assms(1)] by (intro vh_inv_frame [OF assms(1)]) (auto simp: hv_frame_refl)

lemma vh_inv_hv:
  assumes inv: "vh_inv p" and hv: "hv_frame (vh_hv p) hv"
  shows "vh_inv (p\<lparr>vh_hv := hv\<rparr>)"
  using vh_invD(7,8) [OF inv] hv_frameD(5) [OF hv] hv by (intro vh_inv_frame [OF inv]) auto

lemma main_step_inv:
  assumes inv: "vh_inv p"
  shows "vh_listener_fails e p = Some p' \<Longrightarrow> vh_inv p'" "vh_select_error p = Some p' \<Longrightarrow> vh_inv p'"
    "vh_select_cancelled p = Some p' \<Longrightarrow> vh_inv p'" "vh_deregisters lib p = Some p' \<Longrightarrow> vh_inv p'"
    "vh_gives_up p = Some p' \<Longrightarrow> vh_inv p'" "vh_shutdown r p = Some p' \<Longrightarrow> vh_inv p'"
    "vh_defers is p = Some p' \<Longrightarrow> vh_inv p'" "vh_terminates p = Some p' \<Longrightarrow> vh_inv p'" "vh_closed p = Some p' \<Longrightarrow> vh_inv p'"
proof -
  note D = vh_invD [OF inv]
  show "vh_listener_fails e p = Some p' \<Longrightarrow> vh_inv p'"
    by (rule vh_inv_aside [OF inv]) (auto simp: vh_listener_fails_def split: if_splits)
  show "vh_select_error p = Some p' \<Longrightarrow> vh_inv p'"
    by (rule vh_inv_aside_main [OF inv]) (auto simp: vh_select_error_def split: agent_phase.splits option.splits)
  show "vh_select_cancelled p = Some p' \<Longrightarrow> vh_inv p'"
    by (rule vh_inv_aside_main [OF inv]) (auto simp: vh_select_cancelled_def split: if_splits)
  show "vh_deregisters lib p = Some p' \<Longrightarrow> vh_inv p'"
    by (rule vh_inv_aside_main [OF inv]) (auto simp: vh_deregisters_def split: agent_phase.splits option.splits)
  show "vh_gives_up p = Some p' \<Longrightarrow> vh_inv p'"
    by (rule vh_inv_aside_main [OF inv]) (auto simp: vh_gives_up_def split: if_splits)
  show "vh_shutdown r p = Some p' \<Longrightarrow> vh_inv p'"
    by (rule vh_inv_frame [OF inv]) (auto simp: vh_shutdown_def hv_frame_refl [OF D(1)] split: if_splits option.splits)
  show "vh_inv p'" if st: "vh_defers is p = Some p'"
  proof (cases "\<exists>res. vh_main p = AgClosing res")
    case True
    with st obtain res hv where c: "vh_main p = AgClosing res" "hv_close (vh_hv p) is = Some hv"
      "p' = p\<lparr>vh_hv := hv, vh_main := AgTerminating res\<rparr>" by (auto simp: vh_defers_def)
    show ?thesis using hv_close_frame [OF D(1) c(2)] D(7) c(1) by (intro vh_inv_frame [OF inv]) (simp_all add: c(3))
  next
    case False
    with st obtain res where c: "vh_main p = AgReleasingSignals res" "p' = p\<lparr>vh_cancelled := True, vh_main := AgClosing res\<rparr>"
      by (auto simp: vh_defers_def split: agent_phase.splits)
    show ?thesis by (rule vh_inv_aside_main [OF inv]) (use c in simp_all)
  qed
  show "vh_inv p'" if st: "vh_terminates p = Some p'"
  proof -
    from st obtain hv where "hv_close_terminate (vh_hv p) = Some hv" "p' = p\<lparr>vh_hv := hv\<rparr>"
      by (auto simp: vh_terminates_def split: agent_phase.splits)
    with vh_inv_hv [OF inv hv_close_terminate_frame [OF D(1)]] show ?thesis by simp
  qed
  show "vh_inv p'" if st: "vh_closed p = Some p'"
  proof -
    from st obtain res hv where c: "vh_main p = AgTerminating res" "hv_close_finish (vh_hv p) = Some hv"
      "p' = p\<lparr>vh_hv := hv, vh_main := AgReturned res\<rparr>" by (auto simp: vh_closed_def split: agent_phase.splits)
    show ?thesis using hv_close_finish_frame [OF D(1) c(2)] D(7) c(1) by (intro vh_inv_frame [OF inv]) (simp_all add: c(3))
  qed
qed

lemma aside_step_inv:
  assumes inv: "vh_inv p"
  shows "stray_served lib c p = Some p' \<Longrightarrow> vh_inv p'" "watch_moves p = Some p' \<Longrightarrow> vh_inv p'"
    "watch_answered lib p = Some p' \<Longrightarrow> vh_inv p'" "watch_aborted p = Some p' \<Longrightarrow> vh_inv p'"
    "watch_leaves p = Some p' \<Longrightarrow> vh_inv p'" "beat_sends p = Some p' \<Longrightarrow> vh_inv p'"
    "beat_answered lib p = Some p' \<Longrightarrow> vh_inv p'" "beat_aborted p = Some p' \<Longrightarrow> vh_inv p'"
    "beat_ticks p = Some p' \<Longrightarrow> vh_inv p'" "beat_leaves p = Some p' \<Longrightarrow> vh_inv p'"
  by (rule vh_inv_aside [OF inv]; auto simp: stray_served_def watch_defs beat_defs Let_def split: vh_splits)+

lemma vh_step_inv:
  assumes inv: "vh_inv p" and st: "vh_careful_step others e p = Some p'"
  shows "vh_inv p'"
proof -
  have c: "vh_careful e p" and s: "vh_move others e p = Some p'"
    using st by (auto simp: vh_careful_step_def vh_step_def split: if_splits)
  note D = vh_invD [OF inv]
  show ?thesis
  proof (cases e)
    case (VStart k v b draw fail)
    with c have "hv_careful_start (vh_hv p) v (requested rq)" if "b = Decoded rq" for rq using that by simp
    with start_begins_inv [OF inv, of k v b draw fail p'] s VStart show ?thesis by simp
  next
    case (VInside m)
    with s obtain hv where "hv_moves m (vh_hv p) = Some hv" "p' = p\<lparr>vh_hv := hv\<rparr>" by auto
    with vh_inv_hv [OF inv hv_moves_frame [OF D(1)]] show ?thesis by simp
  next
    case VReceive
    with s obtain x hv where "hv_receive (vh_hv p) = Some (x, hv)"
      and p': "p' = p\<lparr>vh_hv := hv, vh_watch := (case x of Some i \<Rightarrow> WtReceived i | None \<Rightarrow> WtReturned)\<rparr>"
      by (auto simp: watch_receives_def split: if_splits bind_splits)
    from vh_inv_hv [OF inv hv_receive_frame [OF D(1) this(1)]] show ?thesis
      by (rule vh_inv_aside) (simp_all add: p')
  next
    case VSignal
    with s show ?thesis by (intro vh_inv_aside [OF inv]) auto
  next
    case (VWorld x)
    with s show ?thesis by (intro vh_inv_aside [OF inv]) auto
  qed (use c s stop_begins_inv [OF inv] call_moves_inv [OF inv] main_step_inv [OF inv] aside_step_inv [OF inv] in simp_all)
qed

interpretation vh: machine "vh_careful_step others" vh_inv for others
  by unfold_locales (rule vh_step_inv)

lemma agent_start_inv:
  assumes "agent_start env hostname split_port join arch present on_path opts = Some (Inr a)"
  shows "vh_inv (vmhostd_of opts a w)"
proof -
  from assms obtain hv where hv: "buildHypervisor arch present on_path opts = Inr hv" "p_hypervisor a = hv"
    by (auto simp: agent_start_def Let_def split: sum.splits if_splits)
  have "hv_good hv \<and> (\<forall>v. \<not> hv_starting hv v) \<and> hv_stopping hv = []"
  proof (cases hv)
    case (BuiltFake f)
    with hv(1) obtain cfg where "NewFake cfg = Inr f"
      by (auto simp: buildHypervisor_def split: if_splits sum.splits)
    moreover from this have "vms f = Map.empty" by (auto simp: NewFake_def Let_def split: option.splits)
    ultimately show ?thesis using NewFake_inv BuiltFake by auto
  next
    case (BuiltQEMU q)
    with hv(1) obtain cfg where "NewQEMU arch present on_path cfg = Inr q"
      by (auto simp: buildHypervisor_def split: if_splits sum.splits)
    moreover from this have "q_vms q = Map.empty \<and> stopping q = [] \<and> q_running q = Map.empty"
      by (auto simp: NewQEMU_def Let_def split: option.splits if_splits)
    ultimately show ?thesis using NewQEMU_inv BuiltQEMU by auto
  qed
  with agent_start_fields(1) [OF assms] hv(2) show ?thesis by (auto simp: vh_inv_def vmhostd_of_def)
qed

subsection \<open>What an exit leaves behind\<close>

abbreviation same_agent :: "'w vmhostd \<Rightarrow> 'w vmhostd \<Rightarrow> bool" where
  "same_agent p p' \<equiv> vh_slots p' = vh_slots p \<and> vh_proc p' = vh_proc p"

lemma call_moves_const: "call_moves k p = Some p' \<Longrightarrow> same_agent p p'"
  by (auto simp: call_defs split: vh_splits)

lemma main_step_const:
  "vh_listener_fails e p = Some p' \<Longrightarrow> same_agent p p'"
  "vh_select_error p = Some p' \<Longrightarrow> same_agent p p'"
  "vh_select_cancelled p = Some p' \<Longrightarrow> same_agent p p'"
  "vh_deregisters lib p = Some p' \<Longrightarrow> same_agent p p'"
  "vh_gives_up p = Some p' \<Longrightarrow> same_agent p p'"
  "vh_shutdown r p = Some p' \<Longrightarrow> same_agent p p'"
  "vh_defers is p = Some p' \<Longrightarrow> same_agent p p'"
  "vh_terminates p = Some p' \<Longrightarrow> same_agent p p'"
  "vh_closed p = Some p' \<Longrightarrow> same_agent p p'"
  by (auto simp: run_defs Let_def split: vh_splits)

lemma aside_step_const:
  "stray_served lib c p = Some p' \<Longrightarrow> same_agent p p'"
  "watch_receives p = Some p' \<Longrightarrow> same_agent p p'"
  "watch_moves p = Some p' \<Longrightarrow> same_agent p p'"
  "watch_answered lib p = Some p' \<Longrightarrow> same_agent p p'"
  "watch_aborted p = Some p' \<Longrightarrow> same_agent p p'"
  "watch_leaves p = Some p' \<Longrightarrow> same_agent p p'"
  "beat_sends p = Some p' \<Longrightarrow> same_agent p p'"
  "beat_answered lib p = Some p' \<Longrightarrow> same_agent p p'"
  "beat_aborted p = Some p' \<Longrightarrow> same_agent p p'"
  "beat_ticks p = Some p' \<Longrightarrow> same_agent p p'"
  "beat_leaves p = Some p' \<Longrightarrow> same_agent p p'"
  by (auto simp: stray_served_def watch_defs beat_defs Let_def split: vh_splits)

lemma vh_step_const:
  assumes "vh_step others e p = Some p'"
  shows "same_agent p p'"
proof -
  from assms have s: "vh_move others e p = Some p'" by (simp add: vh_step_def split: if_splits)
  have "start_begins k v b draw fail p = Some p' \<Longrightarrow> same_agent p p'" for k v b draw fail
    by (auto simp: call_defs split: vh_splits)
  moreover have "stop_begins k i p = Some p' \<Longrightarrow> same_agent p p'" for k i
    by (auto simp: call_defs split: vh_splits)
  ultimately show ?thesis using s call_moves_const [of _ p p'] main_step_const [where p = p and p' = p']
      aside_step_const [where p = p and p' = p'] by (cases e) auto
qed

lemma vmhostd_runs:
  assumes "agent_start env hostname split_port join arch present on_path opts = Some (Inr a)"
    and "run (vh_careful_step others) es (vmhostd_of opts a w) = Some p"
  shows "vh_inv p" "vh_slots p = o_slots opts" "vh_proc p = a"
proof -
  note good = agent_start_inv [OF assms(1), of w]
  show "vh_inv p" by (rule vh.run_good [OF good assms(2)])
  have "vh_slots p = o_slots opts \<and> vh_proc p = a"
    by (rule vh.run_keeps [OF good assms(2)])
      (auto simp: vmhostd_of_def vh_careful_step_def split: if_splits dest: vh_step_const)
  then show "vh_slots p = o_slots opts" "vh_proc p = a" by simp_all
qed

lemma hv_good_bound: "hv_good hv \<Longrightarrow> hv_Running hv \<le> built_Capacity hv"
  by (cases hv) (auto simp: Capacity_def q_Capacity_def dest: hv_invD(3) q_invD(1) q_coreD(3))

lemma hv_shut_empty: "hv_good hv \<Longrightarrow> hv_shut hv \<Longrightarrow> hv_Running hv = 0"
  using hv_invD(6,7) q_invD(5,7) by (cases hv) (simp_all add: Running_def q_Running_def)

lemma call_doneD: "call_done p k \<Longrightarrow> vh_calls p k = Some c \<Longrightarrow> \<exists>r. c = Replied r"
  by (cases c) (simp_all add: call_done_def)

text \<open>No guest is left: for the fake no timer runs any more, for QEMU no process is alive.\<close>

fun no_guest_left :: "built \<Rightarrow> bool" where
  "no_guest_left (BuiltFake f) \<longleftrightarrow> (\<forall>v r. vms f v = Some r \<longrightarrow> \<not> live (timer r))"
| "no_guest_left (BuiltQEMU q) \<longleftrightarrow> (\<forall>v r. q_vms q v = Some r \<longrightarrow> process r \<noteq> Alive)"

lemma shut_and_idle:
  assumes good: "hv_good hv" and shut: "hv_shut hv" and idle: "\<And>v. \<not> hv_starting hv v" "hv_stopping hv = []"
  shows "no_guest_left hv"
proof (cases hv)
  case (BuiltFake f)
  with good shut have f: "hv_inv f" "expired_closed f" by auto
  have "\<not> live (timer r)" if "vms f v = Some r" for v r
    using census_zero [OF hv_invD(2) [OF f(1)] _ that, of "\<lambda>r. live (timer r)"] hv_invD(5,7) [OF f(1)] f(2) by simp
  then show ?thesis by (simp add: BuiltFake)
next
  case (BuiltQEMU q)
  with good shut idle(2) have q: "q_inv q" "q_expired_closed q" "stopping q = []" by auto
  have "process r \<noteq> Alive" if r: "q_vms q v = Some r" for v r
  proof -
    have "\<not> starting (qvm_phase r)" using idle(1) [of v] r by (auto simp: BuiltQEMU)
    then obtain x where x: "qvm_phase r = QDone x" by (cases "qvm_phase r") auto
    show ?thesis
    proof (cases x)
      case (Inl e)
      with q_invD(10) [OF q(1) r] x show ?thesis by (auto simp: vm_ok_def)
    next
      case (Inr i)
      with closed_is_waited [OF q r] x show ?thesis by simp
    qed
  qed
  then show ?thesis by (simp add: BuiltQEMU)
qed

text \<open>C7. What the exit of an agent leaves behind. Whatever the API, the agents' peers, the network, the
  clock and the signals do, and however its goroutines interleave, provided the callers never use
  an identifier twice and stop a microVM only once its start has returned where the guests are
  QEMU's: the agent never runs more microVMs than its slots; when it exits it runs none; and when
  it exits with status zero every call has been answered and no guest is left, no live process of
  QEMU and no timer of the fake.\<close>

theorem agent_exit_leaves_no_guest:
  assumes "agent_start env hostname split_port join arch present on_path opts = Some (Inr a)"
    and "run (vh_careful_step others) es (vmhostd_of opts a w) = Some p"
  shows "hv_Running (vh_hv p) \<le> o_slots opts \<and>
    (agent_exit (vh_main p) \<noteq> None \<longrightarrow> hv_Running (vh_hv p) = 0) \<and>
    (agent_exit (vh_main p) = Some 0 \<longrightarrow>
       (\<forall>k c. vh_calls p k = Some c \<longrightarrow> (\<exists>r. c = Replied r)) \<and> no_guest_left (vh_hv p))"
proof -
  note inv = vmhostd_runs(1) [OF assms] and slots = vmhostd_runs(2) [OF assms]
  note D = vh_invD [OF inv]
  have shut: "\<exists>res. vh_main p = AgReturned res" if "agent_exit (vh_main p) = Some n" for n
    using that by (cases "vh_main p") auto
  have "(\<forall>k c. vh_calls p k = Some c \<longrightarrow> (\<exists>r. c = Replied r)) \<and> no_guest_left (vh_hv p)"
    if ex: "agent_exit (vh_main p) = Some 0"
  proof -
    from ex have m: "vh_main p = AgReturned None" by (cases "vh_main p" rule: agent_exit.cases) auto
    then have "call_done p k" for k using D(6,7) by simp
    then have rep: "\<exists>r. c = Replied r" if "vh_calls p k = Some c" for k c
      using that by (blast intro: call_doneD)
    have "\<not> hv_starting (vh_hv p) v" for v using D(3) [of v] rep by fastforce
    moreover have "hv_stopping (vh_hv p) = []" using D(4) rep by (cases "hv_stopping (vh_hv p)") fastforce+
    ultimately show ?thesis using shut_and_idle [OF D(1) D(8) [OF m]] rep by blast
  qed
  then show ?thesis using hv_good_bound [OF D(1)] D(2) slots hv_shut_empty [OF D(1) D(8)] shut by auto
qed

definition demo_qemu_options :: agent_options where
  "demo_qemu_options = default_agent_options\<lparr>o_hostID := ''a'', o_slots := 2, o_hypervisorKind := ''qemu'',
     o_qemuBinary := ''q'', o_kernelImage := ''k'', o_initrdImage := ''i''\<rparr>"

lemma demo_qemu_agent_starts:
  "\<exists>a q. agent_start (\<lambda>x. '''') (Inl '''') (\<lambda>x. None) (@) ''amd64'' (\<lambda>x. True) (\<lambda>x. True) demo_qemu_options = Some (Inr a) \<and>
     p_hypervisor a = BuiltQEMU q \<and> p_client a = None \<and> q_running q = Map.empty \<and> q_vms q = Map.empty \<and> \<not> q_closed q \<and>
     stopping q = [] \<and> closing q = [] \<and> q_wg q = 0 \<and> \<not> q_expired_closed q \<and> q_Slots (q_cfg q) = 2"
  by (simp add: agent_start_def resolveHostID_def buildHypervisor_def demo_qemu_options_def default_agent_options_def
      NewQEMU_def qemu_applyDefaults_def qemu_Validate_def hv_MinSlotsPerHost_def DefaultQEMUBootTimeout_def
      DefaultReadyMarker_def second_def millisecond_def Let_def)

lemma x_spec [simp]: "requested \<lparr>sv_ID = ''x'', sv_TTLMillis = 0\<rparr> = \<lparr>spec_ID = ''x'', spec_VCPUs = 1, spec_MemMiB = 1024, spec_TTL = 0\<rparr>"
  "spec_Validate \<lparr>spec_ID = ''x'', spec_VCPUs = 1, spec_MemMiB = 1024, spec_TTL = 0\<rparr> = None"
  by (simp_all add: requested_def wrap64_def spec_Validate_def maxIDLen_def validIDChar_def less_eq_char_def)

text \<open>A guest is started, a signal arrives, and the agent leaves.\<close>

definition start_x :: "(unit, unit) vh_event list" where
  "start_x = [VStart 0 0 (Decoded \<lparr>sv_ID = ''x'', sv_TTLMillis = 0\<rparr>) 0 False, VInside (QemuMoves (QContext 0)),
     VInside (QemuMoves (QSpawn 0 True)), VInside (QemuMoves (QPublish 0)), VInside (QemuMoves (QReady 0 True 10)),
     VInside (QemuMoves (QFinish 0 3)), VCall 0, VCall 0, VCall 0]"

definition leave_x :: "(unit, unit) vh_event list" where
  "leave_x = [VSignal, VSelectCancelled, VShutdown None, VDefer [], VDefer [''x''], VTerminate, VClosed]"

theorem agent_exit_leaves_no_guest_witness:
  "\<exists>a p q r. run (vh_careful_step (\<lambda>c w. None)) (start_x @ leave_x) (vmhostd_of demo_qemu_options a ()) = Some p \<and>
     agent_exit (vh_main p) = Some 0 \<and> vh_hv p = BuiltQEMU q \<and> q_vms q 0 = Some r \<and> process r \<noteq> Alive"
proof -
  from demo_qemu_agent_starts obtain a q where a: "agent_start (\<lambda>x. '''') (Inl '''') (\<lambda>x. None) (@) ''amd64'' (\<lambda>x. True) (\<lambda>x. True)
      demo_qemu_options = Some (Inr a)" "p_hypervisor a = BuiltQEMU q" "p_client a = None" "q_running q = Map.empty" "q_vms q = Map.empty"
    "\<not> q_closed q" "stopping q = []" "closing q = []" "q_wg q = 0" "\<not> q_expired_closed q" "q_Slots (q_cfg q) = 2" by blast
  note defs = vh_careful_step_def vh_step_def accepts_def call_defs run_defs vmhostd_of_def
  have "\<exists>p q r. run (vh_careful_step (\<lambda>c w. None)) (start_x @ leave_x) (vmhostd_of demo_qemu_options a ()) = Some p \<and>
      agent_exit (vh_main p) = Some 0 \<and> vh_hv p = BuiltQEMU q \<and> q_vms q 0 = Some r"
    using a by (simp add: start_x_def leave_x_def defs q_defs call_done_def iterates_def)
  then obtain p q' r where p: "run (vh_careful_step (\<lambda>c w. None)) (start_x @ leave_x) (vmhostd_of demo_qemu_options a ()) = Some p"
    "agent_exit (vh_main p) = Some 0" "vh_hv p = BuiltQEMU q'" "q_vms q' 0 = Some r" by blast
  with agent_exit_leaves_no_guest [OF a(1) p(1)] have "process r \<noteq> Alive" by auto
  with p show ?thesis by blast
qed

text \<open>The gauge of running microVMs is set from a count read before: two handlers whose reads and writes
  cross leave it at the older count, with every call answered.\<close>

lemma crossed_handlers_leave_a_stale_gauge:
  "map_option (\<lambda>p. (gauge 0 (vh_metrics p), hv_Running (vh_hv p), map (call_done p) [0, 1]))
     (run (vh_step (\<lambda>c w. None))
       ([VStart 0 0 (Decoded \<lparr>sv_ID = ''x'', sv_TTLMillis = 0\<rparr>) 0 False, VInside (FakeMoves (HvBooted 0 10)), VCall 0, VCall 0,
         VStart 1 1 (Decoded \<lparr>sv_ID = ''y'', sv_TTLMillis = 0\<rparr>) 0 False, VInside (FakeMoves (HvBooted 1 11)), VCall 1, VCall 1,
         VCall 1, VCall 0] :: (unit, unit) vh_event list)
       (vmhostd_of default_agent_options \<lparr>p_agent = \<lparr>ag_hostID = ''a'', ag_kind = ''fake''\<rparr>, p_hypervisor = BuiltFake demo_fake,
          p_client = None, p_advertise = ''''\<rparr> ())) =
   Some (1, 2, [True, True])"
proof -
  have y: "requested \<lparr>sv_ID = ''y'', sv_TTLMillis = 0\<rparr> = \<lparr>spec_ID = ''y'', spec_VCPUs = 1, spec_MemMiB = 1024, spec_TTL = 0\<rparr>"
    "spec_Validate \<lparr>spec_ID = ''y'', spec_VCPUs = 1, spec_MemMiB = 1024, spec_TTL = 0\<rparr> = None"
    by (simp_all add: requested_def wrap64_def spec_Validate_def maxIDLen_def validIDChar_def less_eq_char_def)
  show ?thesis
    by (simp add: y vh_step_def accepts_def call_defs vmhostd_of_def demo_fake_def Running_def start_reserve_def put_vm_def
        fake_defs start_reply_def call_done_def insert_commute)
qed

end
