(* ===== verification/AgentApiProps.thy ===== *)
theory AgentApiProps
  imports AgentRunProps
begin

section \<open>An agent before the placement API\<close>

text \<open>
  The vmhostd process with the routes, the handlers and the registry of the placement API behind
  its transport, and everybody else who calls the registry or the scheduler. For the registry such
  a run is a run of its own operations. A departed agent stays out unless a registration of its
  was still under way, and a microVM whose lifetime has ended frees its slot.
\<close>

subsection \<open>The composed machine\<close>

text \<open>The transport: the API answers, at some instant of its clock, or nothing of the exchange gets
  through.\<close>

definition api_lib :: "string \<Rightarrow> world http_lib \<Rightarrow> bool" where
  "api_lib base lib \<longleftrightarrow> (\<exists>create t. lib = placement_api create base t) \<or> (\<forall>rq w. snd (exchange lib rq w) = w)"

fun net_ok :: "string \<Rightarrow> (wcall, world) vh_event \<Rightarrow> bool" where
  "net_ok base (VStray lib c) \<longleftrightarrow> api_lib base lib"
| "net_ok base (VReport lib) \<longleftrightarrow> api_lib base lib"
| "net_ok base (VBeat lib) \<longleftrightarrow> api_lib base lib"
| "net_ok base (VDeregister lib) \<longleftrightarrow> api_lib base lib"
| "net_ok base (VWorld c) \<longleftrightarrow> wcall_ok c"
| "net_ok base _ \<longleftrightarrow> True"

definition net_step :: "string \<Rightarrow> (wcall, world) vh_event \<Rightarrow> world vmhostd \<Rightarrow> world vmhostd option" where
  "net_step base e p = (if net_ok base e then vh_step (\<lambda>c w. world_exec w c) e p else None)"

lemma placement_parses [simp]: "parses (placement_api create base t) url"
  by (simp add: placement_api_def)

text \<open>A request of the agent is one operation of the registry or the scheduler, or nothing.\<close>

fun of_agent :: "host_id \<Rightarrow> api_call \<Rightarrow> wcall \<Rightarrow> bool" where
  "of_agent i AskRegister (WRegister now j cap addr) \<longleftrightarrow> j = i"
| "of_agent i AskHeartbeat (WHeartbeat now j) \<longleftrightarrow> j = i"
| "of_agent i (AskRelease v) (WRelease u) \<longleftrightarrow> True"
| "of_agent i AskDeregister (WDeregister now j) \<longleftrightarrow> j = i"
| "of_agent i _ _ \<longleftrightarrow> False"

lemma serve_world:
  "snd (serve create t RegisterHostRoute (HostPayload r) w) = w \<or>
     world_exec w (WRegister t (rh_ID r) (rh_Capacity r) (rh_Address r)) = Some (snd (serve create t RegisterHostRoute (HostPayload r) w))"
  "world_exec w (WHeartbeat t i) = Some (snd (serve create t (HeartbeatHostRoute i) b w))"
  "snd (serve create t (DeregisterHostRoute i) b w) = w \<or>
     world_exec w (WDeregister t i) = Some (snd (serve create t (DeregisterHostRoute i) b w))"
  "snd (serve create t (DeleteVMRoute i) b w) = w \<or>
     world_exec w (WRelease i) = Some (snd (serve create t (DeleteVMRoute i) b w))"
  by (auto simp: serve_def split: option.splits prod.splits)

lemma api_exchange:
  "snd (client_do (placement_api create base t) \<lparr>hr_method = m, hr_url = base @ path, hr_body = b\<rparr> oks w) =
    (case Routes True True m (path_segments path) of None \<Rightarrow> w | Some rt \<Rightarrow> snd (serve create t rt b w))"
  by (auto simp: client_do_def placement_api_def split: option.split prod.split sum.split)

lemma agent_routes:
  assumes "CHR ''/'' \<notin> set i" and "i \<noteq> ''''"
  shows "Routes True True ''POST'' (path_segments ''/v1/hosts'') = Some RegisterHostRoute"
    "Routes True True ''POST'' (path_segments (''/v1/hosts/'' @ i @ ''/heartbeat'')) = Some (HeartbeatHostRoute i)"
    "Routes True True ''DELETE'' (path_segments (''/v1/hosts/'' @ i)) = Some (DeregisterHostRoute i)"
    "Routes True True ''DELETE'' (path_segments (''/v1/vms/'' @ i)) = Some (DeleteVMRoute i)"
  using assms by (simp_all add: path_segments_def Routes_def segments_plain segments_append)

lemma release_route:
  "Routes True True ''DELETE'' (path_segments (''/v1/vms/'' @ v)) = None \<or>
   (\<exists>u. Routes True True ''DELETE'' (path_segments (''/v1/vms/'' @ v)) = Some (DeleteVMRoute u))"
  by (auto simp: path_segments_def Routes_def Let_def split: list.splits)

lemma deaf_client: "\<forall>rq w. snd (exchange lib rq w) = w \<Longrightarrow> snd (client_do lib rq oks w) = w"
proof -
  assume "\<forall>rq w. snd (exchange lib rq w) = w"
  then have "snd (exchange lib rq w) = w" by simp
  then show ?thesis by (auto simp: client_do_def split: prod.split sum.split)
qed

lemma perform_world:
  assumes lib: "api_lib base lib" and i: "plain_id (ag_hostID (p_agent (vh_proc p)))"
  shows "snd (perform lib p base c) = vh_world p \<or>
    (\<exists>d. of_agent (ag_hostID (p_agent (vh_proc p))) c d \<and> world_exec (vh_world p) d = Some (snd (perform lib p base c)))"
proof -
  let ?i = "ag_hostID (p_agent (vh_proc p))" and ?w = "vh_world p"
  have "?i \<noteq> ''''" "CHR ''/'' \<notin> set ?i" using i plain_id_slash by (auto simp: plain_id_def)
  note R = agent_routes [OF this(2,1), simplified append_Cons append_Nil]
    and RR = release_route
  from lib [unfolded api_lib_def] show ?thesis
  proof
    assume "\<forall>rq w. snd (exchange lib rq w) = w"
    then show ?thesis by (cases c) (simp_all add: perform_def Let_def client_register_def client_heartbeat_def
          client_releaseVM_def client_deregister_def deaf_client)
  next
    assume "\<exists>create t. lib = placement_api create base t"
    then obtain create t where L: "lib = placement_api create base t" by blast
    note defs = perform_def Let_def client_register_def client_heartbeat_def client_releaseVM_def client_deregister_def
      api_exchange R L
    show ?thesis
    proof (cases c)
      case AskRegister
      let ?r = "\<lparr>rh_ID = ?i, rh_Capacity = vh_slots p, rh_Address = p_advertise (vh_proc p)\<rparr>"
      have "of_agent ?i c (WRegister t (rh_ID ?r) (rh_Capacity ?r) (rh_Address ?r))" by (simp add: AskRegister)
      then show ?thesis using serve_world(1) [of create t ?r ?w]
        by (simp add: defs AskRegister del: world_exec.simps of_agent.simps) blast
    next
      case AskHeartbeat
      have "of_agent ?i c (WHeartbeat t ?i)" by (simp add: AskHeartbeat)
      then show ?thesis using serve_world(2) [of ?w t ?i create NoPayload]
        by (simp add: defs AskHeartbeat del: world_exec.simps of_agent.simps) blast
    next
      case (AskRelease v)
      from RR [of v] show ?thesis
      proof
        assume "\<exists>u. Routes True True ''DELETE'' (path_segments (''/v1/vms/'' @ v)) = Some (DeleteVMRoute u)"
        then obtain u where u: "Routes True True ''DELETE'' (path_segments (''/v1/vms/'' @ v)) = Some (DeleteVMRoute u)" ..
        have "of_agent ?i c (WRelease u)" by (simp add: AskRelease)
        then show ?thesis using serve_world(4) [of create t u NoPayload ?w]
          by (simp add: defs AskRelease u [simplified append_Cons append_Nil] del: world_exec.simps of_agent.simps) blast
      qed (simp add: defs AskRelease)
    next
      case AskDeregister
      have "of_agent ?i c (WDeregister t ?i)" by (simp add: AskDeregister)
      then show ?thesis using serve_world(3) [of create t ?i NoPayload ?w]
        by (simp add: defs AskDeregister del: world_exec.simps of_agent.simps) blast
    qed
  qed
qed

text \<open>Nothing else of the process reaches the world.\<close>

fun registers :: "host_id \<Rightarrow> wcall \<Rightarrow> bool" where
  "registers i (WRegister now j cap addr) \<longleftrightarrow> j = i"
| "registers i _ \<longleftrightarrow> False"

lemma of_agent_registers: "of_agent i c d \<Longrightarrow> registers i d \<Longrightarrow> c = AskRegister"
  by (cases "(i, c, d)" rule: of_agent.cases) auto

lemma of_agent_ok: "of_agent i c d \<Longrightarrow> wcall_ok d"
  by (cases "(i, c, d)" rule: of_agent.cases) auto

lemma main_step_world:
  "vh_listener_fails e p = Some p' \<Longrightarrow> vh_world p' = vh_world p"
  "vh_select_error p = Some p' \<Longrightarrow> vh_world p' = vh_world p"
  "vh_select_cancelled p = Some p' \<Longrightarrow> vh_world p' = vh_world p"
  "vh_gives_up p = Some p' \<Longrightarrow> vh_world p' = vh_world p"
  "vh_shutdown r p = Some p' \<Longrightarrow> vh_world p' = vh_world p"
  "vh_defers is p = Some p' \<Longrightarrow> vh_world p' = vh_world p"
  "vh_terminates p = Some p' \<Longrightarrow> vh_world p' = vh_world p"
  "vh_closed p = Some p' \<Longrightarrow> vh_world p' = vh_world p"
  by (auto simp: run_defs Let_def split: vh_splits)

lemma aside_step_world:
  "watch_receives p = Some p' \<Longrightarrow> vh_world p' = vh_world p"
  "watch_moves p = Some p' \<Longrightarrow> vh_world p' = vh_world p"
  "watch_aborted p = Some p' \<Longrightarrow> vh_world p' = vh_world p"
  "watch_leaves p = Some p' \<Longrightarrow> vh_world p' = vh_world p"
  "beat_sends p = Some p' \<Longrightarrow> vh_world p' = vh_world p"
  "beat_aborted p = Some p' \<Longrightarrow> vh_world p' = vh_world p"
  "beat_ticks p = Some p' \<Longrightarrow> vh_world p' = vh_world p"
  "beat_leaves p = Some p' \<Longrightarrow> vh_world p' = vh_world p"
  by (auto simp: watch_defs beat_defs Let_def split: vh_splits)

lemma call_step_world:
  "start_begins k v b draw fail p = Some p' \<Longrightarrow> vh_world p' = vh_world p"
  "stop_begins k i p = Some p' \<Longrightarrow> vh_world p' = vh_world p"
  "call_moves k p = Some p' \<Longrightarrow> vh_world p' = vh_world p"
  by (auto simp: call_defs split: vh_splits)

text \<open>A step as the API sees it: nothing, a call of somebody else, or a request of the agent.\<close>

lemma net_step_world:
  assumes st: "net_step base e p = Some p'" and client: "p_client (vh_proc p) = Some base"
    and i: "plain_id (ag_hostID (p_agent (vh_proc p)))"
  shows "vh_world p' = vh_world p \<or>
    (\<exists>d. wcall_ok d \<and> world_exec (vh_world p) d = Some (vh_world p') \<and>
       (registers (ag_hostID (p_agent (vh_proc p))) d \<longrightarrow>
          e = VWorld d \<or> AskRegister \<in> set (vh_stray p) \<or> vh_beat p = BtSent False))"
proof -
  from st have ok: "net_ok base e" and s: "vh_move (\<lambda>c w. world_exec w c) e p = Some p'"
    by (auto simp: net_step_def vh_step_def split: if_splits)
  have req: "vh_world p' = vh_world p \<or> (\<exists>d. wcall_ok d \<and> world_exec (vh_world p) d = Some (vh_world p') \<and>
      (registers (ag_hostID (p_agent (vh_proc p))) d \<longrightarrow> e = VWorld d \<or> AskRegister \<in> set (vh_stray p) \<or> vh_beat p = BtSent False))"
    if "api_lib base lib" "vh_world p' = snd (perform lib p base c)"
      "c = AskRegister \<Longrightarrow> AskRegister \<in> set (vh_stray p) \<or> vh_beat p = BtSent False" for lib c
    using perform_world [OF that(1) i, of c] that(2,3) of_agent_registers of_agent_ok by metis
  show ?thesis
  proof (cases e)
    case (VStray lib c)
    with s client have "vh_world p' = snd (perform lib p base c)" "c \<in> set (vh_stray p)"
      by (auto simp: stray_served_def split: if_splits)
    with req [of lib c] ok VStray show ?thesis by auto
  next
    case (VReport lib)
    with s client obtain v where "vh_world p' = snd (perform lib p base (AskRelease v))"
      by (auto simp: watch_answered_def split: watching.splits)
    with req [of lib "AskRelease v"] ok VReport show ?thesis by auto
  next
    case (VBeat lib)
    with s client obtain r where "vh_beat p = BtSent r" "vh_world p' = snd (perform lib p base (beat_call r))"
      by (auto simp: beat_answered_def Let_def split: beating.splits prod.splits)
    with req [of lib "beat_call r"] ok VBeat show ?thesis by (cases r) (auto simp: beat_call_def)
  next
    case (VDeregister lib)
    with s client have "vh_world p' = snd (perform lib p base AskDeregister)"
      by (auto simp: vh_deregisters_def split: agent_phase.splits)
    with req [of lib AskDeregister] ok VDeregister show ?thesis by auto
  next
    case (VWorld d)
    with s ok show ?thesis by auto
  qed (use s main_step_world [where p = p and p' = p'] aside_step_world [where p = p and p' = p']
      call_step_world [where p = p and p' = p'] in auto)
qed

subsection \<open>For the registry, a run of its own operations\<close>

definition net_good :: "string \<Rightarrow> host_id \<Rightarrow> world vmhostd \<Rightarrow> bool" where
  "net_good base i p \<longleftrightarrow> world_inv (vh_world p) \<and> p_client (vh_proc p) = Some base \<and>
     ag_hostID (p_agent (vh_proc p)) = i \<and> plain_id i \<and> (vh_main p = AgDeregistering \<longrightarrow> vh_cancelled p)"

lemma vh_cancelled_step:
  assumes "vh_step others e p = Some p'"
  shows "vh_cancelled p \<Longrightarrow> vh_cancelled p'"
    "vh_main p' = AgDeregistering \<Longrightarrow> vh_main p = AgDeregistering \<or> vh_cancelled p"
  using assms by (cases e; auto simp: vh_step_def call_defs stray_served_def watch_defs beat_defs run_defs split: vh_splits)+

definition registry_step :: "wcall \<Rightarrow> world \<Rightarrow> world option" where
  "registry_step d w = (if wcall_ok d then world_exec w d else None)"

interpretation na: simulation "net_step base" "net_good base i" registry_step vh_world for base i
proof unfold_locales
  fix p p' e
  assume good: "net_good base i p" and st: "net_step base e p = Some p'"
  from st have s: "vh_step (\<lambda>c w. world_exec w c) e p = Some p'" by (auto simp: net_step_def split: if_splits)
  note G = good [unfolded net_good_def]
  from net_step_world [OF st, of] G consider "vh_world p' = vh_world p"
    | d where "wcall_ok d" "world_exec (vh_world p) d = Some (vh_world p')" by auto
  then have "world_inv (vh_world p') \<and> (\<exists>fs. run registry_step fs (vh_world p) = Some (vh_world p'))"
  proof cases
    case 1
    then have "run registry_step [] (vh_world p) = Some (vh_world p')" by simp
    with 1 G show ?thesis by metis
  next
    case (2 d)
    then have "run registry_step [d] (vh_world p) = Some (vh_world p')" by (simp add: registry_step_def)
    with world_exec_inv [of "vh_world p" d] 2 G show ?thesis by fastforce
  qed
  then show "net_good base i p'" "\<exists>fs. run registry_step fs (vh_world p) = Some (vh_world p')"
    using G vh_step_const [OF s] vh_cancelled_step [OF s] by (auto simp: net_good_def)
qed

text \<open>Once the context is cancelled and no registration is on its way, none will be.\<close>

definition quiet :: "'w vmhostd \<Rightarrow> bool" where
  "quiet p \<longleftrightarrow> vh_cancelled p \<and> (\<forall>r. vh_beat p \<noteq> BtSent r) \<and> AskRegister \<notin> set (vh_stray p)"

lemma quiet_step:
  assumes "vh_step others e p = Some p'" and "quiet p"
  shows "quiet p'"
proof -
  have "(\<forall>r. vh_beat p' \<noteq> BtSent r) \<and> AskRegister \<notin> set (vh_stray p')"
    using assms by (cases e; auto simp: quiet_def vh_step_def call_defs stray_served_def watch_defs beat_defs run_defs
        beat_call_def split: vh_splits)
  with vh_cancelled_step(1) [OF assms(1)] assms(2) show ?thesis by (simp add: quiet_def)
qed

lemma world_exec_silent:
  assumes inv: "world_inv w" and ok: "wcall_ok d" and st: "world_exec w d = Some w'"
    and silent: "lastSeen (reg w) i = None" and other: "\<not> registers i d"
  shows "lastSeen (reg w') i = None"
proof (cases d)
  case (WRegister now j cap addr)
  with st obtain r where "Register w now j cap addr = Some (r, w')" by auto
  from Register_other [OF this, of i] other silent show ?thesis by (auto simp: WRegister)
next
  case (WHeartbeat now j)
  with st silent show ?thesis by (auto simp: Heartbeat_def split: option.splits)
next
  case (WDeregister now j)
  with st silent show ?thesis by (auto simp: Deregister_def Let_def split: if_splits bind_splits)
next
  case (WSweep now now' os)
  with st ok obtain n where "Sweep now now' os w = Some (n, w')" "orders_ok os" by auto
  with Sweep_effect(2) [OF inv, of os now now' n w' i] silent show ?thesis by auto
qed (use st silent in auto)

lemma net_starts:
  assumes "world_reachable w"
    and "agent_start env hostname split_port join arch present on_path opts = Some (Inr a)"
    and "p_client a = Some base" and "plain_id (ag_hostID (p_agent a))"
  shows "net_good base (ag_hostID (p_agent a)) (vmhostd_of opts a w)"
  using assms world_reachable_inv [OF assms(1)] by (simp add: net_good_def vmhostd_of_def)

text \<open>Nobody else registers the host.\<close>

fun leaves_host :: "host_id \<Rightarrow> (wcall, world) vh_event \<Rightarrow> bool" where
  "leaves_host i (VWorld d) \<longleftrightarrow> \<not> registers i d"
| "leaves_host i _ \<longleftrightarrow> True"

lemma quiet_run_silent:
  assumes "net_good base i p" and "quiet p" and "lastSeen (reg (vh_world p)) i = None"
    and "list_all (leaves_host i) es" and "run (net_step base) es p = Some p'"
  shows "lastSeen (reg (vh_world p')) i = None"
  using assms
proof (induction es arbitrary: p)
  case (Cons e es)
  from Cons.prems(5) obtain p1 where p1: "net_step base e p = Some p1" "run (net_step base) es p1 = Some p'"
    by (rule run_ConsE)
  from p1(1) have s: "vh_step (\<lambda>c w. world_exec w c) e p = Some p1" by (auto simp: net_step_def split: if_splits)
  note G = Cons.prems(1) [unfolded net_good_def]
  have "lastSeen (reg (vh_world p1)) i = None"
  proof (cases "vh_world p1 = vh_world p")
    case False
    with net_step_world [OF p1(1)] G obtain d where d: "wcall_ok d" "world_exec (vh_world p) d = Some (vh_world p1)"
      "registers i d \<longrightarrow> e = VWorld d \<or> AskRegister \<in> set (vh_stray p) \<or> vh_beat p = BtSent False" by auto
    have "\<not> registers i d" using d(3) Cons.prems(2,4) by (auto simp: quiet_def)
    with world_exec_silent [OF _ d(1,2) Cons.prems(3)] G show ?thesis by blast
  qed (simp add: Cons.prems(3))
  with Cons.IH [OF na.step_good [OF Cons.prems(1) p1(1)] quiet_step [OF s Cons.prems(2)]] Cons.prems(4) p1(2)
  show ?case by simp
qed simp

lemma deregister_forgets:
  assumes inv: "world_inv w" and i: "plain_id i"
  shows "lastSeen (reg (snd (client_deregister (placement_api create base t) base i w))) i = None"
proof (cases "lastSeen (reg w) i")
  case None
  have "i \<noteq> ''''" "CHR ''/'' \<notin> set i" using i plain_id_slash by (auto simp: plain_id_def)
  note R = agent_routes(3) [OF this(2,1), simplified append_Cons append_Nil]
  from None show ?thesis by (simp add: client_deregister_def api_exchange R serve_def Deregister_def Let_def)
next
  case (Some s)
  from Deregister_ok [OF inv Some, of t] obtain w' where w': "Deregister w t i = Some (Inr (), w')"
    "lastSeen (reg w') i = None" by auto
  with deregister_exchange [OF i w'(1)] show ?thesis by simp
qed


text \<open>Evaluation does not count the running microVMs.\<close>

declare Running_def [code del] q_Running_def [code del]

definition demo_agent :: agent_process where
  "demo_agent = \<lparr>p_agent = \<lparr>ag_hostID = ''a'', ag_kind = ''fake''\<rparr>,
     p_hypervisor = BuiltFake \<lparr>f_cfg = \<lparr>Slots = 8, BootLatency = 25000000, BootJitter = 10000000, StopLatency = 2000000,
       FailureRate = 0\<rparr>, running = Map.empty, closed = False, expired = [], expired_closed = False, wg = 0, vms = Map.empty\<rparr>,
     p_client = Some ''http://api'', p_advertise = ''a:1''\<rparr>"

lemma demo_agent_start:
  "agent_start (\<lambda>x. '''') (Inl '''') (\<lambda>x. None) (@) ''amd64'' (\<lambda>x. False) (\<lambda>x. False) demo_agent_options = Some (Inr demo_agent)"
  by (simp add: agent_start_def resolveHostID_def buildHypervisor_def demo_agent_options_def default_agent_options_def
      NewFake_def fake_applyDefaults_def fake_Validate_def DefaultBootLatency_def DefaultBootJitter_def
      DefaultStopLatency_def millisecond_def second_def Let_def trim_slashes_def demo_agent_def)

definition demo_api :: "instant \<Rightarrow> world http_lib" where
  "demo_api t = placement_api (\<lambda>w. (Inr 201, w)) ''http://api'' t"

lemma demo_api_ok [simp]: "api_lib ''http://api'' (demo_api t)"
  by (auto simp: api_lib_def demo_api_def)

abbreviation demo_vmhostd :: "world vmhostd" where
  "demo_vmhostd \<equiv> vmhostd_of demo_agent_options demo_agent demo_start"

lemma net_run:
  "run (vh_step (\<lambda>c w. world_exec w c)) es p = Some p' \<Longrightarrow> list_all (net_ok base) es \<Longrightarrow> run (net_step base) es p = Some p'"
  by (induction es arbitrary: p) (auto simp: net_step_def split: bind_splits)

definition serve_and_leave :: "(wcall, world) vh_event list" where
  "serve_and_leave = [VSend, VBeat (demo_api 5), VTick, VSend, VBeat (demo_api 7), VSignal, VSelectCancelled]"

definition after_leaving :: "(wcall, world) vh_event list" where
  "after_leaving = [VTick, VSend, VBeatLeaves, VShutdown None, VDefer []]"


text \<open>When the registration is still on its way as the signal comes, it may be served after the
  deregistration: the agent, its server shut down, is about to exit with status zero, and the API
  has a ready host at its address.\<close>

lemma late_registration_survives_the_agent:
  "map_option (\<lambda>p. (vh_main p, vh_stray p, Address (vh_world p) ''a'', map_option state (hosts (sched (vh_world p)) ''a'')))
     (run (vh_step (\<lambda>c w. world_exec w c))
       [VSend, VSignal, VBeatAborted, VBeatLeaves, VSelectCancelled, VDeregister (demo_api 5), VShutdown None, VDefer [],
        VStray (demo_api 6) AskRegister] demo_vmhostd) =
   Some (AgClosing None, [], Some ''a:1'', Some HostReady)"
  by code_simp

subsection \<open>An expired microVM frees its slot\<close>

fun hv_expiries :: "built \<Rightarrow> string list" where
  "hv_expiries (BuiltFake f) = expired f"
| "hv_expiries (BuiltQEMU q) = q_expired q"

definition report_expiry :: "(world \<Rightarrow> (string + int) \<times> world) \<Rightarrow> string \<Rightarrow> instant \<Rightarrow> (wcall, world) vh_event list" where
  "report_expiry create base t = [VReceive, VWatch, VWatch, VReport (placement_api create base t)]"

lemma hv_receive_head: "hv_expiries hv = v # vs \<Longrightarrow> \<exists>hv'. hv_receive hv = Some (Some v, hv') \<and> hv_expiries hv' = vs"
  by (cases hv) (auto simp: expired_receive_def q_Expired_def)

lemma release_frees:
  assumes inv: "world_inv w" and v: "plain_id v"
  shows "assigned (sched (snd (client_releaseVM (placement_api create base t) base v w))) = (assigned (sched w))(v := None)"
proof -
  have "v \<noteq> ''''" "CHR ''/'' \<notin> set v" using v plain_id_slash by (auto simp: plain_id_def)
  note R = agent_routes(4) [OF this(2,1), simplified append_Cons append_Nil]
  show ?thesis
  proof (cases "assigned (sched w) v")
    case None
    then show ?thesis
      by (simp add: client_releaseVM_def api_exchange R serve_def Release_unknown fun_upd_idem)
  next
    case (Some h)
    from Release_ok [OF world_invD(1) [OF inv] Some] obtain s' where
      "Release (sched w) v = Some (Inr (), s')" "assigned s' = (assigned (sched w))(v := None)" by blast
    then show ?thesis by (simp add: client_releaseVM_def api_exchange R serve_def)
  qed
qed

definition watching_now :: "'w vmhostd \<Rightarrow> bool" where
  "watching_now p \<longleftrightarrow> vh_watch p = WtIdle \<and> \<not> vh_cancelled p \<and> agent_exit (vh_main p) = None"

lemma report_one:
  assumes good: "net_good base i p" and wt: "watching_now p" and ex: "hv_expiries (vh_hv p) = v # vs" and v: "plain_id v"
  shows "\<exists>p'. run (net_step base) (report_expiry create base t) p = Some p' \<and> watching_now p' \<and> hv_expiries (vh_hv p') = vs \<and>
    assigned (sched (vh_world p')) = (assigned (sched (vh_world p)))(v := None)"
proof -
  note G = good [unfolded net_good_def] and W = wt [unfolded watching_now_def]
  have lib: "api_lib base (placement_api create base t)" by (auto simp: api_lib_def)
  from hv_receive_head [OF ex] obtain hv where hv: "hv_receive (vh_hv p) = Some (Some v, hv)" "hv_expiries hv = vs" by blast
  show ?thesis
    using W G hv release_frees [of "vh_world p" v create base t] v lib
    by (simp add: report_expiry_def net_step_def vh_step_def watch_defs watching_now_def perform_def Let_def)
qed


definition expire_x :: "(wcall, world) vh_event list" where
  "expire_x = [VStart 0 0 (Decoded \<lparr>sv_ID = ''x'', sv_TTLMillis = 5\<rparr>) 0 False, VInside (FakeMoves (HvBooted 0 10)), VCall 0,
     VCall 0, VCall 0, VInside (FakeMoves (HvFires 0)), VInside (FakeMoves (HvReapLock 0)), VInside (FakeMoves (HvReapSend 0))]"


end
