(* ===== verification/Process.thy ===== *)
theory Process
  imports ApiProps RegistryStepsProps
begin

section \<open>The whole placement-api process (cmd/placement-api/main.go)\<close>

text \<open>
  What \<^verbatim>\<open>run\<close> starts, running together: the callers and the dispatcher of the placement service,
  the handlers that call the host registry, the registry's sweeper, the calls of the booter, the
  signal exporter, and \<^verbatim>\<open>run\<close> itself with its signal handling and its shutdown. They share one
  scheduler, the one inside \<open>y_svc\<close>, and the registry's notifier is the service. As in the theories
  of the parts, a step is the code between two points where another goroutine can interleave.
\<close>

subsection \<open>State\<close>

text \<open>Where \<^verbatim>\<open>run\<close> is: in its \<^verbatim>\<open>select\<close>; inside \<^verbatim>\<open>srv.Shutdown\<close>; before each of its deferred calls, with
  what it is going to return; or back in \<^verbatim>\<open>main\<close>.\<close>

datatype run_error = HttpServerError string | GracefulShutdownError string

datatype main_phase =
    Serving
  | ShuttingDown
  | ClosingDone "run_error option"
  | StoppingService "run_error option"
  | AwaitingDispatcher "run_error option"
  | ReleasingSignals "run_error option"
  | RunReturned "run_error option"

text \<open>The exit status of the process, once \<^verbatim>\<open>run\<close> has returned.\<close>

fun main_exit :: "main_phase \<Rightarrow> int option" where
  "main_exit (RunReturned None) = Some 0"
| "main_exit (RunReturned (Some e)) = Some 1"
| "main_exit _ = None"

text \<open>The sweeper and the exporter: in the \<^verbatim>\<open>select\<close> of their loop, at work on a tick, or returned.\<close>

datatype sweeper = SwIdle | SwSweeping reg_task | SwReturned

datatype exporting = ExIdle | ExRead instant p_stats | ExReturned

text \<open>The handlers that are, or have been, inside \<^verbatim>\<open>Admit\<close> or inside a call of the registry.\<close>

datatype handler = InAdmit pid | InRegistry nat

text \<open>\<open>y_boots\<close> holds the calls of the booter that have resolved their host's address, \<open>y_errs\<close> the
  channel of the listener's error, \<open>y_done\<close> the closed channel of the sweeper, and \<open>y_drained\<close> tells
  that \<^verbatim>\<open>srv.Shutdown\<close> has seen every handler return.\<close>

record process =
  y_opts :: api_options
  y_svc :: service
  y_reg :: registry
  y_tasks :: "nat \<rightharpoonup> reg_task"
  y_handlers :: "handler list"
  y_sweeper :: sweeper
  y_boots :: "pid \<rightharpoonup> string option"
  y_exporter :: signalExporter
  y_exporting :: exporting
  y_gauges :: "gauges option"
  y_errs :: "string option"
  y_done :: bool
  y_drained :: bool
  y_main :: main_phase

definition process_of :: "api_options \<Rightarrow> api_process \<Rightarrow> process" where
  "process_of opts a =
     \<lparr>y_opts = opts, y_svc = ap_svc a, y_reg = reg (ap_world a), y_tasks = Map.empty, y_handlers = [],
      y_sweeper = SwIdle, y_boots = Map.empty, y_exporter = ap_exporter a, y_exporting = ExIdle,
      y_gauges = None, y_errs = None, y_done = False, y_drained = False, y_main = Serving\<rparr>"

text \<open>The world of the registry's goroutines, and its effect: a signal goes to the service.\<close>

definition y_world :: "process \<Rightarrow> world" where
  "y_world p = \<lparr>reg = y_reg p, sched = svc_sched (y_svc p), signals = 0\<rparr>"

definition put_world :: "world \<Rightarrow> process \<Rightarrow> process" where
  "put_world w p =
     (let s1 = (y_svc p)\<lparr>svc_sched := sched w\<rparr>
      in p\<lparr>y_reg := reg w, y_svc := if 0 < signals w then signalCapacity s1 else s1\<rparr>)"

subsection \<open>The goroutines\<close>

text \<open>A step of the service's callers or of its dispatcher. Starting, stopping, cancelling, booting,
  signalling and changing the fleet are steps of the other parts of the process. After a graceful
  shutdown no handler is left that could call the service.\<close>

fun calls_admit :: "event \<Rightarrow> handler list" where
  "calls_admit (EvAdmit p r now) = [InAdmit p]"
| "calls_admit _ = []"

fun own_event :: "event \<Rightarrow> bool" where
  "own_event EvStart = False"
| "own_event EvCancel = False"
| "own_event EvStop = False"
| "own_event EvSignal = False"
| "own_event (EvBootOk p now) = False"
| "own_event (EvBootErr p err) = False"
| "own_event (EvFleet c vs) = False"
| "own_event _ = True"

fun from_handler :: "event \<Rightarrow> bool" where
  "from_handler (EvAdmit p r now) = True"
| "from_handler (EvRelease v) = True"
| "from_handler _ = False"

definition service_moves :: "event \<Rightarrow> process \<Rightarrow> process option" where
  "service_moves e p =
     (if own_event e \<and> \<not> (from_handler e \<and> y_drained p)
      then map_option (\<lambda>s. p\<lparr>y_svc := s, y_handlers := calls_admit e @ y_handlers p\<rparr>) (svc_step e (y_svc p))
      else None)"

text \<open>The handlers of \<^verbatim>\<open>/v1/hosts\<close> call the registry; only the sweeper sweeps.\<close>

definition registry_call :: "nat \<Rightarrow> reg_task \<Rightarrow> process \<Rightarrow> process option" where
  "registry_call k t p =
     (if y_tasks p k = None \<and> begins t \<and> t \<noteq> RgSweep \<and> \<not> y_drained p
      then Some (p\<lparr>y_tasks := (y_tasks p)(k \<mapsto> t), y_handlers := InRegistry k # y_handlers p\<rparr>) else None)"

definition registry_moves :: "nat \<Rightarrow> instant \<Rightarrow> orders \<Rightarrow> process \<Rightarrow> process option" where
  "registry_moves k now os p =
     do {
       t \<leftarrow> y_tasks p k;
       (t', w) \<leftarrow> reg_task_step now os t (y_world p);
       Some ((put_world w p)\<lparr>y_tasks := (y_tasks p)(k \<mapsto> t')\<rparr>)
     }"

text \<open>\<^verbatim>\<open>reggy.Run(done)\<close>\<close>

definition sweeper_tick :: "process \<Rightarrow> process option" where
  "sweeper_tick p = (if y_sweeper p = SwIdle then Some (p\<lparr>y_sweeper := SwSweeping RgSweep\<rparr>) else None)"

definition sweeper_moves :: "instant \<Rightarrow> orders \<Rightarrow> process \<Rightarrow> process option" where
  "sweeper_moves now os p =
     (case y_sweeper p of
        SwSweeping t \<Rightarrow>
          do {
            (t', w) \<leftarrow> reg_task_step now os t (y_world p);
            Some ((put_world w p)\<lparr>y_sweeper := if returned t' then SwIdle else SwSweeping t'\<rparr>)
          }
      | _ \<Rightarrow> None)"

definition sweeper_leaves :: "process \<Rightarrow> process option" where
  "sweeper_leaves p = (if y_sweeper p = SwIdle \<and> y_done p then Some (p\<lparr>y_sweeper := SwReturned\<rparr>) else None)"

text \<open>The booter: the address is looked up in the registry when the call begins; the exchange with
  the agent, \<open>lib\<close>, and the text of its errors come with the event.\<close>

definition boot_begins :: "pid \<Rightarrow> process \<Rightarrow> process option" where
  "boot_begins i p =
     do {
       r \<leftarrow> admissions (y_svc p) i;
       (case phase r of
          Booting h n k \<Rightarrow>
            if y_boots p i = None then Some (p\<lparr>y_boots := (y_boots p)(i \<mapsto> Address (y_world p) h)\<rparr>) else None
        | _ \<Rightarrow> None)
     }"

definition boot_returns ::
  "pid \<Rightarrow> unit http_lib \<Rightarrow> (booter_error \<Rightarrow> string) \<Rightarrow> instant \<Rightarrow> process \<Rightarrow> process option" where
  "boot_returns i lib txt now p =
     do {
       addr \<leftarrow> y_boots p i;
       r \<leftarrow> admissions (y_svc p) i;
       (case phase r of
          Booting h n k \<Rightarrow>
            let b = newHTTPBooter (\<lambda>_. addr) (ao_bootTimeout (y_opts p)) (ao_maxConns (y_opts p));
                (err, _) = httpBooter_Boot b lib h (VMID (req r)) (TTL (req r)) ();
                e = (case err of None \<Rightarrow> EvBootOk i now | Some x \<Rightarrow> EvBootErr i (txt x))
            in map_option (\<lambda>s. p\<lparr>y_svc := s, y_boots := (y_boots p)(i := None)\<rparr>) (svc_step e (y_svc p))
        | _ \<Rightarrow> None)
     }"

text \<open>\<^verbatim>\<open>exporter.run(ctx)\<close>: a tick reads the counters of the service, then those of the scheduler in
  the iteration order \<open>ord\<close>, decides and publishes.\<close>

definition exporter_tick :: "instant \<Rightarrow> process \<Rightarrow> process option" where
  "exporter_tick now p =
     (if y_exporting p = ExIdle then Some (p\<lparr>y_exporting := ExRead now (svc_Stats (y_svc p))\<rparr>) else None)"

definition exporter_publishes ::
  "(real \<Rightarrow> int) \<Rightarrow> ((host_id \<rightharpoonup> host) \<Rightarrow> host_id list) \<Rightarrow> process \<Rightarrow> process option" where
  "exporter_publishes oob ord p =
     (case y_exporting p of
        ExRead now st \<Rightarrow>
          let sc = svc_sched (y_svc p);
              (g, e) = exporter_step oob now st (sched_Stats sc (ord (hosts sc))) (y_exporter p)
          in Some (p\<lparr>y_gauges := Some g, y_exporter := e, y_exporting := ExIdle\<rparr>)
      | _ \<Rightarrow> None)"

definition exporter_leaves :: "process \<Rightarrow> process option" where
  "exporter_leaves p =
     (if y_exporting p = ExIdle \<and> ctx_done (y_svc p) then Some (p\<lparr>y_exporting := ExReturned\<rparr>) else None)"

subsection \<open>run\<close>

text \<open>A signal, or the deferred \<^verbatim>\<open>stop\<close>, cancels the context the dispatcher and the exporter watch.\<close>

definition cancel_ctx :: "process \<Rightarrow> process" where
  "cancel_ctx p = p\<lparr>y_svc := (y_svc p)\<lparr>ctx_done := True\<rparr>\<rparr>"

definition listener_fails :: "string \<Rightarrow> process \<Rightarrow> process option" where
  "listener_fails e p =
     (if y_main p = Serving \<and> y_errs p = None then Some (p\<lparr>y_errs := Some e\<rparr>) else None)"

definition handler_done :: "process \<Rightarrow> handler \<Rightarrow> bool" where
  "handler_done p x =
     (case x of
        InAdmit i \<Rightarrow>
          (case admissions (y_svc p) i of
             Some r \<Rightarrow> (case phase r of Finished res \<Rightarrow> True | _ \<Rightarrow> False)
           | None \<Rightarrow> True)
      | InRegistry k \<Rightarrow> (case y_tasks p k of Some t \<Rightarrow> returned t | None \<Rightarrow> True))"

text \<open>The two cases of the \<^verbatim>\<open>select\<close>; \<^verbatim>\<open>srv.Shutdown\<close>, which returns when every handler has, or with an
  error when its own deadline has passed; and the deferred calls, the last deferred one first.\<close>

definition main_listener_error :: "process \<Rightarrow> process option" where
  "main_listener_error p =
     (case (y_main p, y_errs p) of
        (Serving, Some e) \<Rightarrow> Some (p\<lparr>y_errs := None, y_main := ClosingDone (Some (HttpServerError e))\<rparr>)
      | _ \<Rightarrow> None)"

definition main_cancelled :: "process \<Rightarrow> process option" where
  "main_cancelled p =
     (if y_main p = Serving \<and> ctx_done (y_svc p) then Some (p\<lparr>y_main := ShuttingDown\<rparr>) else None)"

definition shutdown_returns :: "string option \<Rightarrow> process \<Rightarrow> process option" where
  "shutdown_returns res p =
     (if y_main p \<noteq> ShuttingDown then None
      else case res of
        Some e \<Rightarrow> Some (p\<lparr>y_main := ClosingDone (Some (GracefulShutdownError e))\<rparr>)
      | None \<Rightarrow>
          if list_all (handler_done p) (y_handlers p)
          then Some (p\<lparr>y_drained := True, y_main := ClosingDone None\<rparr>) else None)"

definition main_defers :: "process \<Rightarrow> process option" where
  "main_defers p =
     (case y_main p of
        ClosingDone res \<Rightarrow> Some (p\<lparr>y_done := True, y_main := StoppingService res\<rparr>)
      | StoppingService res \<Rightarrow> Some (p\<lparr>y_svc := svc_Stop (y_svc p), y_main := AwaitingDispatcher res\<rparr>)
      | AwaitingDispatcher res \<Rightarrow>
          if disp (y_svc p) = Exited then Some (p\<lparr>y_main := ReleasingSignals res\<rparr>) else None
      | ReleasingSignals res \<Rightarrow> Some ((cancel_ctx p)\<lparr>y_main := RunReturned res\<rparr>)
      | _ \<Rightarrow> None)"

subsection \<open>The machine\<close>

datatype proc_event =
    PSvc event
  | PCall nat reg_task
  | PReg nat instant orders
  | PSweepTick
  | PSweep instant orders
  | PSweeperLeaves
  | PBootBegins pid
  | PBootReturns pid "unit http_lib" "booter_error \<Rightarrow> string" instant
  | PTick instant
  | PPublish "real \<Rightarrow> int" "(host_id \<rightharpoonup> host) \<Rightarrow> host_id list"
  | PExporterLeaves
  | PSignal
  | PListenerFails string
  | PMainError
  | PMainCancelled
  | PShutdown "string option"
  | PDefer

fun proc_move :: "proc_event \<Rightarrow> process \<Rightarrow> process option" where
  "proc_move (PSvc e) p = service_moves e p"
| "proc_move (PCall k t) p = registry_call k t p"
| "proc_move (PReg k now os) p = registry_moves k now os p"
| "proc_move PSweepTick p = sweeper_tick p"
| "proc_move (PSweep now os) p = sweeper_moves now os p"
| "proc_move PSweeperLeaves p = sweeper_leaves p"
| "proc_move (PBootBegins i) p = boot_begins i p"
| "proc_move (PBootReturns i lib txt now) p = boot_returns i lib txt now p"
| "proc_move (PTick now) p = exporter_tick now p"
| "proc_move (PPublish oob ord) p = exporter_publishes oob ord p"
| "proc_move PExporterLeaves p = exporter_leaves p"
| "proc_move PSignal p = Some (cancel_ctx p)"
| "proc_move (PListenerFails e) p = listener_fails e p"
| "proc_move PMainError p = main_listener_error p"
| "proc_move PMainCancelled p = main_cancelled p"
| "proc_move (PShutdown res) p = shutdown_returns res p"
| "proc_move PDefer p = main_defers p"

text \<open>Nothing runs once \<^verbatim>\<open>main\<close> has returned.\<close>

definition proc_step :: "proc_event \<Rightarrow> process \<Rightarrow> process option" where
  "proc_step e p = (if main_exit (y_main p) = None then proc_move e p else None)"

end
