(* ===== verification/ProcessInv.thy ===== *)
theory ProcessInv
  imports Process
begin

section \<open>The invariant of the placement-api process\<close>

text \<open>
  Every step of the process is, for the placement service, a short run of the service's own machine
  (locale \<open>simulation\<close>): the registry's goroutines, the booter, the exporter and the shutdown do
  nothing to it that its theory does not allow for. \<open>proc_good\<close> is what every step keeps.
\<close>

subsection \<open>The process runs its service\<close>

text \<open>What a goroutine of the registry does to the scheduler is at most one call that changes the
  fleet.\<close>

lemma reg_task_fleet:
  assumes st: "reg_task_step now os t w = Some (t', w')" and "orders_ok os" and "sched_inv (sched w)"
  shows "sched w' = sched w \<or> (\<exists>c vs r. fleet_call c \<and> iterates vs (assigned (sched w)) \<and>
    sched_exec (sched w) c vs = Some (r, sched w'))"
proof -
  let ?vs = "\<lambda>i. vm_ord os i (assigned (sched w))"
  have it: "iterates (?vs i) (assigned (sched w))" for i
    using assms(2) sched_invD(2) [OF assms(3)] by (simp add: orders_ok_def)
  have by_call: "sched w' = sched w \<or> (\<exists>c vs r. fleet_call c \<and> iterates vs (assigned (sched w)) \<and>
      sched_exec (sched w) c vs = Some (r, sched w'))"
    if "fleet_call c" "sched_exec (sched w) c (?vs i) = Some (r, sched w')" for c i r
    using that it by blast
  have set: "sched w' = sched w \<or> (\<exists>c vs r. fleet_call c \<and> iterates vs (assigned (sched w)) \<and>
      sched_exec (sched w) c vs = Some (r, sched w'))" if "SetHostState (sched w) i u = Some (r, sched w')" for i u r
    using that by (intro by_call [of "CallSetHostState i u" i]) simp_all
  show ?thesis
  proof (cases "(now, os, t, w)" rule: reg_task_step.cases)
    case (2 now os i cap w)
    then show ?thesis using st
      by (intro by_call [of "CallAddHost i cap" i "reply_of (\<lambda>_. Done) (fst (AddHost (sched w) i cap))"])
        (auto simp: register_add_def split_beta prod_eq_iff)
  next
    case (4 now os i w)
    with st obtain r where "SetHostState (sched w) i HostReady = Some (r, sched w')"
      by (auto simp: register_ready_def split: bind_splits)
    with 4 show ?thesis using set [of i HostReady r] by simp
  next
    case (9 now os i w)
    with st obtain r where "SetHostState (sched w) i HostDraining = Some (r, sched w')"
      by (auto simp: deregister_drain_def split: bind_splits)
    with 9 show ?thesis using set [of i HostDraining r] by simp
  next
    case (12 now os t n i "is" w)
    with st obtain r where "SetHostState (sched w) i HostDraining = Some (r, sched w')"
      by (auto simp: sweep_drain_def split: bind_splits)
    with 12 show ?thesis using set [of i HostDraining r] by simp
  next
    case (17 now os t n h hs w)
    with st obtain r where "RemoveHost (sched w) (snap_ID h) (?vs (snap_ID h)) = Some (r, sched w')"
      by (auto simp: sweep_remove_def split: bind_splits sum.splits)
    with 17 show ?thesis by (intro by_call [of "CallRemoveHost (snap_ID h)" "snap_ID h" "reply_of Orphans r"]) simp_all
  qed (use st in \<open>auto simp: register_begin_def forget_host_def register_notify_def Heartbeat_def deregister_begin_def
      deregister_stamp_def sweep_begin_def sweep_stamp_def sweep_forget_def Let_def
      split: if_splits option.splits\<close>)
qed

lemma put_world_run:
  assumes "reg_task_step now os t (y_world p) = Some (t', w)" and "orders_ok os" and "sched_inv (svc_sched (y_svc p))"
  shows "\<exists>fs. svc_run fs (y_svc p) = Some (y_svc (put_world w p))"
proof -
  let ?s = "y_svc p" and ?s1 = "(y_svc p)\<lparr>svc_sched := sched w\<rparr>"
  have "\<exists>fs. svc_run fs ?s = Some ?s1"
  proof (cases "sched w = svc_sched ?s")
    case True
    then have "svc_run [] ?s = Some ?s1" by simp
    then show ?thesis by blast
  next
    case False
    with reg_task_fleet [OF assms(1,2)] assms(3) obtain c vs r where
      "fleet_call c" "iterates vs (assigned (svc_sched ?s))" "sched_exec (svc_sched ?s) c vs = Some (r, sched w)"
      by (auto simp: y_world_def)
    then have "svc_run [EvFleet c vs] ?s = Some ?s1" by simp
    then show ?thesis by blast
  qed
  then obtain fs where "svc_run fs ?s = Some ?s1" by blast
  moreover from this have "svc_run (fs @ [EvSignal]) ?s = Some (signalCapacity ?s1)" by (simp add: run_append)
  ultimately show ?thesis by (cases "0 < signals w") (auto simp: put_world_def Let_def)
qed

lemma put_world_sel [simp]:
  "y_opts (put_world w p) = y_opts p" "y_tasks (put_world w p) = y_tasks p"
  "y_handlers (put_world w p) = y_handlers p" "y_sweeper (put_world w p) = y_sweeper p"
  "y_drained (put_world w p) = y_drained p" "y_main (put_world w p) = y_main p" "y_reg (put_world w p) = reg w"
  "admissions (y_svc (put_world w p)) = admissions (y_svc p)" "svc_sched (y_svc (put_world w p)) = sched w"
  "disp (y_svc (put_world w p)) = disp (y_svc p)"
  by (simp_all add: put_world_def Let_def)

lemma cancel_ctx_sel [simp]:
  "y_opts (cancel_ctx p) = y_opts p" "y_tasks (cancel_ctx p) = y_tasks p" "y_reg (cancel_ctx p) = y_reg p"
  "y_handlers (cancel_ctx p) = y_handlers p" "y_sweeper (cancel_ctx p) = y_sweeper p"
  "y_drained (cancel_ctx p) = y_drained p" "y_main (cancel_ctx p) = y_main p"
  "y_svc (cancel_ctx p) = (y_svc p)\<lparr>ctx_done := True\<rparr>"
  by (simp_all add: cancel_ctx_def)

text \<open>The events a real run has: the iteration orders of a registry step visit every key once.\<close>

fun proc_event_ok :: "proc_event \<Rightarrow> bool" where
  "proc_event_ok (PReg k now os) = orders_ok os"
| "proc_event_ok (PSweep now os) = orders_ok os"
| "proc_event_ok _ = True"

definition proc_step_ok :: "proc_event \<Rightarrow> process \<Rightarrow> process option" where
  "proc_step_ok e p = (if proc_event_ok e then proc_step e p else None)"

lemma run_proc_step_ok: "list_all proc_event_ok es \<Longrightarrow> run proc_step_ok es p = run proc_step es p"
  by (induction es arbitrary: p) (auto simp: proc_step_ok_def split: bind_splits)

lemma proc_step_ok_move: "proc_step_ok e p = Some p' \<Longrightarrow> proc_event_ok e \<and> main_exit (y_main p) = None \<and> proc_move e p = Some p'"
  by (auto simp: proc_step_ok_def proc_step_def split: if_splits)

text \<open>The kinds of steps: of the service, of a registry call that begins or goes on, of the sweep, of a
  boot that ends; of \<^verbatim>\<open>run\<close>, which touches the service and its own phase; and steps that concern
  neither the service nor the handlers.\<close>

definition main_move :: "proc_event \<Rightarrow> process \<Rightarrow> process option" where
  "main_move e p =
     (if e \<in> {PSignal, PMainError, PMainCancelled, PDefer} \<or> (\<exists>res. e = PShutdown res) then proc_move e p else None)"

fun boot_event :: "event \<Rightarrow> bool" where
  "boot_event (EvBootOk i now) = True"
| "boot_event (EvBootErr i x) = True"
| "boot_event f = False"

lemma proc_stepE:
  assumes "proc_step_ok e p = Some p'"
  obtains
    (svc) f s where "e = PSvc f" "own_event f" "from_handler f \<Longrightarrow> \<not> y_drained p" "svc_step f (y_svc p) = Some s"
      "p' = p\<lparr>y_svc := s, y_handlers := calls_admit f @ y_handlers p\<rparr>"
  | (call) k t where "e = PCall k t" "y_tasks p k = None" "\<not> y_drained p"
      "p' = p\<lparr>y_tasks := (y_tasks p)(k \<mapsto> t), y_handlers := InRegistry k # y_handlers p\<rparr>"
  | (reg) k now os t t' w where "e = PReg k now os" "orders_ok os" "y_tasks p k = Some t" "\<not> returned t"
      "reg_task_step now os t (y_world p) = Some (t', w)" "p' = (put_world w p)\<lparr>y_tasks := (y_tasks p)(k \<mapsto> t')\<rparr>"
  | (sweep) now os t t' w where "e = PSweep now os" "orders_ok os" "y_sweeper p = SwSweeping t"
      "reg_task_step now os t (y_world p) = Some (t', w)"
      "p' = (put_world w p)\<lparr>y_sweeper := if returned t' then SwIdle else SwSweeping t'\<rparr>"
  | (boot) i f s where "boot_event f" "svc_step f (y_svc p) = Some s"
      "p' = p\<lparr>y_svc := s, y_boots := (y_boots p)(i := None)\<rparr>"
  | (main) "main_move e p = Some p'" "y_reg p' = y_reg p" "y_tasks p' = y_tasks p" "y_handlers p' = y_handlers p"
      "y_sweeper p' = y_sweeper p" "y_svc p' \<in> {y_svc p, (y_svc p)\<lparr>ctx_done := True\<rparr>, svc_Stop (y_svc p)}"
  | (quiet) "y_svc p' = y_svc p" "y_reg p' = y_reg p" "y_tasks p' = y_tasks p" "y_handlers p' = y_handlers p"
      "y_drained p' = y_drained p" "y_main p' = y_main p"
      "y_sweeper p' \<in> {y_sweeper p, SwSweeping RgSweep, SwReturned}"
proof -
  from assms have ok: "proc_event_ok e" and mv: "proc_move e p = Some p'"
    by (auto simp: proc_step_ok_def proc_step_def split: if_splits)
  have live: "\<not> returned t" if "reg_task_step now os t w = Some x" for now os t w x
    using that by (cases t) auto
  show thesis
  proof (cases e)
    case (PSvc f)
    with mv show thesis by (auto simp: service_moves_def simp del: svc_step.simps split: if_splits intro: svc)
  next
    case (PCall k t)
    with mv show thesis by (auto simp: registry_call_def split: if_splits intro: call)
  next
    case (PReg k now os)
    with mv ok show thesis by (auto simp: registry_moves_def split: bind_splits dest: live intro: reg)
  next
    case (PSweep now os)
    with mv ok show thesis by (auto simp: sweeper_moves_def split: sweeper.splits bind_splits intro!: sweep)
  next
    case (PBootReturns i lib g now)
    with mv show thesis
      by (auto simp: boot_returns_def Let_def split_beta simp del: svc_step.simps
          split: bind_splits phase.splits option.splits intro!: boot)
  next
    case PSignal
    with mv show thesis by (intro main) (auto simp: main_move_def)
  next
    case PMainError
    with mv show thesis
      by (intro main) (auto simp: main_move_def main_listener_error_def split: main_phase.splits option.splits)
  next
    case PMainCancelled
    with mv show thesis by (intro main) (auto simp: main_move_def main_cancelled_def split: if_splits)
  next
    case (PShutdown res)
    with mv show thesis
      by (intro main) (auto simp: main_move_def shutdown_returns_def split: if_splits option.splits)
  next
    case PDefer
    with mv show thesis by (intro main) (auto simp: main_move_def main_defers_def split: main_phase.splits if_splits)
  qed (use mv in \<open>auto simp: sweeper_tick_def sweeper_leaves_def boot_begins_def exporter_tick_def
      exporter_publishes_def exporter_leaves_def listener_fails_def Let_def split_beta
      split: if_splits bind_splits phase.splits exporting.splits intro!: quiet\<close>)
qed

lemma proc_step_simulated:
  assumes inv: "sched_inv (svc_sched (y_svc p))" and "proc_step_ok e p = Some p'"
  shows "\<exists>fs. svc_run fs (y_svc p) = Some (y_svc p')"
proof -
  have one: "\<exists>fs. svc_run fs (y_svc p) = Some s" if "svc_step f (y_svc p) = Some s" for f s
    by (rule exI [of _ "[f]"]) (simp add: that del: svc_step.simps)
  have none: "\<exists>fs. svc_run fs (y_svc p) = Some (y_svc p)" by (rule exI [of _ "[]"]) simp
  from assms(2) show ?thesis
  proof (cases rule: proc_stepE)
    case (reg k now os t t' w)
    with put_world_run [OF reg(5,2) inv] show ?thesis by simp
  next
    case (sweep now os t t' w)
    with put_world_run [OF sweep(4,2) inv] show ?thesis by simp
  next
    case main
    with none one [of EvCancel] one [of EvStop] show ?thesis by auto
  qed (use none one in \<open>simp_all del: svc_step.simps\<close>)
qed

subsection \<open>The invariant\<close>

text \<open>An admission that has returned stays returned, and no step takes a request away.\<close>

fun finished :: "phase \<Rightarrow> bool" where
  "finished (Finished x) = True"
| "finished _ = False"

lemma send_result_phase:
  "send_result t q a = Some s' \<Longrightarrow> admissions t p = Some r \<Longrightarrow> \<exists>r'. admissions s' p = Some r' \<and> phase r' = phase r"
  by (auto simp: send_result_def split: option.splits if_splits)

lemma step_finished:
  assumes st: "svc_step e s = Some s'" and r: "admissions s p = Some r" "finished (phase r)"
  shows "\<exists>r'. admissions s' p = Some r' \<and> finished (phase r')"
proof -
  obtain x where x: "phase r = Finished x" using r(2) by (cases "phase r") auto
  have send: "\<exists>r'. admissions s' p = Some r' \<and> finished (phase r')"
    if "send_result t q a = Some s'" "admissions t = admissions s" for t q a
    using send_result_phase [OF that(1), of p r] that(2) r by auto
  show ?thesis
    using st r(1) x
    by (cases e)
      (auto simp: admit_enter_def ctx_expire_def admit_send_def admit_reject_def
        read_depth_def record_depth_def admit_receive_def boot_ok_def boot_err_def boot_fail_def
        boot_replace_def admit_done_def svc_Start_def svc_Stop_def
        disp_take_def disp_shutdown_def drain_step_def wait_freed_def wait_timer_def svc_Release_def
        dispatch_check_def dispatch_place_def wait_lapsed_def wait_shutdown_def
        signalCapacity_def Let_def elim!: send
        split: option.splits bind_splits if_splits phase.splits dispatcher.splits list.splits sum.splits
          admission.splits)
qed

text \<open>What every step of the process keeps: its service is one a run of the service reaches; the
  registry's maps are finite and only heartbeating hosts have an address; the sweeper is never left at
  a sweep that has returned; every admission and every call of the registry is known to the server;
  and \<^verbatim>\<open>run\<close> is about to return without an error only when all of these have returned. Once \<^verbatim>\<open>run\<close>
  waits for the dispatcher the service has been stopped, and after the wait the dispatcher is gone.\<close>

fun main_result :: "main_phase \<Rightarrow> run_error option option" where
  "main_result Serving = None"
| "main_result ShuttingDown = None"
| "main_result (ClosingDone res) = Some res"
| "main_result (StoppingService res) = Some res"
| "main_result (AwaitingDispatcher res) = Some res"
| "main_result (ReleasingSignals res) = Some res"
| "main_result (RunReturned res) = Some res"

fun main_stopped :: "main_phase \<Rightarrow> bool" where
  "main_stopped (AwaitingDispatcher res) = True"
| "main_stopped (ReleasingSignals res) = True"
| "main_stopped (RunReturned res) = True"
| "main_stopped _ = False"

fun main_joined :: "main_phase \<Rightarrow> bool" where
  "main_joined (ReleasingSignals res) = True"
| "main_joined (RunReturned res) = True"
| "main_joined _ = False"

definition reg_ok :: "registry \<Rightarrow> bool" where
  "reg_ok r \<longleftrightarrow> has_notifier r \<and> finite (dom (lastSeen r)) \<and> dom (address r) \<subseteq> dom (lastSeen r)"

definition known_handlers :: "process \<Rightarrow> bool" where
  "known_handlers p \<longleftrightarrow> (\<forall>i\<in>dom (admissions (y_svc p)). InAdmit i \<in> set (y_handlers p)) \<and>
     (\<forall>k\<in>dom (y_tasks p). InRegistry k \<in> set (y_handlers p))"

definition proc_good :: "process \<Rightarrow> bool" where
  "proc_good p \<longleftrightarrow> svc_reachable (y_svc p) \<and> reg_ok (y_reg p) \<and>
     (\<forall>t. y_sweeper p = SwSweeping t \<longrightarrow> \<not> returned t) \<and> known_handlers p \<and>
     (y_drained p \<longrightarrow> list_all (handler_done p) (y_handlers p)) \<and>
     (main_result (y_main p) = Some None \<longrightarrow> y_drained p) \<and>
     (main_stopped (y_main p) \<longrightarrow> stopped (y_svc p)) \<and> (main_joined (y_main p) \<longrightarrow> disp (y_svc p) = Exited)"

lemma proc_goodD:
  assumes "proc_good p"
  shows "svc_reachable (y_svc p)" "svc_inv (y_svc p)" "sched_inv (svc_sched (y_svc p))" "rs_good (y_world p)"
    "y_sweeper p = SwSweeping t \<Longrightarrow> \<not> returned t" "known_handlers p"
    "y_drained p \<Longrightarrow> list_all (handler_done p) (y_handlers p)"
    "main_result (y_main p) = Some None \<Longrightarrow> y_drained p"
    "main_stopped (y_main p) \<Longrightarrow> stopped (y_svc p)" "main_joined (y_main p) \<Longrightarrow> disp (y_svc p) = Exited"
  using assms svc_invD(1) [OF svc_reachable_inv]
  by (auto simp: proc_good_def rs_good_def reg_ok_def y_world_def svc_reachable_inv)

text \<open>The registry's part.\<close>

lemma forget_loop_notifier: "has_notifier (forget_loop is r) = has_notifier r"
  by (induction "is" arbitrary: r) simp_all

lemma reg_task_notifier:
  "reg_task_step now os t w = Some (t', w') \<Longrightarrow> has_notifier (reg w') = has_notifier (reg w)"
  by (cases "(now, os, t, w)" rule: reg_task_step.cases)
    (auto simp: register_begin_def register_add_def register_ready_def forget_host_def register_notify_def
      Heartbeat_def deregister_begin_def deregister_stamp_def deregister_drain_def sweep_begin_def sweep_drain_def
      sweep_stamp_def sweep_remove_def sweep_forget_def forget_loop_notifier Let_def split_beta
      split: if_splits sum.splits option.splits bind_splits)

lemma reg_ok_step:
  assumes "reg_ok (y_reg p)" and "rs_good (y_world p)" and "orders_ok os"
    and "reg_task_step now os t (y_world p) = Some (t', w)"
  shows "reg_ok (reg w)"
proof -
  from assms(4) have "\<not> returned t" by (cases t) auto
  from reg_task_step_good [OF assms(2,3) this, of now] assms(1,4) reg_task_notifier [OF assms(4)] show ?thesis
    by (auto simp: rs_good_def reg_ok_def y_world_def)
qed

lemma proc_step_reg_ok:
  assumes good: "proc_good p" and "proc_step_ok e p = Some p'"
  shows "reg_ok (y_reg p')"
proof -
  from good have ok: "reg_ok (y_reg p)" by (simp add: proc_good_def)
  from assms(2) show ?thesis
proof (cases rule: proc_stepE)
  case (reg k now os t t' w)
  with reg_ok_step [OF ok proc_goodD(4) [OF good] reg(2,5)] show ?thesis by simp
next
  case (sweep now os t t' w)
  with reg_ok_step [OF ok proc_goodD(4) [OF good] sweep(2,4)] show ?thesis by simp
qed (use ok in simp_all)
qed

text \<open>The server's part: who it has to wait for, and that it has waited for them.\<close>

lemma admitted_calls: "admitted [e] = {i. InAdmit i \<in> set (calls_admit e)}"
  by (cases e) auto

lemma boot_admitted: "boot_event f \<Longrightarrow> admitted [f] = {}"
  by (cases f) auto

lemma proc_step_known:
  assumes known: "known_handlers p" and "proc_step_ok e p = Some p'"
  shows "known_handlers p'"
  using assms(2)
proof (cases rule: proc_stepE)
  case (svc f s)
  with step_dom [OF svc(4)] admitted_calls [of f] known show ?thesis by (fastforce simp: known_handlers_def)
next
  case (boot i f s)
  with step_dom [OF boot(2)] boot_admitted [OF boot(1)] known show ?thesis by (fastforce simp: known_handlers_def)
next
  case main
  then have "admissions (y_svc p') = admissions (y_svc p)" by (auto simp: svc_Stop_def)
  with main known show ?thesis by (simp add: known_handlers_def)
qed (use known in \<open>auto simp: known_handlers_def split: if_splits\<close>)

text \<open>A handler that has returned stays so.\<close>

lemma handler_done_cong:
  "admissions (y_svc p') = admissions (y_svc p) \<Longrightarrow> y_tasks p' = y_tasks p \<Longrightarrow> handler_done p' = handler_done p"
proof (rule ext)
  fix h
  assume "admissions (y_svc p') = admissions (y_svc p)" and "y_tasks p' = y_tasks p"
  then show "handler_done p' h = handler_done p h" by (cases h) (simp_all add: handler_done_def)
qed

lemma handler_done_svc:
  assumes st: "svc_step f (y_svc p) = Some s" and "admitted [f] = {}" and h: "handler_done p h"
    and p': "admissions (y_svc p') = admissions s" "y_tasks p' = y_tasks p"
  shows "handler_done p' h"
proof (cases h)
  case (InAdmit i)
  show ?thesis
  proof (cases "admissions (y_svc p) i")
    case None
    with step_dom [OF st] assms(2) have "admissions s i = None" by auto
    with InAdmit p' show ?thesis by (simp add: handler_done_def)
  next
    case (Some r)
    with InAdmit h have "finished (phase r)" by (auto simp: handler_done_def split: phase.splits)
    from step_finished [OF st Some this] InAdmit p' show ?thesis
      by (auto simp: handler_done_def split: phase.splits)
  qed
qed (use h p' in \<open>simp add: handler_done_def\<close>)

lemma proc_step_done:
  assumes h: "handler_done p h" and drained: "y_drained p" and "proc_step_ok e p = Some p'"
  shows "handler_done p' h"
  using assms(3)
proof (cases rule: proc_stepE)
  case (svc f s)
  with drained have "admitted [f] = {}" by (cases f) auto
  with svc show ?thesis by (intro handler_done_svc [OF svc(4) _ h]) auto
next
  case (call k t)
  with drained show ?thesis by simp
next
  case (reg k now os t t' w)
  with h show ?thesis by (cases h) (auto simp: handler_done_def)
next
  case (boot i f s)
  with boot_admitted [OF boot(1)] show ?thesis by (intro handler_done_svc [OF boot(2) _ h]) auto
next
  case main
  then have "admissions (y_svc p') = admissions (y_svc p)" by (auto simp: svc_Stop_def)
  with main(3) h show ?thesis by (simp add: handler_done_cong [of p' p])
next
  case (sweep now os t t' w)
  then have "admissions (y_svc p') = admissions (y_svc p)" "y_tasks p' = y_tasks p" by simp_all
  with h show ?thesis by (simp only: handler_done_cong [of p' p])
qed (use h in \<open>simp_all add: handler_done_cong [of p' p]\<close>)

lemma proc_step_drained:
  assumes good: "proc_good p" and st: "proc_step_ok e p = Some p'" and d: "y_drained p'"
  shows "list_all (handler_done p') (y_handlers p')"
proof (cases "y_drained p")
  case True
  have "list_all (handler_done p') (y_handlers p)"
    using proc_step_done [OF _ True st] proc_goodD(7) [OF good True] by (auto simp: list_all_iff)
  moreover from st have "y_handlers p' = y_handlers p"
  proof (cases rule: proc_stepE)
    case (svc f s)
    with True show ?thesis by (cases f) auto
  qed (use True in simp_all)
  ultimately show ?thesis by simp
next
  case False
  from st show ?thesis
  proof (cases rule: proc_stepE)
    case main
    from main(1) False d have "list_all (handler_done p) (y_handlers p)" "y_svc p' = y_svc p"
      by (auto simp: main_move_def main_listener_error_def main_cancelled_def shutdown_returns_def main_defers_def
          split: if_splits main_phase.splits option.splits)
    with main(3,4) show ?thesis by (simp add: handler_done_cong [of p' p])
  qed (use False d in simp_all)
qed

text \<open>The part of \<^verbatim>\<open>run\<close>.\<close>

lemma stopped_keep: "svc_step f s = Some s' \<Longrightarrow> stopped s \<Longrightarrow> stopped s'"
  by (cases f)
    (auto simp: admit_enter_def ctx_expire_def admit_send_def admit_reject_def read_depth_def
        record_depth_def admit_receive_def admit_done_def boot_ok_def boot_err_def boot_fail_def
        boot_replace_def svc_Start_def svc_Stop_def disp_take_def disp_shutdown_def drain_step_def
        dispatch_check_def dispatch_place_def wait_freed_def wait_timer_def wait_lapsed_def
        wait_shutdown_def svc_Release_def signalCapacity_def send_result_def put_pending_def Let_def
        split: option.splits bind_splits if_splits phase.splits dispatcher.splits sum.splits
          list.splits admission.splits)

lemma proc_step_main:
  assumes good: "proc_good p" and st: "proc_step_ok e p = Some p'"
  shows "(main_result (y_main p') = Some None \<longrightarrow> y_drained p') \<and>
     (main_stopped (y_main p') \<longrightarrow> stopped (y_svc p')) \<and> (main_joined (y_main p') \<longrightarrow> disp (y_svc p') = Exited)"
proof -
  note g = proc_goodD(8-10) [OF good]
  have ext: "stopped (y_svc p) \<Longrightarrow> stopped s" "disp (y_svc p) = Exited \<Longrightarrow> disp s = Exited"
    if "svc_step f (y_svc p) = Some s" for f s
    using stopped_keep [OF that] parked_step(1) [OF that] by simp_all
  from st show ?thesis
  proof (cases rule: proc_stepE)
    case (svc f s)
    with g ext [OF svc(4)] show ?thesis by simp
  next
    case (reg k now os t t' w)
    with g show ?thesis by (simp add: put_world_def Let_def)
  next
    case (sweep now os t t' w)
    with g show ?thesis by (simp add: put_world_def Let_def)
  next
    case (boot i f s)
    with g ext [OF boot(2)] show ?thesis by simp
  next
    case main
    from main(1) g show ?thesis
      by (auto simp: main_move_def main_listener_error_def main_cancelled_def shutdown_returns_def main_defers_def
          svc_Stop_def split: if_splits main_phase.splits option.splits)
  qed (use g in auto)
qed

lemma proc_step_sweeper:
  assumes good: "proc_good p" and st: "proc_step_ok e p = Some p'" and "y_sweeper p' = SwSweeping t"
  shows "\<not> returned t"
  using st
proof (cases rule: proc_stepE)
  case quiet
  with proc_goodD(5) [OF good, of t] assms(3) show ?thesis by auto
qed (use proc_goodD(5) [OF good, of t] assms(3) in \<open>auto split: if_splits\<close>)

lemma proc_step_good: "proc_good p \<Longrightarrow> proc_step_ok e p = Some p' \<Longrightarrow> proc_good p'"
  using proc_step_simulated [OF proc_goodD(3)] svc_reachable_run [OF proc_goodD(1)] proc_step_reg_ok [of p e p']
    proc_step_known [OF proc_goodD(6)] proc_step_drained [of p e p'] proc_step_main [of p e p'] proc_step_sweeper [of p e p']
  unfolding proc_good_def [of p'] by blast

interpretation ps: simulation proc_step_ok proc_good svc_step y_svc
  by unfold_locales (use proc_step_good proc_step_simulated proc_goodD(3) in blast)+

end
