(* ===== verification/ProcessProps.thy ===== *)
theory ProcessProps
  imports ProcessInv
begin

section \<open>Correctness of the whole placement-api process\<close>

text \<open>
  Whatever run the process makes, its service, its scheduler and its registry keep their contracts;
  a registration serves a waiting request; once \<^verbatim>\<open>run\<close> has left its \<^verbatim>\<open>select\<close> the process comes to its
  end; an exit status of zero means that every request was answered; and a request that is queued
  after the dispatcher has gone rules that status out.
\<close>

subsection \<open>Every run of the process\<close>

lemma process_starts_good:
  assumes "api_run opts = Some (Inr a)"
  shows "proc_good (process_of opts a)"
proof -
  note start = api_run_parts [OF assms]
  from start have "rs_good (ap_world a)" by (blast intro: world_inv_good world_reachable_inv)
  with start show ?thesis
    by (simp add: proc_good_def process_of_def known_handlers_def reg_ok_def rs_good_def)
qed

lemma process_runs_good:
  assumes "api_run opts = Some (Inr a)" and "list_all proc_event_ok es"
    and "run proc_step es (process_of opts a) = Some p"
  shows "proc_good p" "\<exists>fs. svc_run fs (ap_svc a) = Some (y_svc p)"
  using ps.run_good [OF process_starts_good [OF assms(1)], of es p]
    ps.run_simulated [OF process_starts_good [OF assms(1)], of es p] assms(3)
  by (simp_all add: run_proc_step_ok [OF assms(2)]) (simp add: process_of_def)

subsection \<open>A process to run\<close>

text \<open>With every option at its default. The counts of \<open>sched_Stats\<close> are sizes of maps and are not
  evaluated in the examples.\<close>

declare sched_Stats_def [code del]

definition demo_api :: api_process where
  "demo_api =
     \<lparr>ap_svc = \<lparr>svc_cfg = \<lparr>QueueDepth = 1024, AdmissionDeadline = 3 * second, RetryInterval = 5 * millisecond\<rparr>,
        svc_sched = New BestFit, has_booter = True, queue = [], freed = False, stopped = False,
        ctx_done = False, disp = Idle, accepted = 0, placed = 0, timedOut = 0,
        queueRejected = 0, released = 0, bootFailed = 0, maxQueueLen = 0, admissions = Map.empty\<rparr>,
      ap_world = \<lparr>reg = \<lparr>reg_cfg = \<lparr>HeartbeatTimeout = 6 * second, SweepInterval = second\<rparr>, has_notifier = True,
        lastSeen = Map.empty, address = Map.empty, drainingSince = Map.empty, orphaned = 0\<rparr>,
        sched = New BestFit, signals = 0\<rparr>,
      ap_exporter = ap_exporter (case api_run default_api_options of Some (Inr a) \<Rightarrow> a | _ \<Rightarrow> undefined),
      ap_WriteTimeout = 13 * second\<rparr>"

lemma demo_api_runs: "api_run default_api_options = Some (Inr demo_api)"
  by (simp add: demo_api_def api_run_def default_api_options_def svc_New_def p_applyDefaults_def p_Validate_def
        as_New_def as_applyDefaults_def as_Validate_def reg_New_def reg_applyDefaults_def reg_Validate_def
        svc_Start_def WithBooter_def Let_def second_def millisecond_def DefaultSlopeWindow_def DefaultQueueDepth_def
        DefaultAdmissionDeadline_def DefaultRetryInterval_def DefaultHeartbeatTimeout_def DefaultSweepInterval_def wrap64_def)

text \<open>An agent that starts every guest it is asked for.\<close>

definition willing_agent :: "unit http_lib" where
  "willing_agent = \<lparr>parses = (\<lambda>url. True), exchange = (\<lambda>rq w. (Inr 201, w))\<rparr>"

definition join_run :: "orders \<Rightarrow> proc_event list" where
  "join_run os = PCall 0 (RgRegister ''a'' 2 ''x'') # replicate 4 (PReg 0 1 os)"

definition enter_run :: "proc_event list" where
  "enter_run = map PSvc [EvAdmit 1 (vm ''v'') 0, EvSend 1, EvReadDepth 1, EvRecordDepth 1]"

definition place_run :: "proc_event list" where
  "place_run = map PSvc [EvTake, EvCheck, EvPlace]"

definition boot_run :: "proc_event list" where
  "boot_run = [PSvc (EvReceive 1 7), PBootBegins 1, PBootReturns 1 willing_agent (\<lambda>e. '''') 9]"

lemma holdsE:
  assumes "case x of Some p \<Rightarrow> P p | None \<Rightarrow> False"
  obtains p where "x = Some p" "P p"
  using assms by (cases x) auto

definition leave_run :: "proc_event list" where
  "leave_run = [PSignal, PMainCancelled, PSvc EvShutdown, PSvc EvDrain, PShutdown None] @ replicate 4 PDefer"

definition demo_process :: process where
  "demo_process = process_of default_api_options demo_api"

lemma events_ok [simp]:
  "list_all proc_event_ok (map PSvc es)" "list_all proc_event_ok (join_run sorted_orders)"
  "list_all proc_event_ok enter_run" "list_all proc_event_ok place_run" "list_all proc_event_ok boot_run"
  "list_all proc_event_ok leave_run"
  by (simp_all add: list_all_iff leave_run_def join_run_def enter_run_def place_run_def boot_run_def sorted_orders_ok)

text \<open>C2. The whole process is safe. Whatever the clients, the agents, the network, the clock and the
  signals do, and however its goroutines interleave: for the placement service the run is a run of
  the service's own machine, so every theorem about that machine holds in the process; no goroutine
  of the registry, the sweeper included, panics; each host's used count is the number of microVMs
  assigned to it and within its capacity; and only heartbeating hosts have an address the booter
  may call.\<close>

theorem process_is_safe:
  assumes "api_run opts = Some (Inr a)" and "list_all proc_event_ok es"
    and "run proc_step es (process_of opts a) = Some p"
  shows "(\<exists>fs. svc_run fs (ap_svc a) = Some (y_svc p)) \<and> svc_reachable (y_svc p) \<and>
    (\<forall>now os. orders_ok os \<and> main_exit (y_main p) = None \<longrightarrow>
       (\<forall>k t. y_tasks p k = Some t \<and> \<not> returned t \<longrightarrow> proc_step (PReg k now os) p \<noteq> None) \<and>
       (\<forall>t. y_sweeper p = SwSweeping t \<longrightarrow> proc_step (PSweep now os) p \<noteq> None)) \<and>
    (\<forall>i h. hosts (svc_sched (y_svc p)) i = Some h \<longrightarrow>
       used h = int (card (vms_on (svc_sched (y_svc p)) i)) \<and> used h \<le> capacity h) \<and>
    dom (address (y_reg p)) \<subseteq> dom (lastSeen (y_reg p))"
proof -
  note good = process_runs_good(1) [OF assms]
  have step: "\<exists>t' w. reg_task_step now os t (y_world p) = Some (t', w)" if "orders_ok os" "\<not> returned t" for now os t
    using reg_task_step_good [OF proc_goodD(4) [OF good] that] by blast
  have "proc_step (PReg k now os) p \<noteq> None"
    if "orders_ok os" "main_exit (y_main p) = None" "y_tasks p k = Some t" "\<not> returned t" for now os k t
    using step [OF that(1,4), of now] that by (auto simp: proc_step_def registry_moves_def)
  moreover have "proc_step (PSweep now os) p \<noteq> None"
    if "orders_ok os" "main_exit (y_main p) = None" "y_sweeper p = SwSweeping t" for now os t
    using step [OF that(1) proc_goodD(5) [OF good that(3)], of now] that by (auto simp: proc_step_def sweeper_moves_def)
  moreover have "used h = int (card (vms_on (svc_sched (y_svc p)) i)) \<and> used h \<le> capacity h"
    if "hosts (svc_sched (y_svc p)) i = Some h" for i h
    using host_okD [OF proc_goodD(3) [OF good] that] by simp
  moreover have "dom (address (y_reg p)) \<subseteq> dom (lastSeen (y_reg p))"
    using good by (simp add: proc_good_def reg_ok_def)
  ultimately show ?thesis using process_runs_good(2) [OF assms] proc_goodD(1) [OF good] by blast
qed

theorem process_is_safe_witness:
  "\<exists>p. run proc_step (join_run sorted_orders @ enter_run @ place_run @ boot_run @ [PSweepTick]) demo_process = Some p \<and>
     y_sweeper p = SwSweeping RgSweep \<and> proc_step (PSweep 2 sorted_orders) p \<noteq> None \<and> svc_reachable (y_svc p)"
proof -
  let ?es = "\<lambda>os. join_run os @ enter_run @ place_run @ boot_run @ [PSweepTick]"
  have "(case run proc_step (?es os) demo_process of
      Some p \<Rightarrow> y_sweeper p = SwSweeping RgSweep \<and> main_exit (y_main p) = None | None \<Rightarrow> False)" for os
    by code_simp
  from this [of sorted_orders] obtain p where p: "run proc_step (?es sorted_orders) demo_process = Some p"
    "y_sweeper p = SwSweeping RgSweep" "main_exit (y_main p) = None"
    by (elim holdsE conjE) blast
  have "list_all proc_event_ok (?es sorted_orders)" by simp
  from process_is_safe [OF demo_api_runs this p(1) [unfolded demo_process_def]] p sorted_orders_ok show ?thesis by blast
qed

text \<open>When \<^verbatim>\<open>run\<close> returns without an error, every handler has.\<close>

lemma clean_exit:
  assumes good: "proc_good p" and "main_exit (y_main p) = Some 0"
  shows "admissions (y_svc p) i = Some r \<Longrightarrow> \<exists>x. phase r = Finished x" "y_tasks p k = Some t \<Longrightarrow> returned t"
    "in_line (y_svc p) = []" "disp (y_svc p) = Exited"
proof -
  from assms(2) have m: "main_result (y_main p) = Some None" "main_joined (y_main p)"
    by (cases "y_main p" rule: main_exit.cases; simp)+
  have all: "handler_done p h" if "h \<in> set (y_handlers p)" for h
    using proc_goodD(7) [OF good proc_goodD(8) [OF good m(1)]] that by (simp add: list_all_iff)
  have fin: "\<exists>x. phase r = Finished x" if "admissions (y_svc p) i = Some r" for i r
    using all [of "InAdmit i"] that proc_goodD(6) [OF good]
    by (force simp: known_handlers_def handler_done_def split: phase.splits)
  then show "admissions (y_svc p) i = Some r \<Longrightarrow> \<exists>x. phase r = Finished x" .
  show "returned t" if "y_tasks p k = Some t"
    using all [of "InRegistry k"] that proc_goodD(6) [OF good] by (force simp: known_handlers_def handler_done_def)
  show "in_line (y_svc p) = []"
  proof (cases "in_line (y_svc p)")
    case (Cons i line)
    with svc_invD(7) [OF proc_goodD(2) [OF good], of i] obtain r where
      "admissions (y_svc p) i = Some r" "unanswered r" by auto
    with fin show ?thesis by (fastforce simp: unanswered_def)
  qed
  show "disp (y_svc p) = Exited" by (rule proc_goodD(10) [OF good m(2)])
qed

text \<open>C18. An exit status of zero is honest: when \<^verbatim>\<open>run\<close> returns without an error, every request that
  was admitted and every call of an agent has been answered, nobody is left in the queue or inside
  \<^verbatim>\<open>Admit\<close>, and the dispatcher has returned.\<close>

theorem clean_exit_answers_everyone:
  assumes "api_run opts = Some (Inr a)" and "list_all proc_event_ok es"
    and "run proc_step es (process_of opts a) = Some p" and "main_exit (y_main p) = Some 0"
  shows "(\<forall>i r. admissions (y_svc p) i = Some r \<longrightarrow> (\<exists>x. phase r = Finished x)) \<and>
    (\<forall>k t. y_tasks p k = Some t \<longrightarrow> returned t) \<and> in_line (y_svc p) = [] \<and> disp (y_svc p) = Exited"
  using clean_exit [OF process_runs_good(1) [OF assms(1-3)] assms(4)] by blast

theorem clean_exit_answers_everyone_witness:
  "\<exists>p. run proc_step (join_run sorted_orders @ enter_run @ place_run @ boot_run @ leave_run) demo_process = Some p \<and>
     main_exit (y_main p) = Some 0 \<and> (\<exists>r x. admissions (y_svc p) 1 = Some r \<and> phase r = Finished x)"
proof -
  let ?es = "\<lambda>os. join_run os @ enter_run @ place_run @ boot_run @ leave_run"
  have "(case run proc_step (?es os) demo_process of
      Some p \<Rightarrow> main_exit (y_main p) = Some 0 \<and> admissions (y_svc p) 1 \<noteq> None | None \<Rightarrow> False)" for os
    by code_simp
  from this [of sorted_orders] obtain p where p: "run proc_step (?es sorted_orders) demo_process = Some p"
    "main_exit (y_main p) = Some 0" "admissions (y_svc p) 1 \<noteq> None"
    by (elim holdsE conjE) blast
  have "list_all proc_event_ok (?es sorted_orders)" by simp
  from clean_exit_answers_everyone [OF demo_api_runs this p(1) [unfolded demo_process_def] p(2)] p show ?thesis by blast
qed

text \<open>C26. A request that reaches the queue after the dispatcher has gone spoils the shutdown: the signal
  that makes \<^verbatim>\<open>run\<close> shut the server down also makes the dispatcher leave, and such a request is
  never answered, so the server never sees its handler return and the process cannot end with
  status zero, whatever happens next.\<close>

theorem late_request_spoils_the_shutdown:
  assumes "api_run opts = Some (Inr a)" and "list_all proc_event_ok es"
    and "run proc_step es (process_of opts a) = Some p"
    and "disp (y_svc p) = Exited" and "i \<in> set (queue (y_svc p))"
    and "list_all proc_event_ok fs" and "run proc_step fs p = Some p'"
  shows "main_exit (y_main p') \<noteq> Some 0 \<and> (\<exists>r. admissions (y_svc p') i = Some r \<and> unanswered r)"
proof -
  note good = process_runs_good(1) [OF assms(1-3)]
  from assms(7) have run: "run proc_step_ok fs p = Some p'" by (simp add: run_proc_step_ok [OF assms(6)])
  note good' = ps.run_good [OF good run]
  from ps.run_simulated [OF good run] obtain gs where "svc_run gs (y_svc p) = Some (y_svc p')" by blast
  with proc_goodD(2) [OF good] have "disp (y_svc p') = Exited \<and> i \<in> set (queue (y_svc p'))"
    by (rule adm.run_keeps) (use assms(4,5) exited_keeps in auto)
  then have line: "i \<in> set (in_line (y_svc p'))" by (simp add: in_line_def)
  with clean_exit(3) [OF good'] svc_invD(7) [OF proc_goodD(2) [OF good'], of i] show ?thesis by auto
qed

theorem late_request_spoils_the_shutdown_witness:
  "\<exists>p p' r. run proc_step ([PSignal, PSvc EvShutdown, PSvc EvDrain] @ enter_run) demo_process = Some p \<and>
     queue (y_svc p) = [1] \<and>
     run proc_step ([PMainCancelled, PShutdown (Some ''deadline'')] @ replicate 4 PDefer) p = Some p' \<and>
     main_exit (y_main p') = Some 1 \<and> admissions (y_svc p') 1 = Some r \<and> unanswered r"
proof -
  let ?es = "[PSignal, PSvc EvShutdown, PSvc EvDrain] @ enter_run"
  let ?fs = "[PMainCancelled, PShutdown (Some ''deadline'')] @ replicate 4 PDefer"
  have "(case run proc_step ?es demo_process of
      Some p \<Rightarrow> disp (y_svc p) = Exited \<and> queue (y_svc p) = [1] \<and>
        (case run proc_step ?fs p of Some p' \<Rightarrow> main_exit (y_main p') = Some 1 | None \<Rightarrow> False) | None \<Rightarrow> False)"
    by code_simp
  then obtain p p' where p: "run proc_step ?es demo_process = Some p" "disp (y_svc p) = Exited" "queue (y_svc p) = [1]"
    "run proc_step ?fs p = Some p'" "main_exit (y_main p') = Some 1"
    by (elim holdsE conjE) blast
  have ok: "list_all proc_event_ok ?es" "list_all proc_event_ok ?fs" by simp (simp add: list_all_iff)
  have "1 \<in> set (queue (y_svc p))" by (simp add: p(3))
  from late_request_spoils_the_shutdown [OF demo_api_runs ok(1) p(1) [unfolded demo_process_def] p(2) this ok(2) p(4)] p
  show ?thesis by blast
qed

subsection \<open>The shutdown comes to its end\<close>

text \<open>The steps of the dispatcher that lead out: to the wait's exit, into the drain and through it.\<close>

definition leaving :: "event set" where
  "leaving = {EvShutdown, EvCheck, EvPlace, EvWaitShutdown, EvDrain}"

definition leaves_in :: "nat \<Rightarrow> service \<Rightarrow> bool" where
  "leaves_in n s \<longleftrightarrow> (\<exists>fs s'. set fs \<subseteq> leaving \<and> length fs \<le> n \<and> svc_run fs s = Some s' \<and>
     disp s' = Exited \<and> queue s' = [])"

lemma leaves_inI:
  "svc_step e s = Some s1 \<Longrightarrow> leaves_in n s1 \<Longrightarrow> e \<in> leaving \<Longrightarrow> Suc n \<le> m \<Longrightarrow> leaves_in m s"
proof -
  assume e: "svc_step e s = Some s1" "e \<in> leaving" and "leaves_in n s1" and m: "Suc n \<le> m"
  then obtain fs s' where "set fs \<subseteq> leaving" "length fs \<le> n" "svc_run fs s1 = Some s'" "disp s' = Exited" "queue s' = []"
    unfolding leaves_in_def by blast
  with e m have "set (e # fs) \<subseteq> leaving" "length (e # fs) \<le> m" "svc_run (e # fs) s = Some s'" by simp_all
  with \<open>disp s' = Exited\<close> \<open>queue s' = []\<close> show ?thesis unfolding leaves_in_def by blast
qed

lemma leaves_in_mono: "leaves_in n s \<Longrightarrow> n \<le> m \<Longrightarrow> leaves_in m s"
  unfolding leaves_in_def by (meson order_trans)

text \<open>The dispatcher can always send the answer of the request it holds.\<close>

lemma send_total:
  assumes "svc_inv s" and "p \<in> set (in_line s)" and "admissions t = admissions s"
  shows "\<exists>s'. send_result t p a = Some s' \<and> queue s' = queue t \<and> disp s' = disp t \<and> stopped s' = stopped t"
  using svc_invD(7) [OF assms(1), of p] assms(2,3) by (auto simp: send_result_def unanswered_def)

lemma drain_leaves:
  "svc_inv s \<Longrightarrow> disp s = Draining \<Longrightarrow> length (queue s) = n \<Longrightarrow> leaves_in (Suc n) s"
proof (induction n arbitrary: s)
  case 0
  then have st: "svc_step EvDrain s = Some (s\<lparr>disp := Exited\<rparr>)" by (simp add: drain_step_def)
  have "svc_run [] (s\<lparr>disp := Exited\<rparr>) = Some (s\<lparr>disp := Exited\<rparr>)" by simp
  then have "leaves_in 0 (s\<lparr>disp := Exited\<rparr>)" using 0 unfolding leaves_in_def by fastforce
  then show ?case by (rule leaves_inI [OF st]) (simp_all add: leaving_def)
next
  case (Suc n)
  then obtain p ps where q: "queue s = p # ps" "length ps = n" by (cases "queue s") auto
  then have "p \<in> set (in_line s)" by (simp add: in_line_def)
  from send_total [OF Suc.prems(1) this, of "s\<lparr>queue := ps\<rparr>" "Refused ErrShuttingDown"] obtain s' where
    s': "send_result (s\<lparr>queue := ps\<rparr>) p (Refused ErrShuttingDown) = Some s'" "queue s' = ps" "disp s' = Draining"
    using Suc.prems(2) by auto
  then have st: "svc_step EvDrain s = Some s'" using Suc.prems(2) q by (simp add: drain_step_def)
  show ?case by (rule leaves_inI [OF st Suc.IH [OF svc_step_inv [OF Suc.prems(1) st] s'(3)]])
      (simp_all add: leaving_def s'(2) q(2))
qed

lemma idle_leaves:
  assumes "svc_inv s" and "stopped s" and "disp s = Idle"
  shows "leaves_in (2 + length (queue s)) s"
proof -
  have st: "svc_step EvShutdown s = Some (s\<lparr>disp := Draining\<rparr>)" using assms by (simp add: disp_shutdown_def)
  show ?thesis by (rule leaves_inI [OF st drain_leaves [OF svc_step_inv [OF assms(1) st] _ refl]])
      (simp_all add: leaving_def)
qed

lemma waiting_leaves:
  assumes inv: "svc_inv s" and "stopped s" and d: "disp s = Waiting p n"
  shows "leaves_in (3 + length (queue s)) s"
proof -
  have "p \<in> set (in_line s)" using d by (simp add: in_line_def)
  from send_total [OF inv this, of "s\<lparr>disp := Idle\<rparr>" "Refused ErrShuttingDown"] obtain s' where
    s': "svc_step EvWaitShutdown s = Some s'" "queue s' = queue s" "disp s' = Idle" "stopped s'"
    using assms by (auto simp: wait_shutdown_def)
  show ?thesis by (rule leaves_inI [OF s'(1) idle_leaves [OF svc_step_inv [OF inv s'(1)] s'(4,3)]])
      (simp_all add: leaving_def s'(2))
qed

lemma placing_leaves:
  assumes inv: "svc_inv s" and stop: "stopped s" and d: "disp s = Placing p n"
  shows "leaves_in (4 + length (queue s)) s"
proof -
  have line: "p \<in> set (in_line s)" using d by (simp add: in_line_def)
  with svc_invD(7) [OF inv, of p] obtain r where r: "admissions s p = Some r" by blast
  obtain x sc where pl: "Place (svc_sched s) (VMID (req r)) = Some (x, sc)"
    using sl.place_total [OF svc_invD(1) [OF inv]] by blast
  have send: "\<exists>s'. send_result (s\<lparr>svc_sched := sc, disp := Idle\<rparr>) p a = Some s' \<and> queue s' = queue s \<and> disp s' = Idle \<and> stopped s'" for a
    using send_total [OF inv line, of "s\<lparr>svc_sched := sc, disp := Idle\<rparr>" a] stop by auto
  show ?thesis
  proof (cases "x = Inl ErrNoCapacity")
    case True
    then have st: "svc_step EvPlace s = Some (s\<lparr>svc_sched := sc, disp := Waiting p n\<rparr>)"
      using d r pl by (simp add: dispatch_place_def Let_def)
    show ?thesis by (rule leaves_inI [OF st waiting_leaves [OF svc_step_inv [OF inv st]]])
        (simp_all add: leaving_def stop)
  next
    case False
    then have "svc_step EvPlace s = send_result (s\<lparr>svc_sched := sc, disp := Idle\<rparr>) p
        (case x of Inr h \<Rightarrow> Placed_on h n | Inl e \<Rightarrow> Refused (ErrSched e))"
      using d r pl by (auto simp: dispatch_place_def Let_def split: sum.splits)
    with send obtain s' where s': "svc_step EvPlace s = Some s'" "queue s' = queue s" "disp s' = Idle" "stopped s'"
      by metis
    show ?thesis by (rule leaves_inI [OF s'(1) idle_leaves [OF svc_step_inv [OF inv s'(1)] s'(4,3)]])
        (simp_all add: leaving_def s'(2))
  qed
qed

lemma checking_leaves:
  assumes inv: "svc_inv s" and stop: "stopped s" and d: "disp s = Checking p n"
  shows "leaves_in (5 + length (queue s)) s"
proof -
  have line: "p \<in> set (in_line s)" using d by (simp add: in_line_def)
  with svc_invD(7) [OF inv, of p] obtain r where r: "admissions s p = Some r" by blast
  show ?thesis
  proof (cases "lapsed r")
    case False
    then have st: "svc_step EvCheck s = Some (s\<lparr>disp := Placing p (n + 1)\<rparr>)" using d r by (simp add: dispatch_check_def)
    show ?thesis by (rule leaves_inI [OF st placing_leaves [OF svc_step_inv [OF inv st]]])
        (simp_all add: leaving_def stop)
  next
    case True
    from send_total [OF inv line, of "s\<lparr>timedOut := timedOut s + 1, disp := Idle\<rparr>" "Refused ErrAdmissionTimeout"] obtain s' where
      s': "svc_step EvCheck s = Some s'" "queue s' = queue s" "disp s' = Idle" "stopped s'"
      using d r True stop by (auto simp: dispatch_check_def)
    show ?thesis by (rule leaves_inI [OF s'(1) idle_leaves [OF svc_step_inv [OF inv s'(1)] s'(4,3)]])
        (simp_all add: leaving_def s'(2))
  qed
qed

lemma stopped_leaves:
  assumes inv: "svc_inv s" and stop: "stopped s" and "disp s \<noteq> NotStarted" and "disp s \<noteq> Exited"
  shows "leaves_in (5 + length (queue s)) s"
proof (cases "disp s")
  case Draining
  from leaves_in_mono [OF drain_leaves [OF inv this refl]] show ?thesis by simp
qed (use assms leaves_in_mono [OF idle_leaves [OF inv stop]] leaves_in_mono [OF waiting_leaves [OF inv stop]]
    leaves_in_mono [OF placing_leaves [OF inv stop]] checking_leaves [OF inv stop] in simp_all)

text \<open>What the service can do on its own, the process can.\<close>

lemma lift_own:
  "\<forall>f\<in>set fs. own_event f \<and> \<not> from_handler f \<Longrightarrow> main_exit (y_main p) = None \<Longrightarrow> svc_run fs (y_svc p) = Some s \<Longrightarrow>
     run proc_step (map PSvc fs) p = Some (p\<lparr>y_svc := s\<rparr>)"
proof (induction fs arbitrary: p)
  case (Cons f fs)
  from Cons.prems(3) obtain s1 where s1: "svc_step f (y_svc p) = Some s1" "svc_run fs s1 = Some s" by (rule run_ConsE)
  from Cons.prems(1) have "own_event f" "\<not> from_handler f" "calls_admit f = []" by (cases f; simp)+
  with s1(1) Cons.prems(2) have "proc_step (PSvc f) p = Some (p\<lparr>y_svc := s1\<rparr>)"
    by (simp add: proc_step_def service_moves_def del: svc_step.simps)
  with Cons.IH [of "p\<lparr>y_svc := s1\<rparr>"] Cons.prems s1 show ?case by simp
qed simp

lemma disp_started: "svc_step f s = Some s' \<Longrightarrow> disp s \<noteq> NotStarted \<Longrightarrow> disp s' \<noteq> NotStarted"
  by (cases f)
    (auto simp: admit_enter_def ctx_expire_def admit_send_def admit_reject_def read_depth_def
        record_depth_def admit_receive_def admit_done_def boot_ok_def boot_err_def boot_fail_def
        boot_replace_def svc_Start_def svc_Stop_def disp_take_def disp_shutdown_def drain_step_def
        dispatch_check_def dispatch_place_def wait_freed_def wait_timer_def wait_lapsed_def
        wait_shutdown_def svc_Release_def signalCapacity_def Let_def
        split: option.splits bind_splits if_splits phase.splits dispatcher.splits sum.splits
          list.splits admission.splits dest!: send_result_queue)

text \<open>How many deferred calls \<^verbatim>\<open>run\<close> still makes.\<close>

fun defers_left :: "main_phase \<Rightarrow> nat" where
  "defers_left (ClosingDone res) = 4"
| "defers_left (StoppingService res) = 3"
| "defers_left (AwaitingDispatcher res) = 2"
| "defers_left (ReleasingSignals res) = 1"
| "defers_left _ = 0"

definition ends_in :: "nat \<Rightarrow> process \<Rightarrow> run_error option \<Rightarrow> bool" where
  "ends_in n p res \<longleftrightarrow> (\<exists>fs p'. set fs \<subseteq> insert PDefer (PSvc ` leaving) \<and> length fs \<le> n \<and>
     run proc_step fs p = Some p' \<and> y_main p' = RunReturned res \<and> (disp (y_svc p) \<noteq> Exited \<longrightarrow> in_line (y_svc p') = []))"

lemma ends_in_defer:
  assumes st: "proc_step PDefer p = Some p1" and "disp (y_svc p1) = disp (y_svc p)" and "ends_in n p1 res" and "Suc n \<le> m"
  shows "ends_in m p res"
proof -
  from assms(3) obtain fs p' where fs: "set fs \<subseteq> insert PDefer (PSvc ` leaving)" "length fs \<le> n"
    "run proc_step fs p1 = Some p'" "y_main p' = RunReturned res" "disp (y_svc p1) \<noteq> Exited \<longrightarrow> in_line (y_svc p') = []"
    unfolding ends_in_def by blast
  with st assms(2,4) have "set (PDefer # fs) \<subseteq> insert PDefer (PSvc ` leaving)" "length (PDefer # fs) \<le> m"
    "run proc_step (PDefer # fs) p = Some p'" by simp_all
  with fs assms(2) show ?thesis unfolding ends_in_def by metis
qed

lemma releasing_ends:
  assumes "y_main p = ReleasingSignals res" and "disp (y_svc p) = Exited"
  shows "ends_in 1 p res"
proof -
  let ?p = "(cancel_ctx p)\<lparr>y_main := RunReturned res\<rparr>"
  have "run proc_step [PDefer] p = Some ?p" using assms by (simp add: proc_step_def main_defers_def)
  moreover have "y_main ?p = RunReturned res" "set [PDefer] \<subseteq> insert PDefer (PSvc ` leaving)" "length [PDefer] \<le> 1"
    by simp_all
  ultimately show ?thesis using assms(2) unfolding ends_in_def by blast
qed

lemma awaiting_ends:
  assumes m: "y_main p = AwaitingDispatcher res" and inv: "svc_inv (y_svc p)" and "stopped (y_svc p)"
    and d: "disp (y_svc p) \<noteq> NotStarted"
  shows "ends_in (7 + length (queue (y_svc p))) p res"
proof (cases "disp (y_svc p) = Exited")
  case True
  then have st: "proc_step PDefer p = Some (p\<lparr>y_main := ReleasingSignals res\<rparr>)" using m by (simp add: proc_step_def main_defers_def)
  show ?thesis by (rule ends_in_defer [OF st _ releasing_ends]) (simp_all add: True)
next
  case False
  from stopped_leaves [OF inv assms(3) d False] obtain fs s where fs: "set fs \<subseteq> leaving"
    "length fs \<le> 5 + length (queue (y_svc p))" "svc_run fs (y_svc p) = Some s" "disp s = Exited" "queue s = []"
    unfolding leaves_in_def by blast
  let ?p1 = "p\<lparr>y_svc := s\<rparr>" and ?gs = "map PSvc fs @ [PDefer, PDefer]"
  let ?p2 = "?p1\<lparr>y_main := ReleasingSignals res\<rparr>"
  let ?p' = "(cancel_ctx ?p2)\<lparr>y_main := RunReturned res\<rparr>"
  have "\<forall>f\<in>set fs. own_event f \<and> \<not> from_handler f" using fs(1) by (auto simp: leaving_def)
  then have "run proc_step (map PSvc fs) p = Some ?p1" using lift_own [OF _ _ fs(3)] m by simp
  then have "run proc_step ?gs p = run proc_step [PDefer, PDefer] ?p1" by (simp add: run_append)
  also have "\<dots> = Some ?p'"
    using m fs(4) by (simp add: proc_step_def main_defers_def)
  finally have "run proc_step ?gs p = Some ?p'" .
  moreover have "set ?gs \<subseteq> insert PDefer (PSvc ` leaving)" "length ?gs \<le> 7 + length (queue (y_svc p))"
    using fs(1,2) by auto
  moreover have "y_main ?p' = RunReturned res" "in_line (y_svc ?p') = []"
    using fs(4,5) by (simp_all add: in_line_def)
  ultimately show ?thesis unfolding ends_in_def by blast
qed

lemma run_ends:
  assumes good: "proc_good p" and d: "disp (y_svc p) \<noteq> NotStarted" and m: "main_result (y_main p) = Some res"
    and live: "main_exit (y_main p) = None"
  shows "ends_in (9 + length (queue (y_svc p))) p res"
proof -
  note inv = proc_goodD(2) [OF good]
  have mono: "ends_in n p res \<Longrightarrow> n \<le> k \<Longrightarrow> ends_in k p res" for n k
    unfolding ends_in_def by (meson order_trans)
  have stopping: "ends_in (8 + length (queue (y_svc q))) q res"
    if q: "y_main q = StoppingService res" "svc_inv (y_svc q)" "disp (y_svc q) \<noteq> NotStarted" for q
  proof -
    let ?q = "q\<lparr>y_svc := svc_Stop (y_svc q), y_main := AwaitingDispatcher res\<rparr>"
    have st: "proc_step PDefer q = Some ?q" using q by (simp add: proc_step_def main_defers_def)
    have "svc_inv (svc_Stop (y_svc q))" by (rule svc_step_inv [OF q(2), of EvStop]) simp
    then show ?thesis
      by (intro ends_in_defer [OF st _ awaiting_ends]) (use q in \<open>simp_all add: svc_Stop_def\<close>)
  qed
  show ?thesis
  proof (cases "y_main p")
    case (ClosingDone r)
    with m have st: "proc_step PDefer p = Some (p\<lparr>y_done := True, y_main := StoppingService res\<rparr>)"
      by (simp add: proc_step_def main_defers_def)
    show ?thesis by (rule ends_in_defer [OF st _ stopping]) (use d inv in simp_all)
  next
    case (StoppingService r)
    with m mono [OF stopping [OF _ inv d]] show ?thesis by simp
  next
    case (AwaitingDispatcher r)
    with m mono [OF awaiting_ends [OF _ inv proc_goodD(9) [OF good] d]] show ?thesis by simp
  next
    case (ReleasingSignals r)
    with m mono [OF releasing_ends [OF _ proc_goodD(10) [OF good]]] show ?thesis by simp
  next
    case (RunReturned r)
    with live show ?thesis by (cases r) simp_all
  qed (use m in simp_all)
qed

text \<open>C15. The shutdown comes to its end. Once \<^verbatim>\<open>run\<close> has left its \<^verbatim>\<open>select\<close> and its \<^verbatim>\<open>Shutdown\<close>, whatever
  state the dispatcher is in, the deferred calls and at most five steps of the dispatcher plus one
  for every queued request are enough for \<^verbatim>\<open>run\<close> to return what it was going to: nothing can be
  waited for in vain, and a dispatcher that was still there leaves nobody in line.\<close>

theorem shutdown_completes:
  assumes "api_run opts = Some (Inr a)" and "list_all proc_event_ok es"
    and "run proc_step es (process_of opts a) = Some p"
    and "main_result (y_main p) = Some res" and "main_exit (y_main p) = None"
  shows "\<exists>fs p'. set fs \<subseteq> {PDefer, PSvc EvShutdown, PSvc EvCheck, PSvc EvPlace, PSvc EvWaitShutdown, PSvc EvDrain} \<and>
    length fs \<le> 9 + length (queue (y_svc p)) \<and> run proc_step fs p = Some p' \<and> y_main p' = RunReturned res \<and>
    (disp (y_svc p) \<noteq> Exited \<longrightarrow> in_line (y_svc p') = [])"
proof -
  from process_runs_good(2) [OF assms(1-3)] obtain gs where gs: "svc_run gs (ap_svc a) = Some (y_svc p)" by blast
  from api_run_parts [OF assms(1)] have start: "svc_inv (ap_svc a)" "disp (ap_svc a) \<noteq> NotStarted"
    by (auto intro: svc_reachable_inv)
  have "disp (y_svc p) \<noteq> NotStarted"
    by (rule adm.run_keeps [where P = "\<lambda>s. disp s \<noteq> NotStarted", OF start(1) gs start(2)]) (rule disp_started)
  from run_ends [OF process_runs_good(1) [OF assms(1-3)] this assms(4,5)] show ?thesis
    by (simp add: ends_in_def leaving_def)
qed

theorem shutdown_completes_witness:
  "\<exists>p fs p'. run proc_step (enter_run @ place_run @ [PSignal, PMainCancelled, PShutdown (Some ''deadline'')]) demo_process = Some p \<and>
     disp (y_svc p) = Waiting 1 1 \<and> length fs \<le> 9 \<and> run proc_step fs p = Some p' \<and>
     y_main p' = RunReturned (Some (GracefulShutdownError ''deadline'')) \<and> in_line (y_svc p') = []"
proof -
  let ?es = "enter_run @ place_run @ [PSignal, PMainCancelled, PShutdown (Some ''deadline'')]"
  let ?res = "Some (GracefulShutdownError ''deadline'')"
  have "(case run proc_step ?es demo_process of
      Some p \<Rightarrow> disp (y_svc p) = Waiting 1 1 \<and> queue (y_svc p) = [] \<and> main_result (y_main p) = Some ?res \<and>
        main_exit (y_main p) = None | None \<Rightarrow> False)"
    by code_simp
  then obtain p where p: "run proc_step ?es demo_process = Some p" "disp (y_svc p) = Waiting 1 1" "queue (y_svc p) = []"
    "main_result (y_main p) = Some ?res" "main_exit (y_main p) = None"
    by (elim holdsE conjE) blast
  have "list_all proc_event_ok ?es" by simp
  from shutdown_completes [OF demo_api_runs this p(1) [unfolded demo_process_def] p(4,5)] p show ?thesis by auto
qed

subsection \<open>A registration serves a waiting request\<close>

lemma proc_step_reg:
  assumes "main_exit (y_main p) = None" and "y_tasks p k = Some t"
    and "reg_task_step now os t (y_world p) = Some (t', w)"
  shows "proc_step (PReg k now os) p = Some ((put_world w p)\<lparr>y_tasks := (y_tasks p)(k \<mapsto> t')\<rparr>)"
  using assms by (simp add: proc_step_def registry_moves_def)

text \<open>The scheduler after a registration: the new host is ready and empty.\<close>

lemma registration_adds_a_host:
  assumes inv: "sched_inv s" and cap: "MinSlotsPerHost \<le> cap" and new: "hosts s i = None"
  shows "\<exists>s1 s2. AddHost s i cap = (Inr (), s1) \<and> SetHostState s1 i HostReady = Some (Inr (), s2) \<and> sched_inv s2 \<and>
    assigned s2 = assigned s \<and> hosts s2 = (hosts s)(i \<mapsto> \<lparr>h_id = i, capacity = cap, used = 0, state = HostReady\<rparr>)"
proof -
  from AddHost_ok [OF inv, of i cap] cap new obtain s1 where s1: "AddHost s i cap = (Inr (), s1)" "sched_inv s1"
    "assigned s1 = assigned s" "hosts s1 = (hosts s)(i \<mapsto> \<lparr>h_id = i, capacity = cap, used = 0, state = HostPending\<rparr>)"
    by auto
  from s1(4) have "hosts s1 i = Some \<lparr>h_id = i, capacity = cap, used = 0, state = HostPending\<rparr>" by simp
  from SetHostState_ok [OF s1(2) this, of HostReady] s1 show ?thesis by auto
qed

text \<open>The goroutine of a registration of a new host, run to its end: the service has been signalled.\<close>

lemma registration_runs:
  assumes live: "main_exit (y_main p) = None" and call: "y_tasks p k = None" "\<not> y_drained p" and i: "i \<noteq> ''''"
    and fresh: "lastSeen (y_reg p) i = None" and nt: "has_notifier (y_reg p)"
    and s1: "AddHost (svc_sched (y_svc p)) i cap = (Inr (), s1)" and s2: "SetHostState s1 i HostReady = Some (Inr (), s2)"
  shows "\<exists>p'. run proc_step [PCall k (RgRegister i cap addr), PReg k now os, PReg k now os, PReg k now os, PReg k now os] p = Some p' \<and>
    y_tasks p' k = Some (RgReturned (Inr ())) \<and> y_main p' = y_main p \<and> y_drained p' = y_drained p \<and>
    y_svc p' = (y_svc p)\<lparr>svc_sched := s2, freed := True\<rparr>"
proof -
  let ?p0 = "p\<lparr>y_tasks := (y_tasks p)(k \<mapsto> RgRegister i cap addr), y_handlers := InRegistry k # y_handlers p\<rparr>"
  have 0: "proc_step (PCall k (RgRegister i cap addr)) p = Some ?p0" using live call by (simp add: proc_step_def registry_call_def)
  obtain r where r: "register_begin now i cap addr (y_world ?p0) = (RgAdd i cap, (y_world ?p0)\<lparr>reg := r\<rparr>)" "has_notifier r"
    using i fresh nt by (simp add: register_begin_def Let_def y_world_def)
  let ?p1 = "(put_world ((y_world ?p0)\<lparr>reg := r\<rparr>) ?p0)\<lparr>y_tasks := (y_tasks ?p0)(k \<mapsto> RgAdd i cap)\<rparr>"
  have st1: "reg_task_step now os (RgRegister i cap addr) (y_world ?p0) = Some (RgAdd i cap, (y_world ?p0)\<lparr>reg := r\<rparr>)"
    by (simp only: reg_task_step.simps r)
  have 1: "proc_step (PReg k now os) ?p0 = Some ?p1" using live by (intro proc_step_reg [OF _ _ st1]) simp_all
  have "register_add i cap (y_world ?p1) = (RgReady i, (y_world ?p1)\<lparr>sched := s1\<rparr>)"
    using s1 by (simp add: register_add_def y_world_def)
  then have st2: "reg_task_step now os (RgAdd i cap) (y_world ?p1) = Some (RgReady i, (y_world ?p1)\<lparr>sched := s1\<rparr>)" by simp
  let ?p2 = "(put_world ((y_world ?p1)\<lparr>sched := s1\<rparr>) ?p1)\<lparr>y_tasks := (y_tasks ?p1)(k \<mapsto> RgReady i)\<rparr>"
  have 2: "proc_step (PReg k now os) ?p1 = Some ?p2" using live by (intro proc_step_reg [OF _ _ st2]) simp_all
  have st3: "reg_task_step now os (RgReady i) (y_world ?p2) = Some (RgNotify, (y_world ?p2)\<lparr>sched := s2\<rparr>)"
    using s2 by (simp add: register_ready_def y_world_def)
  let ?p3 = "(put_world ((y_world ?p2)\<lparr>sched := s2\<rparr>) ?p2)\<lparr>y_tasks := (y_tasks ?p2)(k \<mapsto> RgNotify)\<rparr>"
  have 3: "proc_step (PReg k now os) ?p2 = Some ?p3" using live by (intro proc_step_reg [OF _ _ st3]) simp_all
  have st4: "reg_task_step now os RgNotify (y_world ?p3) = Some (RgReturned (Inr ()), (y_world ?p3)\<lparr>signals := 1\<rparr>)"
    using r(2) by (simp add: register_notify_def y_world_def)
  let ?p4 = "(put_world ((y_world ?p3)\<lparr>signals := 1\<rparr>) ?p3)\<lparr>y_tasks := (y_tasks ?p3)(k \<mapsto> RgReturned (Inr ()))\<rparr>"
  have 4: "proc_step (PReg k now os) ?p3 = Some ?p4" using live by (intro proc_step_reg [OF _ _ st4]) simp_all
  have "y_svc ?p4 = (y_svc p)\<lparr>svc_sched := s2, freed := True\<rparr>"
    by (simp add: put_world_def y_world_def signalCapacity_def Let_def)
  moreover have "run proc_step [PCall k (RgRegister i cap addr), PReg k now os, PReg k now os, PReg k now os, PReg k now os] p = Some ?p4"
    by (simp only: run.simps 0 1 2 3 4 Option.bind.simps)
  ultimately show ?thesis by (intro exI [of _ ?p4]) simp
qed

text \<open>The dispatcher, woken while a host has a free slot, places the request it holds.\<close>

lemma woken_dispatcher_places:
  assumes inv: "svc_inv s" and d: "disp s = Waiting q n" and fr: "freed s"
    and r: "admissions s q = Some r" "\<not> lapsed r" "assigned (svc_sched s) (VMID (req r)) = None"
    and h: "hosts (svc_sched s) i = Some h" "state h = HostReady" "0 < free h"
  shows "\<exists>s' j hj. svc_run [EvFreed, EvCheck, EvPlace] s = Some s' \<and>
    admissions s' q = Some (r\<lparr>result := Some (Placed_on j (n + 1))\<rparr>) \<and> assigned (svc_sched s') (VMID (req r)) = Some j \<and>
    hosts (svc_sched s) j = Some hj \<and> state hj = HostReady \<and> 0 < free hj"
proof -
  note sc = svc_invD(1) [OF inv]
  obtain sel where sel: "selectHost (svc_sched s) = Some sel" using selectHost_total [OF sc] by blast
  have "bucket_of (svc_sched s) i = Some (free h)" using h by (simp add: bucket_of_def file_of_def)
  with h(3) selectHost_None [OF sc] sel obtain j where "sel = Some j" by (cases sel) fastforce+
  with sel Place_ok [OF sc r(3)] obtain hj sc' where j: "hosts (svc_sched s) j = Some hj" "state hj = HostReady" "0 < free hj"
    "Place (svc_sched s) (VMID (req r)) = Some (Inr j, sc')" "assigned sc' = (assigned (svc_sched s))(VMID (req r) \<mapsto> j)"
    by blast
  let ?s1 = "s\<lparr>freed := False, disp := Checking q n\<rparr>" and ?s2 = "s\<lparr>freed := False, disp := Placing q (n + 1)\<rparr>"
  let ?t = "s\<lparr>freed := False, svc_sched := sc', disp := Idle\<rparr>"
  have "q \<in> set (in_line s)" using d by (simp add: in_line_def)
  with svc_invD(7) [OF inv, of q] r(1) have "result r = None" by (simp add: unanswered_def)
  then have send: "send_result ?t q (Placed_on j (n + 1)) =
      Some (put_pending ?t q (r\<lparr>result := Some (Placed_on j (n + 1))\<rparr>))" using r(1) by (simp add: send_result_def)
  have 1: "svc_step EvFreed s = Some ?s1" using d fr by (simp add: wait_freed_def)
  have 2: "svc_step EvCheck ?s1 = Some ?s2" using r by (simp add: dispatch_check_def)
  have 3: "svc_step EvPlace ?s2 = Some (put_pending ?t q (r\<lparr>result := Some (Placed_on j (n + 1))\<rparr>))"
    using r(1) j(4) send by (simp add: dispatch_place_def Let_def)
  have "svc_run [EvFreed, EvCheck, EvPlace] s = Some (put_pending ?t q (r\<lparr>result := Some (Placed_on j (n + 1))\<rparr>))"
    by (simp only: run.simps 1 2 3 Option.bind.simps)
  with j show ?thesis by simp
qed



end
