(* ===== verification/Metrics.thy ===== *)
theory Metrics
  imports Http
begin

section \<open>The metrics (internal/metrics/metrics.go)\<close>

text \<open>
  The collectors \<^verbatim>\<open>New\<close> creates, in the order in which it registers them, and the two series it
  creates in advance. The Prometheus library panics on a name that is registered twice or
  malformed, on buckets that do not increase, and on a number of label values that is not the
  number of labels; the last section shows that \<^verbatim>\<open>New\<close> never runs into that.
\<close>

datatype collector_kind = Counter | Gauge | Histogram "real list"

record collector =
  c_kind :: collector_kind
  c_name :: string
  c_help :: string
  c_labels :: "string list"

definition m_RequestsOffered :: collector where
  "m_RequestsOffered = \<lparr>c_kind = Counter,
     c_name = ''microvm_requests_offered_total'',
     c_help = ''Placement requests received.'',
     c_labels = []\<rparr>"

definition m_RequestsPlaced :: collector where
  "m_RequestsPlaced = \<lparr>c_kind = Counter,
     c_name = ''microvm_requests_placed_total'',
     c_help = ''Placement requests that resulted in a running microVM.'',
     c_labels = []\<rparr>"

definition m_RequestsDropped :: collector where
  "m_RequestsDropped = \<lparr>c_kind = Counter,
     c_name = ''microvm_requests_dropped_total'',
     c_help = ''Placement requests that never got a placement, by reason. Must stay at zero.'',
     c_labels = [''reason'']\<rparr>"

definition m_PlacementLatency :: collector where
  "m_PlacementLatency = \<lparr>c_kind = Histogram [1 / 100000, 5 / 100000, 1 / 10000, 5 / 10000,
       1 / 1000, 5 / 1000, 1 / 100, 5 / 100, 1 / 10, 25 / 100, 5 / 10, 1, 2, 3],
     c_name = ''microvm_placement_latency_seconds'',
     c_help = ''End to end admission latency, including time queued waiting for capacity.'',
     c_labels = []\<rparr>"

definition m_InflightVMs :: collector where
  "m_InflightVMs = \<lparr>c_kind = Gauge,
     c_name = ''microvm_inflight_vms'',
     c_help = ''microVMs currently running across the fleet.'',
     c_labels = []\<rparr>"

definition m_QueueDepth :: collector where
  "m_QueueDepth = \<lparr>c_kind = Gauge,
     c_name = ''microvm_admission_queue_depth'',
     c_help = ''Requests currently waiting in the admission queue.'',
     c_labels = []\<rparr>"

definition m_DesiredVMhostReplicas :: collector where
  "m_DesiredVMhostReplicas = \<lparr>c_kind = Gauge,
     c_name = ''microvm_desired_vmhost_replicas'',
     c_help = ''Desired vmhost pod count. This is the series KEDA scales on.'',
     c_labels = []\<rparr>"

definition m_ReadyVMhosts :: collector where
  "m_ReadyVMhosts = \<lparr>c_kind = Gauge,
     c_name = ''microvm_vmhosts_ready'',
     c_help = ''vmhost pods ready to accept microVMs.'',
     c_labels = []\<rparr>"

definition m_PendingVMhosts :: collector where
  "m_PendingVMhosts = \<lparr>c_kind = Gauge,
     c_name = ''microvm_vmhosts_pending'',
     c_help = ''vmhost pods started but not yet ready.'',
     c_labels = []\<rparr>"

definition m_DrainingVMhosts :: collector where
  "m_DrainingVMhosts = \<lparr>c_kind = Gauge,
     c_name = ''microvm_vmhosts_draining'',
     c_help = ''vmhost pods shutting down, still serving existing microVMs.'',
     c_labels = []\<rparr>"

definition m_IdleVMhosts :: collector where
  "m_IdleVMhosts = \<lparr>c_kind = Gauge,
     c_name = ''microvm_vmhosts_idle'',
     c_help = ''Ready vmhost pods running no microVMs. The quantity to minimise.'',
     c_labels = []\<rparr>"

definition m_UnderfilledVMhosts :: collector where
  "m_UnderfilledVMhosts = \<lparr>c_kind = Gauge,
     c_name = ''microvm_vmhosts_underfilled'',
     c_help = ''Ready vmhost pods running exactly one microVM, below the two-per-pod floor.'',
     c_labels = []\<rparr>"

definition m_SlotsTotal :: collector where
  "m_SlotsTotal = \<lparr>c_kind = Gauge,
     c_name = ''microvm_slots_total'',
     c_help = ''Total microVM slots across ready vmhost pods.'',
     c_labels = []\<rparr>"

definition m_SlotsUsed :: collector where
  "m_SlotsUsed = \<lparr>c_kind = Gauge,
     c_name = ''microvm_slots_used'',
     c_help = ''Occupied microVM slots.'',
     c_labels = []\<rparr>"

definition m_Nodes :: collector where
  "m_Nodes = \<lparr>c_kind = Gauge,
     c_name = ''microvm_nodes'',
     c_help = ''Kubernetes nodes backing the vmhost fleet.'',
     c_labels = []\<rparr>"

definition m_EstimatedCostUSD :: collector where
  "m_EstimatedCostUSD = \<lparr>c_kind = Gauge,
     c_name = ''microvm_estimated_cost_usd'',
     c_help = ''Running cost estimate from node-seconds against a static price table.'',
     c_labels = []\<rparr>"

definition m_VMBootLatency :: collector where
  "m_VMBootLatency = \<lparr>c_kind = Histogram [5 / 1000, 1 / 100, 25 / 1000, 5 / 100, 1 / 10, 25 / 100, 5 / 10, 1, 2, 5, 10],
     c_name = ''microvm_boot_latency_seconds'',
     c_help = ''Time for the hypervisor to make a guest runnable.'',
     c_labels = [''hypervisor'']\<rparr>"

definition m_VMBootFailures :: collector where
  "m_VMBootFailures = \<lparr>c_kind = Counter,
     c_name = ''microvm_boot_failures_total'',
     c_help = ''Guests that failed to start, by hypervisor.'',
     c_labels = [''hypervisor'']\<rparr>"

text \<open>The struct, and what \<^verbatim>\<open>New\<close> does with the one it builds: the registrations, in order, and the
  series created in advance.\<close>

record metrics =
  mt_RequestsOffered :: collector
  mt_RequestsPlaced :: collector
  mt_RequestsDropped :: collector
  mt_PlacementLatency :: collector
  mt_InflightVMs :: collector
  mt_QueueDepth :: collector
  mt_DesiredVMhostReplicas :: collector
  mt_ReadyVMhosts :: collector
  mt_PendingVMhosts :: collector
  mt_DrainingVMhosts :: collector
  mt_IdleVMhosts :: collector
  mt_UnderfilledVMhosts :: collector
  mt_SlotsTotal :: collector
  mt_SlotsUsed :: collector
  mt_Nodes :: collector
  mt_EstimatedCostUSD :: collector
  mt_VMBootLatency :: collector
  mt_VMBootFailures :: collector

definition must_register :: "metrics \<Rightarrow> collector list" where
  "must_register m =
     [mt_RequestsOffered m, mt_RequestsPlaced m, mt_RequestsDropped m, mt_PlacementLatency m,
      mt_InflightVMs m, mt_QueueDepth m, mt_DesiredVMhostReplicas m, mt_ReadyVMhosts m,
      mt_PendingVMhosts m, mt_DrainingVMhosts m, mt_IdleVMhosts m, mt_UnderfilledVMhosts m,
      mt_SlotsTotal m, mt_SlotsUsed m, mt_Nodes m, mt_EstimatedCostUSD m, mt_VMBootLatency m,
      mt_VMBootFailures m]"

definition initial_series :: "metrics \<Rightarrow> (collector \<times> string list) list" where
  "initial_series m =
     [(mt_RequestsDropped m, [DropReasonTimeout]), (mt_RequestsDropped m, [DropReasonQueueFull])]"

definition new_metrics :: metrics where
  "new_metrics =
     \<lparr>mt_RequestsOffered = m_RequestsOffered, mt_RequestsPlaced = m_RequestsPlaced,
      mt_RequestsDropped = m_RequestsDropped, mt_PlacementLatency = m_PlacementLatency,
      mt_InflightVMs = m_InflightVMs, mt_QueueDepth = m_QueueDepth,
      mt_DesiredVMhostReplicas = m_DesiredVMhostReplicas, mt_ReadyVMhosts = m_ReadyVMhosts,
      mt_PendingVMhosts = m_PendingVMhosts, mt_DrainingVMhosts = m_DrainingVMhosts,
      mt_IdleVMhosts = m_IdleVMhosts, mt_UnderfilledVMhosts = m_UnderfilledVMhosts,
      mt_SlotsTotal = m_SlotsTotal, mt_SlotsUsed = m_SlotsUsed, mt_Nodes = m_Nodes,
      mt_EstimatedCostUSD = m_EstimatedCostUSD, mt_VMBootLatency = m_VMBootLatency,
      mt_VMBootFailures = m_VMBootFailures\<rparr>"

text \<open>\<^verbatim>\<open>New\<close>: what it registers, what it creates in advance, and what it returns.\<close>

definition metrics_New :: "collector list \<times> (collector \<times> string list) list \<times> metrics" where
  "metrics_New = (must_register new_metrics, initial_series new_metrics, new_metrics)"

subsection \<open>Registration does not panic\<close>

definition name_char :: "char \<Rightarrow> bool" where
  "name_char c \<longleftrightarrow> c \<ge> CHR ''a'' \<and> c \<le> CHR ''z'' \<or> c = CHR ''_''"

fun buckets_of :: "collector_kind \<Rightarrow> real list" where
  "buckets_of (Histogram bs) = bs"
| "buckets_of _ = []"

lemmas collector_defs = m_RequestsOffered_def m_RequestsPlaced_def m_RequestsDropped_def
  m_PlacementLatency_def m_InflightVMs_def m_QueueDepth_def m_DesiredVMhostReplicas_def
  m_ReadyVMhosts_def m_PendingVMhosts_def m_DrainingVMhosts_def m_IdleVMhosts_def
  m_UnderfilledVMhosts_def m_SlotsTotal_def m_SlotsUsed_def m_Nodes_def m_EstimatedCostUSD_def
  m_VMBootLatency_def m_VMBootFailures_def new_metrics_def

lemma names_distinct: "distinct (map c_name (must_register new_metrics))"
  by (simp add: must_register_def collector_defs)

lemma names_well_formed: "\<forall>c \<in> set (must_register new_metrics). c_name c \<noteq> '''' \<and> list_all name_char (c_name c)"
  by (simp add: must_register_def collector_defs name_char_def less_eq_char_def)

lemma buckets_increase: "\<forall>c \<in> set (must_register new_metrics). sorted_wrt (<) (buckets_of (c_kind c))"
  by (simp add: must_register_def collector_defs)

lemma series_have_their_labels:
  "\<forall>(c, vs) \<in> set (initial_series new_metrics).
     c \<in> set (must_register new_metrics) \<and> length vs = length (c_labels c)"
  by (simp add: initial_series_def must_register_def new_metrics_def m_RequestsDropped_def)

end
