(* ===== verification/Spec2Isabelle.thy ===== *)
theory Spec2Isabelle
  imports RegistryStepsProps AutoscaleProps PlacementProps HttpProps HypervisorProps LoadGenProps FleetProps
    SimMainProps QemuProps AgentApiProps ProcessProps HarnessProps Metrics
begin

text \<open>
  A verification library for the microVM placement system: a placement API (\<^verbatim>\<open>cmd/placement-api\<close>)
  that assigns microVMs to hosts, the agent that runs on every host (\<^verbatim>\<open>cmd/vmhostd\<close>), a load
  generator (\<^verbatim>\<open>cmd/loadgen\<close>) and a simulation of the whole (\<^verbatim>\<open>internal/sim\<close>).

  \<^bold>\<open>The program and its parts.\<close>
  A request to create a microVM enters the HTTP API (\<^verbatim>\<open>internal/httpapi/server.go\<close>), which validates
  it and calls \<^verbatim>\<open>Admit\<close> of the placement service (\<^verbatim>\<open>internal/placement/service.go\<close>). The request waits
  in a bounded queue; one dispatcher goroutine asks the scheduler (\<^verbatim>\<open>internal/scheduler\<close>) for a slot
  and, when there is none, waits for capacity to be signalled or for the deadline. The booter
  (\<^verbatim>\<open>cmd/placement-api/booter.go\<close>) then starts the guest through the agent of the chosen host, whose
  hypervisor (\<^verbatim>\<open>internal/hypervisor\<close>) runs it until its lifetime ends; the agent reports the end and
  the slot is released. Agents register and heartbeat with the registry (\<^verbatim>\<open>internal/registry\<close>), which
  adds, drains and removes hosts in the scheduler. The exporter (\<^verbatim>\<open>cmd/placement-api/main.go\<close>) samples
  the service and the scheduler and lets the autoscaler (\<^verbatim>\<open>internal/autoscale\<close>) choose the number of
  hosts. The simulation drives the same scheduler, service and autoscaler with generated load
  (\<^verbatim>\<open>internal/loadgen\<close>) on a simulated fleet.

  \<^bold>\<open>Theories.\<close> A theory \<open>X\<close> holds the model of a component, in the order of its file; \<open>XInv\<close> its
  invariants; \<open>XProps\<close> what is proved of it. Definitions keep the names of the code's functions, with
  a prefix where a name is taken or occurs in two packages.
  \<^item> \<open>Prelude\<close>: identifiers, Go slices and maps, 64-bit durations and saturating time differences.
    \<open>Machine\<close>: runs of an event machine; the locales \<open>machine\<close> (an invariant of every step) and
    \<open>budget_machine\<close> (a budget every step spends) and \<open>simulation\<close> (every run of a machine is a run of
    a smaller one, for the part the abstraction keeps); tallies of maps.
  \<^item> \<open>Bag\<close>, \<open>HostSet\<close>: \<^verbatim>\<open>internal/scheduler/hostset.go\<close>. The locale \<open>bag\<close> is the interface of a set of
    identifiers; the slice with its index is interpreted as one, and refines a finite set.
  \<^item> \<open>Scheduler\<close>, \<open>SchedulerInv\<close>, \<open>SchedulerSpec\<close>, \<open>SchedulerProps\<close>, \<open>SchedulerStats\<close>: \<^verbatim>\<open>scheduler.go\<close>. Every
    exported operation is a function of the state under the mutex. \<open>SchedulerSpec\<close> is the contract
    without buckets and counters, which the operations refine; the rest is what clients rely on: no
    slot is given twice, a placement follows the policy and fails only when nothing is free, only
    ready hosts gain microVMs, and the statistics are exact.
  \<^item> \<open>Allocator\<close>: the scheduler as the placement service sees it, a locale with its laws.
    \<open>Placement\<close>, \<open>PlacementInv\<close>, \<open>PlacementCount\<close>, \<open>PlacementProps\<close>: \<^verbatim>\<open>service.go\<close> as an event machine with
    one definition per piece of code between two points where goroutines can interleave: \<^verbatim>\<open>Admit\<close>, the
    dispatcher, \<^verbatim>\<open>drain\<close>, \<^verbatim>\<open>bootWithRetry\<close>, \<^verbatim>\<open>Release\<close>, the signals and the counters. Proved: order and
    bound of the queue, exact counters, no slot held by a failed request, bounded boots, answers to
    lapsed requests and at shutdown.
  \<^item> \<open>Registry\<close>, \<open>RegistryInv\<close>, \<open>RegistryProps\<close>: \<^verbatim>\<open>registry.go\<close> with each operation run to its end, the
    effect of the sweep in closed form, and its bounds. \<open>RegistrySteps\<close>, \<open>RegistryStepsProps\<close>: the same
    operations as goroutines, one step per critical section and per call of the scheduler: alone
    each is its operation; interleaved they keep the scheduler's contract, never panic and always
    return; but a drain can overtake a registration.
  \<^item> \<open>Autoscale\<close>, \<open>AutoscaleProps\<close>: \<^verbatim>\<open>autoscale.go\<close>: the least-squares slope, the demand, the clamp and the
    stabilisation window; sufficiency and minimality of the replica count, and the hold.
  \<^item> \<open>Http\<close>, \<open>HttpProps\<close>: \<^verbatim>\<open>server.go\<close>: validation, and every handler as a function of the decoded
    request and of the answer of the component behind it. The locale \<open>placer\<close> is what the handler
    needs of \<^verbatim>\<open>Admit\<close>; the admission machine is shown to keep it.
  \<^item> \<open>Hypervisor\<close>, \<open>HypervisorProps\<close>: \<^verbatim>\<open>hypervisor.go\<close>, \<^verbatim>\<open>fake.go\<close>. \<open>Qemu\<close>, \<open>QemuProps\<close>: \<^verbatim>\<open>qemu.go\<close>: the
    configuration, the command line, the scan for the marker, and \<^verbatim>\<open>Start\<close>, \<^verbatim>\<open>Stop\<close>, \<^verbatim>\<open>reap\<close>, \<^verbatim>\<open>Close\<close> as an
    event machine over guests and processes. No guest outlives its slot when callers keep to two
    rules; two runs show what happens when they do not.
  \<^item> \<open>Agent\<close>, \<open>AgentProps\<close>: \<^verbatim>\<open>cmd/vmhostd/main.go\<close>: identity, options, start and shutdown, the handlers, the
    expiry watcher, the client of the placement API. The locale \<open>guest_host\<close> is the contract of a
    hypervisor; both hypervisors are interpreted. \<open>AgentRun\<close>, \<open>AgentRunProps\<close>, \<open>AgentApiProps\<close>: the whole
    process as one machine, from its first step to its exit status, over either hypervisor: what an
    exit leaves behind; and the process before the routes and the registry of the API, of whose
    operations its run is a \<open>simulation\<close>: a departed agent stays out, expired microVMs free their slots.
  \<^item> \<open>Api\<close>, \<open>ApiProps\<close>: \<^verbatim>\<open>cmd/placement-api\<close>: booter, exporter, routes, start of the process. Here the parts
    are composed: agent, routes, handlers and registry (a beating agent serves; it joins and leaves
    the fleet); validation, booter and agent (the guest is started as requested); service and
    exporter (every arrival is counted once).
  \<^item> \<open>Process\<close>, \<open>ProcessInv\<close>, \<open>ProcessProps\<close>: the whole \<^verbatim>\<open>placement-api\<close> process as one machine: the callers
    and the dispatcher of the service, the goroutines of the registry, the sweeper, the booter and
    the exporter over one scheduler, and \<^verbatim>\<open>run\<close> with its signal, its shutdown and its exit status. The
    locale \<open>simulation\<close> is interpreted on it: the process is a run of the service's machine and of the
    registry's invariant at once. Proved: safety of the composition, what an exit status of zero
    says and what prevents it, the end of the shutdown, and that new capacity reaches who waits.
  \<^item> \<open>Metrics\<close>: \<^verbatim>\<open>internal/metrics/metrics.go\<close>: every collector, and that their registration cannot panic.
  \<^item> \<open>LoadGen\<close>, \<open>LoadGenProps\<close>: \<^verbatim>\<open>internal/loadgen\<close>: envelopes (locale \<open>envelopes\<close>) and the thinning process.
    \<open>Harness\<close>, \<open>HarnessProps\<close>: \<^verbatim>\<open>cmd/loadgen/main.go\<close>: one goroutine per request over atomics; the report
    is exact and a run issues exactly the arrivals of its process.
  \<^item> \<open>Fleet\<close>, \<open>FleetProps\<close>: \<^verbatim>\<open>internal/sim/fleet.go\<close>. \<open>Sim\<close>, \<open>SimProps\<close>, \<open>SimRun\<close>, \<open>SimRunProps\<close>:
    \<^verbatim>\<open>internal/sim/sim.go\<close>: one sampling step, and the runner with all its goroutines, whose summary is
    accurate. \<open>SimMain\<close>, \<open>SimMainProps\<close>: the goroutine that runs it, from the first draw to the result: it
    offers exactly the arrivals of the envelope and the seed.

  \<^bold>\<open>Conventions.\<close>
  \<^item> A panic is \<^term>\<open>None\<close>; an error of the code is the left side of a sum or \<open>Some e\<close>.
  \<^item> Go iterates maps in any order: an operation that ranges over a map takes the order as an
    argument, and the theorems hold for every order that visits each key once (\<open>iterates\<close>,
    \<open>orders_ok\<close>, \<open>pod_orders_ok\<close>).
  \<^item> Goroutines are event machines: a state, a partial step function, and \<open>run\<close> over a list of
    events. What the environment decides (instants, answers of the network and the operating
    system, random draws, cancellation) comes with the event. Every theorem about a machine is over
    all event lists, hence over all interleavings at the granularity of the steps.
  \<^item> Counters the code keeps in 64-bit atomics are \<^typ>\<open>64 word\<close>; durations are integers with the
    wrap-around of their products written out (\<open>wrap64\<close>). Lengths, capacities and slot counts, which
    memory bounds far below \<open>2 ^ 63\<close>, are \<^typ>\<open>int\<close>.
  \<^item> Floating-point numbers are real numbers, without rounding; the conversion of a float that is out
    of the range of an integer type is the parameter \<open>oob\<close>.
  \<^item> Loops are structural recursion over the list they range over. The thinning loops, which may
    draw for ever, and the offering loop are \<open>partial_function (option)\<close>; that they return is proved
    for every random source whose clock advances far enough. No fuel is used.
  \<^item> Library code is a parameter where its result matters: JSON decoding, \<^verbatim>\<open>net/http\<close> transport and URL
    parsing, \<^verbatim>\<open>math/rand\<close>, \<^verbatim>\<open>net.SplitHostPort\<close>, the file system and \<^verbatim>\<open>PATH\<close>, processes.

  \<^bold>\<open>Not modelled.\<close> Flag parsing (the default options are), the listening sockets and the connections
  (a graceful shutdown is the wait for the handlers), logging, progress printing and the writing of
  the results file, waiting in real time (instants are events), the default branches of the String
  methods (integers that name no state or policy), the Prometheus library, and the deployment files, dashboards, scripts and tests of the repository: they
  are input, output, or code of other projects, and hold no state of the components above.
\<close>

end
